(* ===== verification/Prelude.thy ===== *)
theory Prelude
  imports Main "HOL-Library.List_Lexorder" "HOL-Library.Sublist" "HOL-Library.Word"
begin

text \<open>
  Shared vocabulary of the development: JavaScript strings, thrown errors as values,
  the ordered key-value partitions of a LevelDB root, and the list facts the components use.

  A JavaScript string is the list of its UTF-16 code units, so that \<open><\<close> and \<open>=\<close> on
  \<^typ>\<open>nat list\<close> (lexicographic, from List_Lexorder) are the operators \<open><\<close> and \<open>===\<close> of the
  language on strings.  Property names of objects are HOL strings; an object with optional
  properties is a record with \<^typ>\<open>'a option\<close> fields or a map.
\<close>

section \<open>Strings\<close>

type_synonym jstr = "nat list"

definition js :: "string \<Rightarrow> jstr" where
  "js s = map of_char s"

lemma js_simps [simp]:
  "js [] = []"
  "js (c # s) = of_char c # js s"
  by (simp_all add: js_def)

lemma js_append: "js (s @ t) = js s @ js t"
  by (simp add: js_def)

lemma js_inject [simp]: "js s = js t \<longleftrightarrow> s = t"
  by (auto simp: js_def inj_map_eq_map inj_def)

text \<open>Code units the sources compare against.\<close>

abbreviation slash :: nat where "slash \<equiv> 47"
abbreviation colon :: nat where "colon \<equiv> 58"
abbreviation hash_sign :: nat where "hash_sign \<equiv> 35"

text \<open>\<open>String.prototype.split\<close> with a one-unit separator, \<open>indexOf\<close>, \<open>startsWith\<close>.\<close>

fun split_on :: "nat \<Rightarrow> jstr \<Rightarrow> jstr list" where
  "split_on d [] = [[]]"
| "split_on d (c # s) =
     (if c = d then [] # split_on d s
      else (case split_on d s of [] \<Rightarrow> [[c]] | x # xs \<Rightarrow> (c # x) # xs))"

fun join_with :: "nat \<Rightarrow> jstr list \<Rightarrow> jstr" where
  "join_with d [] = []"
| "join_with d [x] = x"
| "join_with d (x # y # xs) = x @ d # join_with d (y # xs)"

abbreviation startsWith :: "jstr \<Rightarrow> jstr \<Rightarrow> bool" where
  "startsWith s p \<equiv> prefix p s"

lemma split_on_not_Nil [simp]: "split_on d s \<noteq> []"
  by (induction s) (auto split: list.splits)

lemma join_split [simp]: "join_with d (split_on d s) = s"
proof (induction s)
  case (Cons c s)
  then show ?case
    by (cases "split_on d s"; cases "tl (split_on d s)") (auto split: list.splits)
qed simp

lemma split_on_no_sep: "d \<notin> set s \<Longrightarrow> split_on d s = [s]"
  by (induction s) auto

lemma split_on_append_sep:
  "d \<notin> set s \<Longrightarrow> split_on d (s @ d # t) = s # split_on d t"
  by (induction s) auto

lemma split_on_pieces: "x \<in> set (split_on d s) \<Longrightarrow> d \<notin> set x"
  by (induction s arbitrary: x) (auto split: if_splits list.splits)

section \<open>Optional properties\<close>

text \<open>A test guarded by the presence of a property, \<open>x !== undefined && P(x)\<close>.\<close>

primrec if_some :: "('a \<Rightarrow> bool) \<Rightarrow> 'a option \<Rightarrow> bool" where
  "if_some P None = False"
| "if_some P (Some a) = P a"

lemma if_some_iff: "if_some P x \<longleftrightarrow> (\<exists>a. x = Some a \<and> P a)"
  by (cases x) auto

section \<open>Thrown errors\<close>

text \<open>
  A thrown error is a value: a \<open>DwnError\<close> with its code (an entry of the enumeration
  \<open>DwnErrorCode\<close>, by name) and its prose, or any other error with its message.
  A fallible operation returns \<^typ>\<open>'e + 'a\<close>, \<^const>\<open>Inl\<close> the error.
\<close>

datatype js_error = DwnError (err_code: string) (err_prose: jstr) | OtherError jstr

type_synonym 'a result = "js_error + 'a"

definition bind :: "'e + 'a \<Rightarrow> ('a \<Rightarrow> 'e + 'b) \<Rightarrow> 'e + 'b" where
  "bind r f = (case r of Inl e \<Rightarrow> Inl e | Inr a \<Rightarrow> f a)"

lemma bind_simps [simp]: "bind (Inl e) f = Inl e" "bind (Inr a) f = f a"
  by (simp_all add: bind_def)

lemma bind_eq_Inr: "bind r f = Inr b \<longleftrightarrow> (\<exists>a. r = Inr a \<and> f a = Inr b)"
  by (cases r) auto

lemma bind_eq_Inl: "bind r f = Inl e \<longleftrightarrow> r = Inl e \<or> (\<exists>a. r = Inr a \<and> f a = Inl e)"
  by (cases r) auto

definition guard :: "bool \<Rightarrow> js_error \<Rightarrow> unit result" where
  "guard b e = (if b then Inr () else Inl e)"

lemma guard_simps [simp]:
  "guard True e = Inr ()" "guard False e = Inl e"
  "guard b e = Inr u \<longleftrightarrow> b" "guard b e = Inl e' \<longleftrightarrow> \<not> b \<and> e' = e"
  by (auto simp: guard_def)

section \<open>Ordered key-value partitions\<close>

text \<open>
  A LevelDB sublevel: the pairs in ascending key order.  An iterator over the partition
  visits the list in order; \<open>get\<close> is \<^const>\<open>map_of\<close>.
\<close>

type_synonym ('k, 'v) kv = "('k \<times> 'v) list"

fun kv_put :: "'k::linorder \<Rightarrow> 'v \<Rightarrow> ('k, 'v) kv \<Rightarrow> ('k, 'v) kv" where
  "kv_put k v [] = [(k, v)]"
| "kv_put k v ((k', v') # r) =
     (if k < k' then (k, v) # (k', v') # r
      else if k = k' then (k, v) # r
      else (k', v') # kv_put k v r)"

definition kv_del :: "'k \<Rightarrow> ('k, 'v) kv \<Rightarrow> ('k, 'v) kv" where
  "kv_del k m = filter (\<lambda>p. fst p \<noteq> k) m"

definition kv_ok :: "('k::linorder, 'v) kv \<Rightarrow> bool" where
  "kv_ok m = sorted_wrt (<) (map fst m)"

text \<open>The interface of a partition, and its facts once for every client.\<close>

locale partition =
  fixes put :: "'k::linorder \<Rightarrow> 'v \<Rightarrow> 'm \<Rightarrow> 'm"
    and del :: "'k \<Rightarrow> 'm \<Rightarrow> 'm"
    and rows :: "'m \<Rightarrow> ('k \<times> 'v) list"
    and invar :: "'m \<Rightarrow> bool"
  assumes get_put: "map_of (rows (put k v m)) = (map_of (rows m))(k \<mapsto> v)"
    and get_del: "map_of (rows (del k m)) = (map_of (rows m))(k := None)"
    and invar_put: "invar m \<Longrightarrow> invar (put k v m)"
    and invar_del: "invar m \<Longrightarrow> invar (del k m)"
    and invar_sorted: "invar m \<Longrightarrow> sorted_wrt (<) (map fst (rows m))"
begin

lemma keys_put: "fst ` set (rows (put k v m)) = insert k (fst ` set (rows m))"
proof -
  have "dom (map_of (rows (put k v m))) = insert k (dom (map_of (rows m)))"
    by (simp add: get_put)
  then show ?thesis by (simp add: dom_map_of_conv_image_fst)
qed

lemma keys_del: "fst ` set (rows (del k m)) = fst ` set (rows m) - {k}"
proof -
  have "dom (map_of (rows (del k m))) = dom (map_of (rows m)) - {k}"
    by (auto simp: get_del split: if_splits)
  then show ?thesis by (simp add: dom_map_of_conv_image_fst)
qed

lemma distinct_keys: "invar m \<Longrightarrow> distinct (map fst (rows m))"
  by (metis invar_sorted strict_sorted_iff)

lemma in_rows_iff: "invar m \<Longrightarrow> (k, v) \<in> set (rows m) \<longleftrightarrow> map_of (rows m) k = Some v"
  by (simp add: distinct_keys)

lemma put_put_get: "map_of (rows (put k v (put k w m))) = map_of (rows (put k v m))"
  by (simp add: get_put)

lemma del_put_get: "map_of (rows (del k (put k v m))) = map_of (rows (del k m))"
  by (simp add: get_put get_del)

end

lemma map_of_kv_put: "map_of (kv_put k v m) = (map_of m)(k \<mapsto> v)"
  by (induction m) auto

lemma map_of_kv_del: "map_of (kv_del k m) = (map_of m)(k := None)"
  by (induction m) (auto simp: kv_del_def)

lemma fst_kv_put: "fst ` set (kv_put k v m) = insert k (fst ` set m)"
  by (metis dom_map_of_conv_image_fst map_of_kv_put dom_fun_upd option.simps(3))

lemma kv_ok_put: "kv_ok m \<Longrightarrow> kv_ok (kv_put k v m)"
proof (induction m)
  case (Cons p m)
  then show ?case
    using fst_kv_put [of k v m] by (cases p) (fastforce simp: kv_ok_def)
qed (simp add: kv_ok_def)

lemma kv_ok_del: "kv_ok m \<Longrightarrow> kv_ok (kv_del k m)"
  unfolding kv_ok_def kv_del_def
  by (induction m) (auto simp: sorted_wrt_append)

interpretation level: partition kv_put kv_del "\<lambda>m. m" kv_ok
  by unfold_locales
    (simp_all add: map_of_kv_put map_of_kv_del kv_ok_put kv_ok_del, simp add: kv_ok_def)

lemma kv_ok_Nil [simp]: "kv_ok []"
  by (simp add: kv_ok_def)

text \<open>A key above every key present goes to the end: the log is append-only in key order.\<close>

lemma kv_put_last: "\<forall>k' \<in> fst ` set m. k' < k \<Longrightarrow> kv_put k v m = m @ [(k, v)]"
  by (induction m) auto

lemma kv_put_existing:
  "kv_ok m \<Longrightarrow> map_of m k = Some w \<Longrightarrow>
   kv_put k v m = map (\<lambda>p. if fst p = k then (k, v) else p) m"
proof (induction m)
  case (Cons p m)
  obtain k' v' where p: "p = (k', v')" by (cases p)
  show ?case
  proof (cases "k = k'")
    case True
    with Cons.prems p have "k \<notin> fst ` set m" by (auto simp: kv_ok_def)
    then have "map (\<lambda>p. if fst p = k then (k, v) else p) m = m"
      by (induction m) auto
    with True p show ?thesis by simp
  next
    case False
    with Cons.prems p have m: "map_of m k = Some w" and ok: "kv_ok m" by (auto simp: kv_ok_def)
    then have "k \<in> fst ` set m" by (metis domI dom_map_of_conv_image_fst)
    with Cons.prems p have "k' < k" by (auto simp: kv_ok_def)
    with False p Cons.IH [OF ok m] show ?thesis by auto
  qed
qed simp

lemma kv_ok_Cons: "kv_ok ((k, v) # m) \<longleftrightarrow> (\<forall>q \<in> fst ` set m. k < q) \<and> kv_ok m"
  by (auto simp: kv_ok_def)

lemma kv_put_same: "kv_ok m \<Longrightarrow> map_of m k = Some v \<Longrightarrow> kv_put k v m = m"
proof (induction m)
  case (Cons p m)
  obtain k' v' where p: "p = (k', v')" by (cases p)
  show ?case
  proof (cases "k = k'")
    case False
    with Cons.prems p have "map_of m k = Some v" by simp
    moreover from this have "k' < k"
      using Cons.prems(1) p by (auto simp: kv_ok_Cons dest!: map_of_SomeD)
    ultimately show ?thesis using Cons p by (auto simp: kv_ok_Cons)
  qed (use Cons p in auto)
qed simp

lemma kv_put_del: "kv_ok m \<Longrightarrow> kv_put k v (kv_del k m) = kv_put k v m"
proof (induction m)
  case (Cons p m)
  obtain k' v' where p: "p = (k', v')" by (cases p)
  have low: "kv_put k v n = (k, v) # n" if "\<forall>q \<in> fst ` set n. k < q" for n
    using that by (cases n) auto
  have id: "kv_del k m = m" if "\<forall>q \<in> fst ` set m. k < q"
    using that by (auto simp: kv_del_def filter_id_conv)
  show ?case
  proof (cases "k < k'")
    case True
    then have "\<forall>q \<in> fst ` set m. k < q" using Cons.prems p by (auto simp: kv_ok_Cons intro: less_trans)
    with True p id show ?thesis by (auto simp: kv_del_def)
  next
    case False
    show ?thesis
    proof (cases "k = k'")
      case True
      then have "\<forall>q \<in> fst ` set m. k < q" using Cons.prems p by (simp add: kv_ok_Cons)
      with True p id low [of m] show ?thesis by (simp add: kv_del_def)
    next
      case neq: False
      with False p Cons show ?thesis by (auto simp: kv_del_def kv_ok_Cons)
    qed
  qed
qed (simp add: kv_del_def)

end
