(* ===== verification/Index_Filter.thy ===== *)
theory Index_Filter
  imports Prelude
begin

text \<open>
  Index values and filters (\<open>src/packages/dwn-sdk-js/src/utils/filter.ts\<close>, \<open>types/query-types.ts\<close>):
  how the message store, the event log and subscriptions decide whether the index values of a
  message satisfy a filter, and how a filter is reduced to the one property that is scanned.
\<close>

section \<open>Index values and filter values\<close>

datatype scalar = SStr jstr | SNum int | SBool bool

datatype key_value = One scalar | Many "scalar list"

type_synonym key_values = "(string \<times> key_value) list"

text \<open>A filter object: the properties of a range filter and of a subtree filter.\<close>

record filter_object =
  f_gt :: "scalar option"
  f_gte :: "scalar option"
  f_lt :: "scalar option"
  f_lte :: "scalar option"
  f_subtree :: "scalar option"

datatype filter_value = EqualF scalar | OneOfF "scalar list" | ObjF filter_object

text \<open>The properties of a filter in the order of \<open>Object.keys\<close>.\<close>

type_synonym filter_t = "(string \<times> filter_value) list"

record range_criterion =
  rc_from :: "jstr option"
  rc_to :: "jstr option"

definition no_object :: filter_object where
  "no_object = \<lparr>f_gt = None, f_gte = None, f_lt = None, f_lte = None, f_subtree = None\<rparr>"

definition object_keys :: "filter_object \<Rightarrow> nat" where
  "object_keys obj = length (filter (\<lambda>v. v \<noteq> None)
     [f_gt obj, f_gte obj, f_lt obj, f_lte obj, f_subtree obj])"

section \<open>The relational operators\<close>

text \<open>
  Two strings compare by code units; any other pair is converted to numbers, where a string
  that is not a number becomes \<open>NaN\<close> and makes every comparison false.  The conversion of a
  string is the argument \<open>tn\<close>: \<^const>\<open>None\<close> is \<open>NaN\<close>.
\<close>

fun to_number :: "(jstr \<Rightarrow> int option) \<Rightarrow> scalar \<Rightarrow> int option" where
  "to_number tn (SStr s) = tn s"
| "to_number tn (SNum n) = Some n"
| "to_number tn (SBool b) = Some (if b then 1 else 0)"

definition num_rel :: "(int \<Rightarrow> int \<Rightarrow> bool) \<Rightarrow> int option \<Rightarrow> int option \<Rightarrow> bool" where
  "num_rel r x y = (case (x, y) of (Some a, Some b) \<Rightarrow> r a b | _ \<Rightarrow> False)"

fun js_less :: "(jstr \<Rightarrow> int option) \<Rightarrow> scalar \<Rightarrow> scalar \<Rightarrow> bool" where
  "js_less tn (SStr a) (SStr b) = (a < b)"
| "js_less tn a b = num_rel (<) (to_number tn a) (to_number tn b)"

fun js_leq :: "(jstr \<Rightarrow> int option) \<Rightarrow> scalar \<Rightarrow> scalar \<Rightarrow> bool" where
  "js_leq tn (SStr a) (SStr b) = (a \<le> b)"
| "js_leq tn a b = num_rel (\<le>) (to_number tn a) (to_number tn b)"

section \<open>Matching\<close>

definition isSubtreeFilter :: "filter_value \<Rightarrow> bool" where
  "isSubtreeFilter f = (case f of
     ObjF obj \<Rightarrow> object_keys obj = 1 \<and> (case f_subtree obj of Some (SStr _) \<Rightarrow> True | _ \<Rightarrow> False)
   | _ \<Rightarrow> False)"

definition subtree_property :: "string \<Rightarrow> bool" where
  "subtree_property p = (p \<in> {''contextId'', ''modulePath''})"

definition assertValidSubtreeFilters :: "filter_t list \<Rightarrow> unit result" where
  "assertValidSubtreeFilters filters =
     (if \<exists>f \<in> set filters. \<exists>(p, v) \<in> set f. isSubtreeFilter v \<and> \<not> subtree_property p
      then Inl (OtherError (js ''TypeError'')) else Inr ())"

definition isRangeFilter :: "filter_value \<Rightarrow> bool" where
  "isRangeFilter f = (case f of
     ObjF obj \<Rightarrow> f_gt obj \<noteq> None \<or> f_lt obj \<noteq> None \<or> f_lte obj \<noteq> None \<or> f_gte obj \<noteq> None
   | _ \<Rightarrow> False)"

definition isEqualFilter :: "filter_value \<Rightarrow> bool" where
  "isEqualFilter f = (case f of EqualF _ \<Rightarrow> True | _ \<Rightarrow> False)"

definition isOneOfFilter :: "filter_value \<Rightarrow> bool" where
  "isOneOfFilter f = (case f of OneOfF _ \<Rightarrow> True | _ \<Rightarrow> False)"

definition matchesSubtree :: "jstr \<Rightarrow> scalar \<Rightarrow> bool" where
  "matchesSubtree subtree candidate = (case candidate of
     SStr s \<Rightarrow> s = subtree \<or> startsWith s (subtree @ [slash])
   | _ \<Rightarrow> False)"

definition matchRange :: "(jstr \<Rightarrow> int option) \<Rightarrow> filter_object \<Rightarrow> scalar \<Rightarrow> bool" where
  "matchRange tn r v =
     (if if_some (\<lambda>b. js_leq tn b v) (f_lt r) then False
      else if if_some (\<lambda>b. js_less tn b v) (f_lte r) then False
      else if if_some (\<lambda>b. js_leq tn v b) (f_gt r) then False
      else if if_some (\<lambda>b. js_less tn v b) (f_gte r) then False
      else True)"

fun matchOneOf :: "scalar list \<Rightarrow> scalar \<Rightarrow> bool" where
  "matchOneOf [] v = False"
| "matchOneOf (f # fs) v = (if v = f then True else matchOneOf fs v)"

definition matchIndexValue :: "(jstr \<Rightarrow> int option) \<Rightarrow> filter_value \<Rightarrow> scalar \<Rightarrow> bool" where
  "matchIndexValue tn f v = (case f of
     OneOfF fs \<Rightarrow> matchOneOf fs v
   | ObjF obj \<Rightarrow>
       (if isSubtreeFilter f
           \<and> if_some (\<lambda>x. case x of SStr s \<Rightarrow> matchesSubtree s v | _ \<Rightarrow> False) (f_subtree obj) then True
        else if isRangeFilter f \<and> matchRange tn obj v then True
        else False)
   | EqualF e \<Rightarrow> v = e)"

fun matchAnyIndexValue :: "(jstr \<Rightarrow> int option) \<Rightarrow> filter_value \<Rightarrow> scalar list \<Rightarrow> bool" where
  "matchAnyIndexValue tn f [] = False"
| "matchAnyIndexValue tn f (v # vs) =
     (if matchIndexValue tn f v then True else matchAnyIndexValue tn f vs)"

fun matchFilter :: "(jstr \<Rightarrow> int option) \<Rightarrow> key_values \<Rightarrow> filter_t \<Rightarrow> bool" where
  "matchFilter tn kvs [] = True"
| "matchFilter tn kvs ((p, f) # rest) =
     (case map_of kvs p of
        None \<Rightarrow> False
      | Some (Many vs) \<Rightarrow> (if matchAnyIndexValue tn f vs then matchFilter tn kvs rest else False)
      | Some (One v) \<Rightarrow> (if matchIndexValue tn f v then matchFilter tn kvs rest else False))"

fun any_filter :: "(jstr \<Rightarrow> int option) \<Rightarrow> key_values \<Rightarrow> filter_t list \<Rightarrow> bool" where
  "any_filter tn kvs [] = False"
| "any_filter tn kvs (f # fs) = (if matchFilter tn kvs f then True else any_filter tn kvs fs)"

definition matchAnyFilter :: "(jstr \<Rightarrow> int option) \<Rightarrow> key_values \<Rightarrow> filter_t list \<Rightarrow> bool" where
  "matchAnyFilter tn kvs orFilters = (if orFilters = [] then True else any_filter tn kvs orFilters)"

section \<open>Building filters\<close>

definition convertRangeCriterion :: "range_criterion \<Rightarrow> filter_object option" where
  "convertRangeCriterion c = (case (rc_from c, rc_to c) of
     (Some a, Some b) \<Rightarrow> Some (no_object\<lparr>f_gte := Some (SStr a), f_lt := Some (SStr b)\<rparr>)
   | (None, Some b) \<Rightarrow> Some (no_object\<lparr>f_lt := Some (SStr b)\<rparr>)
   | (Some a, None) \<Rightarrow> Some (no_object\<lparr>f_gte := Some (SStr a)\<rparr>)
   | (None, None) \<Rightarrow> None)"

definition constructPrefixFilterAsRangeFilter :: "jstr \<Rightarrow> filter_object" where
  "constructPrefixFilterAsRangeFilter p =
     no_object\<lparr>f_gte := Some (SStr p), f_lt := Some (SStr (p @ [65535]))\<rparr>"

text \<open>
  \<open>FilterSelector.reduceFilter\<close>: the properties it extracts, in the order it tests them;
  \<open>author\<close> is taken out of the remaining properties but never selected itself.
\<close>

definition reduce_order :: "string list" where
  "reduce_order = [''recordId'', ''attester'', ''parentId'', ''recipient'', ''contextId'',
                   ''modulePath'', ''schema'', ''module'']"

fun first_defined :: "filter_t \<Rightarrow> string list \<Rightarrow> filter_t option" where
  "first_defined f [] = None"
| "first_defined f (p # ps) = (case map_of f p of
     Some v \<Rightarrow> Some [(p, v)]
   | None \<Rightarrow> first_defined f ps)"

definition reduceFilter :: "filter_t \<Rightarrow> filter_t" where
  "reduceFilter f =
     (if length f \<le> 1 then f
      else (case first_defined f reduce_order of
              Some g \<Rightarrow> g
            | None \<Rightarrow> (case filter (\<lambda>(p, v). p \<notin> set reduce_order \<and> p \<noteq> ''author'') f of
                         (p, v) # _ \<Rightarrow> [(p, v)]
                       | [] \<Rightarrow> [])))"

section \<open>Facts\<close>

named_theorems filter_simps

lemma matchOneOf_iff [filter_simps]: "matchOneOf fs v \<longleftrightarrow> v \<in> set fs"
  by (induction fs) auto

lemma matchAnyIndexValue_iff [filter_simps]:
  "matchAnyIndexValue tn f vs \<longleftrightarrow> (\<exists>v \<in> set vs. matchIndexValue tn f v)"
  by (induction vs) auto

text \<open>One property of a filter, as a predicate on the index values.\<close>

definition match_property :: "(jstr \<Rightarrow> int option) \<Rightarrow> key_values \<Rightarrow> string \<Rightarrow> filter_value \<Rightarrow> bool" where
  "match_property tn kvs p f = (case map_of kvs p of
     None \<Rightarrow> False
   | Some (Many vs) \<Rightarrow> (\<exists>v \<in> set vs. matchIndexValue tn f v)
   | Some (One v) \<Rightarrow> matchIndexValue tn f v)"

lemma matchFilter_iff [filter_simps]:
  "matchFilter tn kvs f \<longleftrightarrow> (\<forall>(p, v) \<in> set f. match_property tn kvs p v)"
  by (induction tn kvs f rule: matchFilter.induct)
    (auto simp: match_property_def filter_simps split: option.splits key_value.splits)

lemma matchAnyFilter_iff [filter_simps]:
  "matchAnyFilter tn kvs fs \<longleftrightarrow> fs = [] \<or> (\<exists>f \<in> set fs. matchFilter tn kvs f)"
proof -
  have "any_filter tn kvs fs \<longleftrightarrow> (\<exists>f \<in> set fs. matchFilter tn kvs f)"
    by (induction fs) auto
  then show ?thesis by (auto simp: matchAnyFilter_def)
qed

lemma first_defined_Some:
  "first_defined f ps = Some g \<Longrightarrow> \<exists>p v. p \<in> set ps \<and> map_of f p = Some v \<and> g = [(p, v)]"
  by (induction ps) (auto split: option.splits)

lemma first_defined_not_Nil [simp]: "first_defined f ps \<noteq> Some []"
  by (induction ps) (auto split: option.splits)

lemma first_defined_None: "first_defined f ps = None \<longleftrightarrow> (\<forall>p \<in> set ps. map_of f p = None)"
  by (induction ps) (auto split: option.splits)

lemma reduceFilter_subset: "set (reduceFilter f) \<subseteq> set f"
proof -
  have in_filter: "x \<in> set f" if "filter P f = x # xs" for P x xs
    using arg_cong [OF that, of set] by auto
  show ?thesis
    by (auto simp: reduceFilter_def split: option.splits list.splits
        dest!: first_defined_Some map_of_SomeD intro: in_filter [OF sym])
qed

lemma reduceFilter_nonempty:
  assumes "distinct (map fst f)" and "f \<noteq> []"
  shows "reduceFilter f \<noteq> []"
proof (cases "length f \<le> 1 \<or> first_defined f reduce_order \<noteq> None")
  case True
  with assms show ?thesis
    by (auto simp: reduceFilter_def split: option.splits)
next
  case False
  then have none: "\<forall>p \<in> set reduce_order. p \<notin> fst ` set f"
    by (auto simp: first_defined_None map_of_eq_None_iff)
  from False obtain x y r where "f = x # y # r"
    by (cases f; cases "tl f") auto
  with assms(1) have "\<exists>p \<in> set (map fst f). p \<noteq> ''author''"
    by (cases "fst x = ''author''") auto
  then have "filter (\<lambda>(p, v). p \<notin> set reduce_order \<and> p \<noteq> ''author'') f \<noteq> []"
    using none by (force simp: filter_empty_conv)
  with False show ?thesis
    by (auto simp: reduceFilter_def split: option.splits list.splits)
qed

lemma list_less_append_iff [simp]: "(xs @ ys < xs @ zs) \<longleftrightarrow> (ys < zs)" for xs :: jstr
  by (induction xs) auto

lemma list_le_append_iff [simp]: "(xs @ ys \<le> xs @ zs) \<longleftrightarrow> (ys \<le> zs)" for xs :: jstr
  by (induction xs) auto

lemma between_prefix:
  fixes p s :: jstr
  assumes "p \<le> s" and "s < p @ [m]"
  shows "prefix p s"
  using assms
proof (induction p arbitrary: s)
  case (Cons a p)
  then show ?case by (cases s) auto
qed simp

lemma match_prefix_object:
  "matchRange tn (constructPrefixFilterAsRangeFilter p) (SStr s) \<longleftrightarrow> p \<le> s \<and> s < p @ [65535]"
  by (auto simp: matchRange_def constructPrefixFilterAsRangeFilter_def no_object_def)

lemma prefix_split_on:
  "prefix (split_on d s) (split_on d t) \<longleftrightarrow> t = s \<or> prefix (s @ [d]) t"
proof (induction s arbitrary: t)
  case Nil
  show ?case
  proof (cases t)
    case (Cons c t')
    then show ?thesis by (cases "split_on d t'") auto
  qed simp
next
  case (Cons c s)
  show ?case
  proof (cases t)
    case Nil
    then show ?thesis by (auto split: list.splits)
  next
    case t: (Cons c' t')
    obtain x xs y ys where "split_on d s = x # xs" and "split_on d t' = y # ys"
      by (meson neq_Nil_conv split_on_not_Nil)
    with Cons.IH [of t'] t show ?thesis by auto
  qed
qed

section \<open>Properties\<close>

text \<open>C34: A subtree filter on a path selects exactly the paths whose '/'-separated segments
  extend the segments of the selected path: no sibling that merely shares a string prefix
  (such as \<open>a/bc\<close> for \<open>a/b\<close>) is ever selected.\<close>

theorem matchesSubtree_segments:
  "matchesSubtree subtree (SStr s) \<longleftrightarrow> prefix (split_on slash subtree) (split_on slash s)"
  by (auto simp: matchesSubtree_def prefix_split_on)

text \<open>The range filter built for a tag prefix matches a string exactly when the string
  starts with the prefix and the code unit that follows the prefix, if any, is below the
  sentinel \<open>0xFFFF\<close>.\<close>

theorem prefix_filter_exact:
  "matchIndexValue tn (ObjF (constructPrefixFilterAsRangeFilter p)) (SStr s) \<longleftrightarrow>
   (\<exists>t. s = p @ t \<and> (t = [] \<or> hd t < 65535))"
proof -
  let ?f = "ObjF (constructPrefixFilterAsRangeFilter p)"
  have "\<not> isSubtreeFilter ?f" and "isRangeFilter ?f"
    by (simp_all add: isSubtreeFilter_def isRangeFilter_def object_keys_def
        constructPrefixFilterAsRangeFilter_def no_object_def)
  then have "matchIndexValue tn ?f (SStr s) \<longleftrightarrow> p \<le> s \<and> s < p @ [65535]"
    by (simp add: matchIndexValue_def match_prefix_object)
  also have "\<dots> \<longleftrightarrow> (\<exists>t. s = p @ t \<and> (t = [] \<or> hd t < 65535))" (is "?l \<longleftrightarrow> ?r")
  proof
    assume ?l
    then obtain t where "s = p @ t" by (metis between_prefix prefix_def)
    with \<open>?l\<close> show ?r by (cases t) auto
  next
    assume ?r
    then obtain t where "s = p @ t" and "t = [] \<or> hd t < 65535" by blast
    then show ?l
      using list_le_append_iff [of p "[]" t] list_less_append_iff [of p "[]" "[65535]"]
      by (cases t) auto
  qed
  finally show ?thesis .
qed

text \<open>Scanning only the property selected by \<open>reduceFilter\<close> loses no result: the reduced
  filter of a non-empty filter is a non-empty part of it, and every set of index values that
  matches the filter matches the reduced one.\<close>

theorem reduceFilter_complete:
  assumes "distinct (map fst f)" and "f \<noteq> []" and "matchFilter tn kvs f"
  shows "reduceFilter f \<noteq> [] \<and> set (reduceFilter f) \<subseteq> set f \<and> matchFilter tn kvs (reduceFilter f)"
  using assms reduceFilter_nonempty reduceFilter_subset [of f] by (auto simp: filter_simps)

theorem reduceFilter_complete_witness:
  "reduceFilter [(''author'', EqualF (SNum 1)), (''module'', EqualF (SNum 2))]
     = [(''module'', EqualF (SNum 2))]
   \<and> matchFilter (\<lambda>_. None) [(''author'', One (SNum 1)), (''module'', One (SNum 2))]
       (reduceFilter [(''author'', EqualF (SNum 1)), (''module'', EqualF (SNum 2))])"
  using reduceFilter_complete [of "[(''author'', EqualF (SNum 1)), (''module'', EqualF (SNum 2))]"
      "\<lambda>_. None" "[(''author'', One (SNum 1)), (''module'', One (SNum 2))]"]
  by (simp add: reduceFilter_def reduce_order_def matchIndexValue_def)

text \<open>A date criterion becomes a half-open interval: a string value matches when it is at
  or after \<open>from\<close> and strictly before \<open>to\<close>; the end point itself is excluded.\<close>

theorem convertRangeCriterion_half_open:
  "(case convertRangeCriterion c of
      None \<Rightarrow> rc_from c = None \<and> rc_to c = None
    | Some r \<Rightarrow> matchIndexValue tn (ObjF r) (SStr s) \<longleftrightarrow>
        (case rc_from c of None \<Rightarrow> True | Some a \<Rightarrow> a \<le> s)
      \<and> (case rc_to c of None \<Rightarrow> True | Some b \<Rightarrow> s < b))"
  by (cases "rc_from c"; cases "rc_to c")
    (auto simp: convertRangeCriterion_def matchIndexValue_def isSubtreeFilter_def isRangeFilter_def
      object_keys_def no_object_def matchRange_def)

end
