(* ===== verification/Module_Types.thy ===== *)
theory Module_Types
  imports Index_Filter
begin

text \<open>
  Module definitions (\<open>types/modules-types.ts\<close> of \<open>src/packages/dwn-sdk-js/src\<close>): the types of a module,
  the tree of rule sets of its record paths, and the action rules, sizes and tag schemas of a path.

  The keys of a rule set that start with \<open>$\<close> are fields; its other keys are its children.  A key
  agreement is the text of its public key.  Definitions reach the code through a JSON schema, so that
  every field has its declared type.  The key agreement of a definition as a whole and the delivery hints of a path,
  which no modelled operation reads, are left out.
\<close>

section \<open>Rules\<close>

datatype module_actor = Anyone | Author | Recipient

datatype module_action =
  ActCoDelete | ActCoPrune | ActCoUpdate | ActCreate | ActDelete | ActPrune | ActRead | ActSquash | ActUpdate

primrec actor_name :: "module_actor \<Rightarrow> jstr" where
  "actor_name Anyone = js ''anyone''"
| "actor_name Author = js ''author''"
| "actor_name Recipient = js ''recipient''"

primrec action_name :: "module_action \<Rightarrow> jstr" where
  "action_name ActCoDelete = js ''co-delete''"
| "action_name ActCoPrune = js ''co-prune''"
| "action_name ActCoUpdate = js ''co-update''"
| "action_name ActCreate = js ''create''"
| "action_name ActDelete = js ''delete''"
| "action_name ActPrune = js ''prune''"
| "action_name ActRead = js ''read''"
| "action_name ActSquash = js ''squash''"
| "action_name ActUpdate = js ''update''"

record action_rule =
  ar_who :: "jstr option"
  ar_role :: "jstr option"
  ar_of :: "jstr option"
  ar_can :: "jstr list"

record size_definition =
  sz_min :: "int option"
  sz_max :: "int option"

section \<open>Tag schemas\<close>

record tag_bounds =
  tb_minimum :: "int option"
  tb_maximum :: "int option"
  tb_exclusiveMinimum :: "int option"
  tb_exclusiveMaximum :: "int option"
  tb_minLength :: "int option"
  tb_maxLength :: "int option"
  tb_minItems :: "int option"
  tb_maxItems :: "int option"
  tb_uniqueItems :: "bool option"
  tb_minContains :: "int option"
  tb_maxContains :: "int option"

datatype tag_schema = TagSchema
  (tag_type: "string option")
  (tag_enum: "scalar list option")
  (tag_bounds_of: tag_bounds)
  (tag_items: "tag_schema option")
  (tag_contains: "tag_schema option")

text \<open>The properties of a \<open>$tags\<close> object other than its two directives are the tag schemas.\<close>

record tags_definition =
  td_requiredTags :: "string list option"
  td_allowUndefinedTags :: "bool option"
  td_properties :: "(string \<times> tag_schema) list"

section \<open>Definitions\<close>

datatype rule_set = RuleSet
  (rs_keyAgreement: "jstr option")
  (rs_actions: "action_rule list option")
  (rs_role: bool)
  (rs_ref: "jstr option")
  (rs_size: "size_definition option")
  (rs_tags: "tags_definition option")
  (rs_recordLimit: "int option")
  (rs_immutable: bool)
  (rs_squash: bool)
  (rs_children: "(jstr \<times> rule_set) list")

definition no_rules :: rule_set where
  "no_rules = RuleSet None None False None None None None False False []"

record module_type =
  mt_schema :: "jstr option"
  mt_dataFormats :: "jstr list option"
  mt_encryptionRequired :: bool

record module_definition =
  md_module :: jstr
  md_published :: bool
  md_uses :: "(jstr \<times> jstr) list option"
  md_types :: "(jstr \<times> module_type) list"
  md_structure :: "(jstr \<times> rule_set) list"

end
