(* ===== verification/Message.thy ===== *)
theory Message
  imports Module_Types "HOL-Library.Product_Lexorder"
begin

text \<open>
  DWN messages and their order (\<open>core/message.ts\<close>, \<open>types/message-types.ts\<close>,
  \<open>types/records-types.ts\<close>, \<open>utils/jws.ts\<close>, \<open>utils/string.ts\<close> of
  \<open>src/packages/dwn-sdk-js/src\<close>): the messages the Records interface stores, who signed and
  authored them, the (timestamp, CID) order that decides which message is newest, and the
  canonical form of permission grant invocations.

  A JWS is represented decoded: the JSON schema of a general JWS requires one signature entry
  at least, so the first entry is a field; the payload is \<^const>\<open>None\<close> when it does not decode
  to a plain object.  Content identifiers are computed by \<open>multiformats\<close> and \<open>dag-cbor\<close>, which
  are not part of the repository: they are the functions of a record \<open>cids\<close>.
\<close>

section \<open>Data model\<close>

datatype dwn_interface = Messages | Modules | Records

datatype dwn_method = Configure | Count | Delete | Query | Read | Subscribe | Write

record signature_payload =
  sp_descriptorCid :: jstr
  sp_permissionGrantId :: "jstr option"
  sp_permissionGrantIds :: "jstr list option"
  sp_delegatedGrantId :: "jstr option"
  sp_moduleRole :: "jstr option"
  sp_recordId :: "jstr option"
  sp_contextId :: "jstr option"
  sp_attestationCid :: "jstr option"
  sp_encryptionCid :: "jstr option"

record jws =
  jws_payload :: "signature_payload option"
  jws_kid :: jstr
  jws_more_kids :: "jstr list"

type_synonym tags = "(string \<times> key_value) list"

record write_descriptor =
  wd_module :: jstr
  wd_modulePath :: jstr
  wd_recipient :: "jstr option"
  wd_schema :: "jstr option"
  wd_tags :: "tags option"
  wd_parentId :: "jstr option"
  wd_dataCid :: jstr
  wd_dataSize :: int
  wd_dateCreated :: jstr
  wd_messageTimestamp :: jstr
  wd_published :: "bool option"
  wd_datePublished :: "jstr option"
  wd_dataFormat :: jstr
  wd_permissionGrantId :: "jstr option"
  wd_squash :: "bool option"

record delete_descriptor =
  dd_messageTimestamp :: jstr
  dd_recordId :: jstr
  dd_permissionGrantId :: "jstr option"
  dd_prune :: bool

record other_descriptor =
  od_interface :: dwn_interface
  od_method :: dwn_method
  od_messageTimestamp :: jstr
  od_module :: "jstr option"
  od_filterModule :: "jstr option"
  od_filterContextId :: "jstr option"
  od_permissionGrantId :: "jstr option"
  od_permissionGrantIds :: "jstr list option"
  od_definition :: "module_definition option"

record delegated_grant =
  dg_signature :: jws
  dg_recordId :: jstr
  dg_contextId :: jstr
  dg_descriptor :: write_descriptor
  dg_encodedData :: jstr

record authorization =
  a_signature :: jws
  a_authorDelegatedGrant :: "delegated_grant option"
  a_ownerSignature :: "jws option"
  a_ownerDelegatedGrant :: "delegated_grant option"

record key_encryption =
  ke_algorithm :: jstr
  ke_kty :: jstr
  ke_crv :: jstr
  ke_derivationScheme :: jstr
  ke_module :: "jstr option"
  ke_rolePath :: "jstr option"
  ke_keyId :: "jstr option"

record dwn_encryption =
  en_initializationVector :: jstr
  en_keyEncryption :: "key_encryption list"

record write_message =
  w_authorization :: authorization
  w_recordId :: jstr
  w_contextId :: jstr
  w_descriptor :: write_descriptor
  w_attestation :: "jws option"
  w_encryption :: "dwn_encryption option"
  w_encodedData :: "jstr option"

record delete_message =
  d_authorization :: authorization
  d_descriptor :: delete_descriptor

record other_message =
  o_authorization :: "authorization option"
  o_descriptor :: other_descriptor

datatype message = WriteMsg write_message | DeleteMsg delete_message | OtherMsg other_message

datatype descriptor = WriteD write_descriptor | DeleteD delete_descriptor | OtherD other_descriptor

record cids =
  cid_message :: "message \<Rightarrow> jstr"
  cid_descriptor :: "descriptor \<Rightarrow> jstr"
  cid_entry :: "write_descriptor \<Rightarrow> jstr \<Rightarrow> jstr"
  cid_grant :: "delegated_grant \<Rightarrow> jstr"
  cid_jws :: "jws \<Rightarrow> jstr"
  cid_encryption :: "dwn_encryption \<Rightarrow> jstr"
  cid_bytes :: "8 word list \<Rightarrow> jstr"

primrec descriptor_of :: "message \<Rightarrow> descriptor" where
  "descriptor_of (WriteMsg w) = WriteD (w_descriptor w)"
| "descriptor_of (DeleteMsg d) = DeleteD (d_descriptor d)"
| "descriptor_of (OtherMsg x) = OtherD (o_descriptor x)"

primrec d_interface :: "descriptor \<Rightarrow> dwn_interface" where
  "d_interface (WriteD _) = Records"
| "d_interface (DeleteD _) = Records"
| "d_interface (OtherD x) = od_interface x"

primrec d_method :: "descriptor \<Rightarrow> dwn_method" where
  "d_method (WriteD _) = Write"
| "d_method (DeleteD _) = Delete"
| "d_method (OtherD x) = od_method x"

primrec d_messageTimestamp :: "descriptor \<Rightarrow> jstr" where
  "d_messageTimestamp (WriteD w) = wd_messageTimestamp w"
| "d_messageTimestamp (DeleteD d) = dd_messageTimestamp d"
| "d_messageTimestamp (OtherD x) = od_messageTimestamp x"

abbreviation messageTimestamp :: "message \<Rightarrow> jstr" where
  "messageTimestamp m \<equiv> d_messageTimestamp (descriptor_of m)"

primrec authorization_of :: "message \<Rightarrow> authorization option" where
  "authorization_of (WriteMsg w) = Some (w_authorization w)"
| "authorization_of (DeleteMsg d) = Some (d_authorization d)"
| "authorization_of (OtherMsg x) = o_authorization x"

section \<open>Signers and authors\<close>

text \<open>\<open>Jws.extractDid\<close>: the part of a key id before the first \<open>#\<close>.\<close>

definition extractDid :: "jstr \<Rightarrow> jstr" where
  "extractDid kid = hd (split_on hash_sign kid)"

definition getSignerDid :: "jws \<Rightarrow> jstr" where
  "getSignerDid j = extractDid (jws_kid j)"

definition getSigner :: "message \<Rightarrow> jstr option" where
  "getSigner m = (case authorization_of m of
     None \<Rightarrow> None
   | Some a \<Rightarrow> Some (getSignerDid (a_signature a)))"

definition author_of_authorization :: "authorization \<Rightarrow> jstr" where
  "author_of_authorization a = (case a_authorDelegatedGrant a of
     None \<Rightarrow> getSignerDid (a_signature a)
   | Some g \<Rightarrow> getSignerDid (dg_signature g))"

definition getAuthor :: "message \<Rightarrow> jstr option" where
  "getAuthor m = (case authorization_of m of
     None \<Rightarrow> None
   | Some a \<Rightarrow> Some (author_of_authorization a))"

definition isSignedByAuthorDelegate :: "message \<Rightarrow> bool" where
  "isSignedByAuthorDelegate m = (case authorization_of m of
     None \<Rightarrow> False | Some a \<Rightarrow> a_authorDelegatedGrant a \<noteq> None)"

definition isSignedByOwnerDelegate :: "message \<Rightarrow> bool" where
  "isSignedByOwnerDelegate m = (case authorization_of m of
     None \<Rightarrow> False | Some a \<Rightarrow> a_ownerDelegatedGrant a \<noteq> None)"

definition getRequester :: "message \<Rightarrow> jstr option" where
  "getRequester m = (if isSignedByAuthorDelegate m then getSigner m else getAuthor m)"

section \<open>The (timestamp, CID) order\<close>

definition lexicographicalCompare :: "jstr \<Rightarrow> jstr \<Rightarrow> int" where
  "lexicographicalCompare a b = (if a > b then 1 else if a < b then - 1 else 0)"

primrec strip_encodedData :: "message \<Rightarrow> message" where
  "strip_encodedData (WriteMsg w) = WriteMsg (w\<lparr>w_encodedData := None\<rparr>)"
| "strip_encodedData (DeleteMsg d) = DeleteMsg d"
| "strip_encodedData (OtherMsg x) = OtherMsg x"

definition getCid :: "cids \<Rightarrow> message \<Rightarrow> jstr" where
  "getCid C m = cid_message C (strip_encodedData m)"

definition compareCid :: "cids \<Rightarrow> message \<Rightarrow> message \<Rightarrow> int" where
  "compareCid C a b = lexicographicalCompare (getCid C a) (getCid C b)"

definition compareMessageTimestamp :: "cids \<Rightarrow> message \<Rightarrow> message \<Rightarrow> int" where
  "compareMessageTimestamp C a b =
     (if messageTimestamp a > messageTimestamp b then 1
      else if messageTimestamp a < messageTimestamp b then - 1
      else compareCid C a b)"

definition isNewer :: "cids \<Rightarrow> message \<Rightarrow> message \<Rightarrow> bool" where
  "isNewer C a b = (compareMessageTimestamp C a b > 0)"

definition isOlder :: "cids \<Rightarrow> message \<Rightarrow> message \<Rightarrow> bool" where
  "isOlder C a b = (compareMessageTimestamp C a b < 0)"

text \<open>The loop of \<open>getNewestMessage\<close> and \<open>getOldestMessage\<close>, with its current candidate.\<close>

fun extreme_loop :: "(message \<Rightarrow> message \<Rightarrow> bool) \<Rightarrow> message option \<Rightarrow> message list \<Rightarrow> message option" where
  "extreme_loop better cur [] = cur"
| "extreme_loop better cur (m # ms) =
     (case cur of
        None \<Rightarrow> extreme_loop better (Some m) ms
      | Some c \<Rightarrow> extreme_loop better (if better m c then Some m else Some c) ms)"

definition getNewestMessage :: "cids \<Rightarrow> message list \<Rightarrow> message option" where
  "getNewestMessage C ms = extreme_loop (isNewer C) None ms"

definition getOldestMessage :: "cids \<Rightarrow> message list \<Rightarrow> message option" where
  "getOldestMessage C ms = extreme_loop (isOlder C) None ms"

section \<open>Permission grant invocations\<close>

record grant_invocation =
  gi_permissionGrantId :: "jstr option"
  gi_permissionGrantIds :: "jstr list option"

definition normalizePermissionGrantIds :: "grant_invocation \<Rightarrow> jstr list result" where
  "normalizePermissionGrantIds i = (case gi_permissionGrantIds i of
     None \<Rightarrow> Inr []
   | Some ids \<Rightarrow>
       (if ids = [] then Inl (DwnError ''MessagePermissionGrantIdsEmpty'' [])
        else Inr (sort (remdups ids))))"

definition normalizePermissionGrantInvocation :: "grant_invocation \<Rightarrow> grant_invocation result" where
  "normalizePermissionGrantInvocation i =
     (if gi_permissionGrantId i \<noteq> None \<and> gi_permissionGrantIds i \<noteq> None
      then Inl (DwnError ''MessagePermissionGrantCreateInvocationAmbiguous'' [])
      else if gi_permissionGrantId i \<noteq> None
      then Inr \<lparr>gi_permissionGrantId = gi_permissionGrantId i, gi_permissionGrantIds = None\<rparr>
      else if gi_permissionGrantIds i = None
      then Inr \<lparr>gi_permissionGrantId = None, gi_permissionGrantIds = None\<rparr>
      else bind (normalizePermissionGrantIds i)
             (\<lambda>ids. Inr \<lparr>gi_permissionGrantId = None, gi_permissionGrantIds = Some ids\<rparr>))"

definition validatePermissionGrantInvocationCanonical :: "grant_invocation \<Rightarrow> jstr list result" where
  "validatePermissionGrantInvocationCanonical i =
     (if gi_permissionGrantId i \<noteq> None \<and> gi_permissionGrantIds i \<noteq> None
      then Inl (DwnError ''MessagePermissionGrantValidateInvocationAmbiguous'' [])
      else case gi_permissionGrantId i of
        Some g \<Rightarrow> Inr [g]
      | None \<Rightarrow> bind (normalizePermissionGrantIds i) (\<lambda>ids.
          if gi_permissionGrantIds i \<noteq> None \<and> gi_permissionGrantIds i \<noteq> Some ids
          then Inl (DwnError ''MessagePermissionGrantIdsNotCanonical'' [])
          else Inr ids))"

primrec descriptor_invocation :: "descriptor \<Rightarrow> grant_invocation" where
  "descriptor_invocation (WriteD w) =
     \<lparr>gi_permissionGrantId = wd_permissionGrantId w, gi_permissionGrantIds = None\<rparr>"
| "descriptor_invocation (DeleteD d) =
     \<lparr>gi_permissionGrantId = dd_permissionGrantId d, gi_permissionGrantIds = None\<rparr>"
| "descriptor_invocation (OtherD x) =
     \<lparr>gi_permissionGrantId = od_permissionGrantId x, gi_permissionGrantIds = od_permissionGrantIds x\<rparr>"

definition payload_invocation :: "signature_payload \<Rightarrow> grant_invocation" where
  "payload_invocation p =
     \<lparr>gi_permissionGrantId = sp_permissionGrantId p, gi_permissionGrantIds = sp_permissionGrantIds p\<rparr>"

definition validatePermissionGrantInvocationMatchesPayload ::
  "descriptor \<Rightarrow> signature_payload \<Rightarrow> unit result" where
  "validatePermissionGrantInvocationMatchesPayload d p =
     (if gi_permissionGrantId (descriptor_invocation d) \<noteq> sp_permissionGrantId p
      then Inl (DwnError ''MessagePermissionGrantDescriptorPayloadMismatch'' [])
      else bind (validatePermissionGrantInvocationCanonical (descriptor_invocation d)) (\<lambda>a.
           bind (validatePermissionGrantInvocationCanonical (payload_invocation p)) (\<lambda>b.
           guard (a = b) (DwnError ''MessagePermissionGrantIdsDescriptorPayloadMismatch'' []))))"

definition getPermissionGrantIds :: "signature_payload \<Rightarrow> jstr list" where
  "getPermissionGrantIds p = (case sp_permissionGrantId p of
     Some g \<Rightarrow> [g]
   | None \<Rightarrow> (case sp_permissionGrantIds p of Some ids \<Rightarrow> ids | None \<Rightarrow> []))"

text \<open>
  \<open>validateSignatureStructure\<close>.  The JSON schema validators are generated at build time: the
  argument \<open>schema_ok\<close> says whether the payload passes the validator of the given key.
\<close>

definition validateSignatureStructure ::
  "cids \<Rightarrow> (string \<Rightarrow> signature_payload \<Rightarrow> unit result) \<Rightarrow> jws \<Rightarrow> descriptor \<Rightarrow> string \<Rightarrow> bool
    \<Rightarrow> signature_payload result" where
  "validateSignatureStructure C schema_ok j d key checkInvocation =
     (if jws_more_kids j \<noteq> []
      then Inl (DwnError ''AuthenticationMoreThanOneSignatureNotSupported'' [])
      else case jws_payload j of
        None \<Rightarrow> Inl (DwnError ''JwsDecodePlainObjectPayloadInvalid'' [])
      | Some p \<Rightarrow>
          bind (schema_ok key p) (\<lambda>_.
          if sp_descriptorCid p \<noteq> cid_descriptor C d
          then Inl (DwnError ''AuthenticateDescriptorCidMismatch'' [])
          else bind (if checkInvocation
                     then validatePermissionGrantInvocationMatchesPayload d p else Inr ())
                 (\<lambda>_. Inr p)))"

section \<open>Facts about the order\<close>

text \<open>The key the order compares.\<close>

definition age :: "cids \<Rightarrow> message \<Rightarrow> jstr \<times> jstr" where
  "age C m = (messageTimestamp m, getCid C m)"

lemma isNewer_age: "isNewer C a b \<longleftrightarrow> age C b < age C a"
  by (auto simp: isNewer_def compareMessageTimestamp_def compareCid_def lexicographicalCompare_def
      age_def less_prod_def)

lemma isOlder_age: "isOlder C a b \<longleftrightarrow> age C a < age C b"
  by (auto simp: isOlder_def compareMessageTimestamp_def compareCid_def lexicographicalCompare_def
      age_def less_prod_def)

lemma compare_antisym: "compareMessageTimestamp C a b = - compareMessageTimestamp C b a"
  by (auto simp: compareMessageTimestamp_def compareCid_def lexicographicalCompare_def)

lemma compare_eq_0: "compareMessageTimestamp C a b = 0 \<longleftrightarrow> age C a = age C b"
  by (auto simp: compareMessageTimestamp_def compareCid_def lexicographicalCompare_def age_def)

text \<open>Selecting an extreme element under the strict order of a key: the contract of both loops.\<close>

locale keyed_choice =
  fixes better :: "message \<Rightarrow> message \<Rightarrow> bool"
    and key :: "message \<Rightarrow> 'k::linorder"
    and above :: "'k \<Rightarrow> 'k \<Rightarrow> bool"
  assumes better_key: "better a b \<longleftrightarrow> above (key a) (key b)"
    and above_trans: "above x y \<Longrightarrow> above y z \<Longrightarrow> above x z"
    and above_irrefl: "\<not> above x x"
    and above_total: "x \<noteq> y \<Longrightarrow> above x y \<or> above y x"
begin

lemma loop_Some:
  "\<exists>r. extreme_loop better (Some c) ms = Some r \<and> r \<in> insert c (set ms)
     \<and> (\<forall>x \<in> insert c (set ms). \<not> better x r)"
proof (induction ms arbitrary: c)
  case Nil
  then show ?case by (simp add: better_key above_irrefl)
next
  case (Cons m ms)
  define c' where "c' = (if better m c then m else c)"
  obtain r where r: "extreme_loop better (Some c') ms = Some r" "r \<in> insert c' (set ms)"
    and max: "\<And>x. x \<in> insert c' (set ms) \<Longrightarrow> \<not> better x r"
    using Cons.IH [of c'] by auto
  have "extreme_loop better (Some c) (m # ms) = Some r"
    using r(1) by (auto simp: c'_def)
  moreover have "r \<in> insert c (set (m # ms))"
    using r(2) by (auto simp: c'_def split: if_splits)
  moreover have "\<not> better x r" if x: "x \<in> insert c (set (m # ms))" for x
  proof (cases "x \<in> insert c' (set ms)")
    case True
    then show ?thesis by (rule max)
  next
    case False
    with x have "(x = c \<and> better m c \<and> c' = m) \<or> (x = m \<and> \<not> better m c \<and> c' = c)"
      by (auto simp: c'_def)
    then show ?thesis
      using max [of c'] above_trans above_total unfolding better_key by (metis insertI1)
  qed
  ultimately show ?case by blast
qed

lemma choice_Some:
  assumes "extreme_loop better None ms = Some r"
  shows "r \<in> set ms" and "x \<in> set ms \<Longrightarrow> \<not> better x r"
  using assms loop_Some [of "hd ms" "tl ms"] by (cases ms; auto)+

lemma choice_None: "extreme_loop better None ms = None \<longleftrightarrow> ms = []"
  using loop_Some [of "hd ms" "tl ms"] by (cases ms) auto

lemma choice_unique:
  assumes "inj_on key (set ms)" and "set ns = set ms"
  shows "extreme_loop better None ns = extreme_loop better None ms"
proof (cases ms)
  case Nil
  with assms show ?thesis by simp
next
  case (Cons a as)
  obtain r where r: "extreme_loop better None ms = Some r"
    using choice_None [of ms] Cons by (metis list.distinct(1) not_Some_eq)
  obtain q where q: "extreme_loop better None ns = Some q"
    using choice_None [of ns] Cons assms(2) by (metis list.distinct(1) not_Some_eq set_empty)
  have "key q = key r"
    using choice_Some(1) [OF r] choice_Some(2) [OF r, of q] choice_Some(1) [OF q]
      choice_Some(2) [OF q, of r] assms(2) above_total [of "key q" "key r"]
    by (auto simp: better_key)
  with choice_Some(1) [OF r] choice_Some(1) [OF q] assms have "q = r" by (auto dest: inj_onD)
  with r q show ?thesis by simp
qed

end

interpretation newest: keyed_choice "isNewer C" "age C" "(>)" for C
  by unfold_locales (auto simp: isNewer_age)

interpretation oldest: keyed_choice "isOlder C" "age C" "(<)" for C
  by unfold_locales (auto simp: isOlder_age)

lemmas newest_simps = getNewestMessage_def newest.choice_None
lemmas newest_in = newest.choice_Some(1) [folded getNewestMessage_def]
lemmas newest_max = newest.choice_Some(2) [folded getNewestMessage_def]

lemma getNewestMessage_None [simp]: "getNewestMessage C ms = None \<longleftrightarrow> ms = []"
  by (simp add: newest_simps)

lemma getNewestMessage_eqI:
  assumes "m \<in> set ms" and "\<And>x. x \<in> set ms \<Longrightarrow> x \<noteq> m \<Longrightarrow> isNewer C m x"
  shows "getNewestMessage C ms = Some m"
proof -
  obtain r where r: "getNewestMessage C ms = Some r"
    using assms(1) by (cases "getNewestMessage C ms") auto
  then have "r = m"
    using newest_in [OF r] newest_max [OF r assms(1)] assms(2) by auto
  with r show ?thesis by simp
qed

lemma strip_encodedData_simps [simp]:
  "strip_encodedData (strip_encodedData m) = strip_encodedData m"
  "descriptor_of (strip_encodedData m) = descriptor_of m"
  "authorization_of (strip_encodedData m) = authorization_of m"
  by (cases m; simp)+

lemma getCid_strip [simp]: "getCid C (strip_encodedData m) = getCid C m"
  by (simp add: getCid_def)

section \<open>Examples\<close>

text \<open>Content identifiers made of the fields that tell the example messages apart.\<close>

definition example_cids :: cids where
  "example_cids = \<lparr>
     cid_message = (\<lambda>m. case m of
        WriteMsg w \<Rightarrow> 119 # w_recordId w @ wd_messageTimestamp (w_descriptor w)
      | DeleteMsg d \<Rightarrow> 100 # dd_recordId (d_descriptor d) @ dd_messageTimestamp (d_descriptor d)
      | OtherMsg x \<Rightarrow> 111 # od_messageTimestamp (o_descriptor x)),
     cid_descriptor = d_messageTimestamp,
     cid_entry = (\<lambda>d author. wd_dateCreated d),
     cid_grant = (\<lambda>g. dg_recordId g),
     cid_jws = (\<lambda>j. jws_kid j),
     cid_encryption = (\<lambda>_. []),
     cid_bytes = map unat\<rparr>"

definition example_jws :: jws where
  "example_jws = \<lparr>jws_payload = None, jws_kid = js ''did:a#k'', jws_more_kids = []\<rparr>"

definition example_authorization :: authorization where
  "example_authorization = \<lparr>a_signature = example_jws, a_authorDelegatedGrant = None,
     a_ownerSignature = None, a_ownerDelegatedGrant = None\<rparr>"

definition example_write :: "jstr \<Rightarrow> jstr \<Rightarrow> write_message" where
  "example_write r t = \<lparr>w_authorization = example_authorization, w_recordId = r, w_contextId = r,
     w_descriptor = \<lparr>wd_module = js ''m'', wd_modulePath = js ''p'', wd_recipient = None,
       wd_schema = None, wd_tags = None, wd_parentId = None, wd_dataCid = js ''d'', wd_dataSize = 1,
       wd_dateCreated = r, wd_messageTimestamp = t, wd_published = None, wd_datePublished = None,
       wd_dataFormat = js ''f'', wd_permissionGrantId = None, wd_squash = None\<rparr>,
     w_attestation = None, w_encryption = None, w_encodedData = None\<rparr>"

definition example_delete :: "jstr \<Rightarrow> jstr \<Rightarrow> bool \<Rightarrow> delete_message" where
  "example_delete r t pr = \<lparr>d_authorization = example_authorization,
     d_descriptor = \<lparr>dd_messageTimestamp = t, dd_recordId = r, dd_permissionGrantId = None, dd_prune = pr\<rparr>\<rparr>"

section \<open>Properties\<close>

text \<open>The newest message of a set of messages does not depend on the order in which they
  were read: with distinct CIDs, any two listings of the same messages yield the same newest
  message, it is one of them, and it is newer than every other one.\<close>

theorem getNewestMessage_order_independent:
  assumes "ms \<noteq> []" and "inj_on (getCid C) (set ms)" and "set ns = set ms"
  shows "\<exists>m \<in> set ms. getNewestMessage C ms = Some m \<and> getNewestMessage C ns = Some m
           \<and> (\<forall>x \<in> set ms. x \<noteq> m \<longrightarrow> isNewer C m x)"
proof -
  have inj: "inj_on (age C) (set ms)"
    using assms(2) by (auto simp: inj_on_def age_def)
  obtain m where m: "getNewestMessage C ms = Some m"
    using assms(1) by (cases "getNewestMessage C ms") auto
  moreover have "getNewestMessage C ns = Some m"
    using newest.choice_unique [OF inj assms(3)] m by (simp add: getNewestMessage_def)
  moreover have "isNewer C m x" if "x \<in> set ms" "x \<noteq> m" for x
    using newest_max [OF m that(1)] inj newest_in [OF m] that
    by (metis inj_onD isNewer_age linorder_cases)
  ultimately show ?thesis using newest_in [OF m] by blast
qed

theorem getNewestMessage_order_independent_witness:
  "\<exists>m \<in> set [WriteMsg (example_write [1] [5]), DeleteMsg (example_delete [1] [7] False)].
     getNewestMessage example_cids [WriteMsg (example_write [1] [5]), DeleteMsg (example_delete [1] [7] False)] = Some m
   \<and> getNewestMessage example_cids [DeleteMsg (example_delete [1] [7] False), WriteMsg (example_write [1] [5])] = Some m
   \<and> (\<forall>x \<in> set [WriteMsg (example_write [1] [5]), DeleteMsg (example_delete [1] [7] False)].
        x \<noteq> m \<longrightarrow> isNewer example_cids m x)"
  by (rule getNewestMessage_order_independent)
    (auto simp: getCid_def example_cids_def example_write_def example_delete_def)

text \<open>Grant invocations have one wire form: normalising a grant set yields an invocation
  that canonical validation accepts with the same grant ids, and validation accepts a list of
  grant ids exactly when it is non-empty, sorted and free of duplicates.\<close>

theorem grant_invocation_canonical:
  "(case normalizePermissionGrantInvocation i of
      Inr n \<Rightarrow> \<exists>ids. validatePermissionGrantInvocationCanonical n = Inr ids
                 \<and> set ids = (case gi_permissionGrantIds i of
                      Some gs \<Rightarrow> set gs | None \<Rightarrow> set_option (gi_permissionGrantId i))
    | Inl e \<Rightarrow> (gi_permissionGrantId i \<noteq> None \<and> gi_permissionGrantIds i \<noteq> None)
             \<or> gi_permissionGrantIds i = Some [])
   \<and> (validatePermissionGrantInvocationCanonical
        \<lparr>gi_permissionGrantId = None, gi_permissionGrantIds = Some gs\<rparr> = Inr gs
      \<longleftrightarrow> gs \<noteq> [] \<and> sorted gs \<and> distinct gs)"
proof -
  have canonical: "gs = sort (remdups gs) \<longleftrightarrow> sorted gs \<and> distinct gs" for gs :: "jstr list"
    by (metis distinct_remdups distinct_remdups_id distinct_sort sorted_sort sorted_sort_id)
  have idem: "sort (remdups (sort (remdups gs))) = sort (remdups gs)" for gs :: "jstr list"
    using canonical [of "sort (remdups gs)"] by simp
  have nonempty: "sort (remdups gs) = [] \<longleftrightarrow> gs = []" for gs :: "jstr list"
    by (metis remdups_eq_nil_iff set_empty set_sort)
  show ?thesis
    by (auto simp: normalizePermissionGrantInvocation_def normalizePermissionGrantIds_def
        validatePermissionGrantInvocationCanonical_def canonical [symmetric] nonempty idem
        split: sum.splits option.splits)
qed

end
