(* ===== verification/Replication_Log.thy ===== *)
theory Replication_Log
  imports Message
begin

text \<open>
  Helpers of the replication log (\<open>src/packages/dwn-sdk-js/src/utils/replication.ts\<close>): the
  fingerprint domains a message belongs to, the XOR fingerprints of a domain and their hex form,
  and the order-preserving encoding of log positions as LevelDB keys.  SHA-256 is the platform's:
  the hash of a message CID is a function argument of the operations that use it.
\<close>

unbundle bit_operations_syntax

section \<open>Fingerprints\<close>

type_synonym fingerprint = "8 word list"

definition byte_at :: "fingerprint \<Rightarrow> nat \<Rightarrow> 8 word" where
  "byte_at f i = (if i < length f then f ! i else 0)"

definition emptyFingerprint :: fingerprint where
  "emptyFingerprint = replicate 32 0"

definition xorFingerprint :: "fingerprint \<Rightarrow> fingerprint \<Rightarrow> fingerprint" where
  "xorFingerprint f c = map (\<lambda>i. byte_at f i XOR byte_at c i) [0..<32]"

text \<open>\<open>Number.toString(16)\<close> of a byte padded to two digits, and \<open>parseInt(\<dots>, 16)\<close> of two units.\<close>

definition hex_char :: "nat \<Rightarrow> nat" where
  "hex_char n = (if n < 10 then 48 + n else 87 + n)"

definition hex_value :: "nat \<Rightarrow> nat option" where
  "hex_value c =
     (if 48 \<le> c \<and> c \<le> 57 then Some (c - 48)
      else if 97 \<le> c \<and> c \<le> 102 then Some (c - 87)
      else if 65 \<le> c \<and> c \<le> 70 then Some (c - 55)
      else None)"

definition byte_to_hex :: "8 word \<Rightarrow> jstr" where
  "byte_to_hex b = [hex_char (unat b div 16), hex_char (unat b mod 16)]"

definition is_space :: "nat \<Rightarrow> bool" where
  "is_space c = (c \<in> {9, 10, 11, 12, 13, 32, 160, 5760, 8232, 8233, 8239, 8287, 12288, 65279}
                  \<or> (8192 \<le> c \<and> c \<le> 8202))"

fun parse_byte :: "jstr \<Rightarrow> 8 word" where
  "parse_byte [a, b] = (case (hex_value a, hex_value b) of
     (Some x, Some y) \<Rightarrow> of_nat (16 * x + y)
   | (Some x, None) \<Rightarrow> of_nat x
   | (None, Some y) \<Rightarrow> (if is_space a \<or> a = 43 then of_nat y else if a = 45 then - of_nat y else 0)
   | (None, None) \<Rightarrow> 0)"
| "parse_byte [a] = (case hex_value a of Some x \<Rightarrow> of_nat x | None \<Rightarrow> 0)"
| "parse_byte _ = 0"

definition fingerprintToHex :: "fingerprint \<Rightarrow> jstr" where
  "fingerprintToHex f = concat (map byte_to_hex f)"

definition hexToFingerprint :: "jstr \<Rightarrow> fingerprint" where
  "hexToFingerprint h = map (\<lambda>i. parse_byte (take 2 (drop (2 * i) h))) [0..<32]"

section \<open>Domains\<close>

definition PERMISSIONS_MODULE_URI :: jstr where
  "PERMISSIONS_MODULE_URI = js ''https://identity.foundation/dwn/permissions''"

definition ENCRYPTION_MODULE_URI :: jstr where
  "ENCRYPTION_MODULE_URI = js ''https://identity.foundation/dwn/modules/encryption''"

definition globalDomain :: jstr where "globalDomain = []"
definition moduleDomain :: "jstr \<Rightarrow> jstr" where "moduleDomain uri = js ''module:'' @ uri"
definition permissionDomain :: "jstr \<Rightarrow> jstr" where "permissionDomain uri = js ''perm:'' @ uri"
definition encryptionDomain :: "jstr \<Rightarrow> jstr" where "encryptionDomain uri = js ''enc:'' @ uri"

definition isCoreModuleUri :: "jstr \<Rightarrow> bool" where
  "isCoreModuleUri uri = (uri = PERMISSIONS_MODULE_URI \<or> uri = ENCRYPTION_MODULE_URI)"

definition taggedCoreModuleDomains :: "jstr \<Rightarrow> jstr set \<Rightarrow> jstr list" where
  "taggedCoreModuleDomains uri modulesInScope =
     (if isCoreModuleUri uri then []
      else (if PERMISSIONS_MODULE_URI \<notin> modulesInScope then [permissionDomain uri] else [])
         @ (if ENCRYPTION_MODULE_URI \<notin> modulesInScope then [encryptionDomain uri] else []))"

primrec descriptor_tag :: "descriptor \<Rightarrow> string \<Rightarrow> key_value option" where
  "descriptor_tag (WriteD w) k = (case wd_tags w of None \<Rightarrow> None | Some ts \<Rightarrow> map_of ts k)"
| "descriptor_tag (DeleteD _) k = None"
| "descriptor_tag (OtherD _) k = None"

definition computeFingerprintScopes :: "message \<Rightarrow> key_values \<Rightarrow> jstr list" where
  "computeFingerprintScopes m indexes = globalDomain #
     (case map_of indexes ''module'' of
        Some (One (SStr module)) \<Rightarrow>
          moduleDomain module #
          (case (case map_of indexes ''tag.module'' of
                   Some v \<Rightarrow> Some v
                 | None \<Rightarrow> descriptor_tag (descriptor_of m) ''module'') of
             Some (One (SStr tagged)) \<Rightarrow>
               (if module = PERMISSIONS_MODULE_URI then [permissionDomain tagged]
                else if module = ENCRYPTION_MODULE_URI then [encryptionDomain tagged]
                else [])
           | _ \<Rightarrow> [])
      | _ \<Rightarrow> [])"

definition scopeSetsMatch :: "jstr list \<Rightarrow> jstr list \<Rightarrow> bool" where
  "scopeSetsMatch left right = (length left = length right \<and> (\<forall>s \<in> set right. s \<in> set left))"

definition assertFingerprintScopesUntouched ::
  "jstr list \<Rightarrow> message \<Rightarrow> key_values \<Rightarrow> unit result" where
  "assertFingerprintScopesUntouched persisted m newIndexes =
     guard (scopeSetsMatch persisted (computeFingerprintScopes m newIndexes))
       (DwnError ''MessageStoreFingerprintScopeMutation'' [])"

section \<open>Position keys\<close>

fun decimal :: "nat \<Rightarrow> jstr" where
  "decimal n = (if n < 10 then [48 + n] else decimal (n div 10) @ [48 + n mod 10])"

declare decimal.simps [simp del]

definition padStart :: "nat \<Rightarrow> jstr \<Rightarrow> jstr" where
  "padStart w s = replicate (w - length s) 48 @ s"

definition encodePositionKey :: "nat \<Rightarrow> jstr result" where
  "encodePositionKey p =
     (if length (decimal p) > 20 then Inl (DwnError ''MessageStoreReplicationPositionOverflow'' [])
      else Inr (padStart 20 (decimal p)))"

section \<open>Facts\<close>

lemma length_xorFingerprint [simp]: "length (xorFingerprint f c) = 32"
  by (simp add: xorFingerprint_def)

lemma length_emptyFingerprint [simp]: "length emptyFingerprint = 32"
  by (simp add: emptyFingerprint_def)

lemma byte_at_xor: "byte_at (xorFingerprint f c) i = (if i < 32 then byte_at f i XOR byte_at c i else 0)"
  by (simp add: byte_at_def xorFingerprint_def)

lemma byte_at_empty [simp]: "byte_at emptyFingerprint i = 0"
  by (simp add: byte_at_def emptyFingerprint_def)

lemma fingerprint_eqI:
  assumes "length f = 32" and "length g = 32" and "\<And>i. i < 32 \<Longrightarrow> byte_at f i = byte_at g i"
  shows "f = g"
  using assms by (auto simp: byte_at_def intro: nth_equalityI)

lemma xor_commute: "xorFingerprint f g = xorFingerprint g f"
  by (rule fingerprint_eqI) (simp_all add: byte_at_xor ac_simps)

lemma xor_assoc:
  "xorFingerprint (xorFingerprint f g) h = xorFingerprint f (xorFingerprint g h)"
  by (rule fingerprint_eqI) (simp_all add: byte_at_xor ac_simps)

lemma xor_left_commute:
  "xorFingerprint f (xorFingerprint g h) = xorFingerprint g (xorFingerprint f h)"
  by (metis xor_assoc xor_commute)

lemma xor_empty: "length f = 32 \<Longrightarrow> xorFingerprint f emptyFingerprint = f"
  by (rule fingerprint_eqI) (simp_all add: byte_at_xor)

lemma xor_self: "xorFingerprint f f = emptyFingerprint"
  by (rule fingerprint_eqI) (simp_all add: byte_at_xor)

lemmas xor_ac = xor_commute xor_assoc xor_left_commute

lemma hex_value_char [simp]: "n < 16 \<Longrightarrow> hex_value (hex_char n) = Some n"
  by (simp add: hex_value_def hex_char_def)

lemma parse_byte_to_hex [simp]: "parse_byte (byte_to_hex b) = b"
proof -
  have "unat b < 2 ^ LENGTH(8)" by (rule unsigned_less)
  then have "unat b div 16 < 16" by simp
  then have "parse_byte (byte_to_hex b) = of_nat (16 * (unat b div 16) + unat b mod 16)"
    by (simp add: byte_to_hex_def)
  also have "\<dots> = b" by (simp only: mult_div_mod_eq) simp
  finally show ?thesis .
qed

lemma length_byte_to_hex [simp]: "length (byte_to_hex b) = 2"
  by (simp add: byte_to_hex_def)

lemma hex_slice:
  "i < length f \<Longrightarrow> take 2 (drop (2 * i) (concat (map byte_to_hex f))) = byte_to_hex (f ! i)"
proof (induction f arbitrary: i)
  case (Cons b f)
  then show ?case by (cases i) auto
qed simp

text \<open>Fixed-width decimals, for the order of position keys.\<close>

fun fixed :: "nat \<Rightarrow> nat \<Rightarrow> jstr" where
  "fixed 0 n = []"
| "fixed (Suc w) n = fixed w (n div 10) @ [48 + n mod 10]"

lemma length_fixed [simp]: "length (fixed w n) = w"
  by (induction w arbitrary: n) auto

lemma snoc_less_iff:
  "length xs = length ys \<Longrightarrow>
   (xs @ [a] < ys @ [b]) \<longleftrightarrow> xs < ys \<or> (xs = ys \<and> a < b)" for xs ys :: jstr
  by (induction xs ys rule: list_induct2) auto

lemma div10_eq: "m = n \<longleftrightarrow> m div 10 = n div 10 \<and> m mod 10 = n mod 10" for m n :: nat
  by (metis div_mult_mod_eq)

lemma div10_less: "m < n \<longleftrightarrow> m div 10 < n div 10 \<or> (m div 10 = n div 10 \<and> m mod 10 < n mod 10)"
  for m n :: nat
proof -
  have "a * 10 + r < b * 10 + s \<longleftrightarrow> a < b \<or> (a = b \<and> r < s)" if "r < 10" "s < 10" for a b r s :: nat
    using that by arith
  from this [of "m mod 10" "n mod 10" "m div 10" "n div 10"] show ?thesis by simp
qed

lemma fixed_eq_iff: "m < 10 ^ w \<Longrightarrow> n < 10 ^ w \<Longrightarrow> fixed w m = fixed w n \<longleftrightarrow> m = n"
proof (induction w arbitrary: m n)
  case (Suc w)
  then have "m div 10 < 10 ^ w" "n div 10 < 10 ^ w" by (simp_all add: less_mult_imp_div_less mult.commute)
  moreover note div10_eq [of m n]
  ultimately show ?case using Suc.IH [of "m div 10" "n div 10"] by simp
qed simp

lemma fixed_less_iff: "m < 10 ^ w \<Longrightarrow> n < 10 ^ w \<Longrightarrow> fixed w m < fixed w n \<longleftrightarrow> m < n"
proof (induction w arbitrary: m n)
  case (Suc w)
  then have b: "m div 10 < 10 ^ w" "n div 10 < 10 ^ w" by (simp_all add: less_mult_imp_div_less mult.commute)
  with div10_less [of m n] Suc.IH [OF b] fixed_eq_iff [OF b] show ?case by (simp add: snoc_less_iff)
qed simp

lemma fixed_0: "fixed w 0 = replicate w 48"
  by (induction w) (simp_all add: replicate_append_same)

lemma decimal_fixed: "length (decimal n) \<le> w \<Longrightarrow> padStart w (decimal n) = fixed w n"
proof (induction n arbitrary: w rule: decimal.induct)
  case (1 n)
  show ?case
  proof (cases "n < 10")
    case True
    then have d: "decimal n = [48 + n]" by (simp add: decimal.simps)
    with "1.prems" obtain v where "w = Suc v" by (cases w) auto
    with True d show ?thesis by (simp add: padStart_def fixed_0)
  next
    case False
    then have d: "decimal n = decimal (n div 10) @ [48 + n mod 10]" by (subst decimal.simps) simp
    with "1.prems" obtain v where v: "w = Suc v" by (cases w) auto
    with d "1.prems" have "padStart v (decimal (n div 10)) = fixed v (n div 10)"
      using "1.IH" [OF False] by simp
    with d v show ?thesis by (simp add: padStart_def)
  qed
qed

lemma decimal_bound: "length (decimal n) \<le> w \<Longrightarrow> n < 10 ^ w"
proof (induction n arbitrary: w rule: decimal.induct)
  case (1 n)
  show ?case
  proof (cases "n < 10")
    case True
    with "1.prems" have "1 \<le> w" by (simp add: decimal.simps)
    then have "10 ^ 1 \<le> (10 :: nat) ^ w" by (rule power_increasing) simp
    with True show ?thesis by simp
  next
    case False
    then have d: "decimal n = decimal (n div 10) @ [48 + n mod 10]" by (subst decimal.simps) simp
    with "1.prems" obtain v where v: "w = Suc v" "length (decimal (n div 10)) \<le> v" by (cases w) auto
    with "1.IH" [OF False] have "n div 10 < 10 ^ v" by simp
    with v show ?thesis by simp
  qed
qed

lemma decimal_length: "n < 10 ^ w \<Longrightarrow> 0 < w \<Longrightarrow> length (decimal n) \<le> w"
proof (induction n arbitrary: w rule: decimal.induct)
  case (1 n)
  show ?case
  proof (cases "n < 10")
    case True
    with "1.prems" show ?thesis by (simp add: decimal.simps)
  next
    case False
    then have d: "decimal n = decimal (n div 10) @ [48 + n mod 10]" by (subst decimal.simps) simp
    from "1.prems" obtain v where v: "w = Suc v" by (cases w) auto
    with "1.prems" False have "0 < v" by (cases v) auto
    with v "1.prems" False "1.IH" [OF False, of v] d show ?thesis by simp
  qed
qed

lemma encodePositionKey_ok: "(\<exists>k. encodePositionKey p = Inr k) \<longleftrightarrow> p < 10 ^ 20"
  using decimal_bound [of p 20] decimal_length [of p 20] by (auto simp: encodePositionKey_def)

section \<open>Properties\<close>

text \<open>C35: The textual position keys keep the numeric order: of two log positions that can be
  encoded, the keys are equal only for equal positions and compare as the positions do, so that
  a LevelDB iterator over the log visits positions in ascending order.\<close>

theorem encodePositionKey_order:
  assumes "encodePositionKey p = Inr k" and "encodePositionKey q = Inr l"
  shows "(k < l \<longleftrightarrow> p < q) \<and> (k = l \<longleftrightarrow> p = q) \<and> length k = 20"
proof -
  have p: "length (decimal p) \<le> 20" "k = fixed 20 p" and q: "length (decimal q) \<le> 20" "l = fixed 20 q"
    using assms decimal_fixed [of p 20] decimal_fixed [of q 20]
    by (auto simp: encodePositionKey_def split: if_splits)
  then show ?thesis
    using decimal_bound [of p 20] decimal_bound [of q 20] fixed_less_iff [of p 20 q]
      fixed_eq_iff [of p 20 q] by (simp del: fixed.simps)
qed

theorem encodePositionKey_order_witness:
  "encodePositionKey 9 = Inr (replicate 19 48 @ [57])
   \<and> encodePositionKey 10 = Inr (replicate 18 48 @ [49, 48])
   \<and> replicate 19 48 @ [57] < replicate 18 48 @ [49, 48 :: nat]"
proof -
  have 9: "encodePositionKey 9 = Inr (replicate 19 48 @ [57])"
    by (simp add: encodePositionKey_def padStart_def decimal.simps)
  have 10: "encodePositionKey 10 = Inr (replicate 18 48 @ [49, 48])"
    by (simp add: encodePositionKey_def padStart_def decimal.simps)
  show ?thesis using 9 10 encodePositionKey_order [OF 9 10] by simp
qed

text \<open>A fingerprint survives its stored form: reading back the hex text of a 32-byte
  fingerprint gives the fingerprint.\<close>

theorem fingerprint_hex_roundtrip:
  assumes "length f = 32"
  shows "hexToFingerprint (fingerprintToHex f) = f"
proof -
  have "hexToFingerprint (fingerprintToHex f) = map (\<lambda>i. f ! i) [0..<32]"
    unfolding hexToFingerprint_def fingerprintToHex_def
    using assms by (intro map_cong) (simp_all add: hex_slice)
  also have "\<dots> = f" using map_nth [of f] assms by simp
  finally show ?thesis .
qed

theorem fingerprint_hex_roundtrip_witness:
  "hexToFingerprint (fingerprintToHex (replicate 31 0 @ [171])) = replicate 31 0 @ [171]"
  by (rule fingerprint_hex_roundtrip) simp

end
