(* ===== verification/Index_Level.thy ===== *)
theory Index_Level
  imports Replication_Log "HOL-Library.Multiset"
begin

text \<open>
  The query index (\<open>src/packages/dwn-sdk-js/src/store/index-level.ts\<close>): the order-preserving
  encoding of index values, the in-memory query with its sort order and cursor, the binary search
  for the cursor position, and the bounded max-heap that finds the rank boundary of a
  \<open>$recordLimit\<close> group.
\<close>

section \<open>Encoding of index values\<close>

definition max_safe_integer :: int where
  "max_safe_integer = 9007199254740991"

definition int_to_string :: "int \<Rightarrow> jstr" where
  "int_to_string n = (if n < 0 then 45 # decimal (nat (- n)) else decimal (nat n))"

definition encodeNumberValue :: "int \<Rightarrow> jstr" where
  "encodeNumberValue v =
     (if v < 0 then 33 # padStart 16 (int_to_string (v + max_safe_integer))
      else padStart 16 (int_to_string v))"

text \<open>\<open>JSON.stringify\<close> of a string: quotation mark, backslash and control characters are escaped.\<close>

definition json_unit :: "nat \<Rightarrow> jstr" where
  "json_unit c =
     (if c = 34 then [92, 34] else if c = 92 then [92, 92]
      else if c = 8 then [92, 98] else if c = 9 then [92, 116] else if c = 10 then [92, 110]
      else if c = 12 then [92, 102] else if c = 13 then [92, 114]
      else if c < 32 then [92, 117, 48, 48, hex_char (c div 16), hex_char (c mod 16)]
      else [c])"

definition json_string :: "jstr \<Rightarrow> jstr" where
  "json_string s = 34 # concat (map json_unit s) @ [34]"

primrec encodeValue :: "scalar \<Rightarrow> jstr" where
  "encodeValue (SNum n) = encodeNumberValue n"
| "encodeValue (SStr s) = json_string s"
| "encodeValue (SBool b) = (if b then js ''true'' else js ''false'')"

definition keySegmentJoin :: "jstr \<Rightarrow> jstr \<Rightarrow> jstr" where
  "keySegmentJoin a b = a @ 0 # b"

section \<open>In-memory query\<close>

type_synonym indexed_item = "jstr \<times> key_values"

datatype sort_direction = Ascending | Descending

record pagination_cursor =
  pc_messageCid :: jstr
  pc_value :: scalar

record query_options =
  qo_sortProperty :: string
  qo_sortDirection :: sort_direction
  qo_limit :: "nat option"
  qo_cursor :: "pagination_cursor option"

text \<open>The scalar of a sort property; arrays and booleans never are one.\<close>

definition sort_scalar :: "string \<Rightarrow> indexed_item \<Rightarrow> scalar" where
  "sort_scalar p it = (case map_of (snd it) p of Some (One v) \<Rightarrow> v | _ \<Rightarrow> SStr [])"

definition sort_value :: "string \<Rightarrow> indexed_item \<Rightarrow> jstr" where
  "sort_value p it = encodeValue (sort_scalar p it) @ fst it"

definition sortItems :: "string \<Rightarrow> sort_direction \<Rightarrow> indexed_item list \<Rightarrow> indexed_item list" where
  "sortItems p dir items = (case dir of
     Ascending \<Rightarrow> sort_key (sort_value p) items
   | Descending \<Rightarrow> rev (sort_key (sort_value p) items))"

definition isItemAfterCursor :: "indexed_item \<Rightarrow> sort_direction \<Rightarrow> string \<Rightarrow> jstr \<Rightarrow> bool" where
  "isItemAfterCursor it dir p startKey =
     (let k = keySegmentJoin (encodeValue (sort_scalar p it)) (fst it) in
      case dir of Ascending \<Rightarrow> k > startKey | Descending \<Rightarrow> k < startKey)"

text \<open>The loop of \<open>findCursorStartingIndex\<close> with its bounds; \<open>>>> 1\<close> is division by two.\<close>

function find_first_index :: "(nat \<Rightarrow> bool) \<Rightarrow> nat \<Rightarrow> nat \<Rightarrow> nat" where
  "find_first_index after low high =
     (if low < high
      then let mid = (low + high) div 2
           in if after mid then find_first_index after low mid
              else find_first_index after (mid + 1) high
      else low)"
  by pat_completeness auto
termination
  by (relation "measure (\<lambda>(after, low, high). high - low)") (auto simp: Let_def)

declare find_first_index.simps [simp del]

definition findCursorStartingIndex ::
  "indexed_item list \<Rightarrow> sort_direction \<Rightarrow> string \<Rightarrow> jstr \<Rightarrow> nat option" where
  "findCursorStartingIndex items dir p startKey =
     (let low = find_first_index (\<lambda>i. isItemAfterCursor (items ! i) dir p startKey) 0 (length items)
      in if low < length items then Some low else None)"

definition createStartingKeyFromCursor :: "pagination_cursor \<Rightarrow> jstr" where
  "createStartingKeyFromCursor c = keySegmentJoin (encodeValue (pc_value c)) (pc_messageCid c)"

text \<open>
  \<open>queryWithInMemoryPaging\<close> over the items of a tenant: the items that match some filter; no
  results when one that matches a non-empty filter lacks the sort property; then order, cursor and limit.
  An empty filter, which stands for no filters as well, proposes the items of the partition of the sort property.

  One simplification: \<open>executeSingleFilterQuery\<close> first scans the partition of one property of a non-empty filter and
  tests the scanned candidates against the filter; here the whole index is tested.  The exact scans of an
  equality or one-of property and the scan of a subtree propose every item that matches, so the result is the same.  The scan
  of a range over strings may propose too few, for it compares encoded values with their closing quotation mark:
  \<open>gte 'abc'\<close> starts behind the encoding of \<open>'abc!'\<close>.  An in-memory query has a range as its scanned property only
  when a caller of the store puts one on a record, parent or context id, a path, a schema, a recipient or an attester; the
  filters of the record handlers have equality, one-of or subtree there.
\<close>

definition queryWithInMemoryPaging ::
  "(jstr \<Rightarrow> int option) \<Rightarrow> indexed_item list \<Rightarrow> filter_t list \<Rightarrow> query_options \<Rightarrow> indexed_item list" where
  "queryWithInMemoryPaging tn items filters q =
     (let p = qo_sortProperty q;
          matches = filter (\<lambda>it. matchAnyFilter tn (snd it) filters \<and> map_of (snd it) p \<noteq> None) items
      in if (\<exists>it \<in> set items. map_of (snd it) p = None \<and> list_ex (\<lambda>f. f \<noteq> [] \<and> matchFilter tn (snd it) f) filters) then []
         else let sorted = sortItems p (qo_sortDirection q) matches;
                  start = (case qo_cursor q of
                             None \<Rightarrow> Some 0
                           | Some c \<Rightarrow> findCursorStartingIndex sorted (qo_sortDirection q) p
                                         (createStartingKeyFromCursor c))
              in case start of
                   None \<Rightarrow> []
                 | Some s \<Rightarrow> (case qo_limit q of
                                None \<Rightarrow> drop s sorted
                              | Some l \<Rightarrow> take l (drop s sorted)))"

section \<open>Iterator paging and the choice of a strategy\<close>

text \<open>
  The partition of one property: an entry per value of the property, the key being the encoded
  value and the message CID; an iterator visits it in key order.  Keys compare by UTF-16 code units, as the
  in-memory sort does; LevelDB compares their UTF-8 bytes, which is the same order for keys without surrogates.
\<close>

definition item_entries :: "string \<Rightarrow> indexed_item \<Rightarrow> (jstr \<times> indexed_item) list" where
  "item_entries p it = map (\<lambda>v. (keySegmentJoin (encodeValue v) (fst it), it))
     (case map_of (snd it) p of None \<Rightarrow> [] | Some (One v) \<Rightarrow> [v] | Some (Many vs) \<Rightarrow> remdups vs)"

definition index_partition :: "indexed_item list \<Rightarrow> string \<Rightarrow> (jstr \<times> indexed_item) list" where
  "index_partition items p = sort_key fst (concat (map (item_entries p) items))"

definition getIndexIterator :: "indexed_item list \<Rightarrow> query_options \<Rightarrow> indexed_item list" where
  "getIndexIterator items q =
     (let entries = index_partition items (qo_sortProperty q)
      in map snd (case qo_sortDirection q of
           Ascending \<Rightarrow>
             (let startKey = (case qo_cursor q of None \<Rightarrow> [] | Some c \<Rightarrow> createStartingKeyFromCursor c)
              in filter (\<lambda>e. fst e > startKey) entries)
         | Descending \<Rightarrow> (case qo_cursor q of
              None \<Rightarrow> rev (filter (\<lambda>e. fst e > []) entries)
            | Some c \<Rightarrow> rev (filter (\<lambda>e. fst e < createStartingKeyFromCursor c) entries))))"

fun iterator_loop ::
  "(jstr \<Rightarrow> int option) \<Rightarrow> filter_t list \<Rightarrow> nat option \<Rightarrow> indexed_item list \<Rightarrow> indexed_item list \<Rightarrow> indexed_item list" where
  "iterator_loop tn filters limit found [] = found"
| "iterator_loop tn filters limit found (it # its) =
     (if limit = Some (length found) then found
      else iterator_loop tn filters limit
             (if matchAnyFilter tn (snd it) filters then found @ [it] else found) its)"

definition queryWithIteratorPaging ::
  "(jstr \<Rightarrow> int option) \<Rightarrow> indexed_item list \<Rightarrow> filter_t list \<Rightarrow> query_options \<Rightarrow> indexed_item list" where
  "queryWithIteratorPaging tn items filters q =
     iterator_loop tn filters (qo_limit q) [] (getIndexIterator items q)"

definition isFilterConcise :: "filter_t \<Rightarrow> query_options \<Rightarrow> bool" where
  "isFilterConcise f q =
     (if map_of f ''recordId'' \<noteq> None then True
      else if qo_cursor q \<noteq> None then False
      else map_of f ''modulePath'' \<noteq> None \<or> map_of f ''contextId'' \<noteq> None
         \<or> map_of f ''parentId'' \<noteq> None \<or> map_of f ''schema'' \<noteq> None)"

definition shouldQueryWithInMemoryPaging :: "filter_t list \<Rightarrow> query_options \<Rightarrow> bool" where
  "shouldQueryWithInMemoryPaging filters q = (\<forall>f \<in> set filters. isFilterConcise f q)"

text \<open>
  \<open>IndexLevel.query\<close> with its second and third strategy.  The first one, \<open>queryUsingCompoundIndex\<close>, serves a single
  filter that fixes all equality properties of a registered compound index; it is not modelled.
\<close>

definition index_query ::
  "(jstr \<Rightarrow> int option) \<Rightarrow> indexed_item list \<Rightarrow> filter_t list \<Rightarrow> query_options
    \<Rightarrow> indexed_item list result" where
  "index_query tn items filters q =
     bind (assertValidSubtreeFilters filters) (\<lambda>_.
       Inr (if shouldQueryWithInMemoryPaging filters q then queryWithInMemoryPaging tn items filters q
            else queryWithIteratorPaging tn items filters q))"

definition createCursorFromItem :: "indexed_item \<Rightarrow> string \<Rightarrow> pagination_cursor result" where
  "createCursorFromItem it p = (case map_of (snd it) p of
     None \<Rightarrow> Inl (DwnError ''IndexInvalidCursorSortProperty'' [])
   | Some (Many _) \<Rightarrow> Inl (DwnError ''IndexInvalidCursorValueType'' [])
   | Some (One (SBool _)) \<Rightarrow> Inl (DwnError ''IndexInvalidCursorValueType'' [])
   | Some (One v) \<Rightarrow> Inr \<lparr>pc_messageCid = fst it, pc_value = v\<rparr>)"

section \<open>The bounded rank heap\<close>

definition swap :: "'a list \<Rightarrow> nat \<Rightarrow> nat \<Rightarrow> 'a list" where
  "swap h i j = (h[i := h ! j])[j := h ! i]"

function siftRecordLimitRankHeapUp :: "'a::linorder list \<Rightarrow> nat \<Rightarrow> 'a list" where
  "siftRecordLimitRankHeapUp h i =
     (if i > 0 then
        let parent = (i - 1) div 2
        in if h ! parent \<ge> h ! i then h else siftRecordLimitRankHeapUp (swap h parent i) parent
      else h)"
  by pat_completeness auto
termination
  by (relation "measure (\<lambda>(h, i). i)") auto

declare siftRecordLimitRankHeapUp.simps [simp del]

definition larger_child :: "'a::linorder list \<Rightarrow> nat \<Rightarrow> nat" where
  "larger_child h i =
     (if 2 * i + 2 < length h \<and> h ! (2 * i + 2) > h ! (2 * i + 1) then 2 * i + 2 else 2 * i + 1)"

lemma length_swap [simp]: "length (swap h i j) = length h"
  by (simp add: swap_def)

function siftRecordLimitRankHeapDown :: "'a::linorder list \<Rightarrow> nat \<Rightarrow> 'a list" where
  "siftRecordLimitRankHeapDown h i =
     (if 2 * i + 1 \<ge> length h then h
      else if h ! i \<ge> h ! larger_child h i then h
      else siftRecordLimitRankHeapDown (swap h i (larger_child h i)) (larger_child h i))"
  by pat_completeness auto
termination
  by (relation "measure (\<lambda>(h, i). length h - i)") (auto simp: larger_child_def)

declare siftRecordLimitRankHeapDown.simps [simp del]

definition addToRecordLimitRankHeap :: "'a::linorder list \<Rightarrow> 'a \<Rightarrow> nat \<Rightarrow> 'a list" where
  "addToRecordLimitRankHeap h v limit =
     (if length h < limit then siftRecordLimitRankHeapUp (h @ [v]) (length h)
      else if v \<ge> h ! 0 then h
      else siftRecordLimitRankHeapDown (h[0 := v]) 0)"

text \<open>The stream of rank keys of one group through the heap; the cutoff is the root.\<close>

fun rank_heap :: "'a::linorder list \<Rightarrow> 'a list \<Rightarrow> nat \<Rightarrow> 'a list" where
  "rank_heap h [] limit = h"
| "rank_heap h (v # vs) limit = rank_heap (addToRecordLimitRankHeap h v limit) vs limit"

definition rank_cutoff :: "'a::linorder list \<Rightarrow> nat \<Rightarrow> 'a option" where
  "rank_cutoff vs limit = (case rank_heap [] vs limit of [] \<Rightarrow> None | r # _ \<Rightarrow> Some r)"

definition createRecordLimitRankKey :: "key_values \<Rightarrow> jstr result" where
  "createRecordLimitRankKey idx = (case (map_of idx ''dateCreated'', map_of idx ''recordId'') of
     (Some (One (SStr d)), Some (One (SStr r))) \<Rightarrow>
        Inr (keySegmentJoin (encodeValue (SStr d)) (encodeValue (SStr r)))
   | _ \<Rightarrow> Inl (OtherError (js ''TypeError'')))"

definition iterateExactMatches :: "indexed_item list \<Rightarrow> string \<Rightarrow> scalar \<Rightarrow> indexed_item list" where
  "iterateExactMatches items p v = filter (\<lambda>it. case map_of (snd it) p of
     Some (One w) \<Rightarrow> w = v | Some (Many ws) \<Rightarrow> v \<in> set ws | None \<Rightarrow> False) items"

fun rank_keys :: "indexed_item list \<Rightarrow> jstr list result" where
  "rank_keys [] = Inr []"
| "rank_keys (it # its) =
     bind (createRecordLimitRankKey (snd it)) (\<lambda>k. bind (rank_keys its) (\<lambda>ks. Inr (k # ks)))"

text \<open>The candidates of one parent group, in the order the exact range yields them.\<close>

definition group_candidates ::
  "(jstr \<Rightarrow> int option) \<Rightarrow> indexed_item list \<Rightarrow> filter_t \<Rightarrow> jstr \<Rightarrow> jstr option \<Rightarrow> indexed_item list" where
  "group_candidates tn items candidateFilter modulePath parentId =
     filter (\<lambda>it. \<not> (parentId = None \<and> map_of (snd it) ''parentId'' \<noteq> None)
                   \<and> matchFilter tn (snd it) candidateFilter)
       (case parentId of
          None \<Rightarrow> iterateExactMatches items ''modulePath'' (SStr modulePath)
        | Some q \<Rightarrow> iterateExactMatches items ''parentId'' (SStr q))"

definition findRecordLimitRankCutoff ::
  "(jstr \<Rightarrow> int option) \<Rightarrow> indexed_item list \<Rightarrow> filter_t \<Rightarrow> jstr option \<Rightarrow> int \<Rightarrow> jstr option result" where
  "findRecordLimitRankCutoff tn items candidateFilter parentId limit =
     (if limit < 1 then Inl (OtherError (js ''TypeError''))
      else case map_of candidateFilter ''modulePath'' of
        Some (EqualF (SStr modulePath)) \<Rightarrow>
          bind (rank_keys (group_candidates tn items candidateFilter modulePath parentId))
            (\<lambda>ks. Inr (rank_cutoff ks (nat limit)))
      | _ \<Rightarrow> Inl (OtherError (js ''TypeError'')))"

section \<open>Facts about number keys\<close>

lemma padStart_nat: "v < 10 ^ w \<Longrightarrow> 0 < w \<Longrightarrow> padStart w (decimal v) = fixed w v"
  by (intro decimal_fixed decimal_length) auto

lemma fixed_ge_48: "c \<in> set (fixed w n) \<Longrightarrow> 48 \<le> c"
  by (induction w arbitrary: n) auto

section \<open>Facts about the binary search\<close>

lemma find_first_index_le: "low \<le> high \<Longrightarrow> find_first_index P low high \<le> high"
proof (induction P low high rule: find_first_index.induct)
  case (1 P low high)
  define mid where "mid = (low + high) div 2"
  show ?case
  proof (cases "low < high")
    case True
    then have "low \<le> mid" "mid < high" by (auto simp: mid_def)
    with True "1.IH" [OF True mid_def] show ?thesis
      by (auto simp: find_first_index.simps [of P low high] mid_def [symmetric] Let_def)
  next
    case False
    with "1.prems" show ?thesis by (subst find_first_index.simps) simp
  qed
qed

lemma find_first_index_spec:
  assumes "low \<le> high" and "\<And>i j. i \<le> j \<Longrightarrow> j < high \<Longrightarrow> P i \<Longrightarrow> P j"
  shows "(\<forall>i. low \<le> i \<and> i < find_first_index P low high \<longrightarrow> \<not> P i)
       \<and> (\<forall>i. find_first_index P low high \<le> i \<and> i < high \<longrightarrow> P i)"
  using assms
proof (induction P low high rule: find_first_index.induct)
  case (1 P low high)
  show ?case
  proof (cases "low < high")
    case False
    then show ?thesis by (auto simp: find_first_index.simps [of P low high])
  next
    case True
    define mid where "mid = (low + high) div 2"
    have mid: "low \<le> mid" "mid < high" using True by (auto simp: mid_def)
    show ?thesis
    proof (cases "P mid")
      case P: True
      have eq: "find_first_index P low high = find_first_index P low mid"
        using True P by (simp add: find_first_index.simps [of P low high] mid_def Let_def)
      have "(\<forall>i. low \<le> i \<and> i < find_first_index P low mid \<longrightarrow> \<not> P i)
          \<and> (\<forall>i. find_first_index P low mid \<le> i \<and> i < mid \<longrightarrow> P i)"
        using "1.IH"(1) [OF True mid_def P mid(1)] "1.prems"(2) mid(2) by (meson less_trans)
      with eq P "1.prems"(2) [of mid] show ?thesis by (metis not_le)
    next
      case nP: False
      have eq: "find_first_index P low high = find_first_index P (mid + 1) high"
        using True nP by (simp add: find_first_index.simps [of P low high] mid_def Let_def)
      have "(\<forall>i. mid + 1 \<le> i \<and> i < find_first_index P (mid + 1) high \<longrightarrow> \<not> P i)
          \<and> (\<forall>i. find_first_index P (mid + 1) high \<le> i \<and> i < high \<longrightarrow> P i)"
        using "1.IH"(2) [OF True mid_def nP] "1.prems"(2) mid(2) by auto
      moreover have "\<not> P i" if "i \<le> mid" for i
        using nP "1.prems"(2) [of i mid] mid(2) that by blast
      ultimately show ?thesis using eq by (metis Suc_eq_plus1 not_less_eq_eq)
    qed
  qed
qed

section \<open>Facts about the heap\<close>

text \<open>Every node but the root is at most its parent; \<open>heap_except\<close> leaves one edge open.\<close>

definition heap_edge :: "'a::linorder list \<Rightarrow> nat \<Rightarrow> bool" where
  "heap_edge h j = (h ! j \<le> h ! ((j - 1) div 2))"

definition max_heap :: "'a::linorder list \<Rightarrow> bool" where
  "max_heap h = (\<forall>j. 0 < j \<and> j < length h \<longrightarrow> heap_edge h j)"

lemma mset_swap [simp]: "i < length h \<Longrightarrow> j < length h \<Longrightarrow> mset (swap h i j) = mset h"
  unfolding swap_def by (rule mset_swap)

lemma nth_swap:
  "i < length h \<Longrightarrow> j < length h \<Longrightarrow>
   swap h i j ! k = (if k = j then h ! i else if k = i then h ! j else h ! k)"
  by (auto simp: swap_def nth_list_update)

lemma heap_root_max:
  assumes "max_heap h" and "j < length h"
  shows "h ! j \<le> h ! 0"
  using assms(2)
proof (induction j rule: less_induct)
  case (less j)
  show ?case
  proof (cases "j = 0")
    case False
    then have "h ! j \<le> h ! ((j - 1) div 2)"
      using assms(1) less.prems by (auto simp: max_heap_def heap_edge_def)
    also have "\<dots> \<le> h ! 0" using False less by auto
    finally show ?thesis .
  qed simp
qed

lemma siftUp_mset:
  "i < length h \<Longrightarrow> mset (siftRecordLimitRankHeapUp h i) = mset h
     \<and> length (siftRecordLimitRankHeapUp h i) = length h"
proof (induction h i rule: siftRecordLimitRankHeapUp.induct)
  case (1 h i)
  then show ?case
    by (subst (1 2) siftRecordLimitRankHeapUp.simps) (auto simp: Let_def)
qed

lemma siftUp_heap:
  assumes "i < length h"
    and "\<And>j. 0 < j \<Longrightarrow> j < length h \<Longrightarrow> j \<noteq> i \<Longrightarrow> heap_edge h j"
    and "\<And>j. 0 < i \<Longrightarrow> j < length h \<Longrightarrow> 0 < j \<Longrightarrow> (j - 1) div 2 = i \<Longrightarrow> h ! j \<le> h ! ((i - 1) div 2)"
  shows "max_heap (siftRecordLimitRankHeapUp h i)"
  using assms
proof (induction h i rule: siftRecordLimitRankHeapUp.induct)
  case (1 h i)
  define p where "p = (i - 1) div 2"
  note simps = siftRecordLimitRankHeapUp.simps [of h i]
  show ?case
  proof (cases "i > 0 \<and> \<not> h ! i \<le> h ! p")
    case False
    then have "siftRecordLimitRankHeapUp h i = h" by (auto simp: simps p_def Let_def)
    with False "1.prems"(2) show ?thesis
      by (metis max_heap_def heap_edge_def p_def)
  next
    case True
    then have i: "0 < i" and gt: "h ! p < h ! i" and p: "p < i" by (auto simp: p_def)
    with "1.prems"(1) have pl: "p < length h" by simp
    have pp: "(i - Suc 0) div 2 = p" by (simp add: p_def)
    let ?h = "swap h p i"
    note nth = nth_swap [OF pl "1.prems"(1)]
    have eq: "siftRecordLimitRankHeapUp h i = siftRecordLimitRankHeapUp ?h p"
      using True by (simp add: simps p_def Let_def)
    have "max_heap (siftRecordLimitRankHeapUp ?h p)"
    proof (rule "1.IH" [OF i p_def])
      show "\<not> h ! i \<le> h ! p" using True by simp
      show "p < length ?h" using pl by simp
    next
      fix j assume j: "0 < j" "j < length ?h" "j \<noteq> p"
      show "heap_edge ?h j"
      proof (cases "j = i")
        case True
        with gt p pp show ?thesis by (simp add: heap_edge_def nth)
      next
        case False
        with j "1.prems"(2) have e: "h ! j \<le> h ! ((j - 1) div 2)" by (simp add: heap_edge_def)
        consider "(j - 1) div 2 = i" | "(j - 1) div 2 = p" | "(j - 1) div 2 \<noteq> i" "(j - 1) div 2 \<noteq> p"
          by blast
        then show ?thesis
        proof cases
          case 1
          with "1.prems"(3) [OF i _ j(1) 1] j False p pp show ?thesis
            by (simp add: heap_edge_def nth)
        next
          case 2
          with e gt j False p show ?thesis by (simp add: heap_edge_def nth)
        next
          case 3
          with e j False show ?thesis by (simp add: heap_edge_def nth)
        qed
      qed
    next
      fix j assume j: "0 < p" "j < length ?h" "0 < j" "(j - 1) div 2 = p"
      have pe: "h ! p \<le> h ! ((p - 1) div 2)"
        using "1.prems"(2) [of p] j(1) pl p by (simp add: heap_edge_def)
      have q: "(p - 1) div 2 \<noteq> p" "(p - 1) div 2 \<noteq> i" using j(1) p by auto
      show "?h ! j \<le> ?h ! ((p - 1) div 2)"
      proof (cases "j = i")
        case True
        with pe q p show ?thesis by (simp add: nth)
      next
        case False
        then have "h ! j \<le> h ! p" using "1.prems"(2) [of j] j by (simp add: heap_edge_def)
        with pe q False j p show ?thesis by (auto simp: nth)
      qed
    qed
    with eq show ?thesis by simp
  qed
qed

lemma siftDown_mset:
  "i < length h \<Longrightarrow> mset (siftRecordLimitRankHeapDown h i) = mset h
     \<and> length (siftRecordLimitRankHeapDown h i) = length h"
proof (induction h i rule: siftRecordLimitRankHeapDown.induct)
  case (1 h i)
  show ?case
  proof (cases "2 * i + 1 \<ge> length h \<or> h ! i \<ge> h ! larger_child h i")
    case True
    then show ?thesis by (subst (1 2) siftRecordLimitRankHeapDown.simps) auto
  next
    case False
    then have "larger_child h i < length h" by (auto simp: larger_child_def)
    with False "1" show ?thesis
      by (subst (1 2) siftRecordLimitRankHeapDown.simps) auto
  qed
qed

lemma parent_eq_iff: "0 < j \<Longrightarrow> (j - 1) div 2 = i \<longleftrightarrow> j = 2 * i + 1 \<or> j = 2 * i + 2" for i j :: nat
  by presburger

lemma larger_child_max:
  "j < length h \<Longrightarrow> 0 < j \<Longrightarrow> (j - 1) div 2 = i \<Longrightarrow> h ! j \<le> h ! larger_child h i"
  using parent_eq_iff [of j i] by (auto simp: larger_child_def)

lemma siftDown_heap:
  assumes "i < length h"
    and "\<And>j. 0 < j \<Longrightarrow> j < length h \<Longrightarrow> (j - 1) div 2 \<noteq> i \<Longrightarrow> heap_edge h j"
    and "\<And>j. 0 < i \<Longrightarrow> j < length h \<Longrightarrow> 0 < j \<Longrightarrow> (j - 1) div 2 = i \<Longrightarrow> h ! j \<le> h ! ((i - 1) div 2)"
  shows "max_heap (siftRecordLimitRankHeapDown h i)"
  using assms
proof (induction h i rule: siftRecordLimitRankHeapDown.induct)
  case (1 h i)
  note simps = siftRecordLimitRankHeapDown.simps [of h i]
  define c where "c = larger_child h i"
  show ?case
  proof (cases "2 * i + 1 \<ge> length h \<or> h ! i \<ge> h ! c")
    case True
    then have eq: "siftRecordLimitRankHeapDown h i = h" by (auto simp: simps c_def)
    have "heap_edge h j" if j: "0 < j" "j < length h" for j
    proof (cases "(j - 1) div 2 = i")
      case ch: True
      then have "\<not> 2 * i + 1 \<ge> length h" using j parent_eq_iff by auto
      with True have "h ! c \<le> h ! i" by simp
      with larger_child_max [OF j(2,1) ch] ch show ?thesis
        by (simp add: heap_edge_def c_def)
    qed (use "1.prems"(2) j in blast)
    with eq show ?thesis by (simp add: max_heap_def)
  next
    case False
    then have gt: "h ! i < h ! c" and cl: "c < length h" and ci: "i < c" "(c - 1) div 2 = i" "0 < c"
      by (auto simp: c_def larger_child_def)
    let ?h = "swap h i c"
    note nth = nth_swap [OF "1.prems"(1) cl]
    have eq: "siftRecordLimitRankHeapDown h i = siftRecordLimitRankHeapDown ?h c"
      using False by (simp add: simps c_def)
    have "max_heap (siftRecordLimitRankHeapDown ?h c)"
      unfolding c_def
    proof (rule "1.IH", unfold c_def [symmetric])
      show "\<not> length h \<le> 2 * i + 1" "\<not> h ! c \<le> h ! i" using False by auto
      show "c < length ?h" using cl by simp
    next
      fix j assume j: "0 < j" "j < length ?h" "(j - 1) div 2 \<noteq> c"
      show "heap_edge ?h j"
      proof (cases "(j - 1) div 2 = i")
        case True
        then have "h ! j \<le> h ! c" using larger_child_max [of j h i] j by (simp add: c_def)
        moreover have "j \<noteq> i" using True j(1) by auto
        ultimately show ?thesis using True gt ci by (auto simp: heap_edge_def nth)
      next
        case pj: False
        then have e: "h ! j \<le> h ! ((j - 1) div 2)" and "j \<noteq> c"
          using "1.prems"(2) [of j] j ci by (auto simp: heap_edge_def)
        show ?thesis
        proof (cases "j = i")
          case True
          then have "h ! c \<le> h ! ((i - 1) div 2)"
            using "1.prems"(3) [OF _ cl ci(3,2)] j(1) by simp
          with True pj j ci show ?thesis by (simp add: heap_edge_def nth)
        next
          case False
          with e pj j \<open>j \<noteq> c\<close> show ?thesis by (simp add: heap_edge_def nth)
        qed
      qed
    next
      fix j assume j: "0 < c" "j < length ?h" "0 < j" "(j - 1) div 2 = c"
      have "h ! j \<le> h ! c" using "1.prems"(2) [of j] j ci by (simp add: heap_edge_def)
      moreover have "j \<noteq> i" "j \<noteq> c" using j ci by auto
      ultimately show "?h ! j \<le> ?h ! ((c - 1) div 2)" using ci by (simp add: nth)
    qed
    with eq show ?thesis by simp
  qed
qed

lemma addToHeap_small:
  assumes "max_heap h" and "length h < limit"
  shows "max_heap (addToRecordLimitRankHeap h v limit)"
    and "mset (addToRecordLimitRankHeap h v limit) = add_mset v (mset h)"
proof -
  have edge: "heap_edge (h @ [v]) j" if "0 < j" "j < length (h @ [v])" "j \<noteq> length h" for j
  proof -
    have "j < length h" and "(j - 1) div 2 < length h" using that by auto
    with assms(1) that(1) show ?thesis by (simp add: max_heap_def heap_edge_def nth_append)
  qed
  have no_child: "(j - 1) div 2 \<noteq> length h" if "j < length (h @ [v])" "0 < j" for j
    using that by auto
  show "max_heap (addToRecordLimitRankHeap h v limit)"
    using assms(2) siftUp_heap [of "length h" "h @ [v]"] edge no_child
    by (simp add: addToRecordLimitRankHeap_def)
  show "mset (addToRecordLimitRankHeap h v limit) = add_mset v (mset h)"
    using assms(2) siftUp_mset [of "length h" "h @ [v]"] by (simp add: addToRecordLimitRankHeap_def)
qed

lemma addToHeap_full:
  assumes "max_heap h" and "\<not> length h < limit" and "h \<noteq> []"
  shows "max_heap (addToRecordLimitRankHeap h v limit)"
    and "mset (addToRecordLimitRankHeap h v limit)
           = (if v \<ge> h ! 0 then mset h else add_mset v (mset h - {#h ! 0#}))"
proof -
  have "max_heap (siftRecordLimitRankHeapDown (h[0 := v]) 0)" 
  proof (rule siftDown_heap)
    fix j assume "0 < j" "j < length (h[0 := v])" "(j - 1) div 2 \<noteq> 0"
    with assms(1) show "heap_edge (h[0 := v]) j"
      by (auto simp: max_heap_def heap_edge_def nth_list_update)
  qed (use assms(3) in auto)
  with assms show "max_heap (addToRecordLimitRankHeap h v limit)"
    by (simp add: addToRecordLimitRankHeap_def)
  show "mset (addToRecordLimitRankHeap h v limit)
           = (if v \<ge> h ! 0 then mset h else add_mset v (mset h - {#h ! 0#}))"
    using assms siftDown_mset [of 0 "h[0 := v]"]
    by (simp add: addToRecordLimitRankHeap_def mset_update)
qed

lemma sorted_le_last: "sorted A \<Longrightarrow> x \<in> set A \<Longrightarrow> x \<le> last A"
  by (induction A) (auto split: if_splits)

lemma insort_append_all: "\<forall>x \<in> set A. x < v \<Longrightarrow> insort v (A @ B) = A @ insort v B"
  by (induction A) auto

lemma insort_append_above:
  "sorted A \<Longrightarrow> last A < v \<Longrightarrow> insort v (A @ B) = A @ insort v B"
  by (rule insort_append_all) (meson le_less_trans sorted_le_last)

lemma insort_append_below: "A \<noteq> [] \<Longrightarrow> v \<le> last A \<Longrightarrow> insort v (A @ B) = insort v A @ B"
  by (induction A) (auto split: if_splits)

lemma mset_butlast: "l \<noteq> [] \<Longrightarrow> mset (butlast l) = mset l - {#last l#}"
  by (cases l rule: rev_cases) auto

lemma last_insort: "A \<noteq> [] \<Longrightarrow> v \<le> last A \<Longrightarrow> last (insort v A) = last A"
  by (induction A) auto

lemma mset_take_insort:
  assumes "sorted ys" and "0 < n" and "n \<le> length ys"
  shows "mset (take n (insort v ys))
           = (if v \<ge> last (take n ys) then mset (take n ys)
              else add_mset v (mset (take n ys) - {#last (take n ys)#}))"
proof -
  define A where "A = take n ys"
  have A: "A \<noteq> []" "length A = n" "sorted A" and ys: "ys = A @ drop n ys"
    using assms by (auto simp: A_def sorted_wrt_take)
  show ?thesis
  proof (cases "last A < v")
    case True
    have "insort v ys = A @ insort v (drop n ys)"
      using insort_append_above [OF A(3) True, of "drop n ys"] ys by simp
    then have "take n (insort v ys) = A" using A(2) by simp
    with True show ?thesis by (simp add: A_def)
  next
    case False
    then have le: "v \<le> last A" by simp
    have "take n (insort v ys) = take n (insort v A @ drop n ys)"
      using insort_append_below [OF A(1) le, of "drop n ys"] ys by simp
    also have "\<dots> = butlast (insort v A)" using A(2) by (simp add: butlast_conv_take)
    finally have "mset (take n (insort v ys)) = mset (insort v A) - {#last (insort v A)#}"
      using mset_butlast [of "insort v A"] by (cases A) auto
    also have "\<dots> = add_mset v (mset A) - {#last A#}" using last_insort [OF A(1) le] by simp
    also have "\<dots> = (if v \<ge> last A then mset A else add_mset v (mset A - {#last A#}))"
      using le A(1) by (auto simp: diff_add_mset_swap)
    finally show ?thesis by (simp add: A_def)
  qed
qed

lemma root_eq_last:
  assumes "max_heap h" and "mset h = mset A" and "sorted A" and "A \<noteq> []"
  shows "h ! 0 = last A"
proof -
  have set: "set h = set A" using assms(2) by (rule mset_eq_setD)
  have len: "0 < length h" using mset_eq_length [OF assms(2)] assms(4) by simp
  then have "h ! 0 \<in> set A" unfolding set [symmetric] by (rule nth_mem)
  then have "h ! 0 \<le> last A" by (rule sorted_le_last [OF assms(3)])
  moreover obtain i where "i < length h" "h ! i = last A"
    using last_in_set [OF assms(4)] unfolding set [symmetric] in_set_conv_nth by blast
  then have "last A \<le> h ! 0" using heap_root_max [OF assms(1), of i] by simp
  ultimately show ?thesis by (rule antisym)
qed

lemma rank_heap_step:
  assumes "max_heap h" and "mset h = mset (take limit ys)" and "sorted ys" and "0 < limit"
  shows "max_heap (addToRecordLimitRankHeap h v limit)
       \<and> mset (addToRecordLimitRankHeap h v limit) = mset (take limit (insort v ys))"
proof (cases "length ys < limit")
  case True
  have "length h < limit" using mset_eq_length [OF assms(2)] True by simp
  with True addToHeap_small [OF assms(1), of limit v] assms(2) show ?thesis by simp
next
  case False
  then have len: "length h = limit" using mset_eq_length [OF assms(2)] by simp
  then have h: "\<not> length h < limit" "h \<noteq> []" using assms(4) by auto
  have "sorted (take limit ys)" using assms(3) by (rule sorted_wrt_take)
  moreover have "take limit ys \<noteq> []" using assms(4) False by auto
  ultimately have "h ! 0 = last (take limit ys)" by (rule root_eq_last [OF assms(1,2)])
  then show ?thesis
    using addToHeap_full [OF assms(1) h, of v] mset_take_insort [OF assms(3,4), of v] False
    by (simp add: assms(2))
qed

lemma rank_heap_inv:
  assumes "max_heap h" and "mset h = mset (take limit (sort seen))" and "0 < limit"
  shows "max_heap (rank_heap h vs limit)
       \<and> mset (rank_heap h vs limit) = mset (take limit (sort (seen @ vs)))"
  using assms(1,2)
proof (induction vs arbitrary: h seen)
  case Nil
  then show ?case by simp
next
  case (Cons v vs)
  have "sort (seen @ [v]) = insort v (sort seen)"
    by (rule properties_for_sort) (simp_all add: sorted_insort)
  then show ?case
    using Cons.IH [of "addToRecordLimitRankHeap h v limit" "seen @ [v]"]
      rank_heap_step [OF Cons.prems sorted_sort assms(3), of v]
    by simp
qed

section \<open>Facts about the sort order\<close>

lemma json_unit_cases:
  "(json_unit c = [c] \<and> c \<noteq> 34 \<and> c \<noteq> 92) \<or> (\<exists>x r. json_unit c = 92 # x # r)"
  by (auto simp: json_unit_def)

text \<open>The unit an escape starts with.\<close>

definition unescape :: "jstr \<Rightarrow> nat" where
  "unescape l =
     (if l ! 0 \<noteq> 92 then l ! 0
      else if l ! 1 = 98 then 8 else if l ! 1 = 116 then 9 else if l ! 1 = 110 then 10
      else if l ! 1 = 102 then 12 else if l ! 1 = 114 then 13
      else if l ! 1 = 117 then 16 * the (hex_value (l ! 4)) + the (hex_value (l ! 5))
      else l ! 1)"

lemma unescape_json_unit: "unescape (json_unit c @ x) = c"
proof (cases "c < 32")
  case True
  then have "c div 16 < 16" by simp
  with True show ?thesis
    by (simp add: unescape_def json_unit_def)
next
  case False
  then show ?thesis by (simp add: unescape_def json_unit_def)
qed

lemma json_unit_inject: "json_unit a @ x = json_unit b @ y \<Longrightarrow> a = b"
  by (metis unescape_json_unit)

lemma json_body_inject:
  "concat (map json_unit s) @ 34 # x = concat (map json_unit t) @ 34 # y \<Longrightarrow> s = t"
proof (induction s arbitrary: t)
  case Nil
  then show ?case
    by (cases t) (use json_unit_cases [of "hd t"] in auto)
next
  case (Cons a s)
  show ?case
  proof (cases t)
    case Nil
    with Cons.prems json_unit_cases [of a] show ?thesis by auto
  next
    case (Cons b u)
    with Cons.prems have "json_unit a @ concat (map json_unit s) @ 34 # x
        = json_unit b @ concat (map json_unit u) @ 34 # y" by simp
    moreover from this have "a = b" by (rule json_unit_inject)
    ultimately show ?thesis using Cons.IH [of u] Cons by simp
  qed
qed

text \<open>The scalars a query sorts by: strings, and numbers that are exact integers.\<close>

fun sortable :: "scalar \<Rightarrow> bool" where
  "sortable (SStr s) = True"
| "sortable (SNum n) = (- max_safe_integer \<le> n \<and> n \<le> max_safe_integer)"
| "sortable (SBool b) = False"

lemma encodeNumber_fixed:
  assumes "- max_safe_integer \<le> v" and "v \<le> max_safe_integer"
  shows "encodeNumberValue v
           = (if v < 0 then 33 # fixed 16 (nat (v + max_safe_integer)) else fixed 16 (nat v))"
  using assms padStart_nat [of "nat (v + max_safe_integer)" 16] padStart_nat [of "nat v" 16]
  by (simp add: encodeNumberValue_def int_to_string_def max_safe_integer_def del: fixed.simps)

lemma fixed_hd: "0 < w \<Longrightarrow> fixed w n @ x = c # y \<Longrightarrow> 48 \<le> c"
  using fixed_ge_48 [of c w n] length_fixed [of w n]
  by (cases "fixed w n") (auto simp del: fixed.simps length_fixed)

lemma number_head:
  assumes "sortable (SNum n)" and "encodeNumberValue n @ x = c # y"
  shows "c = 33 \<longleftrightarrow> n < 0" and "c \<noteq> 34"
  using assms encodeNumber_fixed [of n] fixed_hd [of 16 _ x c y]
  by (force split: if_splits simp del: fixed.simps)+

lemma encodeNumber_inject:
  assumes "sortable (SNum m)" and "sortable (SNum n)"
    and "encodeNumberValue m @ x = encodeNumberValue n @ y"
  shows "m = n"
proof -
  obtain c r where c: "encodeNumberValue m @ x = c # r"
    using assms(1) encodeNumber_fixed [of m] length_fixed [of 16 "nat m"]
    by (cases "encodeNumberValue m @ x") (auto simp del: fixed.simps length_fixed split: if_splits)
  with assms(3) have "encodeNumberValue n @ y = c # r" by simp
  then have sign: "m < 0 \<longleftrightarrow> n < 0"
    using number_head(1) [OF assms(1) c] number_head(1) [OF assms(2)] by blast
  then have "(if m < 0 then nat (m + max_safe_integer) else nat m)
           = (if n < 0 then nat (n + max_safe_integer) else nat n)"
    using assms encodeNumber_fixed [of m] encodeNumber_fixed [of n]
      fixed_eq_iff [of "nat (m + max_safe_integer)" 16 "nat (n + max_safe_integer)"]
      fixed_eq_iff [of "nat m" 16 "nat n"]
    by (auto simp: append_eq_append_conv max_safe_integer_def simp del: fixed.simps split: if_splits)
  with sign assms(1,2) show ?thesis by (auto split: if_splits)
qed

lemma encodeValue_inject:
  assumes "sortable a" and "sortable b" and "encodeValue a @ x = encodeValue b @ y"
  shows "a = b"
proof (cases a)
  case a: (SStr s)
  show ?thesis
  proof (cases b)
    case (SStr t)
    with a assms(3) json_body_inject [of s x t y] show ?thesis by (simp add: json_string_def)
  next
    case (SNum n)
    with a assms number_head(2) [of n y 34] show ?thesis by (simp add: json_string_def) metis
  qed (use assms in simp)
next
  case a: (SNum m)
  show ?thesis
  proof (cases b)
    case (SStr t)
    with a assms number_head(2) [of m x 34] show ?thesis by (simp add: json_string_def)
  next
    case (SNum n)
    with a assms encodeNumber_inject [of m n x y] show ?thesis by simp
  qed (use assms in simp)
qed (use assms in simp)

text \<open>The sort order and the cursor order agree, although only the latter has a separator.\<close>

lemma less_append_sep:
  fixes u v :: jstr
  assumes "\<And>x y. u @ x = v @ y \<Longrightarrow> u = v"
  shows "u @ c < v @ d \<longleftrightarrow> u @ 0 # c < v @ 0 # d"
proof (cases "u = v")
  case False
  then have "u \<parallel> v" using assms [of _ "[]"] assms [of "[]"]
    by (auto simp: parallel_def prefix_def)
  then obtain as b bs e es where "b \<noteq> e" "u = as @ b # bs" "v = as @ e # es"
    using parallel_decomp by blast
  then show ?thesis by (induction as arbitrary: u v) auto
qed (induction u, auto)

definition cursor_key :: "string \<Rightarrow> indexed_item \<Rightarrow> jstr" where
  "cursor_key p it = keySegmentJoin (encodeValue (sort_scalar p it)) (fst it)"

lemma sort_cursor_order:
  assumes "sortable (sort_scalar p a)" and "sortable (sort_scalar p b)"
  shows "sort_value p a < sort_value p b \<longleftrightarrow> cursor_key p a < cursor_key p b"
    and "cursor_key p a = cursor_key p b \<Longrightarrow> fst a = fst b"
proof -
  note inj = encodeValue_inject [OF assms]
  have "u @ c < v @ d \<longleftrightarrow> u @ 0 # c < v @ 0 # d"
    if "u = encodeValue (sort_scalar p a)" "v = encodeValue (sort_scalar p b)" for u v c d
  proof (rule less_append_sep)
    fix x y assume "u @ x = v @ y"
    then show "u = v" using inj [of x y] that by simp
  qed
  from this [OF refl refl]
  show "sort_value p a < sort_value p b \<longleftrightarrow> cursor_key p a < cursor_key p b"
    unfolding sort_value_def cursor_key_def keySegmentJoin_def .
  show "fst a = fst b" if "cursor_key p a = cursor_key p b"
    using that inj [of "0 # fst a" "0 # fst b"] by (simp add: cursor_key_def keySegmentJoin_def)
qed

lemma sorted_by_cursor:
  assumes "\<forall>it \<in> set items. sortable (sort_scalar p it)" and "distinct (map fst items)"
  shows "sorted_wrt (\<lambda>a b. cursor_key p a < cursor_key p b) (sort_key (sort_value p) items)"
proof -
  let ?s = "sort_key (sort_value p) items"
  have "distinct (map fst ?s)"
    using assms(2) by (metis distinct_map distinct_sort set_sort)
  then have "sorted_wrt (\<lambda>a b. fst a \<noteq> fst b) ?s"
    by (simp add: distinct_conv_nth sorted_wrt_iff_nth_less)
  moreover have "sorted_wrt (\<lambda>a b. sort_value p a \<le> sort_value p b) ?s"
    using sorted_sort_key [of "sort_value p" items] by (simp add: sorted_map)
  moreover have "cursor_key p a < cursor_key p b"
    if "a \<in> set items" "b \<in> set items" "fst a \<noteq> fst b" "sort_value p a \<le> sort_value p b" for a b
    using that assms(1) sort_cursor_order [of p a b] sort_cursor_order(1) [of p b a]
    by (meson linorder_less_linear not_less)
  moreover have "?s ! i \<in> set items" if "i < length ?s" for i
    using nth_mem [OF that] by simp
  ultimately show ?thesis
    unfolding sorted_wrt_iff_nth_less by (meson less_trans)
qed

lemma findCursorStartingIndex_after:
  assumes "sorted_wrt (\<lambda>a b. isItemAfterCursor b dir p (cursor_key p a)
             \<and> \<not> isItemAfterCursor a dir p (cursor_key p b)) s"
    and "i < length s" and "\<not> isItemAfterCursor (s ! i) dir p (cursor_key p (s ! i))"
  shows "findCursorStartingIndex s dir p (cursor_key p (s ! i))
           = (if i + 1 < length s then Some (i + 1) else None)"
proof -
  define P where "P = (\<lambda>j. isItemAfterCursor (s ! j) dir p (cursor_key p (s ! i)))"
  have P: "P j \<longleftrightarrow> i < j" if "j < length s" for j
    using that assms unfolding P_def sorted_wrt_iff_nth_less by (metis linorder_less_linear)
  define f where "f = find_first_index P 0 (length s)"
  have le: "f \<le> length s" unfolding f_def by (rule find_first_index_le) simp
  have low: "\<not> P j" if "j < f" for j
    using find_first_index_spec [of 0 "length s" P] P that unfolding f_def by force
  have high: "P j" if "f \<le> j" "j < length s" for j
    using find_first_index_spec [of 0 "length s" P] P that unfolding f_def by force
  have "f = i + 1"
  proof (rule antisym)
    show "i + 1 \<le> f" using high [of i] P [OF assms(2)] assms(2) by (cases "f \<le> i") auto
    show "f \<le> i + 1" using low [of "i + 1"] P [of "i + 1"] le by (cases "i + 1 < f") auto
  qed
  then show ?thesis by (simp add: findCursorStartingIndex_def f_def P_def)
qed

lemma sortItems_after:
  assumes "\<forall>it \<in> set items. sortable (sort_scalar p it)" and "distinct (map fst items)"
  shows "sorted_wrt (\<lambda>a b. isItemAfterCursor b dir p (cursor_key p a)
           \<and> \<not> isItemAfterCursor a dir p (cursor_key p b)) (sortItems p dir items)"
  using sorted_by_cursor [OF assms]
  by (cases dir) (auto simp: sortItems_def sorted_wrt_rev isItemAfterCursor_def Let_def
      cursor_key_def [symmetric] elim!: sorted_wrt_mono_rel [rotated])

lemma not_after_self: "\<not> isItemAfterCursor it dir p (cursor_key p it)"
  by (cases dir) (auto simp: isItemAfterCursor_def cursor_key_def)

lemma queryWithInMemoryPaging_complete:
  assumes "\<forall>it \<in> set items. map_of (snd it) (qo_sortProperty q) \<noteq> None"
  shows "queryWithInMemoryPaging tn items fs q =
    (let sorted = sortItems (qo_sortProperty q) (qo_sortDirection q)
                    (filter (\<lambda>it. matchAnyFilter tn (snd it) fs) items)
     in case (case qo_cursor q of
                None \<Rightarrow> Some 0
              | Some c \<Rightarrow> findCursorStartingIndex sorted (qo_sortDirection q) (qo_sortProperty q)
                            (createStartingKeyFromCursor c)) of
          None \<Rightarrow> []
        | Some s \<Rightarrow> (case qo_limit q of None \<Rightarrow> drop s sorted | Some l \<Rightarrow> take l (drop s sorted)))"
proof -
  have "\<not> (\<exists>it \<in> set items. map_of (snd it) (qo_sortProperty q) = None \<and> list_ex (\<lambda>f. f \<noteq> [] \<and> matchFilter tn (snd it) f) fs)"
    using assms by auto
  moreover have "filter (\<lambda>it. matchAnyFilter tn (snd it) fs \<and> map_of (snd it) (qo_sortProperty q) \<noteq> None) items
      = filter (\<lambda>it. matchAnyFilter tn (snd it) fs) items" using assms by (auto intro: filter_cong)
  ultimately show ?thesis unfolding queryWithInMemoryPaging_def Let_def by (simp only: if_False)
qed

lemma cutoff_last:
  assumes "0 < limit" and "vs \<noteq> []"
  shows "rank_cutoff vs limit = Some (last (take limit (sort vs)))"
proof -
  define h where "h = rank_heap [] vs limit"
  have h: "max_heap h" "mset h = mset (take limit (sort vs))"
    using rank_heap_inv [of "[]" limit "[]" vs] assms(1) by (simp_all add: max_heap_def h_def)
  have pos: "0 < length (take limit (sort vs))" using assms by simp
  then have ne: "take limit (sort vs) \<noteq> []" by force
  have "h ! 0 = last (take limit (sort vs))"
    by (rule root_eq_last [OF h _ ne]) (simp add: sorted_wrt_take)
  moreover have "h \<noteq> []" 
    using mset_eq_length [OF h(2)] pos by (metis length_greater_0_conv)
  ultimately show ?thesis by (cases h) (simp_all add: rank_cutoff_def h_def [symmetric])
qed

lemma card_less_nth:
  fixes ys :: "'a::linorder list"
  assumes "sorted_wrt (<) ys" and "i < length ys"
  shows "card {w \<in> set ys. w < ys ! i} = i"
proof -
  have lt: "ys ! j < ys ! i \<longleftrightarrow> j < i" if "j < length ys" for j
    using assms that unfolding sorted_wrt_iff_nth_less by (metis less_asym linorder_less_linear)
  have "{w \<in> set ys. w < ys ! i} = nth ys ` {j. j < length ys \<and> j < i}"
    using lt unfolding set_conv_nth by auto
  also have "{j. j < length ys \<and> j < i} = {0..<i}" using assms(2) by auto
  also have "nth ys ` {0..<i} = set (take i ys)" using assms(2) by (simp add: nth_image)
  finally have "{w \<in> set ys. w < ys ! i} = set (take i ys)" .
  moreover have "distinct (take i ys)" using assms(1) by (simp add: strict_sorted_iff)
  ultimately show ?thesis using assms(2) by (simp add: distinct_card)
qed

lemma drop_first_index:
  assumes "sorted_wrt (\<lambda>a b. P a \<longrightarrow> P b) s"
  shows "drop (find_first_index (\<lambda>i. P (s ! i)) 0 (length s)) s = filter P s"
proof -
  let ?Q = "\<lambda>i. P (s ! i)"
  define f where "f = find_first_index ?Q 0 (length s)"
  have mono: "?Q j" if "i \<le> j" "j < length s" "?Q i" for i j
    using that assms by (cases "i = j") (auto simp: sorted_wrt_iff_nth_less dest!: le_neq_implies_less)
  have f: "f \<le> length s" unfolding f_def by (rule find_first_index_le) simp
  have spec: "(\<forall>i. 0 \<le> i \<and> i < f \<longrightarrow> \<not> ?Q i) \<and> (\<forall>i. f \<le> i \<and> i < length s \<longrightarrow> ?Q i)"
    unfolding f_def using mono by (intro find_first_index_spec) auto
  have "filter P (take f s) = []" "filter P (drop f s) = drop f s"
    using spec f by (auto simp: filter_empty_conv filter_id_conv in_set_conv_nth)
  then have "filter P s = drop f s"
    using filter_append [of P "take f s" "drop f s"] by simp
  then show ?thesis by (simp add: f_def)
qed

lemma start_drop:
  "(case findCursorStartingIndex s dir p k of None \<Rightarrow> [] | Some i \<Rightarrow> drop i s)
     = drop (find_first_index (\<lambda>i. isItemAfterCursor (s ! i) dir p k) 0 (length s)) s"
  by (simp add: findCursorStartingIndex_def Let_def)

lemma iterator_loop_all:
  "iterator_loop tn fs None found its = found @ filter (\<lambda>it. matchAnyFilter tn (snd it) fs) its"
  by (induction its arbitrary: found) auto

lemma iterator_loop_limit:
  "length found \<le> l \<Longrightarrow> iterator_loop tn fs (Some l) found its =
     found @ take (l - length found) (filter (\<lambda>it. matchAnyFilter tn (snd it) fs) its)"
proof (induction its arbitrary: found)
  case (Cons it its)
  show ?case
  proof (cases "length found = l")
    case False
    with Cons.prems have "l - length found = Suc (l - Suc (length found))" by simp
    with False Cons show ?thesis by auto
  qed simp
qed simp

lemma partition_scalar:
  assumes "\<forall>it \<in> set items. \<exists>v. map_of (snd it) p = Some (One v)"
  shows "index_partition items p = map (\<lambda>it. (cursor_key p it, it)) (sort_key (cursor_key p) items)"
proof -
  have "item_entries p it = [(cursor_key p it, it)]" if "it \<in> set items" for it
    using assms that by (auto simp: item_entries_def cursor_key_def sort_scalar_def)
  then have "concat (map (item_entries p) items) = map (\<lambda>it. (cursor_key p it, it)) items"
    by (induction items) auto
  moreover have "sort_key fst (map (\<lambda>it. (cursor_key p it, it)) xs)
      = map (\<lambda>it. (cursor_key p it, it)) (sort_key (cursor_key p) xs)" for xs
  proof (induction xs)
    case (Cons x xs)
    have "insort_key fst (cursor_key p x, x) (map (\<lambda>it. (cursor_key p it, it)) ys)
        = map (\<lambda>it. (cursor_key p it, it)) (insort_key (cursor_key p) x ys)" for ys
      by (induction ys) auto
    with Cons show ?case by simp
  qed simp
  ultimately show ?thesis by (simp add: index_partition_def)
qed

lemma sort_orders_agree:
  assumes "\<forall>it \<in> set items. sortable (sort_scalar p it)" and "distinct (map fst items)"
  shows "sort_key (cursor_key p) items = sort_key (sort_value p) items"
proof -
  let ?s = "sort_key (sort_value p) items"
  have sorted: "sorted (map (cursor_key p) ?s)"
    using sorted_by_cursor [OF assms] by (auto simp: sorted_map elim: sorted_wrt_mono_rel [rotated])
  have inj: "inj_on (cursor_key p) (set items)"
  proof (rule inj_onI)
    fix a b assume ab: "a \<in> set items" "b \<in> set items" "cursor_key p a = cursor_key p b"
    then have "fst a = fst b" using assms(1) sort_cursor_order(2) by blast
    with assms(2) ab show "a = b" by (simp add: distinct_map inj_on_def)
  qed
  have "distinct items" using assms(2) by (simp add: distinct_map)
  then show ?thesis
    using inj sorted by (intro map_sorted_distinct_set_unique [where f = "cursor_key p"]) (auto simp: distinct_map)
qed

lemma after_mono:
  assumes "\<forall>it \<in> set items. sortable (sort_scalar p it)" and "distinct (map fst items)"
  shows "sorted_wrt (\<lambda>a b. isItemAfterCursor a dir p k \<longrightarrow> isItemAfterCursor b dir p k) (sortItems p dir items)"
  using sorted_by_cursor [OF assms]
  by (cases dir) (auto simp: sortItems_def sorted_wrt_rev isItemAfterCursor_def Let_def
      cursor_key_def [symmetric] elim!: sorted_wrt_mono_rel [rotated])

definition after_filter :: "string \<Rightarrow> sort_direction \<Rightarrow> pagination_cursor option \<Rightarrow> indexed_item list \<Rightarrow> indexed_item list" where
  "after_filter p dir c its = (case c of None \<Rightarrow> its
     | Some c \<Rightarrow> filter (\<lambda>it. isItemAfterCursor it dir p (createStartingKeyFromCursor c)) its)"

lemma getIndexIterator_eq:
  assumes "\<forall>it \<in> set items. \<exists>v. map_of (snd it) (qo_sortProperty q) = Some (One v) \<and> sortable v"
    and "distinct (map fst items)"
  shows "getIndexIterator items q = after_filter (qo_sortProperty q) (qo_sortDirection q) (qo_cursor q)
           (sortItems (qo_sortProperty q) (qo_sortDirection q) items)"
proof -
  let ?p = "qo_sortProperty q"
  have s: "\<forall>it \<in> set items. sortable (sort_scalar ?p it)" using assms(1) by (auto simp: sort_scalar_def)
  have part: "index_partition items ?p = map (\<lambda>it. (cursor_key ?p it, it)) (sort_key (sort_value ?p) items)"
    using assms(1) partition_scalar [of items ?p] sort_orders_agree [OF s assms(2)] by auto
  have "cursor_key ?p it \<noteq> []" for it by (simp add: cursor_key_def keySegmentJoin_def)
  then have pos: "[] < cursor_key ?p it" for it by (cases "cursor_key ?p it") auto
  show ?thesis
    by (cases "qo_sortDirection q"; cases "qo_cursor q")
      (simp_all add: getIndexIterator_def part after_filter_def sortItems_def filter_map comp_def pos
        rev_filter [symmetric] isItemAfterCursor_def Let_def cursor_key_def [symmetric] rev_map [symmetric])
qed

lemma rank_cutoff_exact:
  assumes "0 < limit" and "vs \<noteq> []" and "distinct vs"
  shows "\<exists>c \<in> set vs. rank_cutoff vs limit = Some c
           \<and> (\<forall>v \<in> set vs. v \<le> c \<longleftrightarrow> card {w \<in> set vs. w < v} < limit)"
proof -
  define ys where "ys = sort vs"
  have ys: "sorted_wrt (<) ys" "set ys = set vs" "length ys = length vs"
    using assms(3) by (simp_all add: ys_def strict_sorted_iff)
  define k where "k = min limit (length vs) - 1"
  have "0 < length vs" using assms(2) by simp
  then have k: "k < length ys" unfolding k_def ys using assms(1) by linarith
  have "last (take limit ys) = ys ! k"
    using assms(1,2) ys(2,3) k by (subst last_conv_nth) (auto simp: k_def min.commute)
  then have c: "rank_cutoff vs limit = Some (ys ! k)"
    using cutoff_last [OF assms(1,2)] by (simp add: ys_def)
  have "v \<le> ys ! k \<longleftrightarrow> card {w \<in> set vs. w < v} < limit" if v: "v \<in> set vs" for v
  proof -
    obtain i where i: "i < length ys" "v = ys ! i" using v ys(2) by (metis in_set_conv_nth)
    have "v \<le> ys ! k \<longleftrightarrow> i \<le> k"
      using sorted_wrt_nth_less [OF ys(1)] i k by (metis leD le_less linorder_less_linear)
    also have "\<dots> \<longleftrightarrow> i < limit" using i(1) assms(1,2) ys(3) by (auto simp: k_def)
    finally show ?thesis using card_less_nth [OF ys(1) i(1)] i(2) ys(2) by simp
  qed
  then show ?thesis using c k ys(2) nth_mem by blast
qed

lemma index_query_in_memory:
  assumes "distinct (map fst items)"
    and "\<forall>it \<in> set items. \<exists>v. map_of (snd it) (qo_sortProperty q) = Some (One v) \<and> sortable v"
  shows "queryWithIteratorPaging tn items fs q = queryWithInMemoryPaging tn items fs q
       \<and> (index_query tn items fs q = (case assertValidSubtreeFilters fs of
            Inl e \<Rightarrow> Inl e | Inr _ \<Rightarrow> Inr (queryWithInMemoryPaging tn items fs q)))"
proof -
  let ?p = "qo_sortProperty q" and ?d = "qo_sortDirection q"
  let ?M = "\<lambda>it. matchAnyFilter tn (snd it) fs"
  have s: "\<forall>it \<in> set (filter ?M items). sortable (sort_scalar ?p it)"
    using assms(2) by (auto simp: sort_scalar_def)
  have d: "distinct (map fst (filter ?M items))" using assms(1) by (rule distinct_map_filter)
  have sort: "filter ?M (sortItems ?p ?d items) = sortItems ?p ?d (filter ?M items)"
    by (cases ?d) (simp_all add: sortItems_def filter_sort rev_filter [symmetric])
  have iter: "filter ?M (getIndexIterator items q)
      = after_filter ?p ?d (qo_cursor q) (sortItems ?p ?d (filter ?M items))"
    unfolding getIndexIterator_eq [OF assms(2,1)]
    by (cases "qo_cursor q") (simp_all add: after_filter_def sort [symmetric] conj_commute)
  have mem: "(case (case qo_cursor q of None \<Rightarrow> Some 0
        | Some c \<Rightarrow> findCursorStartingIndex l ?d ?p (createStartingKeyFromCursor c)) of
      None \<Rightarrow> [] | Some i \<Rightarrow> drop i l) = after_filter ?p ?d (qo_cursor q) l"
    if "l = sortItems ?p ?d (filter ?M items)" for l
    using drop_first_index [OF after_mono [OF s d, of ?d], folded that]
    by (cases "qo_cursor q") (simp_all add: after_filter_def start_drop)
  have "\<forall>it \<in> set items. map_of (snd it) ?p \<noteq> None" using assms(2) by force
  then have "queryWithInMemoryPaging tn items fs q =
      (case qo_limit q of None \<Rightarrow> filter ?M (getIndexIterator items q)
       | Some l \<Rightarrow> take l (filter ?M (getIndexIterator items q)))"
    unfolding iter mem [OF refl, symmetric]
    by (simp add: queryWithInMemoryPaging_complete Let_def split: option.splits)
  then have "queryWithIteratorPaging tn items fs q = queryWithInMemoryPaging tn items fs q"
    by (cases "qo_limit q")
      (simp_all add: queryWithIteratorPaging_def iterator_loop_all iterator_loop_limit)
  then show ?thesis by (simp add: index_query_def split: sum.splits)
qed

text \<open>Three items and a descending query, for the examples.\<close>

definition example_items :: "indexed_item list" where
  "example_items =
     [(js ''b'', [(''date'', One (SStr (js ''2'')))]), (js ''c'', [(''date'', One (SStr (js ''1'')))]),
      (js ''a'', [(''date'', One (SStr (js ''2'')))])]"

definition example_query :: query_options where
  "example_query = \<lparr>qo_sortProperty = ''date'', qo_sortDirection = Descending, qo_limit = None,
     qo_cursor = None\<rparr>"

section \<open>Properties\<close>

text \<open>The index keys of numbers keep the numeric order: for integers that a JavaScript number
  represents exactly (up to \<open>Number.MAX_SAFE_INTEGER\<close> in absolute value, negative ones
  included), the encoded keys compare as the numbers do.\<close>

theorem encodeNumberValue_order:
  assumes "\<bar>v\<bar> \<le> max_safe_integer" and "\<bar>w\<bar> \<le> max_safe_integer"
  shows "(encodeNumberValue v < encodeNumberValue w \<longleftrightarrow> v < w)
       \<and> (encodeNumberValue v = encodeNumberValue w \<longleftrightarrow> v = w)"
proof -
  have v: "sortable (SNum v)" and w: "sortable (SNum w)" using assms by auto
  have inj: "encodeNumberValue v = encodeNumberValue w \<longleftrightarrow> v = w"
    using encodeNumber_inject [OF v w, of "[]" "[]"] by auto
  have lt: "33 # x < fixed 16 n" "\<not> fixed 16 n < 33 # x" for x n
    using fixed_hd [of 16 n "[]"] length_fixed [of 16 n]
    by (cases "fixed 16 n"; force simp del: fixed.simps length_fixed)+
  have "encodeNumberValue v < encodeNumberValue w \<longleftrightarrow> v < w"
    using v w lt fixed_less_iff [of "nat (v + max_safe_integer)" 16 "nat (w + max_safe_integer)"]
      fixed_less_iff [of "nat v" 16 "nat w"]
    by (auto simp: encodeNumber_fixed max_safe_integer_def simp del: fixed.simps)
  with inj show ?thesis by simp
qed

theorem encodeNumberValue_order_witness:
  "encodeNumberValue (- 12) < encodeNumberValue (- 3) \<and> encodeNumberValue (- 3) < encodeNumberValue 25"
  using encodeNumberValue_order [of "- 12" "- 3"] encodeNumberValue_order [of "- 3" 25]
  by (simp add: max_safe_integer_def)

text \<open>Paging an in-memory query loses nothing and repeats nothing: when every matching item
  carries a sortable value, a query with the cursor of the \<open>i\<close>-th item of the full result and
  a page size \<open>l\<close> returns exactly the next \<open>l\<close> items of the full result, in both directions.\<close>

theorem queryWithInMemoryPaging_pages:
  assumes "distinct (map fst items)"
    and "\<forall>it \<in> set items. \<exists>v. map_of (snd it) (qo_sortProperty q) = Some (One v) \<and> sortable v"
    and "all = queryWithInMemoryPaging tn items fs (q\<lparr>qo_limit := None, qo_cursor := None\<rparr>)"
    and "i < length all"
  shows "queryWithInMemoryPaging tn items fs (q\<lparr>qo_limit := Some l, qo_cursor := Some
           \<lparr>pc_messageCid = fst (all ! i), pc_value = sort_scalar (qo_sortProperty q) (all ! i)\<rparr>\<rparr>)
         = take l (drop (i + 1) all)"
proof -
  let ?p = "qo_sortProperty q" and ?d = "qo_sortDirection q"
  let ?m = "filter (\<lambda>it. matchAnyFilter tn (snd it) fs) items"
  have some: "\<forall>it \<in> set items. map_of (snd it) ?p \<noteq> None" using assms(2) by force
  then have all: "all = sortItems ?p ?d ?m"
    using assms(3) by (simp add: queryWithInMemoryPaging_complete)
  have "\<forall>it \<in> set ?m. sortable (sort_scalar ?p it)"
    using assms(2) by (auto simp: sort_scalar_def)
  moreover have "distinct (map fst ?m)" using assms(1) by (rule distinct_map_filter)
  ultimately have "findCursorStartingIndex all ?d ?p (cursor_key ?p (all ! i))
                   = (if i + 1 < length all then Some (i + 1) else None)"
    unfolding all using assms(4) all
    by (intro findCursorStartingIndex_after sortItems_after not_after_self) simp_all
  then show ?thesis
    using some by (simp add: queryWithInMemoryPaging_complete Let_def all [symmetric]
        createStartingKeyFromCursor_def cursor_key_def)
qed

theorem queryWithInMemoryPaging_pages_witness:
  "map fst (queryWithInMemoryPaging (\<lambda>_. None) example_items [[]] example_query)
     = [js ''b'', js ''a'', js ''c'']
   \<and> map fst (queryWithInMemoryPaging (\<lambda>_. None) example_items [[]]
       (example_query\<lparr>qo_limit := Some 5,
          qo_cursor := Some \<lparr>pc_messageCid = js ''b'', pc_value = SStr (js ''2'')\<rparr>\<rparr>)) = [js ''a'', js ''c'']"
proof -
  let ?all = "queryWithInMemoryPaging (\<lambda>_. None) example_items [[]] example_query"
  have view: "map (\<lambda>it. (fst it, sort_scalar ''date'' it)) ?all
      = [(js ''b'', SStr (js ''2'')), (js ''a'', SStr (js ''2'')), (js ''c'', SStr (js ''1''))]"
    by (simp add: example_items_def example_query_def queryWithInMemoryPaging_complete filter_simps
        sortItems_def sort_value_def sort_scalar_def json_string_def json_unit_def)
  from arg_cong [OF view, of "map fst"] have keys: "map fst ?all = [js ''b'', js ''a'', js ''c'']"
    by (simp add: comp_def)
  from view have head: "fst (?all ! 0) = js ''b'' \<and> sort_scalar ''date'' (?all ! 0) = SStr (js ''2'')"
    by (cases ?all) simp_all
  have q: "?all = queryWithInMemoryPaging (\<lambda>_. None) example_items [[]]
      (example_query\<lparr>qo_limit := None, qo_cursor := None\<rparr>)" "qo_sortProperty example_query = ''date''"
    by (simp_all add: example_query_def)
  have "distinct (map fst example_items)"
    "\<forall>it \<in> set example_items. \<exists>v. map_of (snd it) (qo_sortProperty example_query) = Some (One v) \<and> sortable v"
    by (simp_all add: example_items_def example_query_def)
  moreover have "0 < length ?all" using arg_cong [OF keys, of length] by simp
  ultimately have "queryWithInMemoryPaging (\<lambda>_. None) example_items [[]]
       (example_query\<lparr>qo_limit := Some 5, qo_cursor := Some
          \<lparr>pc_messageCid = fst (?all ! 0), pc_value = sort_scalar ''date'' (?all ! 0)\<rparr>\<rparr>)
     = take 5 (drop (0 + 1) ?all)"
    using queryWithInMemoryPaging_pages [OF _ _ q(1)] unfolding q(2) by blast
  then show ?thesis using keys head by (simp add: take_map [symmetric] drop_map [symmetric])
qed

text \<open>The bounded heap finds the rank boundary of a \<open>$recordLimit\<close> group: for distinct
  rank keys and a positive limit there is a cutoff, and a key is at most the cutoff exactly when
  fewer than \<open>limit\<close> keys of the group rank before it, in whatever order the keys arrive.\<close>

theorem rank_cutoff_occupancy:
  assumes "0 < limit" and "vs \<noteq> []" and "distinct vs"
  shows "\<exists>c \<in> set vs. rank_cutoff vs limit = Some c
           \<and> (\<forall>v \<in> set vs. v \<le> c \<longleftrightarrow> card {w \<in> set vs. w < v} < limit)"
  using assms by (rule rank_cutoff_exact)

theorem rank_cutoff_occupancy_witness:
  "\<exists>c \<in> set [5, 2, 9, 4 :: nat]. rank_cutoff [5, 2, 9, 4] 2 = Some c
     \<and> (\<forall>v \<in> set [5, 2, 9, 4]. v \<le> c \<longleftrightarrow> card {w \<in> set [5, 2, 9, 4]. w < v} < 2)"
  by (rule rank_cutoff_occupancy) simp_all


end
