(* ===== verification/Level_Store.thy ===== *)
theory Level_Store
  imports Index_Level "HOL-Library.AList"
begin

text \<open>
  The message store and its replication log
  (\<open>src/packages/dwn-sdk-js/src/store/message-store-level.ts\<close>): message blocks, query index,
  append-only log, CID-to-position index, fingerprints and head counter of one tenant, and the
  operations that commit them as one atomic batch.

  The store of a tenant is a record with one field per sublevel.  As in the code, an operation
  reads the committed state, collects batch operations and applies them in order at the end; the
  tenant lock makes operations sequential.  Positions are natural numbers: the textual keys keep
  their order.  CIDs are canonical strings, so that parsing and printing one is the identity.
  Stored blocks are the messages themselves, for the block codec loses nothing.
\<close>

section \<open>State\<close>

record log_entry =
  le_seq :: nat
  le_messageCid :: jstr
  le_indexes :: key_values
  le_fingerprintScopes :: "jstr list"

record tenant_store =
  ts_blocks :: "(jstr, message) kv"
  ts_index :: "(jstr, key_values) kv"
  ts_log :: "(nat, log_entry) kv"
  ts_cids :: "(jstr, nat) kv"
  ts_fps :: "(jstr, jstr) kv"
  ts_head :: nat

definition empty_store :: tenant_store where
  "empty_store = \<lparr>ts_blocks = [], ts_index = [], ts_log = [], ts_cids = [], ts_fps = [], ts_head = 0\<rparr>"

text \<open>
  What the store relies on: content identifiers, SHA-256, the stream id of the tenant, the
  persisted epoch, and the conversion of strings to numbers in mixed comparisons.
\<close>

record store_env =
  se_cids :: cids
  se_hash :: "jstr \<Rightarrow> fingerprint"
  se_streamId :: jstr
  se_epoch :: jstr
  se_tn :: "jstr \<Rightarrow> int option"

record progress_token =
  pt_streamId :: jstr
  pt_epoch :: jstr
  pt_position :: nat
  pt_messageCid :: "jstr option"

datatype put_result = Duplicate | Inserted progress_token

datatype complete_result = CDuplicate | CSuperseded | CCompleted progress_token

record transition =
  tr_message :: message
  tr_indexes :: key_values
  tr_retains :: "(jstr \<times> message \<times> key_values) list"
  tr_deletes :: "jstr list"

section \<open>Batches\<close>

datatype batch_op =
    PutBlock jstr message | DelBlock jstr
  | PutIndex jstr key_values | DelIndex jstr
  | PutLog nat log_entry | DelLog nat
  | PutCid jstr nat | DelCid jstr
  | PutHead nat
  | PutFingerprint jstr jstr

primrec apply_op :: "batch_op \<Rightarrow> tenant_store \<Rightarrow> tenant_store" where
  "apply_op (PutBlock c m) s = s\<lparr>ts_blocks := kv_put c m (ts_blocks s)\<rparr>"
| "apply_op (DelBlock c) s = s\<lparr>ts_blocks := kv_del c (ts_blocks s)\<rparr>"
| "apply_op (PutIndex c i) s = s\<lparr>ts_index := kv_put c i (ts_index s)\<rparr>"
| "apply_op (DelIndex c) s = s\<lparr>ts_index := kv_del c (ts_index s)\<rparr>"
| "apply_op (PutLog p e) s = s\<lparr>ts_log := kv_put p e (ts_log s)\<rparr>"
| "apply_op (DelLog p) s = s\<lparr>ts_log := kv_del p (ts_log s)\<rparr>"
| "apply_op (PutCid c p) s = s\<lparr>ts_cids := kv_put c p (ts_cids s)\<rparr>"
| "apply_op (DelCid c) s = s\<lparr>ts_cids := kv_del c (ts_cids s)\<rparr>"
| "apply_op (PutHead p) s = s\<lparr>ts_head := p\<rparr>"
| "apply_op (PutFingerprint k v) s = s\<lparr>ts_fps := kv_put k v (ts_fps s)\<rparr>"

definition batch :: "batch_op list \<Rightarrow> tenant_store \<Rightarrow> tenant_store" where
  "batch ops s = fold apply_op ops s"

definition createPutOperations :: "jstr \<Rightarrow> key_values \<Rightarrow> batch_op list result" where
  "createPutOperations c indexes =
     (if indexes = [] then Inl (DwnError ''IndexMissingIndexableProperty'' [])
      else Inr [PutIndex c indexes])"

definition createDeleteOperations :: "tenant_store \<Rightarrow> jstr \<Rightarrow> batch_op list" where
  "createDeleteOperations s c =
     (case map_of (ts_index s) c of None \<Rightarrow> [] | Some _ \<Rightarrow> [DelIndex c])"

section \<open>Fingerprint folds\<close>

definition fingerprintKey :: "jstr \<Rightarrow> jstr" where
  "fingerprintKey scope = js ''d'' @ scope"

text \<open>The map of combined contributions, in the order of first insertion.\<close>

fun combine_scopes ::
  "fingerprint \<Rightarrow> jstr list \<Rightarrow> (jstr \<times> fingerprint) list \<Rightarrow> (jstr \<times> fingerprint) list" where
  "combine_scopes h [] m = m"
| "combine_scopes h (scope # scopes) m =
     combine_scopes h scopes
       (AList.update (fingerprintKey scope)
          (case map_of m (fingerprintKey scope) of None \<Rightarrow> h | Some c \<Rightarrow> xorFingerprint c h) m)"

fun combine_folds ::
  "(jstr \<Rightarrow> fingerprint) \<Rightarrow> (jstr \<times> jstr list) list \<Rightarrow> (jstr \<times> fingerprint) list
    \<Rightarrow> (jstr \<times> fingerprint) list" where
  "combine_folds hash [] m = m"
| "combine_folds hash ((c, scopes) # folds) m = combine_folds hash folds (combine_scopes (hash c) scopes m)"

definition stored_fingerprint :: "tenant_store \<Rightarrow> jstr \<Rightarrow> fingerprint" where
  "stored_fingerprint s key =
     (case map_of (ts_fps s) key of None \<Rightarrow> emptyFingerprint | Some h \<Rightarrow> hexToFingerprint h)"

definition createFingerprintFoldOperationsForMessages ::
  "store_env \<Rightarrow> tenant_store \<Rightarrow> (jstr \<times> jstr list) list \<Rightarrow> batch_op list" where
  "createFingerprintFoldOperationsForMessages E s folds =
     map (\<lambda>(key, contribution).
            PutFingerprint key (fingerprintToHex (xorFingerprint (stored_fingerprint s key) contribution)))
       (combine_folds (se_hash E) folds [])"

definition createFingerprintFoldOperations ::
  "store_env \<Rightarrow> tenant_store \<Rightarrow> jstr \<Rightarrow> jstr list \<Rightarrow> batch_op list" where
  "createFingerprintFoldOperations E s c scopes =
     createFingerprintFoldOperationsForMessages E s [(c, scopes)]"

section \<open>Reading rows\<close>

definition getHead :: "tenant_store \<Rightarrow> nat" where
  "getHead s = ts_head s"

definition buildToken :: "store_env \<Rightarrow> nat \<Rightarrow> jstr option \<Rightarrow> progress_token" where
  "buildToken E position c =
     \<lparr>pt_streamId = se_streamId E, pt_epoch = se_epoch E, pt_position = position, pt_messageCid = c\<rparr>"

definition ms_get :: "tenant_store \<Rightarrow> jstr \<Rightarrow> message option" where
  "ms_get s c = map_of (ts_blocks s) c"

definition getLogEntryForMutation ::
  "tenant_store \<Rightarrow> jstr \<Rightarrow> string \<Rightarrow> (nat \<times> log_entry) result" where
  "getLogEntryForMutation s c code = (case map_of (ts_cids s) c of
     None \<Rightarrow> Inl (DwnError code [])
   | Some seq \<Rightarrow> bind (encodePositionKey seq) (\<lambda>_.
       case map_of (ts_log s) seq of
         None \<Rightarrow> Inl (DwnError code [])
       | Some entry \<Rightarrow> Inr (seq, entry)))"

definition readStoredMessage :: "tenant_store \<Rightarrow> jstr \<Rightarrow> string \<Rightarrow> message result" where
  "readStoredMessage s c code = (case map_of (ts_blocks s) c of
     None \<Rightarrow> Inl (DwnError code []) | Some m \<Rightarrow> Inr m)"

section \<open>Mutations\<close>

text \<open>The batch operations of an insert, shared by \<open>put\<close> and \<open>commitLatestState\<close>.\<close>

definition insert_operations ::
  "tenant_store \<Rightarrow> jstr \<Rightarrow> message \<Rightarrow> key_values \<Rightarrow> jstr list \<Rightarrow> batch_op list result" where
  "insert_operations s c m indexes scopes =
     (let seq = getHead s + 1;
          entry = \<lparr>le_seq = seq, le_messageCid = c, le_indexes = indexes, le_fingerprintScopes = scopes\<rparr>
      in bind (createPutOperations c indexes) (\<lambda>idx.
         bind (encodePositionKey seq) (\<lambda>_.
           Inr ([PutBlock c m] @ idx @ [PutLog seq entry, PutCid c seq, PutHead seq]))))"

definition put :: "store_env \<Rightarrow> tenant_store \<Rightarrow> message \<Rightarrow> key_values \<Rightarrow> (put_result \<times> tenant_store) result" where
  "put E s m indexes =
     (let c = getCid (se_cids E) m;
          scopes = computeFingerprintScopes m indexes
      in case map_of (ts_cids s) c of
           Some _ \<Rightarrow> Inr (Duplicate, s)
         | None \<Rightarrow> bind (insert_operations s c m indexes scopes) (\<lambda>ops.
             Inr (Inserted (buildToken E (getHead s + 1) (Some c)),
                  batch (ops @ createFingerprintFoldOperations E s c scopes) s)))"

fun validate_retains :: "store_env \<Rightarrow> (jstr \<times> message \<times> key_values) list \<Rightarrow> unit result" where
  "validate_retains E [] = Inr ()"
| "validate_retains E ((c, m, i) # rs) =
     (if getCid (se_cids E) m \<noteq> c
      then Inl (DwnError ''MessageStoreUpdateMessageAndIndexesCidMismatch'' [])
      else validate_retains E rs)"

text \<open>A row replaced in place: new block and indexes, same position, same fingerprint scopes.\<close>

definition replace_operations ::
  "tenant_store \<Rightarrow> jstr \<Rightarrow> message \<Rightarrow> key_values \<Rightarrow> batch_op list result" where
  "replace_operations s c m indexes =
     bind (getLogEntryForMutation s c ''MessageStoreUpdateMessageAndIndexesMessageNotFound'') (\<lambda>(seq, entry).
     bind (assertFingerprintScopesUntouched (le_fingerprintScopes entry) m indexes) (\<lambda>_.
     bind (createPutOperations c indexes) (\<lambda>idx.
       Inr ([PutBlock c m] @ createDeleteOperations s c @ idx @
            [PutLog seq (entry\<lparr>le_indexes := indexes\<rparr>)]))))"

fun retain_operations ::
  "tenant_store \<Rightarrow> (jstr \<times> message \<times> key_values) list \<Rightarrow> batch_op list result" where
  "retain_operations s [] = Inr []"
| "retain_operations s ((c, m, i) # rs) =
     bind (replace_operations s c m i) (\<lambda>ops.
     bind (retain_operations s rs) (\<lambda>rest. Inr (ops @ rest)))"

text \<open>The removal of a row, with the contribution to fold out of the fingerprints.\<close>

definition remove_operations ::
  "tenant_store \<Rightarrow> jstr \<Rightarrow> (batch_op list \<times> (jstr \<times> jstr list) list) result" where
  "remove_operations s c = (case map_of (ts_cids s) c of
     None \<Rightarrow> Inr ([], [])
   | Some seq \<Rightarrow> bind (encodePositionKey seq) (\<lambda>_.
       case map_of (ts_log s) seq of
         None \<Rightarrow> Inl (DwnError ''MessageStoreDeleteLogEntryMissing'' [])
       | Some entry \<Rightarrow>
           Inr ([DelBlock c] @ createDeleteOperations s c @ [DelLog seq, DelCid c],
                [(c, le_fingerprintScopes entry)])))"

fun delete_operations ::
  "tenant_store \<Rightarrow> jstr list \<Rightarrow> (batch_op list \<times> (jstr \<times> jstr list) list) result" where
  "delete_operations s [] = Inr ([], [])"
| "delete_operations s (c # cs) =
     bind (remove_operations s c) (\<lambda>(ops, folds).
     bind (delete_operations s cs) (\<lambda>(ops', folds'). Inr (ops @ ops', folds @ folds')))"

definition commitLatestState ::
  "store_env \<Rightarrow> tenant_store \<Rightarrow> transition \<Rightarrow> (put_result \<times> tenant_store) result" where
  "commitLatestState E s t =
     (let m = tr_message t; c = getCid (se_cids E) m; indexes = tr_indexes t;
          scopes = computeFingerprintScopes m indexes;
          inserted = (map_of (ts_cids s) c = None)
      in bind (validate_retains E (tr_retains t)) (\<lambda>_.
         bind (if inserted then insert_operations s c m indexes scopes else Inr []) (\<lambda>ins.
         bind (retain_operations s (tr_retains t)) (\<lambda>ret.
         bind (delete_operations s (tr_deletes t)) (\<lambda>(del, folds).
           let folds = (if inserted then [(c, scopes)] else []) @ folds;
               ops = ins @ ret @ del @ createFingerprintFoldOperationsForMessages E s folds
           in Inr (if inserted then Inserted (buildToken E (getHead s + 1) (Some c)) else Duplicate,
                   batch ops s))))))"

definition updateIndexes ::
  "tenant_store \<Rightarrow> jstr \<Rightarrow> key_values \<Rightarrow> tenant_store result" where
  "updateIndexes s c indexes =
     bind (getLogEntryForMutation s c ''MessageStoreUpdateIndexesMessageNotFound'') (\<lambda>(seq, entry).
     bind (readStoredMessage s c ''MessageStoreUpdateIndexesMessageNotFound'') (\<lambda>m.
     bind (assertFingerprintScopesUntouched (le_fingerprintScopes entry) m indexes) (\<lambda>_.
     bind (createPutOperations c indexes) (\<lambda>idx.
       Inr (batch (createDeleteOperations s c @ idx @ [PutLog seq (entry\<lparr>le_indexes := indexes\<rparr>)]) s)))))"

definition updateMessageAndIndexes ::
  "store_env \<Rightarrow> tenant_store \<Rightarrow> jstr \<Rightarrow> message \<Rightarrow> key_values \<Rightarrow> tenant_store result" where
  "updateMessageAndIndexes E s c m indexes =
     (if getCid (se_cids E) m \<noteq> c
      then Inl (DwnError ''MessageStoreUpdateMessageAndIndexesCidMismatch'' [])
      else bind (replace_operations s c m indexes) (\<lambda>ops. Inr (batch ops s)))"

text \<open>The query for the messages of a record, by interface and record id.\<close>

definition record_query_options :: query_options where
  "record_query_options = \<lparr>qo_sortProperty = ''messageTimestamp'', qo_sortDirection = Ascending,
     qo_limit = None, qo_cursor = None\<rparr>"

definition completeData ::
  "store_env \<Rightarrow> tenant_store \<Rightarrow> jstr \<Rightarrow> key_values \<Rightarrow> jstr option
    \<Rightarrow> (complete_result \<times> tenant_store) result" where
  "completeData E s c indexes encodedData =
     bind (getLogEntryForMutation s c ''MessageStoreCompleteDataInvalidTarget'') (\<lambda>(seq, entry).
     bind (readStoredMessage s c ''MessageStoreCompleteDataInvalidTarget'') (\<lambda>stored.
     case stored of
       WriteMsg w \<Rightarrow>
         (if map_of (le_indexes entry) ''isLatestBaseState'' = Some (One (SBool True))
          then Inr (CDuplicate, s)
          else bind (index_query (se_tn E) (ts_index s)
                  [[(''interface'', EqualF (SStr (js ''Records''))), (''recordId'', EqualF (SStr (w_recordId w)))]]
                  record_query_options) (\<lambda>recordMessages.
            if \<exists>it \<in> set recordMessages. fst it \<noteq> c then Inr (CSuperseded, s)
            else bind (assertFingerprintScopesUntouched (le_fingerprintScopes entry) stored indexes) (\<lambda>_.
              let completionSeq = getHead s + 1;
                  updated = entry\<lparr>le_indexes := indexes, le_seq := completionSeq\<rparr>
              in bind (createPutOperations c indexes) (\<lambda>idx.
                 bind (encodePositionKey completionSeq) (\<lambda>_.
                   Inr (CCompleted (buildToken E completionSeq (Some c)),
                     batch ((case encodedData of None \<Rightarrow> []
                               | Some d \<Rightarrow> [PutBlock c (WriteMsg (w\<lparr>w_encodedData := Some d\<rparr>))])
                       @ createDeleteOperations s c @ idx
                       @ [DelLog seq, PutLog completionSeq updated, PutCid c completionSeq,
                          PutHead completionSeq]) s))))))
     | _ \<Rightarrow> Inl (DwnError ''MessageStoreCompleteDataInvalidTarget'' [])))"

definition ms_delete :: "store_env \<Rightarrow> tenant_store \<Rightarrow> jstr \<Rightarrow> tenant_store result" where
  "ms_delete E s c =
     bind (remove_operations s c) (\<lambda>(ops, folds).
       Inr (batch (ops @ createFingerprintFoldOperationsForMessages E s folds) s))"

section \<open>Reading the log\<close>

record log_event =
  ev_seq :: nat
  ev_position :: nat
  ev_message :: message
  ev_indexes :: key_values
  ev_messageCid :: jstr

record read_result =
  rr_events :: "log_event list"
  rr_cursor :: "progress_token option"
  rr_drained :: bool

definition readEventFromLogEntry ::
  "store_env \<Rightarrow> tenant_store \<Rightarrow> nat \<Rightarrow> log_entry \<Rightarrow> filter_t list option \<Rightarrow> log_event option" where
  "readEventFromLogEntry E s position entry filters =
     (if if_some (\<lambda>fs. fs \<noteq> [] \<and> \<not> matchAnyFilter (se_tn E) (le_indexes entry) fs) filters then None
      else case map_of (ts_blocks s) (le_messageCid entry) of
        None \<Rightarrow> None
      | Some m \<Rightarrow> Some \<lparr>ev_seq = le_seq entry, ev_position = position, ev_message = m,
          ev_indexes = le_indexes entry, ev_messageCid = le_messageCid entry\<rparr>)"

definition getMessageCidAtPosition :: "tenant_store \<Rightarrow> nat \<Rightarrow> jstr option result" where
  "getMessageCidAtPosition s position =
     (if position = 0 then Inr None
      else bind (encodePositionKey position) (\<lambda>_.
        Inr (case map_of (ts_log s) position of None \<Rightarrow> None | Some e \<Rightarrow> Some (le_messageCid e))))"

definition validateCursorPosition ::
  "store_env \<Rightarrow> tenant_store \<Rightarrow> progress_token \<Rightarrow> nat \<Rightarrow> string option result" where
  "validateCursorPosition E s cursor head =
     (if pt_streamId cursor \<noteq> se_streamId E then Inr (Some ''stream_mismatch'')
      else if pt_epoch cursor \<noteq> se_epoch E then Inr (Some ''epoch_mismatch'')
      else if pt_position cursor > head then Inr (Some ''token_too_new'')
      else case pt_messageCid cursor of
        None \<Rightarrow> Inr None
      | Some c \<Rightarrow> bind (getMessageCidAtPosition s (pt_position cursor)) (\<lambda>at.
          Inr (if at \<noteq> None \<and> at \<noteq> Some c then Some ''message_mismatch'' else None)))"

definition validateCursor ::
  "store_env \<Rightarrow> tenant_store \<Rightarrow> progress_token \<Rightarrow> nat \<Rightarrow> unit result" where
  "validateCursor E s cursor head =
     bind (validateCursorPosition E s cursor head) (\<lambda>reason. case reason of
       None \<Rightarrow> Inr ()
     | Some r \<Rightarrow> Inl (DwnError ''EventLogProgressGap'' (js r)))"

text \<open>
  The scan loop: the events so far, the last position scanned and the last row delivered;
  it returns them with the flag that the scan reached the head.
\<close>

fun log_scan ::
  "store_env \<Rightarrow> tenant_store \<Rightarrow> filter_t list option \<Rightarrow> nat \<Rightarrow> int \<Rightarrow> (nat \<times> log_entry) list
    \<Rightarrow> log_event list \<Rightarrow> nat \<Rightarrow> (nat \<times> jstr) option
    \<Rightarrow> log_event list \<times> bool \<times> nat \<times> (nat \<times> jstr) option" where
  "log_scan E s filters head maxResults [] events scanned delivered = (events, True, scanned, delivered)"
| "log_scan E s filters head maxResults ((position, entry) # rows) events scanned delivered =
     (case readEventFromLogEntry E s position entry filters of
        None \<Rightarrow> log_scan E s filters head maxResults rows events position delivered
      | Some ev \<Rightarrow>
          let events' = events @ [ev]; delivered' = Some (position, ev_messageCid ev)
          in if int (length events') \<ge> maxResults then (events', position \<ge> head, position, delivered')
             else log_scan E s filters head maxResults rows events' position delivered')"

definition logRead ::
  "store_env \<Rightarrow> tenant_store \<Rightarrow> progress_token option \<Rightarrow> int option \<Rightarrow> filter_t list option
    \<Rightarrow> read_result result" where
  "logRead E s cursor limit filters =
     bind (case filters of None \<Rightarrow> Inr () | Some fs \<Rightarrow> assertValidSubtreeFilters fs) (\<lambda>_.
     let head = getHead s in
     bind (case cursor of None \<Rightarrow> Inr () | Some c \<Rightarrow> validateCursor E s c head) (\<lambda>_.
     let start = (case cursor of None \<Rightarrow> 0 | Some c \<Rightarrow> pt_position c);
         maxResults = (case limit of None \<Rightarrow> max_safe_integer | Some l \<Rightarrow> l)
     in if head = 0 then Inr \<lparr>rr_events = [],
             rr_cursor = Some (case cursor of None \<Rightarrow> buildToken E 0 None | Some c \<Rightarrow> c), rr_drained = True\<rparr>
        else if maxResults \<le> 0 then Inr \<lparr>rr_events = [], rr_cursor = cursor, rr_drained = (start \<ge> head)\<rparr>
        else if start \<ge> head then Inr \<lparr>rr_events = [], rr_cursor = cursor, rr_drained = True\<rparr>
        else bind (encodePositionKey start) (\<lambda>_. bind (encodePositionKey head) (\<lambda>_.
          let rows = filter (\<lambda>r. start < fst r \<and> fst r \<le> head) (ts_log s);
              (events, drained, scanned, delivered) = log_scan E s filters head maxResults rows [] start None;
              position = (if drained then head else scanned);
              c = (case delivered of Some (p, c) \<Rightarrow> if p = position then Some c else None | None \<Rightarrow> None)
          in Inr \<lparr>rr_events = events, rr_cursor = Some (buildToken E position c), rr_drained = drained\<rparr>))))"

definition logBounds :: "store_env \<Rightarrow> tenant_store \<Rightarrow> (progress_token \<times> progress_token) option result" where
  "logBounds E s =
     (let head = getHead s in
      if head = 0 then Inr None
      else bind (encodePositionKey head) (\<lambda>_.
        Inr (Some (buildToken E 0 None,
          buildToken E head (case map_of (ts_log s) head of None \<Rightarrow> None | Some e \<Rightarrow> Some (le_messageCid e))))))"

fun compose_fingerprints :: "tenant_store \<Rightarrow> jstr list \<Rightarrow> fingerprint \<Rightarrow> fingerprint" where
  "compose_fingerprints s [] composed = composed"
| "compose_fingerprints s (scope # scopes) composed =
     compose_fingerprints s scopes
       (case map_of (ts_fps s) (fingerprintKey scope) of
          None \<Rightarrow> composed | Some h \<Rightarrow> xorFingerprint composed (hexToFingerprint h))"

definition store_fingerprint :: "tenant_store \<Rightarrow> jstr list \<Rightarrow> jstr" where
  "store_fingerprint s scopes = fingerprintToHex (compose_fingerprints s scopes emptyFingerprint)"

section \<open>Facts about fingerprint folds\<close>

definition fp_value :: "(jstr \<times> fingerprint) list \<Rightarrow> jstr \<Rightarrow> fingerprint" where
  "fp_value m k = (case map_of m k of None \<Rightarrow> emptyFingerprint | Some f \<Rightarrow> f)"

definition contribute :: "(jstr \<Rightarrow> fingerprint) \<Rightarrow> jstr \<Rightarrow> jstr list \<Rightarrow> jstr \<Rightarrow> fingerprint" where
  "contribute hash c scopes sc = (if sc \<in> set scopes then hash c else emptyFingerprint)"

fun contributions :: "(jstr \<Rightarrow> fingerprint) \<Rightarrow> (jstr \<times> jstr list) list \<Rightarrow> jstr \<Rightarrow> fingerprint" where
  "contributions hash [] sc = emptyFingerprint"
| "contributions hash ((c, scopes) # r) sc = xorFingerprint (contribute hash c scopes sc) (contributions hash r sc)"

lemma fingerprintKey_inject [simp]: "fingerprintKey a = fingerprintKey b \<longleftrightarrow> a = b"
  by (simp add: fingerprintKey_def)

lemma length_contributions [simp]: "length (contributions hash fs sc) = 32"
  by (cases fs) auto

lemma xor_empty_left [simp]: "length f = 32 \<Longrightarrow> xorFingerprint emptyFingerprint f = f"
  using xor_commute xor_empty by metis

declare xor_empty [simp]

lemma fp_value_scopes:
  assumes "length h = 32" and "distinct scopes" and "\<And>k. length (fp_value m k) = 32"
  shows "fp_value (combine_scopes h scopes m) (fingerprintKey sc)
           = (if sc \<in> set scopes then xorFingerprint (fp_value m (fingerprintKey sc)) h
              else fp_value m (fingerprintKey sc))"
  using assms(2,3)
proof (induction scopes arbitrary: m)
  case (Cons x xs)
  define m' where "m' = AList.update (fingerprintKey x)
     (case map_of m (fingerprintKey x) of None \<Rightarrow> h | Some c \<Rightarrow> xorFingerprint c h) m"
  have m': "fp_value m' k = (if k = fingerprintKey x then xorFingerprint (fp_value m k) h else fp_value m k)" for k
    using assms(1) by (auto simp: m'_def fp_value_def update_conv split: option.splits)
  then have "\<And>k. length (fp_value m' k) = 32" using Cons.prems(2) by simp
  with Cons.IH [of m'] Cons.prems m' show ?case by (auto simp: m'_def [symmetric])
qed simp

lemma fp_value_folds:
  assumes "\<And>c. length (hash c) = 32" and "\<forall>(c, scopes) \<in> set folds. distinct scopes"
    and "\<And>k. length (fp_value m k) = 32"
  shows "fp_value (combine_folds hash folds m) (fingerprintKey sc)
           = xorFingerprint (fp_value m (fingerprintKey sc)) (contributions hash folds sc)"
  using assms(2,3)
proof (induction folds arbitrary: m)
  case (Cons f folds)
  obtain c scopes where f: "f = (c, scopes)" by (cases f)
  let ?m = "combine_scopes (hash c) scopes m"
  have d: "distinct scopes" using Cons.prems f by auto
  have len: "length (fp_value (combine_scopes (hash c) xs n) k) = 32"
    if "\<And>k. length (fp_value n k) = 32" for k xs n
    using that
  proof (induction xs arbitrary: n)
    case (Cons x xs)
    show ?case unfolding combine_scopes.simps
    proof (rule Cons.IH)
      fix k show "length (fp_value (AList.update (fingerprintKey x)
         (case map_of n (fingerprintKey x) of None \<Rightarrow> hash c | Some e \<Rightarrow> xorFingerprint e (hash c)) n) k) = 32"
        using Cons.prems [of k] assms(1) by (auto simp: fp_value_def update_conv split: option.splits)
    qed
  qed simp
  show ?case
    using Cons.IH [of ?m] Cons.prems f len fp_value_scopes [OF assms(1) d Cons.prems(2)] assms(1)
    by (auto simp: contribute_def xor_assoc)
qed simp

lemma combine_distinct:
  "distinct (map fst m) \<Longrightarrow> distinct (map fst (combine_folds hash folds m))"
proof (induction folds arbitrary: m)
  case (Cons f folds)
  have "distinct (map fst (combine_scopes h xs n))" if "distinct (map fst n)" for h xs n
    using that by (induction xs arbitrary: n) (auto intro: distinct_update)
  with Cons show ?case by (cases f) simp
qed simp

text \<open>Every part of a batch but the fingerprints, and the fingerprints alone.\<close>

fun is_fp_op :: "batch_op \<Rightarrow> bool" where
  "is_fp_op (PutFingerprint _ _) = True"
| "is_fp_op _ = False"

lemma batch_simps [simp]:
  "batch [] s = s"
  "batch (x # xs) s = batch xs (apply_op x s)"
  "batch (xs @ ys) s = batch ys (batch xs s)"
  by (simp_all add: batch_def)

lemma batch_no_fp: "\<forall>x \<in> set ops. \<not> is_fp_op x \<Longrightarrow> ts_fps (batch ops s) = ts_fps s"
proof (induction ops arbitrary: s)
  case (Cons x ops)
  then show ?case by (cases x) auto
qed simp

lemma batch_fp:
  "\<forall>x \<in> set ops. is_fp_op x \<Longrightarrow>
     ts_blocks (batch ops s) = ts_blocks s \<and> ts_index (batch ops s) = ts_index s \<and>
     ts_log (batch ops s) = ts_log s \<and> ts_cids (batch ops s) = ts_cids s \<and>
     ts_head (batch ops s) = ts_head s"
proof (induction ops arbitrary: s)
  case (Cons x ops)
  then show ?case by (cases x) auto
qed simp

lemma batch_put_fps:
  assumes "distinct (map fst m)"
  shows "map_of (ts_fps (batch (map (\<lambda>(k, f). PutFingerprint k (g k f)) m) s)) k
     = (case map_of m k of None \<Rightarrow> map_of (ts_fps s) k | Some f \<Rightarrow> Some (g k f))"
  using assms
proof (induction m arbitrary: s)
  case (Cons p m)
  obtain k' f where p: "p = (k', f)" by (cases p)
  with Cons.prems have "map_of m k' = None" by (simp add: map_of_eq_None_iff)
  with Cons p show ?case by (auto simp: map_of_kv_put split: option.splits)
qed simp

lemma length_hexToFingerprint [simp]: "length (hexToFingerprint h) = 32"
  by (simp add: hexToFingerprint_def)

lemma length_stored [simp]: "length (stored_fingerprint s k) = 32"
  by (simp add: stored_fingerprint_def split: option.splits)

lemma hex_roundtrip [simp]: "length f = 32 \<Longrightarrow> hexToFingerprint (fingerprintToHex f) = f"
proof -
  assume l: "length f = 32"
  then have "hexToFingerprint (fingerprintToHex f) = map (\<lambda>i. f ! i) [0..<32]"
    unfolding hexToFingerprint_def fingerprintToHex_def by (intro map_cong) (simp_all add: hex_slice)
  with l show ?thesis using map_nth [of f] by simp
qed

lemma stored_after_folds:
  assumes "\<And>c. length (se_hash E c) = 32" and "\<forall>(c, scopes) \<in> set folds. distinct scopes"
    and "ts_fps t = ts_fps s"
  shows "stored_fingerprint (batch (createFingerprintFoldOperationsForMessages E s folds) t) (fingerprintKey sc)
           = xorFingerprint (stored_fingerprint s (fingerprintKey sc)) (contributions (se_hash E) folds sc)"
proof -
  let ?m = "combine_folds (se_hash E) folds []" and ?k = "fingerprintKey sc"
  have "fp_value ?m ?k = contributions (se_hash E) folds sc"
    using fp_value_folds [OF assms(1,2), where m = "[]" and sc = sc] by (simp add: fp_value_def)
  moreover have "map_of (ts_fps (batch (createFingerprintFoldOperationsForMessages E s folds) t)) ?k
      = (case map_of ?m ?k of None \<Rightarrow> map_of (ts_fps t) ?k
         | Some f \<Rightarrow> Some (fingerprintToHex (xorFingerprint (stored_fingerprint s ?k) f)))"
    unfolding createFingerprintFoldOperationsForMessages_def
    by (rule batch_put_fps) (simp add: combine_distinct)
  ultimately show ?thesis using assms(3)
    by (auto simp: stored_fingerprint_def fp_value_def split: option.splits)
qed

lemma fold_ops_fp: "\<forall>x \<in> set (createFingerprintFoldOperationsForMessages E s folds). is_fp_op x"
  by (auto simp: createFingerprintFoldOperationsForMessages_def)

lemma kv_ok_fps_batch:
  "kv_ok (ts_fps s) \<Longrightarrow> kv_ok (ts_fps (batch ops s))"
proof (induction ops arbitrary: s)
  case (Cons x ops)
  then show ?case by (cases x) (simp_all add: kv_ok_put)
qed simp

section \<open>The store invariant\<close>

text \<open>
  The rows of a store as one map from CIDs: the abstract view the operations are specified on.
\<close>

record row =
  r_position :: nat
  r_message :: message
  r_indexes :: key_values
  r_scopes :: "jstr list"

definition row_of :: "tenant_store \<Rightarrow> jstr \<Rightarrow> row option" where
  "row_of s c = (case (map_of (ts_cids s) c, map_of (ts_blocks s) c) of
     (Some p, Some m) \<Rightarrow> (case map_of (ts_log s) p of
        None \<Rightarrow> None
      | Some e \<Rightarrow> Some \<lparr>r_position = p, r_message = m, r_indexes = le_indexes e,
                         r_scopes = le_fingerprintScopes e\<rparr>)
   | _ \<Rightarrow> None)"

definition members :: "(nat, log_entry) kv \<Rightarrow> (jstr \<times> jstr list) list" where
  "members l = map (\<lambda>(p, e). (le_messageCid e, le_fingerprintScopes e)) l"

definition core_ok :: "store_env \<Rightarrow> tenant_store \<Rightarrow> bool" where
  "core_ok E s \<longleftrightarrow>
     kv_ok (ts_blocks s) \<and> kv_ok (ts_index s) \<and> kv_ok (ts_log s) \<and> kv_ok (ts_cids s)
   \<and> (\<forall>c p. map_of (ts_cids s) c = Some p \<longleftrightarrow> (\<exists>e. map_of (ts_log s) p = Some e \<and> le_messageCid e = c))
   \<and> (\<forall>p e. map_of (ts_log s) p = Some e \<longrightarrow> 0 < p \<and> p \<le> ts_head s \<and> le_seq e = p
        \<and> distinct (le_fingerprintScopes e) \<and> map_of (ts_index s) (le_messageCid e) = Some (le_indexes e))
   \<and> dom (map_of (ts_blocks s)) = dom (map_of (ts_cids s))
   \<and> dom (map_of (ts_index s)) = dom (map_of (ts_cids s))
   \<and> (\<forall>c m. map_of (ts_blocks s) c = Some m \<longrightarrow> getCid (se_cids E) m = c)"

definition store_ok :: "store_env \<Rightarrow> tenant_store \<Rightarrow> bool" where
  "store_ok E s \<longleftrightarrow> core_ok E s \<and> kv_ok (ts_fps s)
     \<and> (\<forall>sc. stored_fingerprint s (fingerprintKey sc) = contributions (se_hash E) (members (ts_log s)) sc)"

lemma core_okD:
  assumes "core_ok E s"
  shows "kv_ok (ts_blocks s)" "kv_ok (ts_index s)" "kv_ok (ts_log s)" "kv_ok (ts_cids s)"
    "map_of (ts_cids s) c = Some p \<longleftrightarrow> (\<exists>e. map_of (ts_log s) p = Some e \<and> le_messageCid e = c)"
    "map_of (ts_log s) p = Some e \<Longrightarrow> 0 < p \<and> p \<le> ts_head s \<and> le_seq e = p
        \<and> distinct (le_fingerprintScopes e) \<and> map_of (ts_index s) (le_messageCid e) = Some (le_indexes e)"
    "dom (map_of (ts_blocks s)) = dom (map_of (ts_cids s))"
    "dom (map_of (ts_index s)) = dom (map_of (ts_cids s))"
    "map_of (ts_blocks s) c = Some m \<Longrightarrow> getCid (se_cids E) m = c"
  using assms unfolding core_ok_def by blast+

lemma core_row:
  assumes "core_ok E s" and "map_of (ts_cids s) c = Some p"
  shows "\<exists>m e. map_of (ts_blocks s) c = Some m \<and> map_of (ts_log s) p = Some e \<and> le_messageCid e = c
           \<and> map_of (ts_index s) c = Some (le_indexes e) \<and> getCid (se_cids E) m = c"
proof -
  obtain e where e: "map_of (ts_log s) p = Some e" "le_messageCid e = c"
    using core_okD(5) [OF assms(1)] assms(2) by blast
  obtain m where m: "map_of (ts_blocks s) c = Some m"
    using core_okD(7) [OF assms(1)] assms(2) by blast
  show ?thesis
    using e m core_okD(6) [OF assms(1) e(1)] core_okD(9) [OF assms(1) m] by blast
qed

lemma row_of_None: "core_ok E s \<Longrightarrow> row_of s c = None \<longleftrightarrow> map_of (ts_cids s) c = None"
  using core_row [of E s c] by (cases "map_of (ts_cids s) c") (auto simp: row_of_def)

lemma contributions_append:
  "contributions hash (xs @ ys) sc = xorFingerprint (contributions hash xs sc) (contributions hash ys sc)"
  by (induction xs) (auto simp: xor_assoc)

lemma contributions_del:
  assumes "\<And>c. length (hash c) = 32" and "distinct (map fst l)" and "map_of l p = Some e"
  shows "contributions hash (members (kv_del p l)) sc
           = xorFingerprint (contributions hash (members l) sc)
               (contribute hash (le_messageCid e) (le_fingerprintScopes e) sc)"
  using assms(2,3)
proof (induction l)
  case (Cons r l)
  obtain q f where r: "r = (q, f)" by (cases r)
  have [simp]: "length (contribute hash c ss sc) = 32" for c ss
    using assms(1) by (simp add: contribute_def)
  show ?case
  proof (cases "q = p")
    case True
    with Cons.prems r have "kv_del p l = l" and e: "e = f"
      unfolding kv_del_def by (auto simp: filter_id_conv image_iff)
    then have "members (kv_del p (r # l)) = members l" using r True by (simp add: kv_del_def)
    moreover have "xorFingerprint (xorFingerprint a b) a = b" if "length b = 32" for a b
      using that by (metis xor_assoc xor_commute xor_self xor_empty)
    ultimately show ?thesis using r e by (simp add: members_def)
  next
    case False
    with Cons r show ?thesis by (simp add: members_def kv_del_def xor_assoc)
  qed
qed simp

lemma members_put_existing:
  assumes "kv_ok l" and "map_of l p = Some e"
    and "le_messageCid e' = le_messageCid e" and "le_fingerprintScopes e' = le_fingerprintScopes e"
  shows "members (kv_put p e' l) = members l"
proof -
  have "e = f" if "(p, f) \<in> set l" for f
    using assms(1,2) level.in_rows_iff that by (metis option.inject)
  then show ?thesis
    unfolding kv_put_existing [OF assms(1,2)] members_def map_map
    using assms(3,4) by (intro map_cong refl) (auto split: if_splits)
qed

lemma members_put_last:
  "\<forall>q \<in> fst ` set l. q < p \<Longrightarrow> members (kv_put p e l) = members l @ [(le_messageCid e, le_fingerprintScopes e)]"
  by (simp add: kv_put_last members_def)

text \<open>The three kinds of change a batch makes to the rows.\<close>

definition insert_row :: "jstr \<Rightarrow> message \<Rightarrow> key_values \<Rightarrow> jstr list \<Rightarrow> tenant_store \<Rightarrow> tenant_store" where
  "insert_row c m i scopes t = batch [PutBlock c m, PutIndex c i,
     PutLog (ts_head t + 1) \<lparr>le_seq = ts_head t + 1, le_messageCid = c, le_indexes = i, le_fingerprintScopes = scopes\<rparr>,
     PutCid c (ts_head t + 1), PutHead (ts_head t + 1)] t"

definition replace_row :: "jstr \<Rightarrow> message \<Rightarrow> key_values \<Rightarrow> nat \<Rightarrow> log_entry \<Rightarrow> tenant_store \<Rightarrow> tenant_store" where
  "replace_row c m i p e t = batch [PutBlock c m, DelIndex c, PutIndex c i, PutLog p (e\<lparr>le_indexes := i\<rparr>)] t"

definition remove_row :: "jstr \<Rightarrow> nat \<Rightarrow> tenant_store \<Rightarrow> tenant_store" where
  "remove_row c p t = batch [DelBlock c, DelIndex c, DelLog p, DelCid c] t"

lemmas row_change_defs = insert_row_def replace_row_def remove_row_def
lemmas kv_maps = map_of_kv_put map_of_kv_del

lemma log_below_head:
  assumes "core_ok E t" and "q \<in> fst ` set (ts_log t)"
  shows "q < ts_head t + 1"
proof -
  obtain e where "map_of (ts_log t) q = Some e" using assms(2)
    by (metis dom_map_of_conv_image_fst domD)
  then show ?thesis using core_okD(6) [OF assms(1)] by fastforce
qed

lemma insert_row_ok:
  assumes ok: "core_ok E t" and new: "map_of (ts_cids t) c = None"
    and m: "getCid (se_cids E) m = c" and sc: "distinct scopes"
  shows "core_ok E (insert_row c m i scopes t)"
    and "row_of (insert_row c m i scopes t) = (row_of t)(c \<mapsto>
           \<lparr>r_position = ts_head t + 1, r_message = m, r_indexes = i, r_scopes = scopes\<rparr>)"
    and "members (ts_log (insert_row c m i scopes t)) = members (ts_log t) @ [(c, scopes)]"
proof -
  let ?t = "insert_row c m i scopes t" and ?p = "ts_head t + 1"
  let ?e = "\<lparr>le_seq = ?p, le_messageCid = c, le_indexes = i, le_fingerprintScopes = scopes\<rparr>"
  note D = core_okD [OF ok]
  have maps: "map_of (ts_blocks ?t) = (map_of (ts_blocks t))(c \<mapsto> m)"
    "map_of (ts_index ?t) = (map_of (ts_index t))(c \<mapsto> i)"
    "map_of (ts_log ?t) = (map_of (ts_log t))(?p \<mapsto> ?e)"
    "map_of (ts_cids ?t) = (map_of (ts_cids t))(c \<mapsto> ?p)" "ts_head ?t = ?p"
    by (simp_all add: insert_row_def kv_maps)
  have old: "le_messageCid e \<noteq> c" "q \<noteq> ?p" if "map_of (ts_log t) q = Some e" for q e
    using D(5) [of c q] D(6) [OF that] that new by auto
  have none: "map_of (ts_log t) ?p = None" using old(2) [of ?p] by fastforce
  show "core_ok E ?t"
    unfolding core_ok_def maps
  proof (intro conjI allI impI)
    show "kv_ok (ts_blocks ?t)" "kv_ok (ts_index ?t)" "kv_ok (ts_log ?t)" "kv_ok (ts_cids ?t)"
      by (simp_all add: insert_row_def kv_ok_put D)
    show "dom ((map_of (ts_blocks t))(c \<mapsto> m)) = dom ((map_of (ts_cids t))(c \<mapsto> ?p))"
      "dom ((map_of (ts_index t))(c \<mapsto> i)) = dom ((map_of (ts_cids t))(c \<mapsto> ?p))" using D(7,8) by auto
  next
    fix c' q
    show "((map_of (ts_cids t))(c \<mapsto> ?p)) c' = Some q \<longleftrightarrow>
        (\<exists>e. ((map_of (ts_log t))(?p \<mapsto> ?e)) q = Some e \<and> le_messageCid e = c')"
      using D(5) [of c' q] old none by (auto simp: fun_upd_apply)
  next
    fix q e assume "((map_of (ts_log t))(?p \<mapsto> ?e)) q = Some e"
    then have "q = ?p \<and> e = ?e \<or> map_of (ts_log t) q = Some e" by (auto split: if_splits)
    then show "0 < q" "q \<le> ?p" "le_seq e = q" "distinct (le_fingerprintScopes e)"
      "((map_of (ts_index t))(c \<mapsto> i)) (le_messageCid e) = Some (le_indexes e)"
      using D(6) [of q e] old(1) [of q e] sc by auto
  next
    fix c' m' assume "((map_of (ts_blocks t))(c \<mapsto> m)) c' = Some m'"
    then show "getCid (se_cids E) m' = c'" using D(9) [of c' m'] m by (auto split: if_splits)
  qed
  have "map_of (ts_cids t) c' \<noteq> Some ?p" for c' using D(5) [of c' ?p] none by auto
  then show "row_of ?t = (row_of t)(c \<mapsto> \<lparr>r_position = ?p, r_message = m, r_indexes = i, r_scopes = scopes\<rparr>)"
    unfolding row_of_def maps by (auto simp: fun_eq_iff split: option.splits)
  show "members (ts_log ?t) = members (ts_log t) @ [(c, scopes)]"
    using log_below_head [OF ok] by (simp add: insert_row_def members_put_last)
qed

lemma replace_row_ok:
  assumes ok: "core_ok E t" and p: "map_of (ts_cids t) c = Some p" and l: "map_of (ts_log t) p = Some e0"
    and e: "le_seq e = le_seq e0" "le_messageCid e = le_messageCid e0"
      "le_fingerprintScopes e = le_fingerprintScopes e0"
    and m: "getCid (se_cids E) m = c"
  shows "core_ok E (replace_row c m i p e t)"
    and "row_of (replace_row c m i p e t) = (row_of t)(c \<mapsto>
           \<lparr>r_position = p, r_message = m, r_indexes = i, r_scopes = le_fingerprintScopes e0\<rparr>)"
    and "members (ts_log (replace_row c m i p e t)) = members (ts_log t)"
    and "ts_head (replace_row c m i p e t) = ts_head t"
    and "ts_cids (replace_row c m i p e t) = ts_cids t"
proof -
  let ?t = "replace_row c m i p e t"
  note D = core_okD [OF ok]
  have maps: "map_of (ts_blocks ?t) = (map_of (ts_blocks t))(c \<mapsto> m)"
    "map_of (ts_index ?t) = (map_of (ts_index t))(c \<mapsto> i)"
    "map_of (ts_log ?t) = (map_of (ts_log t))(p \<mapsto> e\<lparr>le_indexes := i\<rparr>)"
    "map_of (ts_cids ?t) = map_of (ts_cids t)" "ts_head ?t = ts_head t" "ts_cids ?t = ts_cids t"
    by (simp_all add: replace_row_def kv_maps)
  have c: "le_messageCid e0 = c" using D(5) [of c p] p l by auto
  have other: "q = p" if "map_of (ts_log t) q = Some f" "le_messageCid f = c" for q f
    using D(5) [of c q] that p by auto
  have sc: "c \<in> dom (map_of (ts_cids t))" using p by blast
  show "core_ok E ?t"
    unfolding core_ok_def maps
  proof (intro conjI allI impI)
    show "kv_ok (ts_blocks ?t)" "kv_ok (ts_index ?t)" "kv_ok (ts_log ?t)" "kv_ok (ts_cids t)"
      by (simp_all add: replace_row_def kv_ok_put kv_ok_del D)
    show "dom ((map_of (ts_blocks t))(c \<mapsto> m)) = dom (map_of (ts_cids t))"
      "dom ((map_of (ts_index t))(c \<mapsto> i)) = dom (map_of (ts_cids t))" using D(7,8) sc by auto
  next
    fix c' q
    show "map_of (ts_cids t) c' = Some q \<longleftrightarrow>
        (\<exists>f. ((map_of (ts_log t))(p \<mapsto> e\<lparr>le_indexes := i\<rparr>)) q = Some f \<and> le_messageCid f = c')"
      using D(5) [of c' q] l e c by auto
  next
    fix q f assume "((map_of (ts_log t))(p \<mapsto> e\<lparr>le_indexes := i\<rparr>)) q = Some f"
    then have "q = p \<and> f = e\<lparr>le_indexes := i\<rparr> \<or> q \<noteq> p \<and> map_of (ts_log t) q = Some f"
      by (auto split: if_splits)
    then show "0 < q" "q \<le> ts_head t" "le_seq f = q" "distinct (le_fingerprintScopes f)"
      "((map_of (ts_index t))(c \<mapsto> i)) (le_messageCid f) = Some (le_indexes f)"
      using D(6) [of q f] D(6) [OF l] e c other [of q f] by auto
  next
    fix c' m' assume "((map_of (ts_blocks t))(c \<mapsto> m)) c' = Some m'"
    then show "getCid (se_cids E) m' = c'" using D(9) [of c' m'] m by (auto split: if_splits)
  qed
  have "map_of (ts_cids t) c' \<noteq> Some p" if "c' \<noteq> c" for c' using D(5) [of c' p] l c that by auto
  then show "row_of ?t = (row_of t)(c \<mapsto>
      \<lparr>r_position = p, r_message = m, r_indexes = i, r_scopes = le_fingerprintScopes e0\<rparr>)"
    unfolding row_of_def maps using p e by (auto simp: fun_eq_iff split: option.splits)
  show "members (ts_log ?t) = members (ts_log t)"
    using members_put_existing [OF D(3) l, of "e\<lparr>le_indexes := i\<rparr>"] e by (simp add: replace_row_def)
  show "ts_head ?t = ts_head t" "ts_cids ?t = ts_cids t" by (fact maps)+
qed

lemma remove_row_ok:
  assumes ok: "core_ok E t" and p: "map_of (ts_cids t) c = Some p" and l: "map_of (ts_log t) p = Some e"
  shows "core_ok E (remove_row c p t)"
    and "row_of (remove_row c p t) = (row_of t)(c := None)"
    and "ts_head (remove_row c p t) = ts_head t"
    and "ts_log (remove_row c p t) = kv_del p (ts_log t)"
    and "map_of (ts_cids (remove_row c p t)) = (map_of (ts_cids t))(c := None)"
proof -
  let ?t = "remove_row c p t"
  note D = core_okD [OF ok]
  have maps: "map_of (ts_blocks ?t) = (map_of (ts_blocks t))(c := None)"
    "map_of (ts_index ?t) = (map_of (ts_index t))(c := None)"
    "map_of (ts_log ?t) = (map_of (ts_log t))(p := None)"
    "map_of (ts_cids ?t) = (map_of (ts_cids t))(c := None)" "ts_head ?t = ts_head t"
    by (simp_all add: remove_row_def kv_maps)
  have c: "le_messageCid e = c" using D(5) [of c p] p l by auto
  have other: "q = p" if "map_of (ts_log t) q = Some f" "le_messageCid f = c" for q f
    using D(5) [of c q] that p by auto
  show "core_ok E ?t"
    unfolding core_ok_def maps
  proof (intro conjI allI impI)
    show "kv_ok (ts_blocks ?t)" "kv_ok (ts_index ?t)" "kv_ok (ts_log ?t)" "kv_ok (ts_cids ?t)"
      by (simp_all add: remove_row_def kv_ok_del D)
    show "dom ((map_of (ts_blocks t))(c := None)) = dom ((map_of (ts_cids t))(c := None))"
      "dom ((map_of (ts_index t))(c := None)) = dom ((map_of (ts_cids t))(c := None))"
      using D(7,8) by simp_all
  next
    fix c' q
    show "((map_of (ts_cids t))(c := None)) c' = Some q \<longleftrightarrow>
        (\<exists>f. ((map_of (ts_log t))(p := None)) q = Some f \<and> le_messageCid f = c')"
    proof (cases "c' = c")
      case True
      then show ?thesis using other [of q] by auto
    next
      case False
      then have "map_of (ts_cids t) c' \<noteq> Some p" using D(5) [of c' p] l c by auto
      then show ?thesis using False D(5) [of c' q] by auto
    qed
  next
    fix q f assume "((map_of (ts_log t))(p := None)) q = Some f"
    then have "q \<noteq> p \<and> map_of (ts_log t) q = Some f" by (auto split: if_splits)
    then show "0 < q" "q \<le> ts_head t" "le_seq f = q" "distinct (le_fingerprintScopes f)"
      "((map_of (ts_index t))(c := None)) (le_messageCid f) = Some (le_indexes f)"
      using D(6) [of q f] other [of q f] by auto
  next
    fix c' m' assume "((map_of (ts_blocks t))(c := None)) c' = Some m'"
    then show "getCid (se_cids E) m' = c'" using D(9) [of c' m'] by (auto split: if_splits)
  qed
  have "map_of (ts_cids t) c' \<noteq> Some p" if "c' \<noteq> c" for c' using D(5) [of c' p] l c that by auto
  then show "row_of ?t = (row_of t)(c := None)"
    unfolding row_of_def maps by (auto simp: fun_eq_iff split: option.splits)
  show "ts_head ?t = ts_head t" "map_of (ts_cids ?t) = (map_of (ts_cids t))(c := None)" by (fact maps)+
  show "ts_log ?t = kv_del p (ts_log t)" by (simp add: remove_row_def)
qed

section \<open>The operations on rows\<close>

lemma scopes_distinct: "distinct (computeFingerprintScopes m i)"
  by (auto simp: computeFingerprintScopes_def globalDomain_def moduleDomain_def permissionDomain_def
      encryptionDomain_def js_def split: option.splits key_value.splits scalar.splits)

text \<open>The specification of a transition on the rows.\<close>

fun spec_retains :: "(jstr \<times> message \<times> key_values) list \<Rightarrow> (jstr \<rightharpoonup> row) \<Rightarrow> (jstr \<rightharpoonup> row)" where
  "spec_retains [] R = R"
| "spec_retains ((c, m, i) # rs) R =
     spec_retains rs (R(c := map_option (\<lambda>r. r\<lparr>r_message := m, r_indexes := i\<rparr>) (R c)))"

definition spec_commit :: "store_env \<Rightarrow> transition \<Rightarrow> nat \<Rightarrow> (jstr \<rightharpoonup> row) \<Rightarrow> (jstr \<rightharpoonup> row)" where
  "spec_commit E t position R =
     (let c = getCid (se_cids E) (tr_message t);
          R1 = (if R c = None then R(c \<mapsto> \<lparr>r_position = position, r_message = tr_message t,
                  r_indexes = tr_indexes t, r_scopes = computeFingerprintScopes (tr_message t) (tr_indexes t)\<rparr>) else R);
          R2 = spec_retains (tr_retains t) R1
      in (\<lambda>d. if d \<in> set (tr_deletes t) \<and> R d \<noteq> None then None else R2 d))"

text \<open>
  Operations are collected against the committed state \<open>s\<close> and applied to an intermediate state
  \<open>t\<close>, where the rows outside \<open>D\<close> still stand at their positions.
\<close>

definition tracks :: "store_env \<Rightarrow> tenant_store \<Rightarrow> tenant_store \<Rightarrow> jstr set \<Rightarrow> bool" where
  "tracks E s t D \<longleftrightarrow> core_ok E t \<and> (\<forall>c p e. c \<notin> D \<and> map_of (ts_cids s) c = Some p \<and> map_of (ts_log s) p = Some e
     \<longrightarrow> map_of (ts_cids t) c = Some p \<and> (\<exists>e'. map_of (ts_log t) p = Some e' \<and> le_seq e' = le_seq e
          \<and> le_messageCid e' = le_messageCid e \<and> le_fingerprintScopes e' = le_fingerprintScopes e))"

lemma tracks_refl: "core_ok E s \<Longrightarrow> tracks E s s D"
  by (auto simp: tracks_def)

lemma tracksD:
  assumes "tracks E s t D" "c \<notin> D" "map_of (ts_cids s) c = Some p" "map_of (ts_log s) p = Some e"
  obtains e' where "map_of (ts_cids t) c = Some p" "map_of (ts_log t) p = Some e'" "le_seq e' = le_seq e"
    "le_messageCid e' = le_messageCid e" "le_fingerprintScopes e' = le_fingerprintScopes e"
  using assms unfolding tracks_def by blast

lemma insert_operations_row:
  assumes "insert_operations s c m i scopes = Inr ops"
  shows "batch ops s = insert_row c m i scopes s" and "\<forall>x \<in> set ops. \<not> is_fp_op x" and "i \<noteq> []"
  using assms by (auto simp: insert_operations_def Let_def bind_eq_Inr createPutOperations_def getHead_def
      insert_row_def split: if_splits)

lemma getLogEntry_Inr:
  "getLogEntryForMutation s c code = Inr (p, e) \<Longrightarrow> map_of (ts_cids s) c = Some p \<and> map_of (ts_log s) p = Some e"
  by (auto simp: getLogEntryForMutation_def bind_eq_Inr split: option.splits)

lemma createDelete_row:
  "core_ok E s \<Longrightarrow> map_of (ts_cids s) c = Some p \<Longrightarrow> createDeleteOperations s c = [DelIndex c]"
  using core_row [of E s c p] by (auto simp: createDeleteOperations_def)

lemma replace_operations_row:
  assumes "core_ok E s" and "replace_operations s c m i = Inr ops"
  obtains p e where "map_of (ts_cids s) c = Some p" "map_of (ts_log s) p = Some e"
    "batch ops t = replace_row c m i p e t" "\<forall>x \<in> set ops. \<not> is_fp_op x" "i \<noteq> []"
    "scopeSetsMatch (le_fingerprintScopes e) (computeFingerprintScopes m i)"
proof -
  obtain p e idx where g: "getLogEntryForMutation s c ''MessageStoreUpdateMessageAndIndexesMessageNotFound'' = Inr (p, e)"
    and a: "assertFingerprintScopesUntouched (le_fingerprintScopes e) m i = Inr ()"
    and i: "createPutOperations c i = Inr idx"
    and ops: "ops = [PutBlock c m] @ createDeleteOperations s c @ idx @ [PutLog p (e\<lparr>le_indexes := i\<rparr>)]"
    using assms(2) by (auto simp: replace_operations_def bind_eq_Inr split: prod.splits)
  note r = getLogEntry_Inr [OF g]
  have "createDeleteOperations s c = [DelIndex c]" using createDelete_row [OF assms(1)] r by blast
  moreover have "idx = [PutIndex c i]" "i \<noteq> []" using i by (auto simp: createPutOperations_def split: if_splits)
  moreover have "scopeSetsMatch (le_fingerprintScopes e) (computeFingerprintScopes m i)"
    using a by (simp add: assertFingerprintScopesUntouched_def)
  ultimately show thesis using that r ops by (simp add: replace_row_def)
qed

lemma retain_operations_rows:
  assumes "core_ok E s" and "tracks E s t D" and "D = {}"
    and "validate_retains E rs = Inr ()" and "retain_operations s rs = Inr ops"
  shows "tracks E s (batch ops t) D \<and> row_of (batch ops t) = spec_retains rs (row_of t)
       \<and> members (ts_log (batch ops t)) = members (ts_log t) \<and> ts_head (batch ops t) = ts_head t
       \<and> (\<forall>x \<in> set ops. \<not> is_fp_op x)"
  using assms(2,4,5)
proof (induction rs arbitrary: t ops)
  case (Cons r rs)
  obtain c m i where r: "r = (c, m, i)" by (cases r)
  from Cons.prems(3) r obtain o1 o2 where o1: "replace_operations s c m i = Inr o1"
    and o2: "retain_operations s rs = Inr o2" and ops: "ops = o1 @ o2" by (auto simp: bind_eq_Inr)
  from Cons.prems(2) r have cid: "getCid (se_cids E) m = c" and val: "validate_retains E rs = Inr ()"
    by (auto split: if_splits)
  from o1 obtain p e where pe: "map_of (ts_cids s) c = Some p" "map_of (ts_log s) p = Some e"
    and b: "batch o1 t = replace_row c m i p e t" and fp: "\<forall>x \<in> set o1. \<not> is_fp_op x"
    by (rule replace_operations_row [OF assms(1), where t = t])
  from Cons.prems(1) pe assms(3) obtain e' where e': "map_of (ts_cids t) c = Some p" "map_of (ts_log t) p = Some e'"
    "le_seq e' = le_seq e" "le_messageCid e' = le_messageCid e" "le_fingerprintScopes e' = le_fingerprintScopes e"
    by (auto elim: tracksD)
  have ok: "core_ok E t" using Cons.prems(1) by (simp add: tracks_def)
  let ?t = "batch o1 t"
  note R = replace_row_ok [OF ok e'(1,2) e'(3-5) [symmetric] cid, where i = i, folded b]
  have log: "map_of (ts_log ?t) = (map_of (ts_log t))(p \<mapsto> e\<lparr>le_indexes := i\<rparr>)"
    unfolding b by (simp add: replace_row_def kv_maps)
  have "tracks E s ?t D"
    unfolding tracks_def
  proof (intro conjI allI impI)
    fix c' p' f
    assume a: "c' \<notin> D \<and> map_of (ts_cids s) c' = Some p' \<and> map_of (ts_log s) p' = Some f"
    then obtain f' where f': "map_of (ts_cids t) c' = Some p'" "map_of (ts_log t) p' = Some f'"
      "le_seq f' = le_seq f" "le_messageCid f' = le_messageCid f" "le_fingerprintScopes f' = le_fingerprintScopes f"
      using Cons.prems(1) by (auto elim: tracksD)
    show "map_of (ts_cids ?t) c' = Some p'" using f' R(5) by simp
    show "\<exists>e'. map_of (ts_log ?t) p' = Some e' \<and> le_seq e' = le_seq f
          \<and> le_messageCid e' = le_messageCid f \<and> le_fingerprintScopes e' = le_fingerprintScopes f"
      using f' a pe log by (cases "p' = p") auto
  qed (fact R(1))
  from Cons.IH [OF this val o2] have IH: "tracks E s (batch o2 ?t) D"
    "row_of (batch o2 ?t) = spec_retains rs (row_of ?t)"
    "members (ts_log (batch o2 ?t)) = members (ts_log ?t)" "ts_head (batch o2 ?t) = ts_head ?t"
    "\<forall>x \<in> set o2. \<not> is_fp_op x" by auto
  obtain m0 where "row_of t c = Some \<lparr>r_position = p, r_message = m0, r_indexes = le_indexes e', r_scopes = le_fingerprintScopes e'\<rparr>"
    using core_row [OF ok e'(1)] e'(1,2) by (auto simp: row_of_def)
  then have "row_of ?t = (row_of t)(c := map_option (\<lambda>r. r\<lparr>r_message := m, r_indexes := i\<rparr>) (row_of t c))"
    using R(2) by simp
  with IH R(3,4) fp show ?case by (auto simp: ops r)
qed simp

lemma remove_operations_row:
  assumes "core_ok E s" and "remove_operations s c = Inr (ops, folds)"
  shows "(map_of (ts_cids s) c = None \<and> ops = [] \<and> folds = []) \<or>
    (\<exists>p e. map_of (ts_cids s) c = Some p \<and> map_of (ts_log s) p = Some e
       \<and> ops = [DelBlock c, DelIndex c, DelLog p, DelCid c] \<and> folds = [(c, le_fingerprintScopes e)])"
  using assms createDelete_row [OF assms(1), of c]
  by (auto simp: remove_operations_def bind_eq_Inr split: option.splits)

text \<open>What removing one row does to the intermediate state.\<close>

definition removed :: "store_env \<Rightarrow> tenant_store \<Rightarrow> jstr \<Rightarrow> tenant_store \<Rightarrow> tenant_store \<Rightarrow> (jstr \<times> jstr list) list \<Rightarrow> bool" where
  "removed E s c t t' folds \<longleftrightarrow>
     row_of t' = (\<lambda>d. if d = c \<and> map_of (ts_cids s) d \<noteq> None then None else row_of t d)
   \<and> ts_head t' = ts_head t \<and> (\<forall>(c, scopes) \<in> set folds. distinct scopes)
   \<and> (\<forall>sc. contributions (se_hash E) (members (ts_log t')) sc
        = xorFingerprint (contributions (se_hash E) (members (ts_log t)) sc) (contributions (se_hash E) folds sc))"

lemma remove_operations_step:
  assumes s: "core_ok E s" and hash: "\<And>c. length (se_hash E c) = 32"
    and t: "tracks E s t D" and D: "c \<notin> D" and r: "remove_operations s c = Inr (ops, folds)"
  shows "tracks E s (batch ops t) (insert c D) \<and> removed E s c t (batch ops t) folds
       \<and> (\<forall>x \<in> set ops. \<not> is_fp_op x)"
  using remove_operations_row [OF s r]
proof (elim disjE exE conjE)
  assume a: "map_of (ts_cids s) c = None" "ops = []" "folds = []"
  then show ?thesis using t by (auto simp: tracks_def removed_def fun_eq_iff)
next
  fix p e assume a: "map_of (ts_cids s) c = Some p" "map_of (ts_log s) p = Some e"
    "ops = [DelBlock c, DelIndex c, DelLog p, DelCid c]" "folds = [(c, le_fingerprintScopes e)]"
  have ok: "core_ok E t" using t by (simp add: tracks_def)
  from t D a(1,2) obtain e' where e': "map_of (ts_cids t) c = Some p" "map_of (ts_log t) p = Some e'"
    "le_messageCid e' = le_messageCid e" "le_fingerprintScopes e' = le_fingerprintScopes e"
    by (auto elim!: tracksD)
  have b: "batch ops t = remove_row c p t" by (simp add: a(3) remove_row_def)
  note R = remove_row_ok [OF ok e'(1,2), folded b]
  have ec: "le_messageCid e = c" using core_okD(5) [OF s, of c p] a by auto
  have track: "tracks E s (batch ops t) (insert c D)"
    unfolding tracks_def
  proof (intro conjI allI impI)
    fix c' p' f assume x: "c' \<notin> insert c D \<and> map_of (ts_cids s) c' = Some p' \<and> map_of (ts_log s) p' = Some f"
    then obtain f' where f': "map_of (ts_cids t) c' = Some p'" "map_of (ts_log t) p' = Some f'"
      "le_seq f' = le_seq f" "le_messageCid f' = le_messageCid f" "le_fingerprintScopes f' = le_fingerprintScopes f"
      using t by (auto elim: tracksD)
    have "p' \<noteq> p" using x a(1,2) core_okD(5) [OF s, of c' p'] ec by auto
    then show "map_of (ts_cids (batch ops t)) c' = Some p'" "\<exists>e'. map_of (ts_log (batch ops t)) p' = Some e' \<and> le_seq e' = le_seq f
      \<and> le_messageCid e' = le_messageCid f \<and> le_fingerprintScopes e' = le_fingerprintScopes f"
      using f' x R(4,5) by (auto simp: map_of_kv_del)
  qed (fact R(1))
  have "distinct (map fst (ts_log t))" using core_okD(3) [OF ok] by (rule level.distinct_keys)
  from contributions_del [OF hash this e'(2)] have
    "contributions (se_hash E) (members (ts_log (batch ops t))) sc
      = xorFingerprint (contributions (se_hash E) (members (ts_log t)) sc) (contributions (se_hash E) folds sc)" for sc
    using R(4) e'(3,4) ec hash by (simp add: a(4) contribute_def)
  moreover have "distinct (le_fingerprintScopes e)" using core_okD(6) [OF s a(2)] by simp
  moreover have "row_of (batch ops t) = (\<lambda>d. if d = c \<and> map_of (ts_cids s) d \<noteq> None then None else row_of t d)"
    using R(2) a(1) by auto
  ultimately show ?thesis using track R(3) a(3,4) by (simp add: removed_def)
qed

lemma delete_operations_rows:
  assumes s: "core_ok E s" and hash: "\<And>c. length (se_hash E c) = 32"
    and "tracks E s t D" and "distinct cs" and "set cs \<inter> D = {}" and "delete_operations s cs = Inr (ops, folds)"
  shows "core_ok E (batch ops t) \<and> (\<forall>x \<in> set ops. \<not> is_fp_op x) \<and> ts_head (batch ops t) = ts_head t
       \<and> row_of (batch ops t) = (\<lambda>d. if d \<in> set cs \<and> map_of (ts_cids s) d \<noteq> None then None else row_of t d)
       \<and> (\<forall>(c, scopes) \<in> set folds. distinct scopes)
       \<and> (\<forall>sc. contributions (se_hash E) (members (ts_log (batch ops t))) sc
            = xorFingerprint (contributions (se_hash E) (members (ts_log t)) sc) (contributions (se_hash E) folds sc))"
  using assms(3-)
proof (induction cs arbitrary: t D ops folds)
  case Nil
  then show ?case by (auto simp: tracks_def)
next
  case (Cons c cs)
  from Cons.prems(4) obtain o1 f1 o2 f2 where o1: "remove_operations s c = Inr (o1, f1)"
    and o2: "delete_operations s cs = Inr (o2, f2)" "ops = o1 @ o2" "folds = f1 @ f2"
    by (auto simp: bind_eq_Inr split: prod.splits)
  have "c \<notin> D" "distinct cs" "set cs \<inter> insert c D = {}" using Cons.prems(2,3) by auto
  then have t: "tracks E s (batch o1 t) (insert c D)" "removed E s c t (batch o1 t) f1" "\<forall>x \<in> set o1. \<not> is_fp_op x"
    and IH: "tracks E s t' (insert c D) \<Longrightarrow> core_ok E (batch o2 t') \<and> (\<forall>x \<in> set o2. \<not> is_fp_op x)
       \<and> ts_head (batch o2 t') = ts_head t'
       \<and> row_of (batch o2 t') = (\<lambda>d. if d \<in> set cs \<and> map_of (ts_cids s) d \<noteq> None then None else row_of t' d)
       \<and> (\<forall>(c, scopes) \<in> set f2. distinct scopes)
       \<and> (\<forall>sc. contributions (se_hash E) (members (ts_log (batch o2 t'))) sc
            = xorFingerprint (contributions (se_hash E) (members (ts_log t')) sc) (contributions (se_hash E) f2 sc))" for t'
    using remove_operations_step [OF s hash Cons.prems(1) _ o1] Cons.IH [of t' "insert c D"] o2(1) by auto
  from IH [OF t(1)] t(2,3) o2 show ?case
    by (auto simp: removed_def contributions_append xor_assoc fun_eq_iff)
qed

text \<open>
  Closing a batch: the core of the new state is that of \<open>t\<close>, and the folds bring the stored
  fingerprints in line with the rows of \<open>t\<close>.
\<close>

lemma store_ok_close:
  assumes ok: "store_ok E s" and hash: "\<And>c. length (se_hash E c) = 32"
    and t: "core_ok E t" "ts_fps t = ts_fps s" and d: "\<forall>(c, scopes) \<in> set folds. distinct scopes"
    and x: "\<And>sc. contributions (se_hash E) (members (ts_log t)) sc
      = xorFingerprint (contributions (se_hash E) (members (ts_log s)) sc) (contributions (se_hash E) folds sc)"
  shows "store_ok E (batch (createFingerprintFoldOperationsForMessages E s folds) t)"
    and "row_of (batch (createFingerprintFoldOperationsForMessages E s folds) t) = row_of t"
    and "ts_head (batch (createFingerprintFoldOperationsForMessages E s folds) t) = ts_head t"
    and "ts_log (batch (createFingerprintFoldOperationsForMessages E s folds) t) = ts_log t"
proof -
  let ?t = "batch (createFingerprintFoldOperationsForMessages E s folds) t"
  note F = batch_fp [OF fold_ops_fp, of E s folds t]
  have "kv_ok (ts_fps ?t)" using ok t(2) by (intro kv_ok_fps_batch) (simp add: store_ok_def)
  moreover have "core_ok E ?t" using t(1) F by (simp add: core_ok_def)
  moreover have "stored_fingerprint ?t (fingerprintKey sc) = contributions (se_hash E) (members (ts_log ?t)) sc" for sc
    using stored_after_folds [OF hash d t(2), of sc] ok x [of sc] F by (simp add: store_ok_def)
  ultimately show "store_ok E ?t" by (simp add: store_ok_def)
  show "row_of ?t = row_of t" unfolding row_of_def using F by (simp only:)
  show "ts_head ?t = ts_head t" "ts_log ?t = ts_log t" using F by auto
qed

lemma insert_phase:
  fixes E s m i
  defines "c \<equiv> getCid (se_cids E) m" and "sc \<equiv> computeFingerprintScopes m i"
  assumes core: "core_ok E s"
    and ins: "(if map_of (ts_cids s) c = None then insert_operations s c m i sc else Inr []) = Inr ins"
  shows "tracks E s (batch ins s) {}" and "\<forall>x \<in> set ins. \<not> is_fp_op x"
    and "ts_head (batch ins s) = (if map_of (ts_cids s) c = None then ts_head s + 1 else ts_head s)"
    and "row_of (batch ins s) = (if map_of (ts_cids s) c = None then (row_of s)(c \<mapsto>
           \<lparr>r_position = ts_head s + 1, r_message = m, r_indexes = i, r_scopes = sc\<rparr>) else row_of s)"
    and "members (ts_log (batch ins s))
           = members (ts_log s) @ (if map_of (ts_cids s) c = None then [(c, sc)] else [])"
proof -
  have "tracks E s (batch ins s) {} \<and> (\<forall>x \<in> set ins. \<not> is_fp_op x)
    \<and> ts_head (batch ins s) = (if map_of (ts_cids s) c = None then ts_head s + 1 else ts_head s)
    \<and> row_of (batch ins s) = (if map_of (ts_cids s) c = None then (row_of s)(c \<mapsto>
         \<lparr>r_position = ts_head s + 1, r_message = m, r_indexes = i, r_scopes = sc\<rparr>) else row_of s)
    \<and> members (ts_log (batch ins s))
         = members (ts_log s) @ (if map_of (ts_cids s) c = None then [(c, sc)] else [])"
  proof (cases "map_of (ts_cids s) c = None")
    case True
    with ins have i: "insert_operations s c m i sc = Inr ins" by simp
    have "distinct sc" unfolding sc_def by (rule scopes_distinct)
    note I = insert_operations_row [OF i] insert_row_ok [OF core True c_def [symmetric, THEN meta_eq_to_obj_eq] this, of i]
    have "map_of (ts_log s) (ts_head s + 1) = None"
      using core_okD(6) [OF core, of "ts_head s + 1"] by (cases "map_of (ts_log s) (ts_head s + 1)") auto
    then have "tracks E s (batch ins s) {}"
      using I True unfolding tracks_def by (auto simp: insert_row_def kv_maps)
    with True I show ?thesis by simp (simp add: insert_row_def)
  next
    case False
    then show ?thesis using ins core by (auto simp: tracks_def)
  qed
  then show "tracks E s (batch ins s) {}" "\<forall>x \<in> set ins. \<not> is_fp_op x"
    "ts_head (batch ins s) = (if map_of (ts_cids s) c = None then ts_head s + 1 else ts_head s)"
    "row_of (batch ins s) = (if map_of (ts_cids s) c = None then (row_of s)(c \<mapsto>
       \<lparr>r_position = ts_head s + 1, r_message = m, r_indexes = i, r_scopes = sc\<rparr>) else row_of s)"
    "members (ts_log (batch ins s))
       = members (ts_log s) @ (if map_of (ts_cids s) c = None then [(c, sc)] else [])" by blast+
qed

lemma commitLatestState_rows:
  assumes ok: "store_ok E s" and hash: "\<And>c. length (se_hash E c) = 32"
    and d: "distinct (tr_deletes t)" and r: "commitLatestState E s t = Inr (res, s')"
  shows "store_ok E s' \<and> row_of s' = spec_commit E t (ts_head s + 1) (row_of s)
       \<and> ts_head s' = (if row_of s (getCid (se_cids E) (tr_message t)) = None then ts_head s + 1 else ts_head s)"
proof -
  let ?m = "tr_message t" and ?i = "tr_indexes t"
  let ?c = "getCid (se_cids E) ?m" and ?sc = "computeFingerprintScopes ?m ?i"
  let ?new = "map_of (ts_cids s) ?c = None"
  have core: "core_ok E s" using ok by (simp add: store_ok_def)
  obtain ins ret del folds where val: "validate_retains E (tr_retains t) = Inr ()"
    and ins: "(if ?new then insert_operations s ?c ?m ?i ?sc else Inr []) = Inr ins"
    and ret: "retain_operations s (tr_retains t) = Inr ret"
    and del: "delete_operations s (tr_deletes t) = Inr (del, folds)"
    and s': "s' = batch (ins @ ret @ del @ createFingerprintFoldOperationsForMessages E s
                    ((if ?new then [(?c, ?sc)] else []) @ folds)) s"
    using r by (auto simp: commitLatestState_def Let_def bind_eq_Inr split: prod.splits)
  let ?f = "(if ?new then [(?c, ?sc)] else [])"
  define t1 where "t1 = batch ins s"
  define t2 where "t2 = batch ret t1"
  define t3 where "t3 = batch del t2"
  have new: "?new \<longleftrightarrow> row_of s ?c = None" using row_of_None [OF core] by simp
  note 1 = insert_phase [OF core ins, folded t1_def]
  have 2: "tracks E s t2 {}" "row_of t2 = spec_retains (tr_retains t) (row_of t1)"
    "members (ts_log t2) = members (ts_log t1)" "ts_head t2 = ts_head t1" "\<forall>x \<in> set ret. \<not> is_fp_op x"
    using retain_operations_rows [OF core 1(1) refl val ret] by (auto simp: t2_def)
  have 3: "core_ok E t3" "\<forall>x \<in> set del. \<not> is_fp_op x" "ts_head t3 = ts_head t2"
    "row_of t3 = (\<lambda>d. if d \<in> set (tr_deletes t) \<and> map_of (ts_cids s) d \<noteq> None then None else row_of t2 d)"
    "\<forall>(c, scopes) \<in> set folds. distinct scopes"
    "contributions (se_hash E) (members (ts_log t3)) sc
       = xorFingerprint (contributions (se_hash E) (members (ts_log t2)) sc) (contributions (se_hash E) folds sc)" for sc
    using delete_operations_rows [OF core hash 2(1) d _ del] by (auto simp: t3_def)
  have fps: "ts_fps t3 = ts_fps s"
    using batch_no_fp [OF 1(2)] batch_no_fp [OF 2(5)] batch_no_fp [OF 3(2)] by (simp add: t1_def t2_def t3_def)
  have dist: "\<forall>(c, scopes) \<in> set (?f @ folds). distinct scopes" using 3(5) scopes_distinct by auto
  have x: "contributions (se_hash E) (members (ts_log t3)) sc
      = xorFingerprint (contributions (se_hash E) (members (ts_log s)) sc) (contributions (se_hash E) (?f @ folds) sc)" for sc
    unfolding 3(6) 2(3) 1(5) contributions_append by (simp only: xor_assoc)
  have final: "s' = batch (createFingerprintFoldOperationsForMessages E s (?f @ folds)) t3"
    using s' by (simp add: t1_def t2_def t3_def)
  note C = store_ok_close [OF ok hash 3(1) fps dist x, folded final]
  have "row_of t3 = spec_commit E t (ts_head s + 1) (row_of s)"
    unfolding 3(4) 2(2) 1(4) spec_commit_def Let_def row_of_None [OF core] by (simp only:)
  with C 1(3) 2(4) 3(3) new show ?thesis by simp
qed

lemma put_commit:
  "put E s m i = commitLatestState E s \<lparr>tr_message = m, tr_indexes = i, tr_retains = [], tr_deletes = []\<rparr>"
  by (auto simp: put_def commitLatestState_def Let_def bind_def createFingerprintFoldOperations_def
      createFingerprintFoldOperationsForMessages_def split: option.splits sum.splits)

lemma ms_delete_rows:
  assumes ok: "store_ok E s" and hash: "\<And>c. length (se_hash E c) = 32" and r: "ms_delete E s c = Inr s'"
  shows "store_ok E s' \<and> row_of s' = (row_of s)(c := None) \<and> ts_head s' = ts_head s"
proof -
  have core: "core_ok E s" using ok by (simp add: store_ok_def)
  obtain ops folds where o: "remove_operations s c = Inr (ops, folds)"
    and s': "s' = batch (createFingerprintFoldOperationsForMessages E s folds) (batch ops s)"
    using r by (auto simp: ms_delete_def bind_eq_Inr split: prod.splits)
  from remove_operations_step [OF core hash tracks_refl [OF core, of "{}"] _ o]
  have t: "tracks E s (batch ops s) {c}" "removed E s c s (batch ops s) folds" "\<forall>x \<in> set ops. \<not> is_fp_op x" by auto
  have "core_ok E (batch ops s)" using t(1) by (simp add: tracks_def)
  note C = store_ok_close [OF ok hash this batch_no_fp [OF t(3)], of folds, folded s']
  have "row_of (batch ops s) = (row_of s)(c := None)"
    using t(2) row_of_None [OF core, of c] by (auto simp: removed_def fun_eq_iff)
  with C t(2) show ?thesis by (simp add: removed_def)
qed

lemma replace_ok:
  assumes ok: "store_ok E s" and p: "map_of (ts_cids s) c = Some p" "map_of (ts_log s) p = Some e"
    and m: "getCid (se_cids E) m = c"
  shows "store_ok E (replace_row c m i p e s)"
    and "row_of (replace_row c m i p e s)
           = (row_of s)(c := map_option (\<lambda>r. r\<lparr>r_message := m, r_indexes := i\<rparr>) (row_of s c))"
    and "ts_head (replace_row c m i p e s) = ts_head s"
proof -
  have core: "core_ok E s" using ok by (simp add: store_ok_def)
  note R = replace_row_ok [OF core p refl refl refl m, of i]
  have "ts_fps (replace_row c m i p e s) = ts_fps s" by (simp add: replace_row_def)
  with R(1,3) ok show "store_ok E (replace_row c m i p e s)"
    by (simp add: store_ok_def stored_fingerprint_def)
  obtain m0 where "row_of s c = Some \<lparr>r_position = p, r_message = m0, r_indexes = le_indexes e, r_scopes = le_fingerprintScopes e\<rparr>"
    using core_row [OF core p(1)] p by (auto simp: row_of_def)
  with R(2) show "row_of (replace_row c m i p e s)
      = (row_of s)(c := map_option (\<lambda>r. r\<lparr>r_message := m, r_indexes := i\<rparr>) (row_of s c))" by simp
  show "ts_head (replace_row c m i p e s) = ts_head s" by (fact R(4))
qed

lemma updateMessageAndIndexes_rows:
  assumes ok: "store_ok E s" and r: "updateMessageAndIndexes E s c m i = Inr s'"
  shows "store_ok E s' \<and> row_of s' = (row_of s)(c := map_option (\<lambda>r. r\<lparr>r_message := m, r_indexes := i\<rparr>) (row_of s c))
       \<and> ts_head s' = ts_head s \<and> row_of s c \<noteq> None"
proof -
  have core: "core_ok E s" using ok by (simp add: store_ok_def)
  have cid: "getCid (se_cids E) m = c" using r by (auto simp: updateMessageAndIndexes_def split: if_splits)
  then obtain ops where o: "replace_operations s c m i = Inr ops" "s' = batch ops s"
    using r by (auto simp: updateMessageAndIndexes_def bind_eq_Inr)
  from o(1) obtain p e where "map_of (ts_cids s) c = Some p" "map_of (ts_log s) p = Some e"
    "batch ops s = replace_row c m i p e s"
    by (rule replace_operations_row [OF core, where t = s])
  with o(2) replace_ok [OF ok _ _ cid, of p e i] row_of_None [OF core, of c] show ?thesis by auto
qed

lemma updateIndexes_rows:
  assumes ok: "store_ok E s" and r: "updateIndexes s c i = Inr s'"
  shows "store_ok E s' \<and> row_of s' = (row_of s)(c := map_option (\<lambda>r. r\<lparr>r_indexes := i\<rparr>) (row_of s c))
       \<and> ts_head s' = ts_head s \<and> row_of s c \<noteq> None"
proof -
  have core: "core_ok E s" using ok by (simp add: store_ok_def)
  obtain p e m idx where g: "getLogEntryForMutation s c ''MessageStoreUpdateIndexesMessageNotFound'' = Inr (p, e)"
    and m: "map_of (ts_blocks s) c = Some m" and i: "createPutOperations c i = Inr idx"
    and s': "s' = batch (createDeleteOperations s c @ idx @ [PutLog p (e\<lparr>le_indexes := i\<rparr>)]) s"
    using r by (auto simp: updateIndexes_def bind_eq_Inr readStoredMessage_def split: prod.splits option.splits)
  note g = getLogEntry_Inr [OF g]
  have "createDeleteOperations s c = [DelIndex c]" using createDelete_row [OF core] g by blast
  moreover have "idx = [PutIndex c i]" using i by (auto simp: createPutOperations_def split: if_splits)
  moreover have "kv_put c m (ts_blocks s) = ts_blocks s" using kv_put_same [OF core_okD(1) [OF core] m] .
  ultimately have "s' = replace_row c m i p e s" by (simp add: s' replace_row_def)
  moreover have "row_of s c = Some \<lparr>r_position = p, r_message = m, r_indexes = le_indexes e, r_scopes = le_fingerprintScopes e\<rparr>"
    using g m by (simp add: row_of_def)
  moreover have cid: "getCid (se_cids E) m = c" using core_okD(9) [OF core m] .
  ultimately show ?thesis
    using replace_ok [OF ok conjunct1 [OF g] conjunct2 [OF g] cid, of i] by simp
qed

definition completed_message :: "write_message \<Rightarrow> jstr option \<Rightarrow> message" where
  "completed_message w d = WriteMsg (case d of None \<Rightarrow> w | Some x \<Rightarrow> w\<lparr>w_encodedData := Some x\<rparr>)"

lemma completeData_cases:
  assumes "completeData E s c i d = Inr (res, s')"
  obtains (same) "s' = s" "res = CDuplicate \<or> res = CSuperseded"
  | (moved) p e w idx where "map_of (ts_cids s) c = Some p" "map_of (ts_log s) p = Some e"
      "map_of (ts_blocks s) c = Some (WriteMsg w)" "createPutOperations c i = Inr idx"
      "res = CCompleted (buildToken E (ts_head s + 1) (Some c))"
      "scopeSetsMatch (le_fingerprintScopes e) (computeFingerprintScopes (WriteMsg w) i)"
      "s' = batch ((case d of None \<Rightarrow> [] | Some x \<Rightarrow> [PutBlock c (WriteMsg (w\<lparr>w_encodedData := Some x\<rparr>))])
              @ createDeleteOperations s c @ idx
              @ [DelLog p, PutLog (ts_head s + 1) (e\<lparr>le_indexes := i, le_seq := ts_head s + 1\<rparr>),
                 PutCid c (ts_head s + 1), PutHead (ts_head s + 1)]) s"
proof -
  obtain p e m where g: "getLogEntryForMutation s c ''MessageStoreCompleteDataInvalidTarget'' = Inr (p, e)"
    and m: "map_of (ts_blocks s) c = Some m"
    using assms by (auto simp: completeData_def bind_eq_Inr readStoredMessage_def split: prod.splits option.splits)
  note g' = getLogEntry_Inr [OF g]
  show thesis
  proof (cases m)
    case (WriteMsg w)
    with assms g m show thesis
      by (auto simp: completeData_def readStoredMessage_def bind_eq_Inr Let_def getHead_def
          assertFingerprintScopesUntouched_def split: if_splits
          intro: same moved [OF conjunct1 [OF g'] conjunct2 [OF g']])
  qed (use assms g m in \<open>simp_all add: completeData_def readStoredMessage_def\<close>)
qed

lemma completeData_rows:
  assumes ok: "store_ok E s" and hash: "\<And>c. length (se_hash E c) = 32" and r: "completeData E s c i d = Inr (res, s')"
  shows "store_ok E s' \<and>
    ((s' = s \<and> res \<noteq> CCompleted t) \<or>
     (\<exists>w q. res = CCompleted (buildToken E (ts_head s + 1) (Some c)) \<and> row_of s c = Some q \<and> r_message q = WriteMsg w
       \<and> row_of s' = (row_of s)(c \<mapsto> \<lparr>r_position = ts_head s + 1, r_message = completed_message w d,
            r_indexes = i, r_scopes = r_scopes q\<rparr>) \<and> ts_head s' = ts_head s + 1))"
  using r
proof (cases rule: completeData_cases)
  case same
  with ok show ?thesis by auto
next
  case (moved p e w idx)
  have core: "core_ok E s" using ok by (simp add: store_ok_def)
  note D = core_okD [OF core]
  let ?m = "completed_message w d"
  have "getCid (se_cids E) (WriteMsg w) = c" using D(9) moved(3) by blast
  then have cid: "getCid (se_cids E) ?m = c"
    by (simp add: completed_message_def getCid_def split: option.splits)
  have ec: "le_messageCid e = c" using D(5) [of c p] moved(1,2) by auto
  define t where "t = remove_row c p s"
  note R = remove_row_ok [OF core moved(1,2), folded t_def]
  have sc: "distinct (le_fingerprintScopes e)" using D(6) [OF moved(2)] by simp
  have "map_of (ts_cids t) c = None" using R(5) by simp
  note I = insert_row_ok [OF R(1) this cid sc, of i]
  have entry: "e\<lparr>le_indexes := i, le_seq := n\<rparr> = \<lparr>le_seq = n, le_messageCid = c,
      le_indexes = i, le_fingerprintScopes = le_fingerprintScopes e\<rparr>" for n using ec by (cases e) simp
  have "kv_put c ?m (ts_blocks s) = (case d of None \<Rightarrow> ts_blocks s
      | Some x \<Rightarrow> kv_put c (WriteMsg (w\<lparr>w_encodedData := Some x\<rparr>)) (ts_blocks s))"
    using kv_put_same [OF D(1) moved(3)] by (simp add: completed_message_def split: option.splits)
  then have s': "s' = insert_row c ?m i (le_fingerprintScopes e) t"
    using moved(4,7) createDelete_row [OF core moved(1)] kv_put_del [OF D(1)] kv_put_del [OF D(4)]
    by (auto simp: t_def remove_row_def insert_row_def entry createPutOperations_def split: if_splits option.splits)
  have "contributions (se_hash E) (members (ts_log s')) sc = contributions (se_hash E) (members (ts_log s)) sc" for sc
    using contributions_del [OF hash level.distinct_keys [OF D(3)] moved(2), where sc = sc] R(4) I(3) ec hash
    by (simp add: s' contributions_append xor_assoc contribute_def xor_self)
  moreover have "ts_fps s' = ts_fps s" by (simp add: s' t_def insert_row_def remove_row_def)
  ultimately have ok': "store_ok E s'"
    using ok I(1) by (simp add: store_ok_def s' stored_fingerprint_def)
  have row: "row_of s c = Some \<lparr>r_position = p, r_message = WriteMsg w, r_indexes = le_indexes e, r_scopes = le_fingerprintScopes e\<rparr>"
    using moved(1-3) by (simp add: row_of_def)
  have head: "ts_head t = ts_head s" "ts_head s' = ts_head s + 1" using R(3) by (simp_all add: s' insert_row_def)
  have "row_of s' = (row_of s)(c \<mapsto> \<lparr>r_position = ts_head s + 1, r_message = ?m, r_indexes = i, r_scopes = le_fingerprintScopes e\<rparr>)"
    using I(2) R(2) head by (simp add: s')
  with ok' row head moved(5) show ?thesis by (intro conjI disjI2 exI) auto
qed

section \<open>Reachable stores\<close>

text \<open>
  The store between two committed batches: every operation that changes state is a step.
  A transition lists each displaced message once.
\<close>

inductive store_step :: "store_env \<Rightarrow> tenant_store \<Rightarrow> tenant_store \<Rightarrow> bool" for E where
  put: "put E s m i = Inr (res, s') \<Longrightarrow> store_step E s s'"
| commit: "distinct (tr_deletes t) \<Longrightarrow> commitLatestState E s t = Inr (res, s') \<Longrightarrow> store_step E s s'"
| update: "updateIndexes s c i = Inr s' \<Longrightarrow> store_step E s s'"
| replace: "updateMessageAndIndexes E s c m i = Inr s' \<Longrightarrow> store_step E s s'"
| complete: "completeData E s c i d = Inr (res', s') \<Longrightarrow> store_step E s s'"
| delete: "ms_delete E s c = Inr s' \<Longrightarrow> store_step E s s'"

inductive store_reachable :: "store_env \<Rightarrow> tenant_store \<Rightarrow> tenant_store \<Rightarrow> bool" for E where
  here: "store_reachable E s s"
| further: "store_reachable E s t \<Longrightarrow> store_step E t u \<Longrightarrow> store_reachable E s u"

lemma empty_store_ok: "store_ok E empty_store"
  by (simp add: store_ok_def core_ok_def empty_store_def stored_fingerprint_def members_def)

lemma spec_retains_position:
  "spec_retains rs R d = Some r' \<Longrightarrow> \<exists>r. R d = Some r \<and> r_position r = r_position r' \<and> r_scopes r = r_scopes r'"
proof (induction rs arbitrary: R)
  case (Cons x rs)
  obtain c m i where x: "x = (c, m, i)" by (cases x)
  from Cons.IH [OF Cons.prems [unfolded x spec_retains.simps]] show ?case
    by (cases "R c") (auto simp: split: if_splits)
qed simp

text \<open>A step keeps the invariant, never lowers the head, and leaves every position at or below
  the old head to the message that had it.\<close>

lemma store_step_ok:
  assumes step: "store_step E s s'" and ok: "store_ok E s" and hash: "\<And>c. length (se_hash E c) = 32"
  shows "store_ok E s' \<and> ts_head s \<le> ts_head s' \<and>
    (\<forall>c r'. row_of s' c = Some r' \<and> r_position r' \<le> ts_head s \<longrightarrow>
       (\<exists>r. row_of s c = Some r \<and> r_position r = r_position r' \<and> r_scopes r = r_scopes r'))"
proof -
  have C: ?thesis if "distinct (tr_deletes t)" "commitLatestState E s t = Inr (res, s')" for t res
  proof -
    note C = commitLatestState_rows [OF ok hash that]
    have "\<exists>r. row_of s c = Some r \<and> r_position r = r_position r' \<and> r_scopes r = r_scopes r'"
      if "row_of s' c = Some r'" "r_position r' \<le> ts_head s" for c r'
      using that C spec_retains_position [of "tr_retains t" _ c r']
      by (fastforce simp: spec_commit_def Let_def split: if_splits)
    with C show ?thesis by auto
  qed
  from step show ?thesis
  proof cases
    case (put m i res)
    then show ?thesis
      using C [of "\<lparr>tr_message = m, tr_indexes = i, tr_retains = [], tr_deletes = []\<rparr>" res]
      by (simp add: put_commit)
  next
    case (commit t res)
    then show ?thesis by (rule C)
  next
    case (update c i)
    with updateIndexes_rows [OF ok] show ?thesis by (fastforce split: if_splits)
  next
    case (replace c m i)
    with updateMessageAndIndexes_rows [OF ok] show ?thesis by (fastforce split: if_splits)
  next
    case (complete c i d res)
    with completeData_rows [OF ok hash] show ?thesis by (fastforce split: if_splits)
  next
    case (delete c)
    with ms_delete_rows [OF ok hash] show ?thesis by (fastforce split: if_splits)
  qed
qed

lemma store_reachable_ok:
  assumes "store_reachable E s t" and "store_ok E s" and hash: "\<And>c. length (se_hash E c) = 32"
  shows "store_ok E t \<and> ts_head s \<le> ts_head t \<and>
    (\<forall>c r'. row_of t c = Some r' \<and> r_position r' \<le> ts_head s \<longrightarrow>
       (\<exists>r. row_of s c = Some r \<and> r_position r = r_position r' \<and> r_scopes r = r_scopes r'))"
  using assms(1,2)
proof (induction rule: store_reachable.induct)
  case (further s t u)
  note T = further.IH [OF further.prems]
  note U = store_step_ok [OF further.hyps(2) conjunct1 [OF T] hash]
  have "\<exists>r. row_of s c = Some r \<and> r_position r = r_position r' \<and> r_scopes r = r_scopes r'"
    if u: "row_of u c = Some r'" "r_position r' \<le> ts_head s" for c r'
  proof -
    obtain q where "row_of t c = Some q" "r_position q = r_position r'" "r_scopes q = r_scopes r'"
      using U T u order_trans by blast
    with T u show ?thesis by fastforce
  qed
  with T U show ?case by auto
qed auto

section \<open>Facts about reading the log\<close>

definition row_event :: "store_env \<Rightarrow> tenant_store \<Rightarrow> filter_t list option \<Rightarrow> nat \<times> log_entry \<Rightarrow> log_event option" where
  "row_event E s fs r = readEventFromLogEntry E s (fst r) (snd r) fs"

lemma row_event_pair [simp]: "row_event E s fs (p, e) = readEventFromLogEntry E s p e fs"
  by (simp add: row_event_def)

text \<open>The events a reader still has to see after a position.\<close>

definition events_from :: "store_env \<Rightarrow> tenant_store \<Rightarrow> filter_t list option \<Rightarrow> nat \<Rightarrow> log_event list" where
  "events_from E s fs a = List.map_filter (row_event E s fs)
     (filter (\<lambda>r. a < fst r \<and> fst r \<le> ts_head s) (ts_log s))"

lemma map_filter_append [simp]: "List.map_filter f (xs @ ys) = List.map_filter f xs @ List.map_filter f ys"
  by (simp add: List.map_filter_def)

lemma map_filter_Nil [simp]: "List.map_filter f [] = []"
  by (simp add: List.map_filter_def)

lemma map_filter_Cons: "List.map_filter f (x # xs) = (case f x of None \<Rightarrow> [] | Some y \<Rightarrow> [y]) @ List.map_filter f xs"
  by (simp add: List.map_filter_def split: option.splits)

text \<open>The scan splits the rows into those delivered or skipped and those left for the next page.\<close>

lemma log_scan_split:
  assumes "log_scan E s fs head k rows evs sc del = (evs', drained, sc', del')"
    and "sorted_wrt (<) (map fst rows)" and "\<forall>r \<in> set rows. fst r \<le> head"
    and "int (length evs) < k"
  shows "\<exists>r1 r2. rows = r1 @ r2 \<and> evs' = evs @ List.map_filter (row_event E s fs) r1 \<and> int (length evs') \<le> k
      \<and> (if drained then r2 = [] else r1 \<noteq> [] \<and> sc' = fst (last r1) \<and> sc' < head)
      \<and> (del' = del \<or> (\<exists>p e. (p, e) \<in> set rows \<and> del' = Some (p, le_messageCid e)))"
  using assms
proof (induction rows arbitrary: evs sc del)
  case Nil
  then show ?case by auto
next
  case (Cons r rows)
  obtain p e where r: "r = (p, e)" by (cases r)
  have srt: "sorted_wrt (<) (map fst rows)" "\<forall>r \<in> set rows. fst r \<le> head" "\<forall>r \<in> set rows. p < fst r" "p \<le> head"
    using Cons.prems(2,3) r by auto
  show ?case
  proof (cases "readEventFromLogEntry E s p e fs")
    case None
    have "log_scan E s fs head k rows evs p del = (evs', drained, sc', del')" using Cons.prems(1) r None by simp
    from Cons.IH [OF this srt(1,2) Cons.prems(4)]
    obtain r1 r2 where "rows = r1 @ r2 \<and> evs' = evs @ List.map_filter (row_event E s fs) r1 \<and> int (length evs') \<le> k
      \<and> (if drained then r2 = [] else r1 \<noteq> [] \<and> sc' = fst (last r1) \<and> sc' < head)
      \<and> (del' = del \<or> (\<exists>p e. (p, e) \<in> set rows \<and> del' = Some (p, le_messageCid e)))" by (elim exE)
    with r None show ?thesis
      by - (rule exI [of _ "r # r1"], rule exI [of _ r2], auto simp: map_filter_Cons split: if_splits)
  next
    case (Some ev)
    then have ev: "ev_messageCid ev = le_messageCid e"
      by (auto simp: readEventFromLogEntry_def split: if_splits option.splits)
    show ?thesis
    proof (cases "int (length (evs @ [ev])) \<ge> k")
      case True
      with Cons.prems(1) r Some have x: "evs' = evs @ [ev]" "drained = (p \<ge> head)" "sc' = p"
        "del' = Some (p, ev_messageCid ev)" by (auto simp: Let_def)
      have "rows = []" if "p \<ge> head" using that srt(2,3) by (cases rows) force+
      with x r Some ev Cons.prems(4) show ?thesis
        by - (rule exI [of _ "[r]"], rule exI [of _ rows], auto simp: map_filter_Cons)
    next
      case False
      with Cons.prems(1) r Some
      have "log_scan E s fs head k rows (evs @ [ev]) p (Some (p, ev_messageCid ev)) = (evs', drained, sc', del')"
        by (simp add: Let_def)
      moreover have "int (length (evs @ [ev])) < k" using False by linarith
      ultimately have "\<exists>r1 r2. rows = r1 @ r2
        \<and> evs' = (evs @ [ev]) @ List.map_filter (row_event E s fs) r1 \<and> int (length evs') \<le> k
        \<and> (if drained then r2 = [] else r1 \<noteq> [] \<and> sc' = fst (last r1) \<and> sc' < head)
        \<and> (del' = Some (p, ev_messageCid ev) \<or> (\<exists>p e. (p, e) \<in> set rows \<and> del' = Some (p, le_messageCid e)))"
        by (rule Cons.IH [OF _ srt(1,2)])
      then obtain r1 r2 where "rows = r1 @ r2 \<and> evs' = (evs @ [ev]) @ List.map_filter (row_event E s fs) r1 \<and> int (length evs') \<le> k
        \<and> (if drained then r2 = [] else r1 \<noteq> [] \<and> sc' = fst (last r1) \<and> sc' < head)
        \<and> (del' = Some (p, ev_messageCid ev) \<or> (\<exists>p e. (p, e) \<in> set rows \<and> del' = Some (p, le_messageCid e)))"
        by (elim exE)
      with r Some ev show ?thesis
        by - (rule exI [of _ "r # r1"], rule exI [of _ r2], auto simp: map_filter_Cons split: if_splits)
    qed
  qed
qed

lemma filter_after_split:
  fixes r1 r2 :: "(nat \<times> 'v) list"
  assumes "sorted_wrt (<) (map fst (r1 @ r2))" and "r1 \<noteq> []"
  shows "filter (\<lambda>r. fst (last r1) < fst r) (r1 @ r2) = r2"
proof -
  have "\<forall>r \<in> set r1. \<not> fst (last r1) < fst r"
    using assms by (cases r1 rule: rev_cases) (auto simp: sorted_wrt_append dest: less_asym)
  moreover have "\<forall>r \<in> set r2. fst (last r1) < fst r"
    using assms by (auto simp: sorted_wrt_append)
  ultimately show ?thesis by (simp add: filter_empty_conv filter_id_conv)
qed

lemma position_key_le: "encodePositionKey q = Inr k \<Longrightarrow> p \<le> q \<Longrightarrow> \<exists>k'. encodePositionKey p = Inr k'"
  using encodePositionKey_ok [of q] encodePositionKey_ok [of p] by auto

text \<open>One page: the events read, then the events after its cursor, are the events after the start.\<close>

lemma logRead_page:
  assumes ok: "store_ok E s" and r: "logRead E s cursor (Some l) fs = Inr r" and l: "0 < l"
    and start: "start = (case cursor of None \<Rightarrow> 0 | Some c \<Rightarrow> pt_position c)"
  shows "\<exists>tok. rr_cursor r = Some tok
      \<and> rr_events r @ events_from E s fs (pt_position tok) = events_from E s fs start
      \<and> int (length (rr_events r)) \<le> l \<and> validateCursor E s tok (ts_head s) = Inr ()
      \<and> (if rr_drained r then events_from E s fs (pt_position tok) = []
         else start < pt_position tok \<and> pt_position tok < ts_head s)"
proof -
  have core: "core_ok E s" using ok by (simp add: store_ok_def)
  have valid: "validateCursor E s c (ts_head s) = Inr ()" if "cursor = Some c" for c
    using r that by (auto simp: logRead_def Let_def bind_eq_Inr getHead_def)
  consider (empty) "ts_head s = 0" | (caught_up) "0 < ts_head s" "ts_head s \<le> start"
    | (scan) "0 < ts_head s" "start < ts_head s" by linarith
  then show ?thesis
  proof cases
    case empty
    have "ts_log s = []"
    proof (rule ccontr)
      assume "ts_log s \<noteq> []"
      then obtain p e rest where "ts_log s = (p, e) # rest" by (cases "ts_log s") auto
      then have "map_of (ts_log s) p = Some e" by simp
      from core_okD(6) [OF core this] empty show False by auto
    qed
    then have "events_from E s fs a = []" for a by (simp add: events_from_def)
    moreover have "validateCursor E s (buildToken E 0 None) 0 = Inr ()"
      by (simp add: validateCursor_def validateCursorPosition_def buildToken_def)
    ultimately show ?thesis
      using r empty valid l by (cases cursor) (auto simp: logRead_def Let_def bind_eq_Inr getHead_def)
  next
    case caught_up
    then have c: "cursor \<noteq> None" using start by (cases cursor) auto
    moreover have "events_from E s fs start = []"
      unfolding events_from_def using caught_up by (auto simp: filter_empty_conv List.map_filter_def)
    ultimately show ?thesis
      using r caught_up valid l start by (cases cursor) (auto simp: logRead_def Let_def bind_eq_Inr getHead_def)
  next
    case scan
    let ?rows = "filter (\<lambda>r. start < fst r \<and> fst r \<le> ts_head s) (ts_log s)"
    obtain evs dr sc del where sc: "log_scan E s fs (ts_head s) l ?rows [] start None = (evs, dr, sc, del)"
      by (cases "log_scan E s fs (ts_head s) l ?rows [] start None") auto
    define pos where "pos = (if dr then ts_head s else sc)"
    define mc where "mc = (case del of Some (p, c) \<Rightarrow> if p = pos then Some c else None | None \<Rightarrow> None)"
    have r': "rr_events r = evs" "rr_cursor r = Some (buildToken E pos mc)" "rr_drained r = dr"
      and key: "\<exists>k. encodePositionKey (ts_head s) = Inr k"
      using r scan l sc start
      by (auto simp: logRead_def Let_def bind_eq_Inr getHead_def pos_def mc_def split: option.splits)
    have srt: "sorted_wrt (<) (map fst (ts_log s))" using core_okD(3) [OF core] by (rule level.invar_sorted)
    then have srt': "sorted_wrt (<) (map fst ?rows)"
      by (metis (no_types, lifting) sorted_wrt_filter sorted_wrt_map)
    from log_scan_split [OF sc srt'] l have "\<exists>r1 r2. ?rows = r1 @ r2
        \<and> evs = [] @ List.map_filter (row_event E s fs) r1 \<and> int (length evs) \<le> l
        \<and> (if dr then r2 = [] else r1 \<noteq> [] \<and> sc = fst (last r1) \<and> sc < ts_head s)
        \<and> (del = None \<or> (\<exists>p e. (p, e) \<in> set ?rows \<and> del = Some (p, le_messageCid e)))" by simp
    then obtain r1 r2 where x: "?rows = r1 @ r2" "evs = List.map_filter (row_event E s fs) r1" "int (length evs) \<le> l"
      and d: "if dr then r2 = [] else r1 \<noteq> [] \<and> sc = fst (last r1) \<and> sc < ts_head s"
      and del: "del = None \<or> (\<exists>p e. (p, e) \<in> set ?rows \<and> del = Some (p, le_messageCid e))"
      by (elim exE conjE) auto
    have pos: "pos \<le> ts_head s" "start < pos" "filter (\<lambda>r. pos < fst r \<and> fst r \<le> ts_head s) (ts_log s) = r2"
    proof -
      show le: "pos \<le> ts_head s" using d by (auto simp: pos_def)
      have "last r1 \<in> set ?rows" if "r1 \<noteq> []" using x(1) that by simp
      then show lt: "start < pos" using d scan by (auto simp: pos_def split: if_splits)
      have "filter (\<lambda>r. pos < fst r \<and> fst r \<le> ts_head s) (ts_log s) = filter (\<lambda>r. pos < fst r) ?rows"
        using lt by (auto intro: filter_cong)
      also have "\<dots> = r2"
      proof (cases dr)
        case True
        then show ?thesis using d by (auto simp: pos_def filter_empty_conv)
      next
        case False
        then have "filter (\<lambda>r. fst (last r1) < fst r) (r1 @ r2) = r2"
          using d srt' x(1) by (intro filter_after_split) auto
        with False d x(1) show ?thesis by (simp add: pos_def)
      qed
      finally show "filter (\<lambda>r. pos < fst r \<and> fst r \<le> ts_head s) (ts_log s) = r2" .
    qed
    have "validateCursor E s (buildToken E pos mc) (ts_head s) = Inr ()"
    proof (cases mc)
      case None
      then show ?thesis using pos(1) by (simp add: validateCursor_def validateCursorPosition_def buildToken_def)
    next
      case (Some c)
      with del obtain e where e: "(pos, e) \<in> set (ts_log s)" "c = le_messageCid e"
        by (auto simp: mc_def split: option.splits if_splits)
      have "map_of (ts_log s) pos = Some e"
        by (rule iffD1 [OF level.in_rows_iff [OF core_okD(3) [OF core]] e(1)])
      moreover obtain k where "encodePositionKey pos = Inr k" using key pos(1) position_key_le by blast
      ultimately show ?thesis using pos Some e(2)
        by (simp add: validateCursor_def validateCursorPosition_def buildToken_def getMessageCidAtPosition_def)
    qed
    moreover have "evs @ events_from E s fs pos = events_from E s fs start"
      unfolding events_from_def pos(3) x(1) by (simp add: x(2))
    moreover have "if dr then events_from E s fs pos = [] else start < pos \<and> pos < ts_head s"
      using pos(2,3) d unfolding events_from_def pos(3) by (cases dr) (simp_all add: pos_def)
    ultimately show ?thesis
      unfolding r' using x(3) by (intro exI [of _ "buildToken E pos mc"]) (simp add: buildToken_def)
  qed
qed

lemma logRead_succeeds:
  assumes "assertValidSubtreeFilters (case fs of None \<Rightarrow> [] | Some f \<Rightarrow> f) = Inr ()"
    and "\<forall>c \<in> set_option cursor. validateCursor E s c (ts_head s) = Inr ()" and "ts_head s < 10 ^ 20"
  shows "\<exists>r. logRead E s cursor limit fs = Inr r"
proof -
  have key: "\<exists>k. encodePositionKey p = Inr k" if "p \<le> ts_head s" for p
    using encodePositionKey_ok [of p] assms(3) that by (metis le_less_trans)
  have f: "(case fs of None \<Rightarrow> Inr () | Some f \<Rightarrow> assertValidSubtreeFilters f) = Inr ()"
    using assms(1) by (cases fs) auto
  have c: "(case cursor of None \<Rightarrow> Inr () | Some c \<Rightarrow> validateCursor E s c (ts_head s)) = Inr ()"
    using assms(2) by (cases cursor) auto
  let ?start = "case cursor of None \<Rightarrow> 0 | Some c \<Rightarrow> pt_position c"
  show ?thesis
    using key [of ?start] key [of "ts_head s"] unfolding logRead_def f getHead_def
    by (auto simp: Let_def c split: prod.splits)
qed

text \<open>A consumer that pages through the log until it is drained, with a bound on the pages.\<close>

fun drain_log ::
  "nat \<Rightarrow> store_env \<Rightarrow> tenant_store \<Rightarrow> progress_token option \<Rightarrow> int \<Rightarrow> filter_t list option \<Rightarrow> log_event list option" where
  "drain_log 0 E s cursor l fs = None"
| "drain_log (Suc n) E s cursor l fs = (case logRead E s cursor (Some l) fs of
     Inl e \<Rightarrow> None
   | Inr r \<Rightarrow> if rr_drained r then Some (rr_events r)
             else map_option ((@) (rr_events r)) (drain_log n E s (rr_cursor r) l fs))"

lemma drain_log_from:
  assumes ok: "store_ok E s" and l: "0 < l" and head: "ts_head s < 10 ^ 20"
    and f: "assertValidSubtreeFilters (case fs of None \<Rightarrow> [] | Some f \<Rightarrow> f) = Inr ()"
    and "\<forall>c \<in> set_option cursor. validateCursor E s c (ts_head s) = Inr ()"
    and "ts_head s < n + (case cursor of None \<Rightarrow> 0 | Some c \<Rightarrow> pt_position c)"
  shows "drain_log n E s cursor l fs
           = Some (events_from E s fs (case cursor of None \<Rightarrow> 0 | Some c \<Rightarrow> pt_position c))"
  using assms(5,6)
proof (induction n arbitrary: cursor)
  case 0
  then have "\<exists>c. cursor = Some c \<and> ts_head s < pt_position c" by (cases cursor) auto
  with 0 show ?case by (auto simp: validateCursor_def validateCursorPosition_def split: if_splits)
next
  case (Suc n)
  obtain r where r: "logRead E s cursor (Some l) fs = Inr r"
    using logRead_succeeds [OF f Suc.prems(1) head] by blast
  from logRead_page [OF ok r l refl] obtain tok where t: "rr_cursor r = Some tok"
    "rr_events r @ events_from E s fs (pt_position tok) = events_from E s fs (case cursor of None \<Rightarrow> 0 | Some c \<Rightarrow> pt_position c)"
    "validateCursor E s tok (ts_head s) = Inr ()"
    "if rr_drained r then events_from E s fs (pt_position tok) = []
     else (case cursor of None \<Rightarrow> 0 | Some c \<Rightarrow> pt_position c) < pt_position tok \<and> pt_position tok < ts_head s"
    by blast
  show ?case
  proof (cases "rr_drained r")
    case True
    with r t show ?thesis by simp
  next
    case False
    with t Suc.IH [of "Some tok"] Suc.prems(2) have "drain_log n E s (Some tok) l fs = Some (events_from E s fs (pt_position tok))"
      by simp
    with r t False show ?thesis by simp
  qed
qed

lemma contributions_mset:
  assumes "mset xs = mset ys"
  shows "contributions hash xs sc = contributions hash ys sc"
  using assms
proof (induction xs arbitrary: ys)
  case (Cons x xs)
  have "x \<in> set ys" using mset_eq_setD [OF Cons.prems] by auto
  then obtain a b where ys: "ys = a @ x # b" by (auto simp: in_set_conv_decomp)
  then have "mset xs = mset (a @ b)" using Cons.prems by simp
  from Cons.IH [OF this] show ?case
    by (cases x) (simp add: ys contributions_append xor_ac)
qed simp

lemma members_rows:
  assumes "core_ok E s"
  shows "set (members (ts_log s)) = {(c, r_scopes r) | c r. row_of s c = Some r}" and "distinct (members (ts_log s))"
proof -
  note D = core_okD [OF assms]
  have log: "(p, e) \<in> set (ts_log s) \<longleftrightarrow> map_of (ts_log s) p = Some e" for p e
    by (rule level.in_rows_iff [OF D(3)])
  show "set (members (ts_log s)) = {(c, r_scopes r) | c r. row_of s c = Some r}" (is "?l = ?r")
  proof
    show "?l \<subseteq> ?r"
    proof
      fix x assume "x \<in> ?l"
      then obtain p e where e: "map_of (ts_log s) p = Some e" "x = (le_messageCid e, le_fingerprintScopes e)"
        using log by (auto simp: members_def)
      then have c: "map_of (ts_cids s) (le_messageCid e) = Some p" using D(5) by blast
      with core_row [OF assms c] e show "x \<in> ?r" by (auto simp: row_of_def)
    qed
    show "?r \<subseteq> ?l"
      using D(5) log by (fastforce simp: row_of_def members_def split: option.splits)
  qed
  have "p = q" if "map_of (ts_log s) p = Some e" "map_of (ts_log s) q = Some f" "le_messageCid e = le_messageCid f" for p q e f
    using D(5) that by (metis option.inject)
  then have "inj_on (\<lambda>(p, e). (le_messageCid e, le_fingerprintScopes e)) (set (ts_log s))"
    using log by (auto simp: inj_on_def) (metis option.inject)+
  moreover have "distinct (ts_log s)" using level.distinct_keys [OF D(3)] by (simp add: distinct_map)
  ultimately show "distinct (members (ts_log s))" by (simp add: members_def distinct_map)
qed

lemma retained_position:
  "R c = Some r \<Longrightarrow> \<exists>r'. spec_retains rs R c = Some r' \<and> r_position r' = r_position r"
proof (induction rs arbitrary: R r)
  case (Cons x rs)
  obtain d m i where x: "x = (d, m, i)" by (cases x)
  let ?R = "R(d := map_option (\<lambda>r. r\<lparr>r_message := m, r_indexes := i\<rparr>) (R d))"
  obtain q where q: "?R c = Some q" "r_position q = r_position r" using Cons.prems by (cases "c = d") auto
  from Cons.IH [of ?R, OF q(1)] q(2) show ?case unfolding x spec_retains.simps by (simp only:)
qed auto

text \<open>What an operation leaves for a reader that had seen everything: the one row that stands at the new head.\<close>

definition moves_head :: "tenant_store \<Rightarrow> tenant_store \<Rightarrow> jstr \<Rightarrow> row \<Rightarrow> bool" where
  "moves_head s s' c r \<longleftrightarrow> ts_head s' = ts_head s + 1 \<and> row_of s' c = Some r \<and> r_position r = ts_head s + 1
     \<and> (\<forall>c' r'. c' \<noteq> c \<longrightarrow> row_of s' c' = Some r' \<longrightarrow> (\<exists>q. row_of s c' = Some q \<and> r_position q = r_position r'))"

lemma log_row:
  assumes "core_ok E s"
  shows "map_of (ts_log s) p = Some e
    \<longleftrightarrow> (\<exists>r. row_of s (le_messageCid e) = Some r \<and> r_position r = p \<and> r_indexes r = le_indexes e \<and> r_scopes r = le_fingerprintScopes e \<and> le_seq e = p)"
    (is "?l \<longleftrightarrow> ?r")
proof
  assume e: ?l
  then have c: "map_of (ts_cids s) (le_messageCid e) = Some p" using core_okD(5) [OF assms] by blast
  from core_row [OF assms c] e core_okD(6) [OF assms e] show ?r by (auto simp: row_of_def c)
next
  assume ?r
  then obtain e' where e': "map_of (ts_cids s) (le_messageCid e) = Some p" "map_of (ts_log s) p = Some e'"
    "le_indexes e' = le_indexes e" "le_fingerprintScopes e' = le_fingerprintScopes e" and q: "le_seq e = p"
    by (auto simp: row_of_def split: option.splits)
  have "le_messageCid e' = le_messageCid e" using core_okD(5) [OF assms] e'(1,2) by fastforce
  moreover have "le_seq e' = p" using core_okD(6) [OF assms e'(2)] by blast
  ultimately show ?l using e' q by (cases e'; cases e) simp
qed

lemma moved_cursor:
  assumes "core_ok E s" and "core_ok E s'" and "moves_head s s' c r"
    and "validateCursor E s t (ts_head s) = Inr ()" and "ts_head s < 10 ^ 20"
  shows "validateCursor E s' t (ts_head s') = Inr ()"
proof -
  let ?p = "pt_position t"
  have v: "pt_streamId t = se_streamId E" "pt_epoch t = se_epoch E" "?p \<le> ts_head s"
    using assms(4) by (auto simp: validateCursor_def validateCursorPosition_def split: if_splits)
  have same: "\<exists>e. map_of (ts_log s) ?p = Some e \<and> le_messageCid e = le_messageCid e'" if e': "map_of (ts_log s') ?p = Some e'" for e'
  proof -
    obtain q where q: "row_of s' (le_messageCid e') = Some q" "r_position q = ?p" using e' log_row [OF assms(2)] by blast
    have "le_messageCid e' \<noteq> c" using q v(3) assms(3) by (auto simp: moves_head_def)
    then obtain q' where "row_of s (le_messageCid e') = Some q'" "r_position q' = ?p" using q assms(3) unfolding moves_head_def by metis
    then have "map_of (ts_cids s) (le_messageCid e') = Some ?p" by (auto simp: row_of_def split: option.splits)
    then show ?thesis using core_okD(5) [OF assms(1)] by blast
  qed
  have "getMessageCidAtPosition s' ?p = Inr None \<or> getMessageCidAtPosition s' ?p = getMessageCidAtPosition s ?p"
  proof (cases "map_of (ts_log s') ?p")
    case None
    then show ?thesis using encodePositionKey_ok [of ?p] v(3) assms(5) by (auto simp: getMessageCidAtPosition_def)
  next
    case (Some e')
    with same [OF Some] show ?thesis by (auto simp: getMessageCidAtPosition_def)
  qed
  with v assms(3,4) show ?thesis
    by (auto simp: validateCursor_def validateCursorPosition_def moves_head_def bind_eq_Inr split: option.splits if_splits)
qed

lemma moved_events:
  assumes "core_ok E s" and "core_ok E s'" and "moves_head s s' c r"
  shows "events_from E s' fs (ts_head s) = (if if_some (\<lambda>f. f \<noteq> [] \<and> \<not> matchAnyFilter (se_tn E) (r_indexes r) f) fs then []
    else [\<lparr>ev_seq = ts_head s + 1, ev_position = ts_head s + 1, ev_message = r_message r, ev_indexes = r_indexes r, ev_messageCid = c\<rparr>])"
proof -
  let ?h = "ts_head s + 1"
  have m: "row_of s' c = Some r" "r_position r = ?h" "ts_head s' = ?h" using assms(3) by (auto simp: moves_head_def)
  then obtain e where e: "map_of (ts_log s') ?h = Some e" "le_messageCid e = c" "le_indexes e = r_indexes r" "le_seq e = ?h"
    and b: "map_of (ts_blocks s') c = Some (r_message r)"
    using core_okD(5,6) [OF assms(2)] by (fastforce simp: row_of_def split: option.splits)
  have "filter (\<lambda>q. ts_head s < fst q \<and> fst q \<le> ts_head s') (ts_log s') = [(?h, e)]"
  proof -
    have in_log: "(p, f) \<in> set (ts_log s') \<longleftrightarrow> map_of (ts_log s') p = Some f" for p f
      by (rule level.in_rows_iff [OF core_okD(3) [OF assms(2)]])
    let ?F = "filter (\<lambda>q. fst q = ?h) (ts_log s')"
    have F: "set ?F = {(?h, e)}" using in_log e(1) by auto
    have "distinct ?F" using level.distinct_keys [OF core_okD(3) [OF assms(2)]] by (simp add: distinct_map)
    with F have "length ?F = 1" by (simp only: distinct_card [symmetric]) simp
    then obtain x where "?F = [x]" by (auto simp: length_Suc_conv)
    with F have "?F = [(?h, e)]" by (metis list.set_intros(1) singletonD)
    moreover have "(\<lambda>q. ts_head s < fst q \<and> fst q \<le> ts_head s') = (\<lambda>q :: nat \<times> log_entry. fst q = ?h)" using m(3) by (auto simp: fun_eq_iff)
    ultimately show ?thesis by simp
  qed
  then show ?thesis unfolding events_from_def using e b by (simp add: map_filter_Cons readEventFromLogEntry_def)
qed

lemma commit_moves_head:
  assumes "store_ok E s" and "\<And>c. length (se_hash E c) = 32" and "distinct (tr_deletes t)"
    and "commitLatestState E s t = Inr (Inserted tok, s')"
  shows "store_ok E s' \<and> (\<exists>r. moves_head s s' (getCid (se_cids E) (tr_message t)) r)"
proof -
  let ?c = "getCid (se_cids E) (tr_message t)"
  have new: "row_of s ?c = None"
    using assms(1,4) row_of_None [of E s ?c] by (auto simp: store_ok_def commitLatestState_def Let_def bind_eq_Inr split: prod.splits if_splits option.splits)
  note R = commitLatestState_rows [OF assms]
  have row: "row_of s' d = (if d \<in> set (tr_deletes t) \<and> row_of s d \<noteq> None then None else
      spec_retains (tr_retains t) ((row_of s)(?c \<mapsto> \<lparr>r_position = ts_head s + 1, r_message = tr_message t,
        r_indexes = tr_indexes t, r_scopes = computeFingerprintScopes (tr_message t) (tr_indexes t)\<rparr>)) d)" for d
    unfolding conjunct1 [OF conjunct2 [OF R]] spec_commit_def Let_def using new by (simp only: if_True simp_thms)
  from row [of ?c] new obtain r where r: "row_of s' ?c = Some r" "r_position r = ts_head s + 1"
    using retained_position [of "(row_of s)(?c \<mapsto> \<lparr>r_position = ts_head s + 1, r_message = tr_message t,
        r_indexes = tr_indexes t, r_scopes = computeFingerprintScopes (tr_message t) (tr_indexes t)\<rparr>)" ?c _ "tr_retains t"] by auto
  have "\<exists>q. row_of s d = Some q \<and> r_position q = r_position r'" if "d \<noteq> ?c" "row_of s' d = Some r'" for d r'
    using that row [of d] spec_retains_position by (fastforce split: if_splits)
  with r R new show ?thesis unfolding moves_head_def by auto
qed

lemma completion_moves_head:
  assumes "store_ok E s" and "\<And>c. length (se_hash E c) = 32" and "completeData E s c i d = Inr (CCompleted tok, s')"
  shows "store_ok E s' \<and> (\<exists>r. moves_head s s' c r)"
  using completeData_rows [OF assms, of tok] by (auto simp: moves_head_def)

section \<open>Examples\<close>

definition example_env :: store_env where
  "example_env = \<lparr>se_cids = example_cids, se_hash = (\<lambda>c. take 32 (map of_nat c @ replicate 32 0)),
     se_streamId = js ''s'', se_epoch = js ''e'', se_tn = (\<lambda>_. None)\<rparr>"

definition example_indexes :: key_values where
  "example_indexes = [(''interface'', One (SStr (js ''Records''))), (''module'', One (SStr (js ''m'')))]"

definition example_message :: message where
  "example_message = WriteMsg (example_write [1] [5])"

definition example_store :: tenant_store where
  "example_store = (case put example_env empty_store example_message example_indexes of
     Inr (_, s) \<Rightarrow> s | Inl _ \<Rightarrow> empty_store)"

lemma example_hash: "length (se_hash example_env c) = 32"
  by (simp add: example_env_def)

lemma position_one: "encodePositionKey 1 = Inr (replicate 19 48 @ [49])"
  by (simp add: encodePositionKey_def padStart_def decimal.simps)

lemma example_put:
  "put example_env empty_store example_message example_indexes
     = Inr (Inserted (buildToken example_env 1 (Some (getCid example_cids example_message))), example_store)"
  using position_one
  by (simp add: example_store_def put_def insert_operations_def createPutOperations_def Let_def getHead_def
      empty_store_def example_indexes_def example_env_def)

lemma example_commit:
  "store_ok example_env example_store \<and> ts_head example_store = 1 \<and>
   row_of example_store (getCid example_cids example_message) = Some \<lparr>r_position = 1, r_message = example_message,
     r_indexes = example_indexes, r_scopes = computeFingerprintScopes example_message example_indexes\<rparr>"
proof -
  let ?t = "\<lparr>tr_message = example_message, tr_indexes = example_indexes, tr_retains = [], tr_deletes = []\<rparr>"
  have "distinct (tr_deletes ?t)" "row_of empty_store = (\<lambda>_. None)" "ts_head empty_store = 0"
    "se_cids example_env = example_cids"
    by (simp_all add: row_of_def empty_store_def example_env_def fun_eq_iff)
  with commitLatestState_rows [OF empty_store_ok example_hash _ example_put [unfolded put_commit]]
  show ?thesis by (simp add: spec_commit_def Let_def)
qed

lemma example_index: "ts_index example_store = [(getCid example_cids example_message, example_indexes)]"
proof -
  let ?c = "getCid example_cids example_message" and ?sc = "computeFingerprintScopes example_message example_indexes"
  have cids: "se_cids example_env = example_cids" by (simp add: example_env_def)
  obtain ops where o: "insert_operations empty_store ?c example_message example_indexes ?sc = Inr ops"
    and st: "example_store = batch (createFingerprintFoldOperationsForMessages example_env empty_store [(?c, ?sc)]) (batch ops empty_store)"
    using example_put by (auto simp: put_def Let_def bind_eq_Inr cids empty_store_def createFingerprintFoldOperations_def
        split: option.splits)
  have "ts_index example_store = ts_index (batch ops empty_store)"
    unfolding st using batch_fp [OF fold_ops_fp] by blast
  also have "\<dots> = [(?c, example_indexes)]"
    unfolding insert_operations_row(1) [OF o] by (simp add: insert_row_def empty_store_def)
  finally show ?thesis .
qed

section \<open>Properties\<close>

text \<open>C5: Every store reachable from the empty store by any sequence of committed puts,
  latest-state transitions, index updates, in-place replacements, data completions and deletes is
  consistent: CIDs and log positions correspond one to one, blocks, index and log list the same
  messages with the same indexes, positions lie between one and the head, and the stored
  fingerprint of every domain is the XOR of the hashes of exactly the live messages in it.\<close>

theorem store_reachable_invariant:
  assumes "\<And>c. length (se_hash E c) = 32" and "store_reachable E empty_store s"
  shows "store_ok E s"
  using store_reachable_ok [OF assms(2) empty_store_ok assms(1)] by simp

theorem store_reachable_invariant_witness: "store_ok example_env example_store"
proof (rule store_reachable_invariant)
  show "length (se_hash example_env c) = 32" for c by (rule example_hash)
  show "store_reachable example_env empty_store example_store"
    by (rule store_reachable.further [OF store_reachable.here store_step.put [OF example_put]])
qed

text \<open>C27: Fingerprints compare live sets: two stores grown from the empty one by any sequences of puts,
  commits, completions, index updates and deletes report the same fingerprint for every list of
  domains as soon as they hold the same messages in the same domains, whatever the order and the
  history of the operations that led to each of them.\<close>

theorem fingerprint_convergence:
  assumes "\<And>c. length (se_hash E c) = 32"
    and "store_reachable E empty_store s" and "store_reachable E empty_store t"
    and "\<And>c. map_option r_scopes (row_of s c) = map_option r_scopes (row_of t c)"
  shows "store_fingerprint s scopes = store_fingerprint t scopes"
proof -
  have ok: "store_ok E s" "store_ok E t"
    using store_reachable_ok [OF assms(2) empty_store_ok assms(1)] store_reachable_ok [OF assms(3) empty_store_ok assms(1)]
    by simp_all
  then have cs: "core_ok E s" and ct: "core_ok E t" by (simp_all add: store_ok_def)
  have eq: "(\<exists>r. row_of s c = Some r \<and> r_scopes r = x) \<longleftrightarrow> (\<exists>r. row_of t c = Some r \<and> r_scopes r = x)" for c x
    using assms(4) [of c] by (cases "row_of s c"; cases "row_of t c") auto
  have "{(c, r_scopes r) | c r. row_of u c = Some r} = {(c, x). \<exists>r. row_of u c = Some r \<and> r_scopes r = x}" for u
    by auto
  then have "set (members (ts_log s)) = set (members (ts_log t))"
    unfolding members_rows(1) [OF cs] members_rows(1) [OF ct] using eq by simp
  then have m: "mset (members (ts_log s)) = mset (members (ts_log t))"
    by (rule iffD1 [OF set_eq_iff_mset_eq_distinct [OF members_rows(2) [OF cs] members_rows(2) [OF ct]]])
  have stored: "stored_fingerprint s (fingerprintKey sc) = stored_fingerprint t (fingerprintKey sc)" for sc
    using ok contributions_mset [OF m, of "se_hash E" sc] by (simp add: store_ok_def)
  have "compose_fingerprints s scopes f = compose_fingerprints t scopes f" if "length f = 32" for f
    using that
  proof (induction scopes arbitrary: f)
    case (Cons sc scopes)
    have xor: "(case map_of (ts_fps u) (fingerprintKey sc) of None \<Rightarrow> f | Some h \<Rightarrow> xorFingerprint f (hexToFingerprint h))
        = xorFingerprint f (stored_fingerprint u (fingerprintKey sc))" for u
      using Cons.prems by (simp add: stored_fingerprint_def split: option.splits)
    show ?case unfolding compose_fingerprints.simps xor stored by (rule Cons.IH) simp
  qed simp
  then show ?thesis by (simp add: store_fingerprint_def)
qed

theorem fingerprint_convergence_witness:
  "\<exists>t. updateIndexes example_store (getCid example_cids example_message)
          (example_indexes @ [(''schema'', One (SStr [120]))]) = Inr t
     \<and> store_fingerprint t [globalDomain, moduleDomain (js ''m'')]
         = store_fingerprint example_store [globalDomain, moduleDomain (js ''m'')]"
proof -
  let ?c = "getCid example_cids example_message" and ?i = "example_indexes @ [(''schema'', One (SStr [120]))]"
  obtain e where e: "map_of (ts_cids example_store) ?c = Some 1" "map_of (ts_log example_store) 1 = Some e"
    "map_of (ts_blocks example_store) ?c = Some example_message"
    "le_fingerprintScopes e = computeFingerprintScopes example_message example_indexes"
    using example_commit by (auto simp: row_of_def split: option.splits)
  have sc: "computeFingerprintScopes example_message ?i = computeFingerprintScopes example_message example_indexes"
    by (simp add: computeFingerprintScopes_def example_indexes_def)
  have "\<exists>t. updateIndexes example_store ?c ?i = Inr t"
    using e position_one by (simp add: updateIndexes_def getLogEntryForMutation_def readStoredMessage_def sc
        assertFingerprintScopesUntouched_def scopeSetsMatch_def createPutOperations_def)
  then obtain t where t: "updateIndexes example_store ?c ?i = Inr t" by blast
  note ok = conjunct1 [OF example_commit]
  have r: "store_reachable example_env empty_store example_store"
    by (rule store_reachable.further [OF store_reachable.here store_step.put [OF example_put]])
  have "store_fingerprint t xs = store_fingerprint example_store xs" for xs
    using updateIndexes_rows [OF ok t]
    by (intro fingerprint_convergence [OF example_hash store_reachable.further [OF r store_step.update [OF t]] r])
      (auto simp: option.map_comp comp_def)
  with t show ?thesis by blast
qed

text \<open>C10: A latest-state transition does what it specifies on the rows: the new message gets the next
  position unless it is already stored, each retained row keeps its position and fingerprint domains
  and takes its new message and indexes, each displaced row disappears, every other row stays, and
  the store stays consistent.\<close>

theorem commitLatestState_refines:
  assumes "store_ok E s" and "\<And>c. length (se_hash E c) = 32" and "distinct (tr_deletes t)"
    and "commitLatestState E s t = Inr (res, s')"
  shows "store_ok E s' \<and> row_of s' = spec_commit E t (ts_head s + 1) (row_of s)"
  using commitLatestState_rows [OF assms] by simp

theorem commitLatestState_refines_witness:
  "row_of example_store = spec_commit example_env
     \<lparr>tr_message = example_message, tr_indexes = example_indexes, tr_retains = [], tr_deletes = []\<rparr> 1 (\<lambda>_. None)"
proof -
  have "row_of empty_store = (\<lambda>_. None)" "ts_head empty_store = 0"
    by (simp_all add: row_of_def empty_store_def fun_eq_iff)
  with commitLatestState_refines [OF empty_store_ok example_hash _ example_put [unfolded put_commit]]
  show ?thesis by simp
qed

text \<open>C13: Paging through the log delivers everything once and ends: with any positive page size,
  following the returned cursors from the start drains a consistent log within as many pages as it
  has positions, and the events of the pages are those of one complete scan, in position order.\<close>

theorem logRead_drains:
  assumes "store_ok E s" and "0 < l" and "ts_head s < 10 ^ 20"
    and "assertValidSubtreeFilters (case fs of None \<Rightarrow> [] | Some f \<Rightarrow> f) = Inr ()"
  shows "drain_log (ts_head s + 1) E s None l fs = Some (events_from E s fs 0)"
  using drain_log_from [OF assms, of None "ts_head s + 1"] by simp

theorem logRead_drains_witness:
  "drain_log 2 example_env example_store None 1 None = Some (events_from example_env example_store None 0)"
  using logRead_drains [of example_env example_store 1 None] example_commit
  by (simp add: assertValidSubtreeFilters_def numeral_2_eq_2)

text \<open>C39: A change reaches the reader that had seen everything.  When a commit inserts a message, or the data of a message is completed,
  a reader that resumes from a cursor at the old head, with any positive page size, gets exactly one event and ends: that of
  the inserted or completed message with its stored content, if it matches the filters of the reader, and none otherwise.\<close>

theorem resumed_reader_sees_change:
  assumes "store_ok E s" and "\<And>c. length (se_hash E c) = 32" and "ts_head s + 1 < 10 ^ 20" and "0 < l"
    and "assertValidSubtreeFilters (case fs of None \<Rightarrow> [] | Some f \<Rightarrow> f) = Inr ()"
    and "validateCursor E s t (ts_head s) = Inr ()" and "pt_position t = ts_head s"
    and "(\<exists>tr tok. commitLatestState E s tr = Inr (Inserted tok, s') \<and> distinct (tr_deletes tr) \<and> getCid (se_cids E) (tr_message tr) = c)
       \<or> (\<exists>i d tok. completeData E s c i d = Inr (CCompleted tok, s'))"
  shows "\<exists>r. row_of s' c = Some r \<and> drain_log 2 E s' (Some t) l fs =
    Some (if if_some (\<lambda>f. f \<noteq> [] \<and> \<not> matchAnyFilter (se_tn E) (r_indexes r) f) fs then []
      else [\<lparr>ev_seq = ts_head s + 1, ev_position = ts_head s + 1, ev_message = r_message r, ev_indexes = r_indexes r, ev_messageCid = c\<rparr>])"
proof -
  obtain r where ok: "store_ok E s'" and r: "moves_head s s' c r"
    using assms(8) commit_moves_head [OF assms(1,2)] completion_moves_head [OF assms(1,2)] by metis
  have core: "core_ok E s" "core_ok E s'" using assms(1) ok by (simp_all add: store_ok_def)
  have head: "ts_head s' = ts_head s + 1" "row_of s' c = Some r" using r by (simp_all add: moves_head_def)
  have "ts_head s < 10 ^ 20" using assms(3) by simp
  from moved_cursor [OF core r assms(6) this] have v: "validateCursor E s' t (ts_head s') = Inr ()" .
  have "drain_log 2 E s' (Some t) l fs = Some (events_from E s' fs (pt_position t))"
    using drain_log_from [OF ok assms(4) _ assms(5), of "Some t" 2] v head(1) assms(3,7) by simp
  then show ?thesis using moved_events [OF core r, of fs] assms(7) head(2) by simp
qed

theorem resumed_reader_sees_change_witness:
  "\<exists>ev. drain_log 2 example_env example_store (Some (buildToken example_env 0 None)) 1 None = Some [ev] \<and> ev_position ev = 1
     \<and> ev_messageCid ev = getCid example_cids example_message"
proof -
  let ?c = "getCid example_cids example_message" and ?t = "buildToken example_env 0 None"
  let ?tr = "\<lparr>tr_message = example_message, tr_indexes = example_indexes, tr_retains = [], tr_deletes = []\<rparr>"
  have h: "ts_head empty_store = 0" "pt_position ?t = 0" by (simp_all add: empty_store_def buildToken_def)
  have v: "validateCursor example_env empty_store ?t (ts_head empty_store) = Inr ()"
    by (simp add: validateCursor_def validateCursorPosition_def buildToken_def)
  have "\<exists>tr tok. commitLatestState example_env empty_store tr = Inr (Inserted tok, example_store) \<and> distinct (tr_deletes tr)
      \<and> getCid (se_cids example_env) (tr_message tr) = ?c"
    by (rule exI [of _ ?tr]) (use example_put [unfolded put_commit] in \<open>simp add: example_env_def\<close>)
  with resumed_reader_sees_change [OF empty_store_ok example_hash _ zero_less_one, of None ?t example_store ?c] h v
  show ?thesis by (auto simp: assertValidSubtreeFilters_def)
qed

text \<open>C31: Completing the data of a record moves its row to the head of the log: the row keeps its
  fingerprint domains, takes the new indexes and the completed message, gets the next position so
  that a resumed reader sees it, and no other row changes; otherwise the store is untouched.\<close>

theorem completeData_moves_row:
  assumes "store_ok E s" and "\<And>c. length (se_hash E c) = 32" and "completeData E s c i d = Inr (res, s')"
  shows "store_ok E s' \<and>
    (case res of
       CCompleted tok \<Rightarrow> pt_position tok = ts_head s + 1 \<and> pt_messageCid tok = Some c \<and> ts_head s' = ts_head s + 1
         \<and> (\<exists>w q. row_of s c = Some q \<and> r_message q = WriteMsg w
             \<and> row_of s' = (row_of s)(c \<mapsto> \<lparr>r_position = ts_head s + 1, r_message = completed_message w d,
                  r_indexes = i, r_scopes = r_scopes q\<rparr>))
     | _ \<Rightarrow> s' = s)"
proof (cases res)
  case (CCompleted tok)
  with completeData_rows [OF assms, of tok] show ?thesis by (auto simp: buildToken_def)
qed (use completeData_rows [OF assms] in auto)

theorem completeData_moves_row_witness:
  "\<exists>s' tok. completeData example_env example_store (getCid example_cids example_message) example_indexes None
       = Inr (CCompleted tok, s') \<and> pt_position tok = 2 \<and> ts_head s' = 2"
proof -
  let ?c = "getCid example_cids example_message"
  obtain e where e: "map_of (ts_cids example_store) ?c = Some 1" "map_of (ts_log example_store) 1 = Some e"
    "map_of (ts_blocks example_store) ?c = Some example_message" "le_indexes e = example_indexes"
    "le_fingerprintScopes e = computeFingerprintScopes example_message example_indexes"
    using example_commit by (auto simp: row_of_def split: option.splits)
  have head: "ts_head example_store = 1" using example_commit by simp
  have two: "encodePositionKey 2 = Inr (replicate 19 48 @ [50])"
    by (simp add: encodePositionKey_def padStart_def decimal.simps)
  have q: "index_query (se_tn example_env) (ts_index example_store)
      [[(''interface'', EqualF (SStr (js ''Records''))), (''recordId'', EqualF (SStr [1]))]] record_query_options = Inr []"
    by (simp add: index_query_def assertValidSubtreeFilters_def isSubtreeFilter_def example_index
        shouldQueryWithInMemoryPaging_def isFilterConcise_def queryWithInMemoryPaging_def Let_def matchAnyFilter_def
        example_indexes_def matchIndexValue_def record_query_options_def sortItems_def)
  have "\<exists>s' tok. completeData example_env example_store ?c example_indexes None = Inr (CCompleted tok, s')"
    using e position_one q head two
    by (simp add: completeData_def getLogEntryForMutation_def readStoredMessage_def example_message_def
        example_write_def assertFingerprintScopesUntouched_def scopeSetsMatch_def createPutOperations_def Let_def
        getHead_def numeral_2_eq_2 example_indexes_def)
  then obtain s' tok where c: "completeData example_env example_store ?c example_indexes None = Inr (CCompleted tok, s')"
    by blast
  from completeData_moves_row [OF conjunct1 [OF example_commit] example_hash c] head c show ?thesis by auto
qed

end
