(* ===== verification/Dwn_Time.thy ===== *)
theory Dwn_Time
  imports Replication_Log Complex_Main
begin

text \<open>
  Timestamps (\<open>src/packages/dwn-sdk-js/src/utils/time.ts\<close>): the UTC ISO-8601 text with
  microseconds that orders messages, its parser and formatter over the calendar arithmetic of the
  JavaScript \<open>Date\<close>, and the clock that always moves past a given timestamp.

  A JavaScript number is \<^typ>\<open>rat option\<close> where the code tests for finiteness or integrality
  (\<^const>\<open>None\<close> is \<open>NaN\<close> or an infinity) and \<^typ>\<open>int\<close> where the value is an integer.  A
  \<open>RangeError\<close> or \<open>TypeError\<close> is \<^const>\<open>OtherError\<close> with its message.
\<close>

section \<open>The calendar of \<open>Date\<close>\<close>

text \<open>Days are counted from 1970-01-01; months from 0.  The formulas are those of ECMAScript's
  \<open>DayFromYear\<close>, \<open>MakeDay\<close>, \<open>YearFromTime\<close>, \<open>MonthFromTime\<close> and \<open>DateFromTime\<close>.\<close>

definition leap :: "int \<Rightarrow> bool" where
  "leap y = ((y mod 4 = 0 \<and> y mod 100 \<noteq> 0) \<or> y mod 400 = 0)"

definition dayFromYear :: "int \<Rightarrow> int" where
  "dayFromYear y = 365 * (y - 1970) + (y - 1969) div 4 - (y - 1901) div 100 + (y - 1601) div 400"

definition monthStarts :: "bool \<Rightarrow> int list" where
  "monthStarts l = (if l then [0, 31, 60, 91, 121, 152, 182, 213, 244, 274, 305, 335]
                    else [0, 31, 59, 90, 120, 151, 181, 212, 243, 273, 304, 334])"

definition makeDay :: "int \<Rightarrow> int \<Rightarrow> int \<Rightarrow> int" where
  "makeDay y m d = (let ym = y + m div 12; mn = m mod 12
     in dayFromYear ym + monthStarts (leap ym) ! nat mn + d - 1)"

lemma succ_div: "0 < n \<Longrightarrow> (x + 1) div n = x div n + (if (x + 1) mod n = 0 then 1 else 0)" for x n :: int
proof -
  assume n: "0 < n"
  have x: "x = n * (x div n) + x mod n" by simp
  show ?thesis
  proof (cases "x mod n = n - 1")
    case True
    with x have e: "x + 1 = n * (x div n + 1) + 0" by (simp only: distrib_left)
    show ?thesis using int_div_pos_eq [OF e] int_mod_pos_eq [OF e] n by simp
  next
    case False
    with n have "0 \<le> x mod n + 1" "x mod n + 1 < n" using pos_mod_bound [OF n, of x] pos_mod_sign [OF n, of x] by linarith+
    moreover from x have "x + 1 = n * (x div n) + (x mod n + 1)" by linarith
    ultimately have "(x + 1) div n = x div n" "(x + 1) mod n = x mod n + 1"
      using int_div_pos_eq int_mod_pos_eq by blast+
    then show ?thesis using pos_mod_sign [OF n, of x] by simp
  qed
qed

lemma div_bounds: "0 < n \<Longrightarrow> n * (x div n) \<le> x" "0 < n \<Longrightarrow> x < n * (x div n) + n" for x n :: int
  using pos_mod_bound [of n x] pos_mod_sign [of n x] mult_div_mod_eq [of n x] by linarith+

lemma dayFromYear_Suc: "dayFromYear (y + 1) = dayFromYear y + (if leap y then 366 else 365)"
proof -
  have m: "(y - 1968) mod 4 = 0 \<longleftrightarrow> y mod 4 = 0" "(y - 1900) mod 100 = 0 \<longleftrightarrow> y mod 100 = 0"
    "(y - 1600) mod 400 = 0 \<longleftrightarrow> y mod 400 = 0"
    by (simp_all add: mod_eq_0_iff_dvd dvd_diff_left_iff)
  have i: "y mod 400 = 0 \<Longrightarrow> y mod 100 = 0" "y mod 100 = 0 \<Longrightarrow> y mod 4 = 0"
    using dvd_trans [of 100 400 y] dvd_trans [of 4 100 y] by (simp_all add: mod_eq_0_iff_dvd)
  have a: "(y - 1968) div 4 = (y - 1969) div 4 + (if y mod 4 = 0 then 1 else 0)"
    using succ_div [of 4 "y - 1969"] m(1) by simp
  have b: "(y - 1900) div 100 = (y - 1901) div 100 + (if y mod 100 = 0 then 1 else 0)"
    using succ_div [of 100 "y - 1901"] m(2) by simp
  have c: "(y - 1600) div 400 = (y - 1601) div 400 + (if y mod 400 = 0 then 1 else 0)"
    using succ_div [of 400 "y - 1601"] m(3) by simp
  show ?thesis using i by (auto simp: dayFromYear_def leap_def a b c)
qed

function year_down :: "int \<Rightarrow> int \<Rightarrow> int" where
  "year_down d y = (if dayFromYear y \<le> d then y else year_down d (y - 1))"
  by pat_completeness auto
termination
proof (relation "measure (\<lambda>(d, y). nat (dayFromYear y - d))")
  fix d y assume "\<not> dayFromYear y \<le> d"
  moreover have "dayFromYear (y - 1) < dayFromYear y" using dayFromYear_Suc [of "y - 1"] by simp
  ultimately show "((d, y - 1), (d, y)) \<in> measure (\<lambda>(d, y). nat (dayFromYear y - d))" by auto
qed simp

declare year_down.simps [simp del]

definition yearFromDay :: "int \<Rightarrow> int" where
  "yearFromDay d = year_down d (1972 + d * 400 div 146097)"

definition monthFromDay :: "int \<Rightarrow> nat" where
  "monthFromDay d = (let y = yearFromDay d
     in length (filter (\<lambda>s. s \<le> d - dayFromYear y) (monthStarts (leap y))) - 1)"

definition dateFromDay :: "int \<Rightarrow> int" where
  "dateFromDay d = (let y = yearFromDay d
     in d - dayFromYear y - monthStarts (leap y) ! monthFromDay d + 1)"

text \<open>Milliseconds of a time within a day, and the fields read back from a time value.\<close>

abbreviation msPerDay :: int where "msPerDay \<equiv> 86400000"

definition makeDate :: "int \<Rightarrow> int \<Rightarrow> int \<Rightarrow> int \<Rightarrow> int \<Rightarrow> int \<Rightarrow> int \<Rightarrow> int" where
  "makeDate y m d h mi s ms = makeDay y m d * msPerDay + h * 3600000 + mi * 60000 + s * 1000 + ms"

definition getUTCFullYear :: "int \<Rightarrow> int" where "getUTCFullYear t = yearFromDay (t div msPerDay)"
definition getUTCMonth :: "int \<Rightarrow> int" where "getUTCMonth t = int (monthFromDay (t div msPerDay))"
definition getUTCDate :: "int \<Rightarrow> int" where "getUTCDate t = dateFromDay (t div msPerDay)"
definition getUTCHours :: "int \<Rightarrow> int" where "getUTCHours t = t mod msPerDay div 3600000"
definition getUTCMinutes :: "int \<Rightarrow> int" where "getUTCMinutes t = t mod 3600000 div 60000"
definition getUTCSeconds :: "int \<Rightarrow> int" where "getUTCSeconds t = t mod 60000 div 1000"
definition getUTCMilliseconds :: "int \<Rightarrow> int" where "getUTCMilliseconds t = t mod 1000"

text \<open>The largest year that does not start after the day.\<close>

lemma dayFromYear_mono: "y \<le> z \<Longrightarrow> dayFromYear y \<le> dayFromYear z"
proof (induction "nat (z - y)" arbitrary: z)
  case (Suc n)
  then have "n = nat (z - 1 - y)" "y \<le> z - 1" by linarith+
  then have "dayFromYear y \<le> dayFromYear (z - 1)" using Suc.hyps(1) by blast
  then show ?case using dayFromYear_Suc [of "z - 1"] by (simp split: if_splits)
qed simp

lemma dayFromYear_upper: "d < dayFromYear (1973 + d * 400 div 146097)"
proof -
  have arith: "d < 365 * (q + 3) + a - b + c"
    if "d * 400 < 146097 * q + 146097" "q + 4 < 4 * a + 4" "100 * b \<le> q + 72" "q + 372 < 400 * c + 400"
    for q a b c :: int
  proof -
    have "400 * a \<ge> 100 * q + 100" "400 * b \<le> 4 * q + 288" "400 * c \<ge> q - 27" using that(2-4) by linarith+
    then have "400 * d < 400 * (365 * (q + 3) + a - b + c)" using that(1) by (simp add: algebra_simps)
    then show ?thesis by (simp only: mult_less_cancel_left_pos zero_less_numeral)
  qed
  show ?thesis
    using arith [OF div_bounds(2) div_bounds(2) div_bounds(1) div_bounds(2)]
    by (simp add: dayFromYear_def ac_simps)
qed

lemma year_down_eq:
  "dayFromYear y \<le> d \<Longrightarrow> d < dayFromYear (y + 1) \<Longrightarrow> y \<le> z \<Longrightarrow> year_down d z = y"
proof (induction d z rule: year_down.induct)
  case (1 d z)
  show ?case
  proof (cases "z = y")
    case True
    with "1.prems" show ?thesis by (subst year_down.simps) simp
  next
    case False
    with "1.prems" have "y + 1 \<le> z" by linarith
    then have "\<not> dayFromYear z \<le> d" using dayFromYear_mono "1.prems"(2) by (meson not_le order_trans)
    moreover from this have "year_down d (z - 1) = y" using "1.IH" "1.prems" \<open>y + 1 \<le> z\<close> by simp
    ultimately show ?thesis by (subst year_down.simps) simp
  qed
qed

lemma yearFromDay_eq:
  assumes "dayFromYear y \<le> d" and "d < dayFromYear (y + 1)"
  shows "yearFromDay d = y"
proof -
  have "y \<le> 1972 + d * 400 div 146097"
  proof (rule ccontr)
    assume "\<not> ?thesis"
    then have "dayFromYear (1973 + d * 400 div 146097) \<le> dayFromYear y" by (intro dayFromYear_mono) linarith
    then show False using dayFromYear_upper [of d] assms(1) by linarith
  qed
  then show ?thesis using year_down_eq assms by (simp add: yearFromDay_def)
qed

lemma year_down_bounds:
  "d < dayFromYear (z + 1) \<Longrightarrow> dayFromYear (year_down d z) \<le> d \<and> d < dayFromYear (year_down d z + 1)"
proof (induction d z rule: year_down.induct)
  case (1 d z)
  show ?case
  proof (cases "dayFromYear z \<le> d")
    case True
    with "1.prems" show ?thesis by (subst (1 2) year_down.simps) simp
  next
    case False
    with "1.IH" have "dayFromYear (year_down d (z - 1)) \<le> d \<and> d < dayFromYear (year_down d (z - 1) + 1)" by simp
    with False show ?thesis by (subst (1 2) year_down.simps) simp
  qed
qed

lemma yearFromDay_bounds: "dayFromYear (yearFromDay d) \<le> d" "d < dayFromYear (yearFromDay d + 1)"
  using year_down_bounds [of d "1972 + d * 400 div 146097"] dayFromYear_upper [of d]
  by (simp_all add: yearFromDay_def algebra_simps)

text \<open>Month lengths, and the fields of a day made from valid fields.\<close>

definition monthLength :: "int \<Rightarrow> int \<Rightarrow> int" where
  "monthLength y m = (if m = 1 then (if leap y then 29 else 28)
     else if m \<in> {3, 5, 8, 10} then 30 else 31)"

lemma month_cases:
  assumes "0 \<le> m" and "m < (12 :: int)"
  obtains "m = 0" | "m = 1" | "m = 2" | "m = 3" | "m = 4" | "m = 5"
    | "m = 6" | "m = 7" | "m = 8" | "m = 9" | "m = 10" | "m = 11"
proof -
  have "m = 0 \<or> m = 1 \<or> m = 2 \<or> m = 3 \<or> m = 4 \<or> m = 5 \<or> m = 6 \<or> m = 7 \<or> m = 8 \<or> m = 9 \<or> m = 10 \<or> m = 11"
    using assms by presburger
  then show ?thesis using that by blast
qed

lemma makeDay_offset:
  assumes "0 \<le> m" and "m < 12" and "1 \<le> d" and "d \<le> monthLength y m"
  shows "makeDay y m d = dayFromYear y + (monthStarts (leap y) ! nat m + d - 1)"
    and "0 \<le> monthStarts (leap y) ! nat m + d - 1"
    and "monthStarts (leap y) ! nat m + d - 1 < (if leap y then 366 else 365)"
    and "length (filter (\<lambda>s. s \<le> monthStarts (leap y) ! nat m + d - 1) (monthStarts (leap y))) = nat m + 1"
proof -
  show "makeDay y m d = dayFromYear y + (monthStarts (leap y) ! nat m + d - 1)"
    using assms(1,2) by (simp add: makeDay_def)
  show "0 \<le> monthStarts (leap y) ! nat m + d - 1"
    using assms by (cases rule: month_cases [OF assms(1,2)]) (auto simp: monthStarts_def)
  show "monthStarts (leap y) ! nat m + d - 1 < (if leap y then 366 else 365)"
    using assms by (cases rule: month_cases [OF assms(1,2)]) (auto simp: monthStarts_def monthLength_def)
  show "length (filter (\<lambda>s. s \<le> monthStarts (leap y) ! nat m + d - 1) (monthStarts (leap y))) = nat m + 1"
    using assms by (cases rule: month_cases [OF assms(1,2)]) (auto simp: monthStarts_def monthLength_def split: if_splits)
qed

lemma makeDay_fields:
  assumes "0 \<le> m" and "m < 12" and "1 \<le> d" and "d \<le> monthLength y m"
  shows "yearFromDay (makeDay y m d) = y" and "monthFromDay (makeDay y m d) = nat m"
    and "dateFromDay (makeDay y m d) = d"
proof -
  show y: "yearFromDay (makeDay y m d) = y"
    using makeDay_offset [OF assms] dayFromYear_Suc [of y] by (intro yearFromDay_eq) (auto split: if_splits)
  show m: "monthFromDay (makeDay y m d) = nat m"
    unfolding monthFromDay_def y Let_def
    using makeDay_offset(1,4) [OF assms] by simp
  show "dateFromDay (makeDay y m d) = d"
    unfolding dateFromDay_def y m Let_def
    using makeDay_offset(1) [OF assms] by simp
qed

text \<open>Every day is made from its fields.\<close>

lemma offset_month:
  assumes "0 \<le> n" and "n < (if leap y then 366 else 365)"
  shows "\<exists>m d. 0 \<le> m \<and> m < 12 \<and> 1 \<le> d \<and> d \<le> monthLength y m \<and> n = monthStarts (leap y) ! nat m + d - 1"
proof -
  let ?S = "monthStarts (leap y)"
  have "\<exists>m\<in>{0..<12}. ?S ! nat m \<le> n \<and> n - ?S ! nat m < monthLength y m"
  proof (rule ccontr)
    assume "\<not> ?thesis"
    then have no: "0 \<le> m \<Longrightarrow> m < 12 \<Longrightarrow> ?S ! nat m \<le> n \<Longrightarrow> n \<ge> ?S ! nat m + monthLength y m" for m
      by force
    show False
      using no [of 0] no [of 1] no [of 2] no [of 3] no [of 4] no [of 5] no [of 6] no [of 7]
        no [of 8] no [of 9] no [of 10] no [of 11] assms
      by (auto simp: monthStarts_def monthLength_def split: if_splits)
  qed
  then obtain m where m: "0 \<le> m" "m < 12" "?S ! nat m \<le> n" "n - ?S ! nat m < monthLength y m" by auto
  show ?thesis
    by (rule exI [of _ m], rule exI [of _ "n - ?S ! nat m + 1"]) (use m in auto)
qed

lemma day_fields:
  obtains y m d where "0 \<le> m" "m < 12" "1 \<le> d" "d \<le> monthLength y m" "n = makeDay y m d"
proof -
  define y where "y = yearFromDay n"
  have "0 \<le> n - dayFromYear y" "n - dayFromYear y < (if leap y then 366 else 365)"
    using yearFromDay_bounds [of n] dayFromYear_Suc [of y] by (simp_all add: y_def)
  then obtain m d where "0 \<le> m" "m < 12" "1 \<le> d" "d \<le> monthLength y m"
    "n - dayFromYear y = monthStarts (leap y) ! nat m + d - 1" using offset_month by blast
  with that [of m d y] makeDay_offset(1) [of m d y] show ?thesis by simp
qed

section \<open>Patterns\<close>

text \<open>The pieces of a regular expression that consists of digit groups of a fixed length and
  literal characters, anchored at both ends, and the groups of a match.\<close>

datatype piece = Digits nat | Lit nat

definition is_digit :: "nat \<Rightarrow> bool" where
  "is_digit c = (48 \<le> c \<and> c \<le> 57)"

fun regex_exec :: "piece list \<Rightarrow> jstr \<Rightarrow> jstr list option" where
  "regex_exec [] s = (if s = [] then Some [] else None)"
| "regex_exec (Digits n # ps) s =
     (if n \<le> length s \<and> list_all is_digit (take n s)
      then map_option ((#) (take n s)) (regex_exec ps (drop n s)) else None)"
| "regex_exec (Lit c # ps) s =
     (case s of [] \<Rightarrow> None | d # r \<Rightarrow> if d = c then regex_exec ps r else None)"

definition number_of_digits :: "jstr \<Rightarrow> nat" where
  "number_of_digits ds = foldl (\<lambda>n c. 10 * n + (c - 48)) 0 ds"

section \<open>\<open>Time\<close>\<close>

record parsed_timestamp =
  epochMilliseconds :: int
  microsecond :: nat

record timestamp_options =
  to_year :: "rat option option"
  to_month :: "rat option option"
  to_day :: "rat option option"
  to_hour :: "rat option option"
  to_minute :: "rat option option"
  to_second :: "rat option option"
  to_millisecond :: "rat option option"
  to_microsecond :: "rat option option"

definition timestampRegex :: "piece list" where
  "timestampRegex = [Digits 4, Lit 45, Digits 2, Lit 45, Digits 2, Lit 84, Digits 2, Lit 58,
     Digits 2, Lit 58, Digits 2, Lit 46, Digits 6, Lit 90]"

definition constrainInteger :: "rat option \<Rightarrow> int \<Rightarrow> int \<Rightarrow> int result" where
  "constrainInteger value lo hi = (case value of
     None \<Rightarrow> Inl (OtherError (js ''timestamp field must be finite''))
   | Some v \<Rightarrow> let integer = (if v < 0 then - floor (- v) else floor v) in Inr (min (max integer lo) hi))"

definition daysInUtcMonth :: "int \<Rightarrow> int \<Rightarrow> int" where
  "daysInUtcMonth year month = getUTCDate (makeDate year month 0 0 0 0 0)"

definition pad :: "int \<Rightarrow> nat \<Rightarrow> jstr" where
  "pad value len = padStart len (decimal (nat value))"

definition isSafeInteger :: "int \<Rightarrow> bool" where
  "isSafeInteger n = (\<bar>n\<bar> \<le> 9007199254740991)"

definition formatUtcTimestamp :: "int \<Rightarrow> nat \<Rightarrow> jstr result" where
  "formatUtcTimestamp t us =
     (if \<not> isSafeInteger t
      then Inl (OtherError (js ''timestamp epoch milliseconds must be a finite safe integer''))
      else if \<bar>t\<bar> > 8640000000000000
      then Inl (OtherError (js ''timestamp is outside the supported Date range''))
      else let year = getUTCFullYear t in
        if year < 0 \<or> year > 9999
        then Inl (OtherError (js ''timestamp year must be between 0000 and 9999''))
        else let fraction = padStart 6 (decimal (nat (getUTCMilliseconds t) * 1000 + us)) in
          Inr (pad year 4 @ [45] @ pad (getUTCMonth t + 1) 2 @ [45] @ pad (getUTCDate t) 2 @ [84]
               @ pad (getUTCHours t) 2 @ [58] @ pad (getUTCMinutes t) 2 @ [58] @ pad (getUTCSeconds t) 2
               @ [46] @ fraction @ [90]))"

definition parseTimestamp :: "jstr \<Rightarrow> parsed_timestamp option" where
  "parseTimestamp timestamp = (case regex_exec timestampRegex timestamp of
     Some [m1, m2, m3, m4, m5, m6, m7] \<Rightarrow>
       (let year = int (number_of_digits m1); month = int (number_of_digits m2);
            day = int (number_of_digits m3); hour = int (number_of_digits m4);
            minute = int (number_of_digits m5); second = int (number_of_digits m6);
            millisecond = int (number_of_digits (take 3 m7)); us = number_of_digits (drop 3 m7);
            isLeapSecond = (hour = 23 \<and> minute = 59 \<and> second = 60)
        in if month < 1 \<or> month > 12 \<or> day < 1 \<or> day > daysInUtcMonth year month
              \<or> hour > 23 \<or> minute > 59 \<or> (second > 59 \<and> \<not> isLeapSecond)
           then None
           else let t = makeDate year (month - 1) day hour minute (if isLeapSecond then 59 else second) millisecond
             in if getUTCFullYear t \<noteq> year \<or> getUTCMonth t \<noteq> month - 1 \<or> getUTCDate t \<noteq> day
                   \<or> getUTCHours t \<noteq> hour \<or> getUTCMinutes t \<noteq> minute
                   \<or> getUTCSeconds t \<noteq> (if isLeapSecond then 59 else second)
                then None
                else Some \<lparr>epochMilliseconds = t, microsecond = us\<rparr>)
   | _ \<Rightarrow> None)"

definition invalid_timestamp :: "jstr \<Rightarrow> js_error" where
  "invalid_timestamp timestamp = DwnError ''TimestampInvalid'' (js ''Invalid timestamp: '' @ timestamp)"

definition validateTimestamp :: "jstr \<Rightarrow> unit result" where
  "validateTimestamp timestamp = guard (parseTimestamp timestamp \<noteq> None) (invalid_timestamp timestamp)"

text \<open>\<open>Date.now()\<close> is the argument \<open>now\<close>.\<close>

definition getCurrentTimestamp :: "int \<Rightarrow> jstr result" where
  "getCurrentTimestamp now = formatUtcTimestamp now 0"

definition requireTimestampField :: "rat option option \<Rightarrow> string \<Rightarrow> rat option result" where
  "requireTimestampField value fieldName = (case value of
     None \<Rightarrow> Inl (OtherError (js ''required property '' @ [39] @ js fieldName @ [39] @ js '' missing or undefined''))
   | Some v \<Rightarrow> Inr v)"

definition requireWholeNumber :: "rat option \<Rightarrow> string \<Rightarrow> int result" where
  "requireWholeNumber value fieldName = (case value of
     Some v \<Rightarrow> (if of_int (floor v) = v then Inr (floor v)
                else Inl (OtherError (js (fieldName @ '' must be a finite integer''))))
   | None \<Rightarrow> Inl (OtherError (js (fieldName @ '' must be a finite integer''))))"

definition or_zero :: "rat option option \<Rightarrow> rat option" where
  "or_zero value = (case value of None \<Rightarrow> Some 0 | Some v \<Rightarrow> v)"

definition createTimestamp :: "timestamp_options \<Rightarrow> jstr result" where
  "createTimestamp options =
     bind (bind (requireTimestampField (to_year options) ''year'') (\<lambda>v. constrainInteger v 0 9999)) (\<lambda>year.
     bind (bind (requireTimestampField (to_month options) ''month'') (\<lambda>v. constrainInteger v 1 12)) (\<lambda>month.
     bind (bind (requireTimestampField (to_day options) ''day'')
             (\<lambda>v. constrainInteger v 1 (daysInUtcMonth year month))) (\<lambda>day.
     bind (constrainInteger (or_zero (to_hour options)) 0 23) (\<lambda>hour.
     bind (constrainInteger (or_zero (to_minute options)) 0 59) (\<lambda>minute.
     bind (constrainInteger (or_zero (to_second options)) 0 59) (\<lambda>second.
     bind (constrainInteger (or_zero (to_millisecond options)) 0 999) (\<lambda>millisecond.
     bind (constrainInteger (or_zero (to_microsecond options)) 0 999) (\<lambda>us.
     formatUtcTimestamp (makeDate year (month - 1) day hour minute second millisecond) (nat us)))))))))"

definition createOffsetTimestamp :: "int \<Rightarrow> rat option \<Rightarrow> jstr option \<Rightarrow> jstr result" where
  "createOffsetTimestamp now seconds timestamp =
     (case (case timestamp of
              None \<Rightarrow> Some \<lparr>epochMilliseconds = now, microsecond = 0\<rparr>
            | Some ts \<Rightarrow> parseTimestamp ts) of
        None \<Rightarrow> Inl (invalid_timestamp (case timestamp of None \<Rightarrow> js ''undefined'' | Some ts \<Rightarrow> ts))
      | Some p \<Rightarrow> bind (requireWholeNumber seconds ''seconds'') (\<lambda>offsetSeconds.
          formatUtcTimestamp (epochMilliseconds p + offsetSeconds * 1000) (microsecond p)))"

definition createTimestampAfter :: "jstr \<Rightarrow> int \<Rightarrow> jstr result" where
  "createTimestampAfter floorTimestamp nowMillis = (case parseTimestamp floorTimestamp of
     None \<Rightarrow> Inl (invalid_timestamp floorTimestamp)
   | Some fl \<Rightarrow>
       let fraction = number_of_digits (take 6 (drop 20 floorTimestamp)) in
       bind (if fraction = 999999 then formatUtcTimestamp (epochMilliseconds fl + 1) 0
             else Inr (take 20 floorTimestamp @ pad (int (fraction + 1)) 6 @ [90])) (\<lambda>nextFloorTimestamp.
       bind (formatUtcTimestamp nowMillis 0) (\<lambda>nowTimestamp.
       Inr (if nextFloorTimestamp > nowTimestamp then nextFloorTimestamp else nowTimestamp))))"

section \<open>Facts about patterns\<close>

fun assemble :: "piece list \<Rightarrow> jstr list \<Rightarrow> jstr" where
  "assemble [] gs = []"
| "assemble (Digits n # ps) gs = hd gs @ assemble ps (tl gs)"
| "assemble (Lit c # ps) gs = c # assemble ps gs"

fun fits :: "piece list \<Rightarrow> jstr list \<Rightarrow> bool" where
  "fits [] gs = (gs = [])"
| "fits (Digits n # ps) gs = (gs \<noteq> [] \<and> length (hd gs) = n \<and> list_all is_digit (hd gs) \<and> fits ps (tl gs))"
| "fits (Lit c # ps) gs = fits ps gs"

lemma regex_exec_assemble: "fits ps gs \<Longrightarrow> regex_exec ps (assemble ps gs) = Some gs"
  by (induction ps gs rule: fits.induct) (auto simp: neq_Nil_conv)

lemma regex_exec_iff: "regex_exec ps s = Some gs \<longleftrightarrow> fits ps gs \<and> s = assemble ps gs"
proof
  show "fits ps gs \<and> s = assemble ps gs" if "regex_exec ps s = Some gs"
    using that by (induction ps s arbitrary: gs rule: regex_exec.induct) (auto split: if_splits list.splits, metis append_take_drop_id)
qed (auto simp: regex_exec_assemble)

lemma append_less_iff: "length a = length b \<Longrightarrow> a @ s < b @ t \<longleftrightarrow> a < b \<or> (a = b \<and> s < t)" for a b :: jstr
  by (induction a b rule: list_induct2) auto

lemma assemble_less_iff: "fits ps gs \<Longrightarrow> fits ps hs \<Longrightarrow> assemble ps gs < assemble ps hs \<longleftrightarrow> gs < hs"
  by (induction ps gs arbitrary: hs rule: fits.induct) (auto simp: append_less_iff neq_Nil_conv)

lemma assemble_inject: "fits ps gs \<Longrightarrow> fits ps hs \<Longrightarrow> assemble ps gs = assemble ps hs \<longleftrightarrow> gs = hs"
  using regex_exec_assemble by (metis option.inject)

lemma digits_fixed [simp]: "list_all is_digit (fixed w n)"
  by (induction w arbitrary: n) (auto simp: is_digit_def)

lemma number_of_digits_fixed: "n < 10 ^ w \<Longrightarrow> number_of_digits (fixed w n) = n"
proof (induction w arbitrary: n)
  case (Suc w)
  then have "n div 10 < 10 ^ w" by (simp add: less_mult_imp_div_less mult.commute)
  then show ?case using Suc.IH [of "n div 10"] by (simp add: number_of_digits_def)
qed (simp add: number_of_digits_def)

lemma fixed_number_of_digits: "list_all is_digit ds \<Longrightarrow> fixed (length ds) (number_of_digits ds) = ds"
proof (induction ds rule: rev_induct)
  case (snoc c ds)
  let ?n = "number_of_digits ds"
  have n: "number_of_digits (ds @ [c]) = 10 * ?n + (c - 48)" by (simp add: number_of_digits_def)
  have c: "c - 48 < 10" "48 + (c - 48) = c" using snoc.prems by (auto simp: is_digit_def)
  have "(10 * ?n + (c - 48)) div 10 = ?n" "(10 * ?n + (c - 48)) mod 10 = c - 48" using c(1) by simp_all
  with c(2) snoc show ?case by (simp add: n)
qed simp

lemma number_of_digits_bound: "list_all is_digit ds \<Longrightarrow> number_of_digits ds < 10 ^ length ds"
  by (induction ds rule: rev_induct) (auto simp: number_of_digits_def is_digit_def)

lemma digit_group:
  assumes "length g = w" and "list_all is_digit g"
  obtains n where "g = fixed w n" and "n < 10 ^ w"
  using assms fixed_number_of_digits number_of_digits_bound by metis

lemma padStart_fixed: "n < 10 ^ w \<Longrightarrow> 0 < w \<Longrightarrow> padStart w (decimal n) = fixed w n"
  using decimal_length decimal_fixed by blast

lemma take_fixed: "take w (fixed (w + v) n) = fixed w (n div 10 ^ v)"
  by (induction v arbitrary: n) (simp_all add: div_mult2_eq)

lemma drop_fixed: "drop w (fixed (w + v) n) = fixed v (n mod 10 ^ v)"
proof (induction v arbitrary: n)
  case (Suc v)
  have "n mod (10 * 10 ^ v) div 10 = n div 10 mod 10 ^ v" "n mod (10 * 10 ^ v) mod 10 = n mod 10"
    by (simp_all add: mod_mult2_eq mod_mod_cancel)
  with Suc show ?case by simp
qed simp

section \<open>Facts about the calendar\<close>

lemma filter_length_mono: "(\<And>x. P x \<Longrightarrow> Q x) \<Longrightarrow> length (filter P xs) \<le> length (filter Q xs)"
  by (induction xs) (auto intro: le_SucI)

lemma makeDay_less:
  assumes "0 \<le> m" "m < 12" "1 \<le> d" "d \<le> monthLength y m"
    and "0 \<le> m'" "m' < 12" "1 \<le> d'" "d' \<le> monthLength y' m'"
    and "y < y' \<or> y = y' \<and> (m < m' \<or> m = m' \<and> d < d')"
  shows "makeDay y m d < makeDay y' m' d'"
proof -
  note a = makeDay_offset [OF assms(1-4)] and b = makeDay_offset [OF assms(5-8)]
  consider "y < y'" | "y = y'" "m < m'" | "y = y'" "m = m'" "d < d'" using assms(9) by blast
  then show ?thesis
  proof cases
    case 1
    then have "dayFromYear (y + 1) \<le> dayFromYear y'" by (intro dayFromYear_mono) simp
    moreover have "makeDay y m d < dayFromYear (y + 1)" using a(1,3) dayFromYear_Suc [of y] by simp
    ultimately show ?thesis using b(1,2) by linarith
  next
    case 2
    let ?o = "\<lambda>m d. monthStarts (leap y) ! nat m + d - 1"
    show ?thesis
    proof (rule ccontr)
      assume "\<not> ?thesis"
      then have le: "?o m' d' \<le> ?o m d" using a(1) b(1) 2(1) by simp
      have "length (filter (\<lambda>s. s \<le> ?o m' d') (monthStarts (leap y)))
              \<le> length (filter (\<lambda>s. s \<le> ?o m d) (monthStarts (leap y)))"
        using le by (intro filter_length_mono) linarith
      then show False using a(4) b(4) 2 assms(1,5) by simp
    qed
  next
    case 3
    then show ?thesis using a(1) b(1) by simp
  qed
qed

lemma daysInUtcMonth_eq:
  assumes "1 \<le> m" and "m \<le> 12"
  shows "daysInUtcMonth y m = monthLength y (m - 1)"
proof -
  have r: "0 \<le> m - 1" "m - 1 < 12" using assms by simp_all
  have "makeDay y m 0 = makeDay y (m - 1) (monthLength y (m - 1))"
  proof (cases "m = 12")
    case True
    then show ?thesis using dayFromYear_Suc [of y] by (simp add: makeDay_def monthLength_def monthStarts_def)
  next
    case False
    with assms have "0 \<le> m" "m < 12" by simp_all
    then show ?thesis using assms
      by (cases rule: month_cases [OF \<open>0 \<le> m\<close> \<open>m < 12\<close>]) (simp_all add: makeDay_def monthLength_def monthStarts_def)
  qed
  moreover have "1 \<le> monthLength y (m - 1)" by (simp add: monthLength_def)
  ultimately show ?thesis
    using makeDay_fields(3) [OF r] by (simp add: daysInUtcMonth_def getUTCDate_def makeDate_def)
qed

section \<open>Facts about timestamps\<close>

text \<open>The text of seven fields, and the fields a timestamp may have; second 60 occurs only as
  the last second of a day.\<close>

definition groups :: "int \<Rightarrow> int \<Rightarrow> int \<Rightarrow> int \<Rightarrow> int \<Rightarrow> int \<Rightarrow> int \<Rightarrow> jstr list" where
  "groups y mo d h mi s f = [fixed 4 (nat y), fixed 2 (nat mo), fixed 2 (nat d), fixed 2 (nat h),
     fixed 2 (nat mi), fixed 2 (nat s), fixed 6 (nat f)]"

definition stamp :: "int \<Rightarrow> int \<Rightarrow> int \<Rightarrow> int \<Rightarrow> int \<Rightarrow> int \<Rightarrow> int \<Rightarrow> jstr" where
  "stamp y mo d h mi s f = assemble timestampRegex (groups y mo d h mi s f)"

definition civil :: "int \<Rightarrow> int \<Rightarrow> int \<Rightarrow> int \<Rightarrow> int \<Rightarrow> int \<Rightarrow> int \<Rightarrow> bool" where
  "civil y mo d h mi s f \<longleftrightarrow> 0 \<le> y \<and> y \<le> 9999 \<and> 1 \<le> mo \<and> mo \<le> 12 \<and> 1 \<le> d \<and> d \<le> monthLength y (mo - 1)
     \<and> 0 \<le> h \<and> h \<le> 23 \<and> 0 \<le> mi \<and> mi \<le> 59 \<and> 0 \<le> s \<and> (s \<le> 59 \<or> h = 23 \<and> mi = 59 \<and> s = 60)
     \<and> 0 \<le> f \<and> f \<le> 999999"

lemma fits_groups [simp]: "fits timestampRegex (groups y mo d h mi s f)"
  by (simp add: timestampRegex_def groups_def del: fixed.simps)

lemma monthLength_le: "monthLength y m \<le> 31"
  by (simp add: monthLength_def)

lemma time_fields:
  fixes D h mi s ms :: int
  assumes "0 \<le> h" "h \<le> 23" "0 \<le> mi" "mi \<le> 59" "0 \<le> s" "s \<le> 59" "0 \<le> ms" "ms \<le> 999"
    and t: "t = D * msPerDay + h * 3600000 + mi * 60000 + s * 1000 + ms"
  shows "t div msPerDay = D" "getUTCHours t = h" "getUTCMinutes t = mi" "getUTCSeconds t = s"
    "getUTCMilliseconds t = ms"
proof -
  have d: "t = msPerDay * D + (h * 3600000 + mi * 60000 + s * 1000 + ms)" using t by simp
  show "t div msPerDay = D" by (rule int_div_pos_eq [OF d]) (use assms in linarith)+
  have "t mod msPerDay = h * 3600000 + mi * 60000 + s * 1000 + ms"
    by (rule int_mod_pos_eq [OF d]) (use assms in linarith)+
  then have "t mod msPerDay = 3600000 * h + (mi * 60000 + s * 1000 + ms)" by simp
  then show "getUTCHours t = h" unfolding getUTCHours_def
    by (rule int_div_pos_eq) (use assms in linarith)+
  have "t = 3600000 * (D * 24 + h) + (mi * 60000 + s * 1000 + ms)" using t by simp
  then have "t mod 3600000 = mi * 60000 + s * 1000 + ms"
    by (rule int_mod_pos_eq) (use assms in linarith)+
  then have "t mod 3600000 = 60000 * mi + (s * 1000 + ms)" by simp
  then show "getUTCMinutes t = mi" unfolding getUTCMinutes_def
    by (rule int_div_pos_eq) (use assms in linarith)+
  have "t = 60000 * (D * 1440 + h * 60 + mi) + (s * 1000 + ms)" using t by simp
  then have "t mod 60000 = s * 1000 + ms" by (rule int_mod_pos_eq) (use assms in linarith)+
  then have "t mod 60000 = 1000 * s + ms" by simp
  then show "getUTCSeconds t = s" unfolding getUTCSeconds_def
    by (rule int_div_pos_eq) (use assms in linarith)+
  have "t = 1000 * (D * 86400 + h * 3600 + mi * 60 + s) + ms" using t by simp
  then show "getUTCMilliseconds t = ms" unfolding getUTCMilliseconds_def
    by (rule int_mod_pos_eq) (use assms in linarith)+
qed

lemma makeDate_fields:
  assumes "civil y mo d h mi s f" and "s \<le> 59" and "0 \<le> ms" and "ms \<le> 999"
    and t: "t = makeDate y (mo - 1) d h mi s ms"
  shows "getUTCFullYear t = y" "getUTCMonth t = mo - 1" "getUTCDate t = d" "getUTCHours t = h"
    "getUTCMinutes t = mi" "getUTCSeconds t = s" "getUTCMilliseconds t = ms"
proof -
  have r: "0 \<le> mo - 1" "mo - 1 < 12" "1 \<le> d" "d \<le> monthLength y (mo - 1)" using assms(1) by (auto simp: civil_def)
  have "0 \<le> h" "h \<le> 23" "0 \<le> mi" "mi \<le> 59" "0 \<le> s" using assms(1) by (auto simp: civil_def)
  note f = time_fields [OF this assms(2-4), of t "makeDay y (mo - 1) d"]
  show "getUTCFullYear t = y" "getUTCMonth t = mo - 1" "getUTCDate t = d" "getUTCHours t = h"
    "getUTCMinutes t = mi" "getUTCSeconds t = s" "getUTCMilliseconds t = ms"
    using f t makeDay_fields [OF r] r(1)
    by (simp_all add: makeDate_def getUTCFullYear_def getUTCMonth_def getUTCDate_def)
qed

lemma time_value_fields:
  assumes "0 \<le> getUTCFullYear t" and "getUTCFullYear t \<le> 9999"
  obtains y mo d h mi s ms where "civil y mo d h mi s 0" "s \<le> 59" "0 \<le> ms" "ms \<le> 999"
    "t = makeDate y (mo - 1) d h mi s ms"
proof -
  obtain y m d where day: "0 \<le> m" "m < 12" "1 \<le> d" "d \<le> monthLength y m" "t div msPerDay = makeDay y m d"
    by (rule day_fields)
  define r where "r = t mod msPerDay"
  have r: "0 \<le> r" "r < msPerDay" by (simp_all add: r_def)
  have y: "getUTCFullYear t = y" using makeDay_fields(1) [OF day(1-4)] day(5) by (simp add: getUTCFullYear_def)
  have t: "t = makeDay y m d * msPerDay + r" using day(5) by (simp add: r_def flip: day(5))
  define h mi s ms where "h = r div 3600000" and "mi = r mod 3600000 div 60000"
    and "s = r mod 60000 div 1000" and "ms = r mod 1000"
  have split: "r = h * 3600000 + mi * 60000 + s * 1000 + ms"
  proof -
    have e1: "3600000 * h + r mod 3600000 = r" by (simp add: h_def)
    have e2: "60000 * mi + r mod 60000 = r mod 3600000"
      using mult_div_mod_eq [of 60000 "r mod 3600000"] by (simp add: mi_def mod_mod_cancel)
    have e3: "1000 * s + ms = r mod 60000"
      using mult_div_mod_eq [of 1000 "r mod 60000"] by (simp add: s_def ms_def mod_mod_cancel)
    have "r = 3600000 * h + (60000 * mi + (1000 * s + ms))" by (simp only: e1 e2 e3)
    then show ?thesis by simp
  qed
  have h: "0 \<le> h" "h \<le> 23" using r zdiv_mono1 [of r 86399999 3600000] by (simp_all add: h_def pos_imp_zdiv_nonneg_iff)
  show ?thesis
  proof (rule that [of y "m + 1" d h mi s ms])
    show "civil y (m + 1) d h mi s 0"
      using assms y day h by (auto simp: civil_def mi_def s_def)
    show "s \<le> 59" "0 \<le> ms" "ms \<le> 999" by (auto simp: s_def ms_def)
    show "t = makeDate y (m + 1 - 1) d h mi s ms" using t split by (simp add: makeDate_def)
  qed
qed

lemma date_range:
  assumes "civil y mo d h mi s f" and "s \<le> 59" and "0 \<le> ms" and "ms \<le> 999"
  shows "\<bar>makeDate y (mo - 1) d h mi s ms\<bar> \<le> 70000000 * 10 ^ 7"
proof -
  have r: "0 \<le> mo - 1" "mo - 1 < 12" "1 \<le> d" "d \<le> monthLength y (mo - 1)" using assms(1) by (auto simp: civil_def)
  note o = makeDay_offset [OF r]
  have "dayFromYear 0 \<le> dayFromYear y" "dayFromYear y \<le> dayFromYear 9999"
    using assms(1) by (auto intro: dayFromYear_mono simp: civil_def)
  then have "- 719528 \<le> dayFromYear y" "dayFromYear y \<le> 2932532" by (simp_all add: dayFromYear_def)
  then have "- 719528 \<le> makeDay y (mo - 1) d" "makeDay y (mo - 1) d \<le> 2932898"
    using o(1-3) by (auto split: if_splits)
  then show ?thesis using assms unfolding makeDate_def civil_def by (auto simp: abs_le_iff)
qed

lemma formatUtcTimestamp_stamp:
  assumes "civil y mo d h mi s 0" and "s \<le> 59" and "0 \<le> ms" and "ms \<le> 999" and "us \<le> 999"
  shows "formatUtcTimestamp (makeDate y (mo - 1) d h mi s ms) us = Inr (stamp y mo d h mi s (ms * 1000 + int us))"
proof -
  note f = makeDate_fields [OF assms(1-4) refl]
  have b: "nat y < 10 ^ 4" "nat mo < 10 ^ 2" "nat d < 10 ^ 2" "nat h < 10 ^ 2" "nat mi < 10 ^ 2" "nat s < 10 ^ 2"
    "nat ms * 1000 + us < 10 ^ 6"
    using assms monthLength_le [of y "mo - 1"] by (auto simp: civil_def nat_less_iff)
  have n: "nat (ms * 1000 + int us) = nat ms * 1000 + us" using assms(3) by (simp add: nat_add_distrib nat_mult_distrib)
  have y: "\<not> (y < 0 \<or> 9999 < y)" using assms(1) by (auto simp: civil_def)
  have "padStart 4 (decimal (nat y)) = fixed 4 (nat y)" "padStart 2 (decimal (nat mo)) = fixed 2 (nat mo)"
    "padStart 2 (decimal (nat d)) = fixed 2 (nat d)" "padStart 2 (decimal (nat h)) = fixed 2 (nat h)"
    "padStart 2 (decimal (nat mi)) = fixed 2 (nat mi)" "padStart 2 (decimal (nat s)) = fixed 2 (nat s)"
    "padStart 6 (decimal (nat ms * 1000 + us)) = fixed 6 (nat ms * 1000 + us)"
    using b by (simp_all only: padStart_fixed zero_less_numeral)
  moreover have "isSafeInteger (makeDate y (mo - 1) d h mi s ms)"
    "\<not> \<bar>makeDate y (mo - 1) d h mi s ms\<bar> > 8640000000000000"
    using date_range [OF assms(1-4)] by (auto simp: isSafeInteger_def)
  ultimately show ?thesis
    unfolding formatUtcTimestamp_def stamp_def groups_def timestampRegex_def Let_def f pad_def n using y
    by (simp del: fixed.simps)
qed

lemma parseTimestamp_stamp:
  assumes "civil y mo d h mi s f"
  shows "parseTimestamp (stamp y mo d h mi s f) = Some \<lparr>epochMilliseconds =
     makeDate y (mo - 1) d h mi (if s = 60 then 59 else s) (f div 1000), microsecond = nat (f mod 1000)\<rparr>"
proof -
  let ?s = "if s = 60 then 59 else s" and ?ms = "f div 1000"
  have b: "nat y < 10 ^ 4" "nat mo < 10 ^ 2" "nat d < 10 ^ 2" "nat h < 10 ^ 2" "nat mi < 10 ^ 2" "nat s < 10 ^ 2"
    "nat f < 10 ^ 6"
    using assms monthLength_le [of y "mo - 1"] by (auto simp: civil_def nat_less_iff)
  have n: "int (number_of_digits (fixed 4 (nat y))) = y" "int (number_of_digits (fixed 2 (nat mo))) = mo"
    "int (number_of_digits (fixed 2 (nat d))) = d" "int (number_of_digits (fixed 2 (nat h))) = h"
    "int (number_of_digits (fixed 2 (nat mi))) = mi" "int (number_of_digits (fixed 2 (nat s))) = s"
    using b assms by (simp_all only: number_of_digits_fixed) (auto simp: civil_def)
  have f0: "0 \<le> f" "f \<le> 999999" using assms by (auto simp: civil_def)
  then have ms: "0 \<le> ?ms" "?ms \<le> 999" using zdiv_mono1 [of f 999999 1000] by (simp_all add: pos_imp_zdiv_nonneg_iff)
  have m7: "int (number_of_digits (take 3 (fixed 6 (nat f)))) = f div 1000"
    "number_of_digits (drop 3 (fixed 6 (nat f))) = nat (f mod 1000)"
  proof -
    have "nat f div 10 ^ 3 < 10 ^ 3" using b(7) by (intro less_mult_imp_div_less) simp
    then show "int (number_of_digits (take 3 (fixed 6 (nat f)))) = f div 1000"
      using take_fixed [of 3 3 "nat f"] number_of_digits_fixed [of "nat f div 10 ^ 3" 3] f0
      by (simp add: zdiv_int)
    show "number_of_digits (drop 3 (fixed 6 (nat f))) = nat (f mod 1000)"
      using drop_fixed [of 3 3 "nat f"] number_of_digits_fixed [of "nat f mod 10 ^ 3" 3] f0
      by (simp add: nat_mod_distrib)
  qed
  have c: "civil y mo d h mi ?s f" "?s \<le> 59" using assms by (auto simp: civil_def)
  note fields = makeDate_fields [OF c ms refl]
  have rx: "regex_exec timestampRegex (stamp y mo d h mi s f) = Some (groups y mo d h mi s f)"
    unfolding stamp_def by (rule regex_exec_assemble) simp
  have ok: "1 \<le> mo" "mo \<le> 12" "1 \<le> d" "d \<le> monthLength y (mo - 1)" "h \<le> 23" "mi \<le> 59"
    "s \<le> 59 \<or> h = 23 \<and> mi = 59 \<and> s = 60" using assms by (auto simp: civil_def)
  have if_leap: "(if h = 23 \<and> mi = 59 \<and> s = 60 then 59 else s) = ?s" using ok(7) by auto
  show ?thesis
    unfolding parseTimestamp_def rx groups_def option.case list.case Let_def n m7 daysInUtcMonth_eq [OF ok(1,2)] if_leap fields
    using ok by auto
qed

lemma parsed_fields:
  assumes "parseTimestamp t = Some p"
  obtains y mo d h mi s f where "civil y mo d h mi s f" and "t = stamp y mo d h mi s f"
proof -
  obtain gs where "regex_exec timestampRegex t = Some gs"
    using assms by (auto simp: parseTimestamp_def split: option.splits)
  then have gs: "fits timestampRegex gs" "t = assemble timestampRegex gs" by (simp_all add: regex_exec_iff)
  then obtain g1 g2 g3 g4 g5 g6 g7 where g: "gs = [g1, g2, g3, g4, g5, g6, g7]"
    and ok: "length g1 = 4" "list_all is_digit g1" "length g2 = 2" "list_all is_digit g2"
      "length g3 = 2" "list_all is_digit g3" "length g4 = 2" "list_all is_digit g4"
      "length g5 = 2" "list_all is_digit g5" "length g6 = 2" "list_all is_digit g6"
      "length g7 = 6" "list_all is_digit g7"
    unfolding timestampRegex_def by (auto simp: neq_Nil_conv)
  obtain y where y: "g1 = fixed 4 y" "y < 10 ^ 4" by (rule digit_group [OF ok(1,2)])
  obtain mo where mo: "g2 = fixed 2 mo" "mo < 10 ^ 2" by (rule digit_group [OF ok(3,4)])
  obtain d where d: "g3 = fixed 2 d" "d < 10 ^ 2" by (rule digit_group [OF ok(5,6)])
  obtain h where h: "g4 = fixed 2 h" "h < 10 ^ 2" by (rule digit_group [OF ok(7,8)])
  obtain mi where mi: "g5 = fixed 2 mi" "mi < 10 ^ 2" by (rule digit_group [OF ok(9,10)])
  obtain s where s: "g6 = fixed 2 s" "s < 10 ^ 2" by (rule digit_group [OF ok(11,12)])
  obtain f where f: "g7 = fixed 6 f" "f < 10 ^ 6" by (rule digit_group [OF ok(13,14)])
  let ?F = "\<lambda>P. P (int y) (int mo) (int d) (int h) (int mi) (int s) (int f)"
  have t: "t = ?F stamp"
    using gs(2) by (simp add: stamp_def groups_def g y mo d h mi s f del: fixed.simps)
  have rx: "regex_exec timestampRegex t = Some (?F groups)"
    unfolding t stamp_def by (rule regex_exec_assemble) simp
  have n: "number_of_digits (fixed 4 (nat (int y))) = y" "number_of_digits (fixed 2 (nat (int mo))) = mo"
    "number_of_digits (fixed 2 (nat (int d))) = d" "number_of_digits (fixed 2 (nat (int h))) = h"
    "number_of_digits (fixed 2 (nat (int mi))) = mi" "number_of_digits (fixed 2 (nat (int s))) = s"
    using number_of_digits_fixed y(2) mo(2) d(2) h(2) mi(2) s(2) by simp_all
  have month: "1 \<le> int mo \<and> int mo \<le> 12"
    using assms unfolding parseTimestamp_def rx groups_def option.case list.case Let_def n
    by (auto split: if_splits)
  then have "?F civil"
    using assms y(2) f(2) daysInUtcMonth_eq [of "int mo" "int y"]
    unfolding parseTimestamp_def rx groups_def option.case list.case Let_def n civil_def
    by (auto split: if_splits)
  with t that show ?thesis by blast
qed

text \<open>Textual order is the order of the fields, which is the order of the instants.\<close>

definition lex7 :: "int \<times> int \<times> int \<times> int \<times> int \<times> int \<times> int \<Rightarrow> int \<times> int \<times> int \<times> int \<times> int \<times> int \<times> int \<Rightarrow> bool" where
  "lex7 = (\<lambda>(y, mo, d, h, mi, s, f) (y', mo', d', h', mi', s', f').
     y < y' \<or> y = y' \<and> (mo < mo' \<or> mo = mo' \<and> (d < d' \<or> d = d' \<and> (h < h' \<or> h = h' \<and>
       (mi < mi' \<or> mi = mi' \<and> (s < s' \<or> s = s' \<and> f < f'))))))"

definition instant :: "int \<Rightarrow> int \<Rightarrow> int \<Rightarrow> int \<Rightarrow> int \<Rightarrow> int \<Rightarrow> int \<Rightarrow> int" where
  "instant y mo d h mi s f = makeDate y (mo - 1) d h mi s 0 * 1000 + f"

lemma fixed_nat_less:
  assumes "0 \<le> a" "a < 10 ^ w" "0 \<le> b" "b < 10 ^ w"
  shows "fixed w (nat a) < fixed w (nat b) \<longleftrightarrow> a < b" "fixed w (nat a) = fixed w (nat b) \<longleftrightarrow> a = b"
proof -
  have "nat a < 10 ^ w" "nat b < 10 ^ w" using assms by (simp_all add: nat_less_iff)
  then show "fixed w (nat a) < fixed w (nat b) \<longleftrightarrow> a < b" "fixed w (nat a) = fixed w (nat b) \<longleftrightarrow> a = b"
    using fixed_less_iff fixed_eq_iff assms by (auto simp: nat_less_eq_zless)
qed

lemma stamp_less_iff:
  assumes "civil y mo d h mi s f" and "civil y' mo' d' h' mi' s' f'"
  shows "stamp y mo d h mi s f < stamp y' mo' d' h' mi' s' f'
         \<longleftrightarrow> lex7 (y, mo, d, h, mi, s, f) (y', mo', d', h', mi', s', f')"
proof -
  have l: "civil y mo d h mi s f \<Longrightarrow> y < 10 ^ 4 \<and> mo < 10 ^ 2 \<and> d < 10 ^ 2 \<and> h < 10 ^ 2 \<and> mi < 10 ^ 2 \<and> s < 10 ^ 2 \<and> f < 10 ^ 6
      \<and> 0 \<le> y \<and> 0 \<le> mo \<and> 0 \<le> d \<and> 0 \<le> h \<and> 0 \<le> mi \<and> 0 \<le> s \<and> 0 \<le> f" for y mo d h mi s f
    using monthLength_le [of y "mo - 1"] by (auto simp: civil_def)
  show ?thesis
    unfolding stamp_def assemble_less_iff [OF fits_groups fits_groups]
    unfolding groups_def lex7_def prod.case
    using fixed_nat_less [of y 4 y'] fixed_nat_less [of mo 2 mo'] fixed_nat_less [of d 2 d']
      fixed_nat_less [of h 2 h'] fixed_nat_less [of mi 2 mi'] fixed_nat_less [of s 2 s']
      fixed_nat_less [of f 6 f'] l [OF assms(1)] l [OF assms(2)]
    by (simp del: fixed.simps)
qed

lemma radix_less:
  fixes a a' b b' B :: int
  assumes "0 \<le> b" "b < B" "0 \<le> b'" "b' < B"
  shows "a * B + b < a' * B + b' \<longleftrightarrow> a < a' \<or> a = a' \<and> b < b'"
proof -
  have "a * B + b < a' * B + b'" if "a < a'" "0 \<le> b'" "b < B" for a a' b b'
  proof -
    have "(a + 1) * B \<le> a' * B" using that assms by (intro mult_right_mono) auto
    then show ?thesis using that by (simp add: distrib_right)
  qed
  from this [of a a' b' b] this [of a' a b b'] assms show ?thesis by (cases a a' rule: linorder_cases) auto
qed

lemma radix_eq:
  fixes a a' b b' B :: int
  assumes "0 \<le> b" "b < B" "0 \<le> b'" "b' < B"
  shows "a * B + b = a' * B + b' \<longleftrightarrow> a = a' \<and> b = b'"
  using radix_less [OF assms, of a a'] radix_less [OF assms(3,4,1,2), of a' a] by (metis linorder_neq_iff)

lemma makeDay_less_iff:
  assumes "civil y mo d h mi s f" and "civil y' mo' d' h' mi' s' f'"
  shows "makeDay y (mo - 1) d < makeDay y' (mo' - 1) d' \<longleftrightarrow> y < y' \<or> y = y' \<and> (mo < mo' \<or> mo = mo' \<and> d < d')"
    and "makeDay y (mo - 1) d = makeDay y' (mo' - 1) d' \<longleftrightarrow> y = y' \<and> mo = mo' \<and> d = d'"
proof -
  have r: "0 \<le> mo - 1" "mo - 1 < 12" "1 \<le> d" "d \<le> monthLength y (mo - 1)"
    "0 \<le> mo' - 1" "mo' - 1 < 12" "1 \<le> d'" "d' \<le> monthLength y' (mo' - 1)" using assms by (auto simp: civil_def)
  note lt = makeDay_less [OF r] and gt = makeDay_less [OF r(5-8) r(1-4)]
  show "makeDay y (mo - 1) d < makeDay y' (mo' - 1) d' \<longleftrightarrow> y < y' \<or> y = y' \<and> (mo < mo' \<or> mo = mo' \<and> d < d')"
    "makeDay y (mo - 1) d = makeDay y' (mo' - 1) d' \<longleftrightarrow> y = y' \<and> mo = mo' \<and> d = d'"
    using lt gt by (cases y y' rule: linorder_cases; cases mo mo' rule: linorder_cases; cases d d' rule: linorder_cases; force)+
qed

lemma instant_less_iff:
  assumes "civil y mo d h mi s f" and "civil y' mo' d' h' mi' s' f'" and "s \<le> 59" and "s' \<le> 59"
  shows "instant y mo d h mi s f < instant y' mo' d' h' mi' s' f'
         \<longleftrightarrow> lex7 (y, mo, d, h, mi, s, f) (y', mo', d', h', mi', s', f')"
proof -
  have i: "instant y mo d h mi s f = (((makeDay y (mo - 1) d * 24 + h) * 60 + mi) * 60 + s) * 1000000 + f"
    for y mo d h mi s f by (simp add: instant_def makeDate_def)
  have l: "0 \<le> h \<and> h < 24 \<and> 0 \<le> mi \<and> mi < 60 \<and> 0 \<le> s \<and> 0 \<le> f \<and> f < 1000000"
    if "civil y mo d h mi s f" for y mo d h mi s f using that by (auto simp: civil_def)
  note a = l [OF assms(1)] l [OF assms(2)]
  have s: "s < 60" "s' < 60" using assms(3,4) by simp_all
  let ?D = "makeDay y (mo - 1) d" and ?D' = "makeDay y' (mo' - 1) d'"
  let ?H = "?D * 24 + h" and ?H' = "?D' * 24 + h'"
  let ?M = "?H * 60 + mi" and ?M' = "?H' * 60 + mi'"
  let ?S = "?M * 60 + s" and ?S' = "?M' * 60 + s'"
  have "?S * 1000000 + f < ?S' * 1000000 + f' \<longleftrightarrow> ?S < ?S' \<or> ?S = ?S' \<and> f < f'"
    by (rule radix_less) (use a in auto)
  moreover have "?S < ?S' \<longleftrightarrow> ?M < ?M' \<or> ?M = ?M' \<and> s < s'" "?S = ?S' \<longleftrightarrow> ?M = ?M' \<and> s = s'"
    by (rule radix_less radix_eq; use a s in auto)+
  moreover have "?M < ?M' \<longleftrightarrow> ?H < ?H' \<or> ?H = ?H' \<and> mi < mi'" "?M = ?M' \<longleftrightarrow> ?H = ?H' \<and> mi = mi'"
    by (rule radix_less radix_eq; use a in auto)+
  moreover have "?H < ?H' \<longleftrightarrow> ?D < ?D' \<or> ?D = ?D' \<and> h < h'" "?H = ?H' \<longleftrightarrow> ?D = ?D' \<and> h = h'"
    by (rule radix_less radix_eq; use a in auto)+
  moreover note makeDay_less_iff [OF assms(1,2)]
  moreover have "(((((A \<or> EA \<and> (B \<or> EB \<and> C)) \<or> (EA \<and> EB \<and> EC) \<and> H) \<or> ((EA \<and> EB \<and> EC) \<and> EH) \<and> M)
      \<or> (((EA \<and> EB \<and> EC) \<and> EH) \<and> EM) \<and> S) \<or> ((((EA \<and> EB \<and> EC) \<and> EH) \<and> EM) \<and> ES) \<and> F)
    \<longleftrightarrow> (A \<or> EA \<and> (B \<or> EB \<and> (C \<or> EC \<and> (H \<or> EH \<and> (M \<or> EM \<and> (S \<or> ES \<and> F))))))"
    for A B C H M S F EA EB EC EH EM ES by (cases EA; cases EB; cases EC; cases EH; cases EM; cases ES) simp_all
  ultimately show ?thesis unfolding i lex7_def prod.case by (simp only:)
qed

lemma seconds_group:
  assumes "civil y mo d h mi s f"
  shows "take 2 (drop 17 (stamp y mo d h mi s f)) = js ''60'' \<longleftrightarrow> s = 60"
proof -
  have sixty: "js ''60'' = fixed 2 (nat 60)" by (simp add: js_def numeral_2_eq_2)
  have "take 2 (drop 17 (stamp y mo d h mi s f)) = fixed 2 (nat s)"
    by (simp add: stamp_def timestampRegex_def groups_def del: fixed.simps)
  moreover have "0 \<le> s" "s < 10 ^ 2" using assms by (auto simp: civil_def)
  ultimately show ?thesis unfolding sixty using fixed_nat_less(2) [of s 2 60] by simp
qed

lemma format_fields:
  assumes "formatUtcTimestamp t us = Inr x" and "us < 1000"
  obtains y mo d h mi s ms where "civil y mo d h mi s (ms * 1000 + int us)" "s \<le> 59" "0 \<le> ms" "ms \<le> 999"
    "t = makeDate y (mo - 1) d h mi s ms" "x = stamp y mo d h mi s (ms * 1000 + int us)"
proof -
  have "0 \<le> getUTCFullYear t" "getUTCFullYear t \<le> 9999"
    using assms(1) by (auto simp: formatUtcTimestamp_def Let_def split: if_splits)
  then obtain y mo d h mi s ms where f: "civil y mo d h mi s 0" "s \<le> 59" "0 \<le> ms" "ms \<le> 999"
    "t = makeDate y (mo - 1) d h mi s ms" by (rule time_value_fields)
  then have "x = stamp y mo d h mi s (ms * 1000 + int us)"
    using formatUtcTimestamp_stamp [OF f(1-4), of us] assms by simp
  moreover have "civil y mo d h mi s (ms * 1000 + int us)" using f assms(2) by (auto simp: civil_def)
  ultimately show ?thesis using that f by blast
qed

lemma split_thousand: "0 \<le> f \<Longrightarrow> f div 1000 * 1000 + int (nat (f mod 1000)) = f"
  by simp

text \<open>The two ways to step past a timestamp.\<close>

lemma year_range:
  assumes "dayFromYear a \<le> n" and "n < dayFromYear b"
  shows "a \<le> yearFromDay n" "yearFromDay n < b"
proof -
  have "dayFromYear (yearFromDay n + 1) \<le> dayFromYear a" if "\<not> a \<le> yearFromDay n"
    using that by (intro dayFromYear_mono) simp
  then show "a \<le> yearFromDay n" using yearFromDay_bounds(2) [of n] assms(1) by linarith
  have "dayFromYear b \<le> dayFromYear (yearFromDay n)" if "\<not> yearFromDay n < b"
    using that by (intro dayFromYear_mono) simp
  then show "yearFromDay n < b" using yearFromDay_bounds(1) [of n] assms(2) by linarith
qed

lemma next_fraction:
  assumes "civil y mo d h mi s f"
  shows "number_of_digits (take 6 (drop 20 (stamp y mo d h mi s f))) = nat f"
    and "f < 999999 \<Longrightarrow> take 20 (stamp y mo d h mi s f) @ pad (int (nat f + 1)) 6 @ [90] = stamp y mo d h mi s (f + 1)"
proof -
  have f: "0 \<le> f" "nat f < 10 ^ 6" using assms by (auto simp: civil_def nat_less_iff)
  have "take 6 (drop 20 (stamp y mo d h mi s f)) = fixed 6 (nat f)"
    by (simp add: stamp_def timestampRegex_def groups_def del: fixed.simps)
  then show "number_of_digits (take 6 (drop 20 (stamp y mo d h mi s f))) = nat f"
    using number_of_digits_fixed [OF f(2)] by simp
  assume "f < 999999"
  then have "nat f + 1 < 10 ^ 6" by (simp add: nat_less_iff)
  then have "pad (int (nat f + 1)) 6 = fixed 6 (nat (f + 1))"
    using padStart_fixed [of "nat f + 1" 6] f(1) by (simp add: pad_def nat_add_distrib del: fixed.simps)
  then show "take 20 (stamp y mo d h mi s f) @ pad (int (nat f + 1)) 6 @ [90] = stamp y mo d h mi s (f + 1)"
    by (simp add: stamp_def timestampRegex_def groups_def del: fixed.simps)
qed

lemma stamp_less_next_fraction:
  assumes "civil y mo d h mi s f" and "f < 999999"
  shows "civil y mo d h mi s (f + 1)" "stamp y mo d h mi s f < stamp y mo d h mi s (f + 1)"
proof -
  show c: "civil y mo d h mi s (f + 1)" using assms by (auto simp: civil_def)
  show "stamp y mo d h mi s f < stamp y mo d h mi s (f + 1)"
    using stamp_less_iff [OF assms(1) c] by (simp add: lex7_def)
qed

lemma next_millisecond:
  assumes c: "civil y mo d h mi s 999999" and "y < 9999"
    and e: "e = makeDate y (mo - 1) d h mi (if s = 60 then 59 else s) 999"
  obtains y' mo' d' h' mi' s' f' where "civil y' mo' d' h' mi' s' f'"
    "formatUtcTimestamp (e + 1) 0 = Inr (stamp y' mo' d' h' mi' s' f')"
    "stamp y mo d h mi s 999999 < stamp y' mo' d' h' mi' s' f'"
proof -
  let ?s = "if s = 60 then 59 else s" and ?D = "makeDay y (mo - 1) d"
  have c': "civil y mo d h mi ?s 999999" "?s \<le> 59" using c by (auto simp: civil_def)
  have r: "0 \<le> mo - 1" "mo - 1 < 12" "1 \<le> d" "d \<le> monthLength y (mo - 1)" using c by (auto simp: civil_def)
  have e': "msPerDay * ?D \<le> e + 1" "e + 1 < msPerDay * (?D + 2)"
    using c' unfolding e makeDate_def civil_def by simp_all
  have lo: "?D \<le> (e + 1) div msPerDay" using e'(1) zdiv_mono1 [of "msPerDay * ?D" "e + 1" msPerDay] by simp
  have hi: "(e + 1) div msPerDay < ?D + 2"
  proof -
    have "msPerDay * ((e + 1) div msPerDay) < msPerDay * (?D + 2)"
      using div_bounds(1) [of msPerDay "e + 1"] e'(2) by linarith
    then show ?thesis by (simp only: mult_less_cancel_left_pos zero_less_numeral)
  qed
  have "dayFromYear 0 \<le> dayFromYear y" "dayFromYear (y + 1) \<le> dayFromYear 9999"
    using c \<open>y < 9999\<close> by (auto intro: dayFromYear_mono simp: civil_def)
  moreover have "dayFromYear y \<le> ?D" "?D < dayFromYear (y + 1)"
    using makeDay_offset(1-3) [OF r] dayFromYear_Suc [of y] by auto
  ultimately have "dayFromYear 0 \<le> (e + 1) div msPerDay" "(e + 1) div msPerDay < dayFromYear 10000"
    using lo hi dayFromYear_Suc [of 9999] by (auto split: if_splits)
  then have "0 \<le> getUTCFullYear (e + 1)" "getUTCFullYear (e + 1) \<le> 9999"
    using year_range by (fastforce simp: getUTCFullYear_def)+
  then obtain y' mo' d' h' mi' s' ms where g: "civil y' mo' d' h' mi' s' 0" "s' \<le> 59" "0 \<le> ms" "ms \<le> 999"
    "e + 1 = makeDate y' (mo' - 1) d' h' mi' s' ms" by (rule time_value_fields)
  have f: "formatUtcTimestamp (e + 1) 0 = Inr (stamp y' mo' d' h' mi' s' (ms * 1000))"
    using formatUtcTimestamp_stamp [OF g(1-4), of 0] g(5) by simp
  have g': "civil y' mo' d' h' mi' s' (ms * 1000)" using g by (auto simp: civil_def)
  have "instant y mo d h mi ?s 999999 < instant y' mo' d' h' mi' s' (ms * 1000)"
    using e g(5) by (simp add: instant_def makeDate_def)
  then have lex: "lex7 (y, mo, d, h, mi, ?s, 999999) (y', mo', d', h', mi', s', ms * 1000)"
    using instant_less_iff [OF c'(1) g' c'(2) g(2)] by simp
  have "lex7 (y, mo, d, h, mi, s, 999999) (y', mo', d', h', mi', s', ms * 1000)"
  proof (cases "s = 60")
    case True
    with c have "h = 23" "mi = 59" by (auto simp: civil_def)
    then show ?thesis using lex True g g' by (auto simp: lex7_def civil_def)
  next
    case False
    then show ?thesis using lex by simp
  qed
  then have "stamp y mo d h mi s 999999 < stamp y' mo' d' h' mi' s' (ms * 1000)"
    using stamp_less_iff [OF c g'] by simp
  with that g' f show ?thesis by blast
qed

lemma year_group:
  assumes "civil y mo d h mi s f"
  shows "take 4 (stamp y mo d h mi s f) = js ''9999'' \<longleftrightarrow> y = 9999"
proof -
  have "fixed (Suc (Suc (Suc (Suc 0)))) 9999 = [57, 57, 57, 57]" by simp
  moreover have "Suc (Suc (Suc (Suc 0))) = 4" by simp
  ultimately have n: "js ''9999'' = fixed 4 (nat 9999)" by (simp add: js_def del: fixed.simps)
  have "take 4 (stamp y mo d h mi s f) = fixed 4 (nat y)"
    by (simp add: stamp_def timestampRegex_def groups_def del: fixed.simps)
  moreover have "0 \<le> y" "y < 10 ^ 4" using assms by (auto simp: civil_def)
  ultimately show ?thesis unfolding n using fixed_nat_less(2) [of y 4 9999] by simp
qed

section \<open>Properties\<close>

text \<open>C36: Timestamps survive printing and parsing: the text printed for a time value with a
  microsecond part parses to that value and part, and a timestamp that parses and does not name a
  leap second is printed back character by character.\<close>

theorem timestamp_roundtrip:
  "(formatUtcTimestamp t us = Inr x \<and> us < 1000
      \<longrightarrow> parseTimestamp x = Some \<lparr>epochMilliseconds = t, microsecond = us\<rparr>)
   \<and> (parseTimestamp z = Some p \<and> take 2 (drop 17 z) \<noteq> js ''60''
      \<longrightarrow> formatUtcTimestamp (epochMilliseconds p) (microsecond p) = Inr z)"
proof (intro conjI impI; elim conjE)
  assume x: "formatUtcTimestamp t us = Inr x" "us < 1000"
  then obtain y mo d h mi s ms where f: "civil y mo d h mi s (ms * 1000 + int us)" "s \<le> 59"
    "t = makeDate y (mo - 1) d h mi s ms" "x = stamp y mo d h mi s (ms * 1000 + int us)" by (rule format_fields)
  then show "parseTimestamp x = Some \<lparr>epochMilliseconds = t, microsecond = us\<rparr>"
    using parseTimestamp_stamp [OF f(1)] x(2) by auto
next
  assume z: "parseTimestamp z = Some p" "take 2 (drop 17 z) \<noteq> js ''60''"
  from z(1) obtain y mo d h mi s f where f: "civil y mo d h mi s f" "z = stamp y mo d h mi s f" by (rule parsed_fields)
  with z(2) have s: "s \<le> 59" using seconds_group [OF f(1)] by (auto simp: civil_def)
  have c: "civil y mo d h mi s 0" "0 \<le> f" "f \<le> 999999" using f(1) by (auto simp: civil_def)
  then have ms: "0 \<le> f div 1000" "f div 1000 \<le> 999" "nat (f mod 1000) \<le> 999"
    using zdiv_mono1 [of f 999999 1000] by (simp_all add: pos_imp_zdiv_nonneg_iff nat_le_iff)
  have "p = \<lparr>epochMilliseconds = makeDate y (mo - 1) d h mi s (f div 1000), microsecond = nat (f mod 1000)\<rparr>"
    using z(1) parseTimestamp_stamp [OF f(1)] s f(2) by simp
  then show "formatUtcTimestamp (epochMilliseconds p) (microsecond p) = Inr z"
    using formatUtcTimestamp_stamp [OF c(1) s ms] f(2) split_thousand [OF c(2)] by simp
qed

theorem timestamp_roundtrip_witness:
  "parseTimestamp (js ''2024-02-28T23:59:59.999999Z'') = Some \<lparr>epochMilliseconds = 1709164799999, microsecond = 999\<rparr>
   \<and> formatUtcTimestamp 1709164799999 999 = Inr (js ''2024-02-28T23:59:59.999999Z'')"
proof -
  let ?x = "js ''2024-02-28T23:59:59.999999Z''" and ?p = "\<lparr>epochMilliseconds = 1709164799999, microsecond = 999\<rparr>"
  have p: "parseTimestamp ?x = Some ?p" by code_simp
  have s: "take 2 (drop 17 ?x) \<noteq> js ''60''" by (simp add: js_def)
  have f: "formatUtcTimestamp 1709164799999 999 = Inr ?x"
    using timestamp_roundtrip [of 0 0 "[]" ?x ?p] p s by simp
  show ?thesis using timestamp_roundtrip [of 1709164799999 999 ?x ?x ?p] f by simp
qed

text \<open>The textual order of timestamps is the chronological order: of two timestamps that
  parse and do not name a leap second, one is smaller as a string exactly when its instant, in
  milliseconds and then microseconds, is earlier.\<close>

theorem timestamp_order:
  assumes "parseTimestamp a = Some p" and "parseTimestamp b = Some q"
    and "take 2 (drop 17 a) \<noteq> js ''60''" and "take 2 (drop 17 b) \<noteq> js ''60''"
  shows "a < b \<longleftrightarrow> epochMilliseconds p < epochMilliseconds q
           \<or> (epochMilliseconds p = epochMilliseconds q \<and> microsecond p < microsecond q)"
proof -
  have inst: "\<exists>y mo d h mi s f. civil y mo d h mi s f \<and> s \<le> 59 \<and> x = stamp y mo d h mi s f
      \<and> epochMilliseconds r * 1000 + int (microsecond r) = instant y mo d h mi s f \<and> microsecond r < 1000"
    if r: "parseTimestamp x = Some r" "take 2 (drop 17 x) \<noteq> js ''60''" for x r
  proof -
    obtain y mo d h mi s f where f: "civil y mo d h mi s f" "x = stamp y mo d h mi s f" using r(1) by (rule parsed_fields)
    then have s: "s \<le> 59" "0 \<le> f" using r(2) seconds_group [OF f(1)] by (auto simp: civil_def)
    have "r = \<lparr>epochMilliseconds = makeDate y (mo - 1) d h mi s (f div 1000), microsecond = nat (f mod 1000)\<rparr>"
      using r(1) parseTimestamp_stamp [OF f(1)] s f(2) by simp
    then have "epochMilliseconds r * 1000 + int (microsecond r) = instant y mo d h mi s f" "microsecond r < 1000"
      using split_thousand [OF s(2)] by (simp_all add: instant_def makeDate_def nat_less_iff)
    with f s show ?thesis by blast
  qed
  obtain y mo d h mi s f where f: "civil y mo d h mi s f" "s \<le> 59" "a = stamp y mo d h mi s f"
    "epochMilliseconds p * 1000 + int (microsecond p) = instant y mo d h mi s f" "microsecond p < 1000"
    using inst [OF assms(1,3)] by blast
  obtain y' mo' d' h' mi' s' f' where g: "civil y' mo' d' h' mi' s' f'" "s' \<le> 59" "b = stamp y' mo' d' h' mi' s' f'"
    "epochMilliseconds q * 1000 + int (microsecond q) = instant y' mo' d' h' mi' s' f'" "microsecond q < 1000"
    using inst [OF assms(2,4)] by blast
  have "a < b \<longleftrightarrow> epochMilliseconds p * 1000 + int (microsecond p) < epochMilliseconds q * 1000 + int (microsecond q)"
    using stamp_less_iff [OF f(1) g(1)] instant_less_iff [OF f(1) g(1) f(2) g(2)] f(3,4) g(3,4) by simp
  also have "\<dots> \<longleftrightarrow> epochMilliseconds p < epochMilliseconds q
      \<or> epochMilliseconds p = epochMilliseconds q \<and> int (microsecond p) < int (microsecond q)"
    by (rule radix_less) (use f(5) g(5) in auto)
  finally show ?thesis by simp
qed

theorem timestamp_order_witness:
  "js ''2024-02-28T23:59:59.999999Z'' < js ''2024-02-29T00:00:00.000000Z''
   \<longleftrightarrow> (1709164799999 :: int) < 1709164800000 \<or> ((1709164799999 :: int) = 1709164800000 \<and> (999 :: nat) < 0)"
proof -
  have "parseTimestamp (js ''2024-02-28T23:59:59.999999Z'') = Some \<lparr>epochMilliseconds = 1709164799999, microsecond = 999\<rparr>"
    "parseTimestamp (js ''2024-02-29T00:00:00.000000Z'') = Some \<lparr>epochMilliseconds = 1709164800000, microsecond = 0\<rparr>"
    by code_simp+
  moreover have "take 2 (drop 17 (js ''2024-02-28T23:59:59.999999Z'')) \<noteq> js ''60''"
    "take 2 (drop 17 (js ''2024-02-29T00:00:00.000000Z'')) \<noteq> js ''60''" by (simp_all add: js_def)
  ultimately show ?thesis using timestamp_order by fastforce
qed

text \<open>C37: The clock of a writer always moves past the record it updates: for a floor timestamp
  that parses and lies before the year 9999 and a wall clock the formatter can print, the new
  timestamp exists, is itself a valid timestamp, is strictly later than the floor and not earlier
  than the wall clock.\<close>

theorem createTimestampAfter_later:
  assumes "parseTimestamp fl = Some p" and "take 4 fl \<noteq> js ''9999''"
    and "formatUtcTimestamp now 0 = Inr n"
  shows "\<exists>t. createTimestampAfter fl now = Inr t \<and> fl < t \<and> n \<le> t \<and> parseTimestamp t \<noteq> None"
proof -
  obtain y mo d h mi s f where f: "civil y mo d h mi s f" "fl = stamp y mo d h mi s f"
    using assms(1) by (rule parsed_fields)
  then have y: "y < 9999" using assms(2) year_group [OF f(1)] by (auto simp: civil_def)
  have p: "epochMilliseconds p = makeDate y (mo - 1) d h mi (if s = 60 then 59 else s) (f div 1000)"
    using assms(1) parseTimestamp_stamp [OF f(1)] f(2) by auto
  have n: "parseTimestamp n \<noteq> None" using format_fields [OF assms(3)] parseTimestamp_stamp by fastforce
  define next_result where "next_result = (if nat f = 999999 then formatUtcTimestamp (epochMilliseconds p + 1) 0
      else Inr (take 20 fl @ pad (int (nat f + 1)) 6 @ [90]))"
  have "\<exists>x. next_result = Inr x \<and> fl < x \<and> parseTimestamp x \<noteq> None"
  proof (cases "f = 999999")
    case True
    with f(1) p have "civil y mo d h mi s 999999"
      "epochMilliseconds p = makeDate y (mo - 1) d h mi (if s = 60 then 59 else s) 999" by simp_all
    from next_millisecond [OF this(1) y this(2)] show ?thesis
      using True f(2) parseTimestamp_stamp by (fastforce simp: next_result_def)
  next
    case False
    then have "f < 999999" "nat f \<noteq> 999999" using f(1) by (auto simp: civil_def)
    then show ?thesis
      using next_fraction(2) [OF f(1)] stamp_less_next_fraction [OF f(1)] parseTimestamp_stamp f(2)
      by (auto simp: next_result_def)
  qed
  then obtain x where x: "next_result = Inr x" "fl < x" "parseTimestamp x \<noteq> None" by blast
  have frac: "number_of_digits (take 6 (drop 20 fl)) = nat f" using next_fraction(1) [OF f(1)] f(2) by simp
  have "createTimestampAfter fl now = bind next_result (\<lambda>x. bind (formatUtcTimestamp now 0)
      (\<lambda>n. Inr (if x > n then x else n)))"
    unfolding createTimestampAfter_def assms(1) option.case Let_def frac next_result_def ..
  then have "createTimestampAfter fl now = Inr (if x > n then x else n)" using x(1) assms(3) by simp
  then show ?thesis using x n by (auto simp: not_less)
qed

theorem createTimestampAfter_later_witness:
  "\<exists>t. createTimestampAfter (js ''2024-02-28T23:59:59.999999Z'') 0 = Inr t
     \<and> js ''2024-02-28T23:59:59.999999Z'' < t \<and> js ''1970-01-01T00:00:00.000000Z'' \<le> t \<and> parseTimestamp t \<noteq> None"
proof (rule createTimestampAfter_later)
  show "parseTimestamp (js ''2024-02-28T23:59:59.999999Z'')
      = Some \<lparr>epochMilliseconds = 1709164799999, microsecond = 999\<rparr>" by code_simp
  show "formatUtcTimestamp 0 0 = Inr (js ''1970-01-01T00:00:00.000000Z'')" by code_simp
qed (simp add: js_def)

end
