(* ===== verification/Records.thy ===== *)
theory Records
  imports Index_Level Dwn_Time "HOL-Library.AList"
begin

text \<open>
  Utilities of the Records interface (\<open>utils/records.ts\<close>, \<open>utils/url.ts\<close>,
  \<open>core/constants.ts\<close>, \<open>modules/permission-grant.ts\<close> of \<open>src/packages/dwn-sdk-js/src\<close>): filters and their
  conversion to index filters, module paths and contexts, key derivation paths, the tombstone
  lattice, and the referential integrity of delegated grants.

  \<open>records_env\<close> holds what the code takes from outside: content identifiers, the generated JSON
  schema validators, the \<open>URL\<close> class and the decoding of grant data.
\<close>

section \<open>Data model\<close>

datatype names = NameOne jstr | NameMany "jstr list"

datatype tag_filter = TStartsWith jstr | TEqual scalar | TRange filter_object

record records_filter =
  rf_author :: "names option"
  rf_attester :: "jstr option"
  rf_recipient :: "names option"
  rf_module :: "jstr option"
  rf_modulePath :: "jstr option"
  rf_published :: "bool option"
  rf_contextId :: "jstr option"
  rf_schema :: "jstr option"
  rf_tags :: "(string \<times> tag_filter) list option"
  rf_recordId :: "jstr option"
  rf_parentId :: "names option"
  rf_dataFormat :: "jstr option"
  rf_dataSize :: "filter_object option"
  rf_dataCid :: "jstr option"
  rf_dateCreated :: "range_criterion option"
  rf_datePublished :: "range_criterion option"
  rf_dateUpdated :: "range_criterion option"

datatype date_sort = CreatedAscending | CreatedDescending | PublishedAscending | PublishedDescending
  | UpdatedAscending | UpdatedDescending

record permission_scope =
  ps_interface :: dwn_interface
  ps_method :: dwn_method
  ps_module :: "jstr option"
  ps_contextId :: "jstr option"
  ps_modulePath :: "jstr option"

record grant_data =
  gd_dateExpires :: "jstr option"
  gd_delegated :: "bool option"
  gd_scope :: "permission_scope option"
  gd_publication :: "jstr option"

record permission_grant =
  pg_id :: jstr
  pg_grantor :: jstr
  pg_grantee :: jstr
  pg_dateGranted :: jstr
  pg_dateExpires :: jstr
  pg_delegated :: "bool option"
  pg_scope :: permission_scope
  pg_publication :: "jstr option"

record records_env =
  re_cids :: cids
  re_schema :: "message \<Rightarrow> unit result"
  re_payload_schema :: "string \<Rightarrow> signature_payload \<Rightarrow> unit result"
  re_base64UrlToBytes :: "jstr \<Rightarrow> 8 word list result"
  re_href :: "jstr \<Rightarrow> jstr option"
  re_grant :: "jstr \<Rightarrow> grant_data result"
  re_grant_schema :: "grant_data \<Rightarrow> unit result"

section \<open>URLs\<close>

text \<open>The test \<open>/^[^:]+:(\/{2})?[^/].*/\<close>; \<open>re_href\<close> is the \<open>href\<close> of the \<open>URL\<close> with its search and
  hash cleared, \<^const>\<open>None\<close> when the constructor throws.\<close>

definition has_scheme :: "jstr \<Rightarrow> bool" where
  "has_scheme url = (takeWhile (\<lambda>c. c \<noteq> colon) url \<noteq> [] \<and>
     (case dropWhile (\<lambda>c. c \<noteq> colon) url of
        _ # c # r \<Rightarrow> c \<noteq> slash \<or> (case r of c2 # c3 # _ \<Rightarrow> c2 = slash \<and> c3 \<noteq> slash | _ \<Rightarrow> False)
      | _ \<Rightarrow> False))"

fun trailing_slash_end :: "jstr \<Rightarrow> nat \<Rightarrow> nat" where
  "trailing_slash_end s 0 = 0"
| "trailing_slash_end s (Suc n) = (if s ! n = slash then trailing_slash_end s n else Suc n)"

definition removeTrailingSlash :: "jstr \<Rightarrow> jstr" where
  "removeTrailingSlash s = take (trailing_slash_end s (length s)) s"

definition normalizeUrl :: "records_env \<Rightarrow> jstr \<Rightarrow> jstr result" where
  "normalizeUrl E url =
     (case re_href E (if has_scheme url then url else js ''http://'' @ url) of
        Some href \<Rightarrow> Inr (removeTrailingSlash href)
      | None \<Rightarrow> Inl (DwnError ''UrlModuleNotNormalizable'' (js ''Could not normalize module URI'')))"

definition normalizeModuleUrl :: "records_env \<Rightarrow> jstr \<Rightarrow> jstr result" where
  "normalizeModuleUrl E url = normalizeUrl E url"

definition normalizeSchemaUrl :: "records_env \<Rightarrow> jstr \<Rightarrow> jstr result" where
  "normalizeSchemaUrl E url = normalizeUrl E url"

definition validateModuleUrlNormalized :: "records_env \<Rightarrow> jstr \<Rightarrow> unit result" where
  "validateModuleUrlNormalized E url =
     guard (case normalizeModuleUrl E url of Inr n \<Rightarrow> url = n | Inl _ \<Rightarrow> False)
       (DwnError ''UrlModuleNotNormalized'' (js ''Module URI '' @ url @ js '' must be normalized.''))"

definition validateSchemaUrlNormalized :: "records_env \<Rightarrow> jstr \<Rightarrow> unit result" where
  "validateSchemaUrlNormalized E url =
     guard (case normalizeSchemaUrl E url of Inr n \<Rightarrow> url = n | Inl _ \<Rightarrow> False)
       (DwnError ''UrlSchemaNotNormalized'' (js ''Schema URI '' @ url @ js '' must be normalized.''))"

section \<open>Control paths\<close>

definition ENCRYPTION_CONTROL_ROOT_PATH :: jstr where
  "ENCRYPTION_CONTROL_ROOT_PATH = js ''$encryption''"

definition ENCRYPTION_CONTROL_AUDIENCE_PATH :: jstr where
  "ENCRYPTION_CONTROL_AUDIENCE_PATH = ENCRYPTION_CONTROL_ROOT_PATH @ js ''/audience''"

definition ENCRYPTION_CONTROL_DELIVERY_PATH :: jstr where
  "ENCRYPTION_CONTROL_DELIVERY_PATH = ENCRYPTION_CONTROL_ROOT_PATH @ js ''/delivery''"

definition ENCRYPTION_CONTROL_PATHS :: "jstr list" where
  "ENCRYPTION_CONTROL_PATHS = [ENCRYPTION_CONTROL_AUDIENCE_PATH, ENCRYPTION_CONTROL_DELIVERY_PATH]"

definition isEncryptionControlPath :: "jstr option \<Rightarrow> bool" where
  "isEncryptionControlPath modulePath = if_some (\<lambda>p. p \<in> set ENCRYPTION_CONTROL_PATHS) modulePath"

definition maxRecordNestingDepth :: nat where "maxRecordNestingDepth = 10"

section \<open>Messages of a record\<close>

definition isRecordsWrite :: "message \<Rightarrow> bool" where
  "isRecordsWrite m = (d_interface (descriptor_of m) = Records \<and> d_method (descriptor_of m) = Write)"

definition getNewestRecordsWrite :: "cids \<Rightarrow> message list \<Rightarrow> message option" where
  "getNewestRecordsWrite C messages = getNewestMessage C (filter isRecordsWrite messages)"

definition getNewestRecordsDelete :: "cids \<Rightarrow> message list \<Rightarrow> message option" where
  "getNewestRecordsDelete C messages = getNewestMessage C
     (filter (\<lambda>m. d_interface (descriptor_of m) = Records \<and> d_method (descriptor_of m) = Delete) messages)"

text \<open>\<open>lastIndexOf('/')\<close> and \<open>substring\<close>: what precedes the last slash.\<close>

definition getParentContextFromOfContextId :: "jstr option \<Rightarrow> jstr option" where
  "getParentContextFromOfContextId contextId = (case contextId of
     None \<Rightarrow> None
   | Some c \<Rightarrow> Some (if slash \<in> set c then rev (tl (dropWhile (\<lambda>x. x \<noteq> slash) (rev c))) else []))"

section \<open>Key derivation paths\<close>

definition modulePathScheme :: jstr where "modulePathScheme = js ''modulePath''"
definition ROLE_AUDIENCE_DERIVATION_SCHEME :: jstr where
  "ROLE_AUDIENCE_DERIVATION_SCHEME = js ''roleAudience''"

definition constructKeyDerivationPathUsingModulePathScheme :: "write_descriptor \<Rightarrow> jstr list" where
  "constructKeyDerivationPathUsingModulePathScheme d =
     modulePathScheme # wd_module d # split_on slash (wd_modulePath d)"

definition constructKeyDerivationPath :: "jstr \<Rightarrow> write_message \<Rightarrow> jstr list result" where
  "constructKeyDerivationPath scheme w =
     (if scheme = modulePathScheme
      then Inr (constructKeyDerivationPathUsingModulePathScheme (w_descriptor w))
      else if scheme = ROLE_AUDIENCE_DERIVATION_SCHEME then Inr [ROLE_AUDIENCE_DERIVATION_SCHEME]
      else Inl (DwnError ''RecordsDecryptUnsupportedKeyDerivationScheme'' []))"

text \<open>The loop over the ancestor path; a missing descendant segment is \<open>undefined\<close>, unequal to
  every ancestor segment.\<close>

fun validateAncestorKeyAndDescentKeyDerivationPathsMatch :: "jstr list \<Rightarrow> jstr list \<Rightarrow> unit result" where
  "validateAncestorKeyAndDescentKeyDerivationPathsMatch [] ds = Inr ()"
| "validateAncestorKeyAndDescentKeyDerivationPathsMatch (a # as) [] =
     Inl (DwnError ''RecordsInvalidAncestorKeyDerivationSegment'' [])"
| "validateAncestorKeyAndDescentKeyDerivationPathsMatch (a # as) (d # ds) =
     (if a \<noteq> d then Inl (DwnError ''RecordsInvalidAncestorKeyDerivationSegment'' [])
      else validateAncestorKeyAndDescentKeyDerivationPathsMatch as ds)"

definition validateEncryptedDataIntegrity :: "write_message \<Rightarrow> jstr \<Rightarrow> int \<Rightarrow> unit result" where
  "validateEncryptedDataIntegrity w actualDataCid actualDataSize =
     (if wd_dataCid (w_descriptor w) \<noteq> actualDataCid then Inl (DwnError ''RecordsWriteDataCidMismatch'' [])
      else if wd_dataSize (w_descriptor w) \<noteq> actualDataSize then Inl (DwnError ''RecordsWriteDataSizeMismatch'' [])
      else Inr ())"

section \<open>Filters\<close>

definition normalizeFilter :: "records_env \<Rightarrow> records_filter \<Rightarrow> records_filter result" where
  "normalizeFilter E f =
     bind (case rf_module f of None \<Rightarrow> Inr None | Some m \<Rightarrow> bind (normalizeModuleUrl E m) (\<lambda>n. Inr (Some n))) (\<lambda>module.
     bind (case rf_schema f of None \<Rightarrow> Inr None | Some s \<Rightarrow> bind (normalizeSchemaUrl E s) (\<lambda>n. Inr (Some n))) (\<lambda>schema.
     Inr (f\<lparr>rf_module := module, rf_schema := schema\<rparr>)))"

definition validateNestedModulePathScope ::
  "records_filter \<Rightarrow> string \<Rightarrow> jstr \<Rightarrow> bool \<Rightarrow> unit result" where
  "validateNestedModulePathScope f errorCode operationName allowBoundedPathWideSelection =
     (if if_some (\<lambda>c. length (split_on slash c) > maxRecordNestingDepth) (rf_contextId f)
      then Inl (DwnError errorCode (operationName @ js '' contextId exceeds 10 physical levels''))
      else if \<not> if_some (\<lambda>p. slash \<in> set p) (rf_modulePath f) then Inr ()
      else if isEncryptionControlPath (rf_modulePath f) then Inr ()
      else if rf_parentId f \<noteq> None \<and> rf_contextId f = None then Inr ()
      else if rf_contextId f = None \<and> allowBoundedPathWideSelection then Inr ()
      else if if_some (\<lambda>c. length (split_on slash c) \<le> maxRecordNestingDepth
                          \<and> list_all (\<lambda>s. s \<noteq> []) (split_on slash c)) (rf_contextId f)
      then Inr ()
      else Inl (DwnError errorCode (operationName @ js '' for nested module path must include parentId or a contextId'')))"

definition isStartsWithFilter :: "tag_filter \<Rightarrow> bool" where
  "isStartsWithFilter f = (case f of TStartsWith _ \<Rightarrow> True | _ \<Rightarrow> False)"

definition tag_key :: "string \<Rightarrow> string" where
  "tag_key property = ''tag.'' @ property"

text \<open>Assigning the properties of one object into another, as object spread does.\<close>

definition spread :: "(string \<times> 'v) list \<Rightarrow> (string \<times> 'v) list \<Rightarrow> (string \<times> 'v) list" where
  "spread target source = foldl (\<lambda>acc (k, v). AList.update k v acc) target source"

definition buildTagIndexes :: "tags \<Rightarrow> key_values" where
  "buildTagIndexes ts = foldl (\<lambda>acc (property, value). AList.update (tag_key property) value acc) [] ts"

definition convert_tag_filter :: "tag_filter \<Rightarrow> filter_value" where
  "convert_tag_filter f = (case f of
     TStartsWith p \<Rightarrow> ObjF (constructPrefixFilterAsRangeFilter p)
   | TEqual v \<Rightarrow> EqualF v
   | TRange r \<Rightarrow> ObjF r)"

definition convertTagsFilter :: "(string \<times> tag_filter) list \<Rightarrow> filter_t" where
  "convertTagsFilter ts =
     foldl (\<lambda>acc (property, value). AList.update (tag_key property) (convert_tag_filter value) acc) [] ts"

primrec names_filter :: "names \<Rightarrow> filter_value" where
  "names_filter (NameOne n) = EqualF (SStr n)"
| "names_filter (NameMany ns) = OneOfF (map SStr ns)"

definition opt_prop :: "string \<Rightarrow> 'v option \<Rightarrow> (string \<times> 'v) list" where
  "opt_prop k v = (case v of None \<Rightarrow> [] | Some x \<Rightarrow> [(k, x)])"

text \<open>The properties of a filter other than \<open>tags\<close>.  A date range is converted afterwards and stays
  as an object without properties when it has neither bound.\<close>

definition remaining_filter :: "records_filter \<Rightarrow> filter_t" where
  "remaining_filter f =
     opt_prop ''author'' (map_option names_filter (rf_author f)) @
     opt_prop ''attester'' (map_option (\<lambda>s. EqualF (SStr s)) (rf_attester f)) @
     opt_prop ''recipient'' (map_option names_filter (rf_recipient f)) @
     opt_prop ''module'' (map_option (\<lambda>s. EqualF (SStr s)) (rf_module f)) @
     opt_prop ''modulePath'' (map_option (\<lambda>s. EqualF (SStr s)) (rf_modulePath f)) @
     opt_prop ''published'' (map_option (\<lambda>b. EqualF (SBool b)) (rf_published f)) @
     opt_prop ''contextId'' (map_option (\<lambda>s. EqualF (SStr s)) (rf_contextId f)) @
     opt_prop ''schema'' (map_option (\<lambda>s. EqualF (SStr s)) (rf_schema f)) @
     opt_prop ''recordId'' (map_option (\<lambda>s. EqualF (SStr s)) (rf_recordId f)) @
     opt_prop ''parentId'' (map_option names_filter (rf_parentId f)) @
     opt_prop ''dataFormat'' (map_option (\<lambda>s. EqualF (SStr s)) (rf_dataFormat f)) @
     opt_prop ''dataSize'' (map_option ObjF (rf_dataSize f)) @
     opt_prop ''dataCid'' (map_option (\<lambda>s. EqualF (SStr s)) (rf_dataCid f)) @
     opt_prop ''dateCreated'' (map_option (\<lambda>_. ObjF no_object) (rf_dateCreated f)) @
     opt_prop ''datePublished'' (map_option (\<lambda>_. ObjF no_object) (rf_datePublished f)) @
     opt_prop ''dateUpdated'' (map_option (\<lambda>_. ObjF no_object) (rf_dateUpdated f))"

definition range_of :: "range_criterion option \<Rightarrow> filter_object option" where
  "range_of c = (case c of None \<Rightarrow> None | Some r \<Rightarrow> convertRangeCriterion r)"

definition drop_empty :: "string \<Rightarrow> filter_t \<Rightarrow> filter_t" where
  "drop_empty k f = (if map_of f k = Some (OneOfF []) then AList.delete k f else f)"

text \<open>The steps of \<open>convertFilter\<close> in their order.\<close>

definition convert_dateCreated :: "records_filter \<Rightarrow> filter_t \<Rightarrow> filter_t" where
  "convert_dateCreated f g = (case range_of (rf_dateCreated f) of
     None \<Rightarrow> g | Some r \<Rightarrow> AList.update ''dateCreated'' (ObjF r) g)"

definition convert_datePublished :: "records_filter \<Rightarrow> filter_t \<Rightarrow> filter_t" where
  "convert_datePublished f g = (case range_of (rf_datePublished f) of
     None \<Rightarrow> g
   | Some r \<Rightarrow> AList.update ''datePublished'' (ObjF r) (AList.update ''published'' (EqualF (SBool True)) g))"

definition convert_published_sort :: "date_sort option \<Rightarrow> filter_t \<Rightarrow> filter_t" where
  "convert_published_sort dateSort g =
     (if map_of g ''published'' \<noteq> Some (EqualF (SBool True))
         \<and> (dateSort = Some PublishedAscending \<or> dateSort = Some PublishedDescending)
      then AList.update ''published'' (EqualF (SBool True)) g else g)"

definition convert_dateUpdated :: "records_filter \<Rightarrow> filter_t \<Rightarrow> filter_t" where
  "convert_dateUpdated f g = (case range_of (rf_dateUpdated f) of
     None \<Rightarrow> g
   | Some r \<Rightarrow> AList.delete ''dateUpdated'' (AList.update ''messageTimestamp'' (ObjF r) g))"

definition convert_contextId :: "records_filter \<Rightarrow> filter_t \<Rightarrow> filter_t" where
  "convert_contextId f g = (case rf_contextId f of
     None \<Rightarrow> g
   | Some c \<Rightarrow> AList.update ''contextId'' (ObjF (no_object\<lparr>f_subtree := Some (SStr c)\<rparr>)) g)"

definition convertFilter :: "records_filter \<Rightarrow> date_sort option \<Rightarrow> filter_t" where
  "convertFilter f dateSort =
     drop_empty ''recipient'' (drop_empty ''author''
       (convert_contextId f (convert_dateUpdated f (convert_published_sort dateSort
         (convert_datePublished f (convert_dateCreated f
           (spread (remaining_filter f)
             (case rf_tags f of None \<Rightarrow> [] | Some ts \<Rightarrow> spread [] (convertTagsFilter ts)))))))))"

definition control_filters :: "filter_t \<Rightarrow> filter_t list" where
  "control_filters f = (case map_of f ''modulePath'' of
     Some (EqualF (SStr p)) \<Rightarrow> (if isEncryptionControlPath (Some p) then [f] else [])
   | _ \<Rightarrow> map (\<lambda>p. AList.update ''modulePath'' (EqualF (SStr p)) f) ENCRYPTION_CONTROL_PATHS)"

fun buildControlRecordsFilters :: "filter_t list \<Rightarrow> filter_t list" where
  "buildControlRecordsFilters [] = []"
| "buildControlRecordsFilters (f # fs) = control_filters f @ buildControlRecordsFilters fs"

definition convertDateSort :: "date_sort option \<Rightarrow> string \<times> sort_direction" where
  "convertDateSort dateSort = (case dateSort of
     Some CreatedAscending \<Rightarrow> (''dateCreated'', Ascending)
   | Some CreatedDescending \<Rightarrow> (''dateCreated'', Descending)
   | Some PublishedAscending \<Rightarrow> (''datePublished'', Ascending)
   | Some PublishedDescending \<Rightarrow> (''datePublished'', Descending)
   | Some UpdatedAscending \<Rightarrow> (''messageTimestamp'', Ascending)
   | Some UpdatedDescending \<Rightarrow> (''messageTimestamp'', Descending)
   | None \<Rightarrow> (''messageTimestamp'', Descending))"

definition filterIncludesPublishedRecords :: "records_filter \<Rightarrow> bool" where
  "filterIncludesPublishedRecords f = (rf_datePublished f \<noteq> None \<or> rf_published f \<noteq> Some False)"

definition filterIncludesUnpublishedRecords :: "records_filter \<Rightarrow> bool" where
  "filterIncludesUnpublishedRecords f =
     (if rf_datePublished f = None \<and> rf_published f = None then True else rf_published f = Some False)"

section \<open>Grants\<close>

definition grant_message :: "delegated_grant \<Rightarrow> write_message" where
  "grant_message g = \<lparr>
     w_authorization = \<lparr>a_signature = dg_signature g, a_authorDelegatedGrant = None,
       a_ownerSignature = None, a_ownerDelegatedGrant = None\<rparr>,
     w_recordId = dg_recordId g, w_contextId = dg_contextId g, w_descriptor = dg_descriptor g,
     w_attestation = None, w_encryption = None, w_encodedData = Some (dg_encodedData g)\<rparr>"

definition validate_grant_message :: "records_env \<Rightarrow> write_message \<Rightarrow> grant_data result" where
  "validate_grant_message E w = (case w_encodedData w of
     None \<Rightarrow> Inl (DwnError ''PermissionGrantParseMissingEncodedData'' [])
   | Some encoded \<Rightarrow>
       if getSigner (WriteMsg w) = None then Inl (DwnError ''PermissionGrantParseMissingAuthorization'' [])
       else if wd_recipient (w_descriptor w) = None then Inl (DwnError ''PermissionGrantParseMissingRecipient'' [])
       else bind (re_grant E encoded) (\<lambda>data.
         if gd_scope data = None then Inl (DwnError ''PermissionGrantParseMissingScope'' [])
         else if gd_dateExpires data = None then Inl (DwnError ''PermissionGrantParseMissingDateExpires'' [])
         else bind (re_grant_schema E data) (\<lambda>_. Inr data)))"

definition parse_grant :: "records_env \<Rightarrow> write_message \<Rightarrow> permission_grant result" where
  "parse_grant E w = bind (validate_grant_message E w) (\<lambda>data.
     Inr \<lparr>pg_id = w_recordId w, pg_grantor = the (getSigner (WriteMsg w)),
       pg_grantee = the (wd_recipient (w_descriptor w)), pg_dateGranted = wd_dateCreated (w_descriptor w),
       pg_dateExpires = the (gd_dateExpires data), pg_delegated = gd_delegated data,
       pg_scope = the (gd_scope data), pg_publication = gd_publication data\<rparr>)"

text \<open>The checks on a delegated grant, shared by the author and owner sides; \<open>side\<close> names the side in
  the error codes and \<open>signer\<close> is the signer the grant must have been given to.\<close>

definition validate_delegated_grant ::
  "records_env \<Rightarrow> string \<Rightarrow> delegated_grant option \<Rightarrow> signature_payload option \<Rightarrow> jstr option result \<Rightarrow> unit result" where
  "validate_delegated_grant E side grant payload signer =
     (let grantId = (case payload of None \<Rightarrow> None | Some p \<Rightarrow> sp_delegatedGrantId p) in
      if (grantId \<noteq> None) \<noteq> (grant \<noteq> None)
      then Inl (DwnError (''Records'' @ side @ ''DelegatedGrantAndIdExistenceMismatch'') [])
      else case grant of
        None \<Rightarrow> Inr ()
      | Some g \<Rightarrow>
          bind (parse_grant E (grant_message g)) (\<lambda>pg.
          if pg_delegated pg \<noteq> Some True
          then Inl (DwnError (''Records'' @ side @ ''DelegatedGrantNotADelegatedGrant'') [])
          else bind signer (\<lambda>s.
          if wd_recipient (dg_descriptor g) \<noteq> s
          then Inl (DwnError (''Records'' @ side @ ''DelegatedGrantGrantedToAndOwnerSignatureMismatch'') [])
          else if Some (cid_grant (re_cids E) g) \<noteq> grantId
          then Inl (DwnError (''Records'' @ side @ ''DelegatedGrantCidMismatch'') [])
          else Inr ())))"

definition validateAuthorDelegatedGrantReferentialIntegrity ::
  "records_env \<Rightarrow> message \<Rightarrow> signature_payload option \<Rightarrow> unit result" where
  "validateAuthorDelegatedGrantReferentialIntegrity E m payload =
     validate_delegated_grant E ''Author''
       (case authorization_of m of None \<Rightarrow> None | Some a \<Rightarrow> a_authorDelegatedGrant a) payload (Inr (getSigner m))"

definition validateOwnerDelegatedGrantReferentialIntegrity ::
  "records_env \<Rightarrow> message \<Rightarrow> signature_payload option \<Rightarrow> unit result" where
  "validateOwnerDelegatedGrantReferentialIntegrity E m payload =
     validate_delegated_grant E ''Owner''
       (case authorization_of m of None \<Rightarrow> None | Some a \<Rightarrow> a_ownerDelegatedGrant a) payload
       (case authorization_of m of
          Some a \<Rightarrow> (case a_ownerSignature a of
             Some j \<Rightarrow> Inr (Some (getSignerDid j))
           | None \<Rightarrow> Inl (OtherError (js ''ownerSignature is undefined'')))
        | None \<Rightarrow> Inl (OtherError (js ''authorization is undefined'')))"

definition validateDelegatedGrantReferentialIntegrity ::
  "records_env \<Rightarrow> message \<Rightarrow> signature_payload option \<Rightarrow> signature_payload option \<Rightarrow> unit result" where
  "validateDelegatedGrantReferentialIntegrity E m authorPayload ownerPayload =
     bind (validateAuthorDelegatedGrantReferentialIntegrity E m authorPayload) (\<lambda>_.
     validateOwnerDelegatedGrantReferentialIntegrity E m ownerPayload)"

section \<open>The tombstone lattice\<close>

definition prunes :: "message \<Rightarrow> bool" where
  "prunes m = (case m of DeleteMsg d \<Rightarrow> dd_prune (d_descriptor d) | _ \<Rightarrow> False)"

definition isDeleteBeatenByExistingTombstone :: "cids \<Rightarrow> delete_message \<Rightarrow> message \<Rightarrow> bool" where
  "isDeleteBeatenByExistingTombstone C d newestExistingMessage =
     (if d_method (descriptor_of newestExistingMessage) \<noteq> Delete then False
      else let incomingIsPrune = dd_prune (d_descriptor d); existingIsPrune = prunes newestExistingMessage in
        if incomingIsPrune \<noteq> existingIsPrune then existingIsPrune
        else \<not> isNewer C (DeleteMsg d) newestExistingMessage)"

section \<open>Facts about objects\<close>

lemma map_of_update [simp]: "map_of (AList.update k v al) = (map_of al)(k \<mapsto> v)"
  by (simp add: update_conv' fun_eq_iff)

lemma map_of_delete [simp]: "map_of (AList.delete k al) = (map_of al)(k := None)"
  by (simp add: delete_conv' fun_eq_iff)

lemma spread_lookup: "map_of (spread a b) k = (case map_of (rev b) k of Some v \<Rightarrow> Some v | None \<Rightarrow> map_of a k)"
  unfolding spread_def by (induction b arbitrary: a) (auto simp: map_of_append map_add_def split: option.splits)

lemma map_of_rev_distinct: "distinct (map fst b) \<Longrightarrow> map_of (rev b) = map_of b"
  by (intro map_of_inject_set [THEN iffD2]) (auto simp flip: rev_map)

lemma update_new: "k \<notin> fst ` set al \<Longrightarrow> AList.update k v al = al @ [(k, v)]"
  by (induction al) auto

text \<open>Both tag conversions are one loop: assign \<open>tag.\<close> keys into an empty object.\<close>

definition tag_object :: "('a \<Rightarrow> 'v) \<Rightarrow> (string \<times> 'a) list \<Rightarrow> (string \<times> 'v) list" where
  "tag_object g ts = foldl (\<lambda>acc (property, value). AList.update (tag_key property) (g value) acc) [] ts"

lemma tag_objects:
  "buildTagIndexes ts = tag_object id ts" "convertTagsFilter fs = tag_object convert_tag_filter fs"
  by (simp_all add: buildTagIndexes_def convertTagsFilter_def tag_object_def)

lemma tag_object_snoc: "tag_object g (ts @ [(p, v)]) = AList.update (tag_key p) (g v) (tag_object g ts)"
  by (simp add: tag_object_def)

lemma tag_object_distinct [simp]: "distinct (map fst (tag_object g ts))"
  by (induction ts rule: rev_induct)
    (auto simp: tag_object_snoc AList.distinct_update, simp add: tag_object_def)

lemma tag_object_lookup:
  "map_of (tag_object g ts) k =
     (if prefix ''tag.'' k then map_option g (map_of (rev ts) (drop 4 k)) else None)"
proof (induction ts rule: rev_induct)
  case Nil
  then show ?case by (simp add: tag_object_def)
next
  case (snoc x ts)
  obtain p v where x: "x = (p, v)" by (cases x)
  have "k = tag_key p \<longleftrightarrow> prefix ''tag.'' k \<and> drop 4 k = p"
    by (auto simp: tag_key_def prefix_def)
  with snoc x show ?case by (auto simp: tag_object_snoc)
qed

section \<open>Facts about filter conversion\<close>

lemma drop_empty_lookup:
  "map_of (drop_empty k f) = (if map_of f k = Some (OneOfF []) then (map_of f)(k := None) else map_of f)"
  by (simp add: drop_empty_def)

text \<open>Two filters that agree on every property that is not a tag.\<close>

definition agree :: "filter_t \<Rightarrow> filter_t \<Rightarrow> bool" where
  "agree f g \<longleftrightarrow> (\<forall>k. \<not> prefix ''tag.'' k \<longrightarrow> map_of f k = map_of g k)"

lemma agree_lookup: "agree f g \<Longrightarrow> \<not> prefix ''tag.'' k \<Longrightarrow> map_of f k = map_of g k"
  by (simp add: agree_def)

lemmas convert_step_defs = convert_dateCreated_def convert_datePublished_def convert_published_sort_def
  convert_dateUpdated_def convert_contextId_def

lemma agree_steps:
  assumes "agree g h"
  shows "agree (convert_dateCreated f g) (convert_dateCreated f h)"
    "agree (convert_datePublished f g) (convert_datePublished f h)"
    "agree (convert_published_sort dateSort g) (convert_published_sort dateSort h)"
    "agree (convert_dateUpdated f g) (convert_dateUpdated f h)"
    "agree (convert_contextId f g) (convert_contextId f h)"
    "\<not> prefix ''tag.'' k \<Longrightarrow> agree (drop_empty k g) (drop_empty k h)"
  using assms by (simp_all add: agree_def convert_step_defs drop_empty_lookup split: option.splits)

lemma tag_steps [simp]:
  assumes "prefix ''tag.'' k"
  shows "map_of (convert_dateCreated f g) k = map_of g k" "map_of (convert_datePublished f g) k = map_of g k"
    "map_of (convert_published_sort dateSort g) k = map_of g k" "map_of (convert_dateUpdated f g) k = map_of g k"
    "map_of (convert_contextId f g) k = map_of g k"
    "\<not> prefix ''tag.'' p \<Longrightarrow> map_of (drop_empty p g) k = map_of g k"
  using assms by (auto simp: convert_step_defs drop_empty_lookup split: option.splits)

lemma opt_prop_lookup:
  "map_of (opt_prop p v @ r) k = (if k = p \<and> v \<noteq> None then v else map_of r k)"
  "map_of (opt_prop p v) k = (if k = p then v else None)"
  by (auto simp: opt_prop_def split: option.splits)

lemma remaining_filter_no_tag: "prefix ''tag.'' k \<Longrightarrow> map_of (remaining_filter f) k = None"
  unfolding prefix_def remaining_filter_def by (elim exE) (simp add: opt_prop_lookup del: map_of_append)

section \<open>Properties\<close>

text \<open>Tag filters live in a namespace of their own: the converted filter has a property
  \<open>tag.p\<close> exactly for each tag property \<open>p\<close>, with the converted criterion as its value, and every
  other property is the same as if the request had no tags.\<close>

theorem convertFilter_tags_isolated:
  "map_of (convertFilter f dateSort) k =
     (if prefix ''tag.'' k
      then (case rf_tags f of None \<Rightarrow> None | Some ts \<Rightarrow> map_option convert_tag_filter (map_of (rev ts) (drop 4 k)))
      else map_of (convertFilter (f\<lparr>rf_tags := None\<rparr>) dateSort) k)"
proof -
  let ?tags = "case rf_tags f of None \<Rightarrow> [] | Some ts \<Rightarrow> spread [] (convertTagsFilter ts)"
  have same: "remaining_filter (f\<lparr>rf_tags := None\<rparr>) = remaining_filter f"
    "convert_dateCreated (f\<lparr>rf_tags := None\<rparr>) = convert_dateCreated f"
    "convert_datePublished (f\<lparr>rf_tags := None\<rparr>) = convert_datePublished f"
    "convert_dateUpdated (f\<lparr>rf_tags := None\<rparr>) = convert_dateUpdated f"
    "convert_contextId (f\<lparr>rf_tags := None\<rparr>) = convert_contextId f"
    by (simp_all add: remaining_filter_def convert_step_defs fun_eq_iff)
  have ts: "map_of (rev (spread [] (convertTagsFilter ts))) k
      = (if prefix ''tag.'' k then map_option convert_tag_filter (map_of (rev ts) (drop 4 k)) else None)" for ts k
  proof -
    have "spread [] b = b" if "distinct (map fst b)" for b :: filter_t
      using that unfolding spread_def
      by (induction b rule: rev_induct) (auto simp: update_new)
    then show ?thesis by (simp add: tag_objects tag_object_lookup map_of_rev_distinct)
  qed
  show ?thesis
  proof (cases "prefix ''tag.'' k")
    case True
    then show ?thesis
      by (simp add: convertFilter_def spread_lookup ts remaining_filter_no_tag split: option.splits)
  next
    case False
    have "agree (spread (remaining_filter f) ?tags) (spread (remaining_filter f) [])"
      by (auto simp: agree_def spread_lookup ts split: option.splits)
    then have "agree (convertFilter f dateSort) (convertFilter (f\<lparr>rf_tags := None\<rparr>) dateSort)"
      unfolding convertFilter_def same by (intro agree_steps) simp_all
    with False agree_lookup show ?thesis by simp
  qed
qed

text \<open>C38: Sorting by publication date, or filtering on a range of publication dates, never
  returns unpublished records: index values that match the converted filter say the record is
  published.\<close>

theorem convertFilter_published_only:
  assumes "dateSort = Some PublishedAscending \<or> dateSort = Some PublishedDescending
           \<or> (\<exists>c. rf_datePublished f = Some c \<and> (rc_from c \<noteq> None \<or> rc_to c \<noteq> None))"
    and "map_of kvs ''published'' = Some (One v)"
    and "matchFilter tn kvs (convertFilter f dateSort)"
  shows "v = SBool True"
proof -
  define g where "g = convert_datePublished f (convert_dateCreated f (spread (remaining_filter f)
    (case rf_tags f of None \<Rightarrow> [] | Some ts \<Rightarrow> spread [] (convertTagsFilter ts))))"
  have "map_of (convert_published_sort dateSort g) ''published'' = Some (EqualF (SBool True))"
  proof (cases "dateSort = Some PublishedAscending \<or> dateSort = Some PublishedDescending")
    case True
    then show ?thesis by (auto simp: convert_published_sort_def)
  next
    case False
    with assms(1) obtain c where "rf_datePublished f = Some c" "rc_from c \<noteq> None \<or> rc_to c \<noteq> None" by blast
    then obtain r where "range_of (rf_datePublished f) = Some r"
      by (cases "rc_from c"; cases "rc_to c") (simp_all add: range_of_def convertRangeCriterion_def)
    then show ?thesis by (simp add: convert_published_sort_def g_def convert_datePublished_def)
  qed
  then have "map_of (convertFilter f dateSort) ''published'' = Some (EqualF (SBool True))"
    unfolding convertFilter_def g_def [symmetric]
    by (simp add: drop_empty_lookup convert_contextId_def convert_dateUpdated_def split: option.splits)
  then have "match_property tn kvs ''published'' (EqualF (SBool True))"
    using assms(3) by (auto simp: filter_simps dest!: map_of_SomeD)
  then show ?thesis using assms(2) by (simp add: match_property_def matchIndexValue_def)
qed

definition example_filter :: records_filter where
  "example_filter = \<lparr>rf_author = None, rf_attester = None, rf_recipient = None, rf_module = None,
     rf_modulePath = None, rf_published = Some False, rf_contextId = None, rf_schema = None, rf_tags = None,
     rf_recordId = None, rf_parentId = None, rf_dataFormat = None, rf_dataSize = None, rf_dataCid = None,
     rf_dateCreated = None, rf_datePublished = None, rf_dateUpdated = None\<rparr>"

theorem convertFilter_published_only_witness:
  "\<exists>v. map_of [(''published'', One v)] ''published'' = Some (One v)
     \<and> matchFilter (\<lambda>_. None) [(''published'', One v)] (convertFilter example_filter (Some PublishedAscending))
     \<and> v = SBool True"
proof -
  let ?kvs = "[(''published'', One (SBool True))]"
  have m: "matchFilter (\<lambda>_. None) ?kvs (convertFilter example_filter (Some PublishedAscending))"
    by (simp add: convertFilter_def example_filter_def remaining_filter_def opt_prop_def spread_def
        convert_step_defs range_of_def drop_empty_def matchIndexValue_def)
  have "map_of ?kvs ''published'' = Some (One (SBool True))" by simp
  moreover have "SBool True = SBool True" by (rule convertFilter_published_only [OF _ \<open>map_of ?kvs ''published'' = _\<close> m]) simp
  ultimately show ?thesis using m by (intro exI [of _ "SBool True"]) simp
qed

text \<open>The filters a request for encryption control records is widened to select exactly
  the control records it would have selected: index values match one of them when they match one of
  the request's filters and their module path is a control path.\<close>

theorem control_filters_exact:
  assumes "map_of kvs ''modulePath'' = Some (One (SStr p))"
    and "\<forall>f \<in> set fs. map_of f ''modulePath'' = None \<or> (\<exists>q. map_of f ''modulePath'' = Some (EqualF (SStr q)))"
  shows "any_filter tn kvs (buildControlRecordsFilters fs)
           \<longleftrightarrow> any_filter tn kvs fs \<and> isEncryptionControlPath (Some p)"
proof -
  have any: "any_filter tn kvs gs \<longleftrightarrow> (\<exists>g \<in> set gs. matchFilter tn kvs g)" for gs by (induction gs) auto
  have all: "set (buildControlRecordsFilters gs) = (\<Union>g \<in> set gs. set (control_filters g))" for gs
    by (induction gs) auto
  have one: "(\<exists>g \<in> set (control_filters f). matchFilter tn kvs g)
      \<longleftrightarrow> matchFilter tn kvs f \<and> isEncryptionControlPath (Some p)" if f: "f \<in> set fs" for f
  proof (cases "map_of f ''modulePath''")
    case None
    then have "''modulePath'' \<notin> fst ` set f" by (simp add: map_of_eq_None_iff)
    then show ?thesis using None assms(1)
      by (auto simp: control_filters_def update_new filter_simps match_property_def matchIndexValue_def
          isEncryptionControlPath_def)
  next
    case (Some v)
    then obtain q where q: "map_of f ''modulePath'' = Some (EqualF (SStr q))"
      using bspec [OF assms(2) f] by fastforce
    then have "matchFilter tn kvs f \<Longrightarrow> q = p"
      using map_of_SomeD [OF q] assms(1) by (auto simp: filter_simps match_property_def matchIndexValue_def)
    with q show ?thesis by (auto simp: control_filters_def)
  qed
  then show ?thesis unfolding any all by auto
qed

theorem control_filters_exact_witness:
  "any_filter (\<lambda>_. None) [(''modulePath'', One (SStr ENCRYPTION_CONTROL_AUDIENCE_PATH))] (buildControlRecordsFilters [[]])
   \<longleftrightarrow> any_filter (\<lambda>_. None) [(''modulePath'', One (SStr ENCRYPTION_CONTROL_AUDIENCE_PATH))] [[]]
       \<and> isEncryptionControlPath (Some ENCRYPTION_CONTROL_AUDIENCE_PATH)"
  by (rule control_filters_exact) simp_all

end
