(* ===== verification/Records_Write.thy ===== *)
theory Records_Write
  imports Records
begin

text \<open>
  The messages of the Records interface (\<open>interfaces/records-write.ts\<close>,
  \<open>interfaces/records-write-query.ts\<close>, \<open>interfaces/records-write-signing.ts\<close>,
  \<open>interfaces/records-delete.ts\<close> of \<open>src/packages/dwn-sdk-js/src\<close>): entry ids and initial writes, the
  integrity checks of parsing, the index values a message is stored under, immutable properties, and
  the creation and signing of writes.

  A signer is its key id: signing yields a JWS with the payload and that key id, for the payload
  encoding loses nothing.  The clock is an argument.
\<close>

section \<open>Entry ids\<close>

definition getEntryId :: "cids \<Rightarrow> jstr option \<Rightarrow> write_descriptor \<Rightarrow> jstr result" where
  "getEntryId C author d = (case author of
     None \<Rightarrow> Inl (DwnError ''RecordsWriteGetEntryIdUndefinedAuthor''
                    (js ''Property `author` is needed to compute entry ID.''))
   | Some a \<Rightarrow> Inr (cid_entry C d a))"

definition isInitialWrite :: "cids \<Rightarrow> message \<Rightarrow> bool result" where
  "isInitialWrite C m = (case m of
     WriteMsg w \<Rightarrow> bind (getEntryId C (getAuthor m) (w_descriptor w)) (\<lambda>entryId. Inr (entryId = w_recordId w))
   | _ \<Rightarrow> Inr False)"

fun getInitialWrite :: "cids \<Rightarrow> message list \<Rightarrow> message result" where
  "getInitialWrite C [] = Inl (DwnError ''RecordsWriteGetInitialWriteNotFound'' (js ''Initial write is not found.''))"
| "getInitialWrite C (m # ms) = bind (isInitialWrite C m) (\<lambda>initial. if initial then Inr m else getInitialWrite C ms)"

section \<open>Immutable properties\<close>

text \<open>The properties of a descriptor whose values are primitive, in the order of the type; \<open>tags\<close>
  is the only other property and is mutable.\<close>

definition descriptor_properties :: "write_descriptor \<Rightarrow> (string \<times> scalar) list" where
  "descriptor_properties d =
     [(''interface'', SStr (js ''Records'')), (''method'', SStr (js ''Write'')),
      (''module'', SStr (wd_module d)), (''modulePath'', SStr (wd_modulePath d))] @
     opt_prop ''recipient'' (map_option SStr (wd_recipient d)) @
     opt_prop ''schema'' (map_option SStr (wd_schema d)) @
     opt_prop ''parentId'' (map_option SStr (wd_parentId d)) @
     [(''dataCid'', SStr (wd_dataCid d)), (''dataSize'', SNum (wd_dataSize d)),
      (''dateCreated'', SStr (wd_dateCreated d)), (''messageTimestamp'', SStr (wd_messageTimestamp d))] @
     opt_prop ''published'' (map_option SBool (wd_published d)) @
     opt_prop ''datePublished'' (map_option SStr (wd_datePublished d)) @
     [(''dataFormat'', SStr (wd_dataFormat d))] @
     opt_prop ''permissionGrantId'' (map_option SStr (wd_permissionGrantId d)) @
     opt_prop ''squash'' (map_option SBool (wd_squash d))"

definition mutableDescriptorProperties :: "string list" where
  "mutableDescriptorProperties = [''dataCid'', ''dataSize'', ''dataFormat'', ''datePublished'', ''published'',
     ''messageTimestamp'', ''tags'']"

fun check_immutable :: "(string \<times> scalar) list \<Rightarrow> (string \<times> scalar) list \<Rightarrow> string list \<Rightarrow> unit result" where
  "check_immutable existing new [] = Inr ()"
| "check_immutable existing new (p # ps) =
     (if p \<notin> set mutableDescriptorProperties \<and> map_of new p \<noteq> map_of existing p
      then Inl (DwnError ''RecordsWriteImmutablePropertyChanged'' (js p))
      else check_immutable existing new ps)"

definition verifyEqualityOfImmutableProperties :: "write_message \<Rightarrow> write_message \<Rightarrow> unit result" where
  "verifyEqualityOfImmutableProperties existing new =
     (let e = descriptor_properties (w_descriptor existing); n = descriptor_properties (w_descriptor new)
      in check_immutable e n (remdups (map fst e @ map fst n)))"

section \<open>The write as an object\<close>

record records_write =
  rw_message :: write_message
  rw_author :: "jstr option"
  rw_signaturePayload :: "signature_payload option"
  rw_owner :: "jstr option"
  rw_ownerSignaturePayload :: "signature_payload option"
  rw_attesters :: "jstr list"

definition getAttesters :: "write_message \<Rightarrow> jstr list" where
  "getAttesters w = (case w_attestation w of
     None \<Rightarrow> []
   | Some j \<Rightarrow> map extractDid (jws_kid j # jws_more_kids j))"

definition decodePlainObjectPayload :: "jws \<Rightarrow> signature_payload result" where
  "decodePlainObjectPayload j = (case jws_payload j of
     None \<Rightarrow> Inl (DwnError ''JwsDecodePlainObjectPayloadInvalid'' []) | Some p \<Rightarrow> Inr p)"

definition owner_of :: "authorization \<Rightarrow> jstr option" where
  "owner_of a = (case a_ownerSignature a of
     None \<Rightarrow> None
   | Some j \<Rightarrow> Some (case a_ownerDelegatedGrant a of
       None \<Rightarrow> getSignerDid j
     | Some g \<Rightarrow> getSignerDid (dg_signature g)))"

definition new_records_write :: "write_message \<Rightarrow> records_write result" where
  "new_records_write w =
     (let a = w_authorization w in
      bind (decodePlainObjectPayload (a_signature a)) (\<lambda>payload.
      bind (case a_ownerSignature a of
              None \<Rightarrow> Inr None
            | Some j \<Rightarrow> bind (decodePlainObjectPayload j) (\<lambda>p. Inr (Some p))) (\<lambda>ownerPayload.
      Inr \<lparr>rw_message = w, rw_author = getAuthor (WriteMsg w), rw_signaturePayload = Some payload,
        rw_owner = owner_of a, rw_ownerSignaturePayload = ownerPayload, rw_attesters = getAttesters w\<rparr>)))"

section \<open>Integrity\<close>

definition validateDataIntegrity :: "jstr \<Rightarrow> int \<Rightarrow> jstr \<Rightarrow> int \<Rightarrow> unit result" where
  "validateDataIntegrity expectedDataCid expectedDataSize actualDataCid actualDataSize =
     (if expectedDataCid \<noteq> actualDataCid then Inl (DwnError ''RecordsWriteDataCidMismatch'' [])
      else if expectedDataSize \<noteq> actualDataSize then Inl (DwnError ''RecordsWriteDataSizeMismatch'' [])
      else Inr ())"

text \<open>The properties of a decoded payload, for the attestation payload may have only one.\<close>

definition payload_properties :: "signature_payload \<Rightarrow> nat" where
  "payload_properties p = 1 + length (filter id
     [sp_permissionGrantId p \<noteq> None, sp_permissionGrantIds p \<noteq> None, sp_delegatedGrantId p \<noteq> None,
      sp_moduleRole p \<noteq> None, sp_recordId p \<noteq> None, sp_contextId p \<noteq> None, sp_attestationCid p \<noteq> None,
      sp_encryptionCid p \<noteq> None])"

definition validateAttestationIntegrity :: "cids \<Rightarrow> write_message \<Rightarrow> unit result" where
  "validateAttestationIntegrity C w = (case w_attestation w of
     None \<Rightarrow> Inr ()
   | Some j \<Rightarrow>
       if jws_more_kids j \<noteq> [] then Inl (DwnError ''RecordsWriteAttestationIntegrityMoreThanOneSignature'' [])
       else bind (decodePlainObjectPayload j) (\<lambda>payload.
         if sp_descriptorCid payload \<noteq> cid_descriptor C (WriteD (w_descriptor w))
         then Inl (DwnError ''RecordsWriteAttestationIntegrityDescriptorCidMismatch'' [])
         else if payload_properties payload > 1
         then Inl (DwnError ''RecordsWriteAttestationIntegrityInvalidPayloadProperty'' [])
         else Inr ()))"

definition rw_isInitialWrite :: "cids \<Rightarrow> records_write \<Rightarrow> bool result" where
  "rw_isInitialWrite C rw =
     bind (getEntryId C (rw_author rw) (w_descriptor (rw_message rw)))
       (\<lambda>entryId. Inr (entryId = w_recordId (rw_message rw)))"

definition validateInitialWriteIntegrity :: "cids \<Rightarrow> records_write \<Rightarrow> bool \<Rightarrow> unit result" where
  "validateInitialWriteIntegrity C rw initial =
     (let w = rw_message rw; d = w_descriptor w in
      if \<not> initial then Inr ()
      else if wd_messageTimestamp d \<noteq> wd_dateCreated d
      then Inl (DwnError ''RecordsWriteValidateIntegrityDateCreatedMismatch'' [])
      else if wd_parentId d = None
      then bind (getEntryId C (rw_author rw) d) (\<lambda>expectedContextId.
             guard (w_contextId w = expectedContextId) (DwnError ''RecordsWriteValidateIntegrityContextIdMismatch'' []))
      else Inr ())"

definition validateEncryptionCidIntegrity :: "cids \<Rightarrow> write_message \<Rightarrow> signature_payload \<Rightarrow> unit result" where
  "validateEncryptionCidIntegrity C w payload = (case (w_encryption w, sp_encryptionCid payload) of
     (Some _, None) \<Rightarrow> Inl (DwnError ''RecordsWriteValidateIntegrityEncryptionCidMissing'' [])
   | (None, Some _) \<Rightarrow> Inl (DwnError ''RecordsWriteValidateIntegrityEncryptionCidMissing'' [])
   | (Some e, Some cid) \<Rightarrow>
       guard (cid = cid_encryption C e) (DwnError ''RecordsWriteValidateIntegrityEncryptionCidMismatch'' [])
   | (None, None) \<Rightarrow> Inr ())"

text \<open>Computing the CID of an absent attestation fails, for \<open>undefined\<close> has no encoding.\<close>

definition validateIntegrity :: "records_env \<Rightarrow> records_write \<Rightarrow> unit result" where
  "validateIntegrity E rw =
     (let C = re_cids E; w = rw_message rw; d = w_descriptor w in
      bind (rw_isInitialWrite C rw) (\<lambda>initial.
      bind (validateInitialWriteIntegrity C rw initial) (\<lambda>_.
      case rw_signaturePayload rw of
        None \<Rightarrow> Inl (OtherError (js ''signaturePayload is undefined''))
      | Some payload \<Rightarrow>
      if Some (w_recordId w) \<noteq> sp_recordId payload
      then Inl (DwnError ''RecordsWriteValidateIntegrityRecordIdUnauthorized'' [])
      else if Some (w_contextId w) \<noteq> sp_contextId payload
      then Inl (DwnError ''RecordsWriteValidateIntegrityContextIdNotInSignerSignaturePayload'' [])
      else
      bind (validateDelegatedGrantReferentialIntegrity E (WriteMsg w) (Some payload) (rw_ownerSignaturePayload rw)) (\<lambda>_.
      bind (case sp_attestationCid payload of
              None \<Rightarrow> Inr ()
            | Some cid \<Rightarrow> (case w_attestation w of
                None \<Rightarrow> Inl (OtherError (js ''undefined is not supported by the IPLD Data Model and cannot be encoded''))
              | Some j \<Rightarrow> guard (cid = cid_jws C j) (DwnError ''RecordsWriteValidateIntegrityAttestationMismatch'' []))) (\<lambda>_.
      bind (validateEncryptionCidIntegrity C w payload) (\<lambda>_.
      bind (validateModuleUrlNormalized E (wd_module d)) (\<lambda>_.
      bind (case wd_schema d of None \<Rightarrow> Inr () | Some s \<Rightarrow> validateSchemaUrlNormalized E s) (\<lambda>_.
      bind (validateTimestamp (wd_messageTimestamp d)) (\<lambda>_.
      bind (validateTimestamp (wd_dateCreated d)) (\<lambda>_.
      case wd_datePublished d of
        Some t \<Rightarrow> (if t = [] then Inr () else validateTimestamp t)
      | None \<Rightarrow> Inr ()))))))))))"

text \<open>\<open>re_base64UrlToBytes\<close> is the decoder of \<open>Encoder.base64UrlToBytes\<close>, which may throw.\<close>

definition isX25519KeyAgreementAlgorithm :: "jstr \<Rightarrow> bool" where
  "isX25519KeyAgreementAlgorithm algorithm = (algorithm = js ''X25519-HKDF-SHA256+A256KW'')"

definition validateX25519KeyEncryptionEntry :: "key_encryption \<Rightarrow> unit result" where
  "validateX25519KeyEncryptionEntry entry =
     (if ke_kty entry \<noteq> js ''OKP'' \<or> ke_crv entry \<noteq> js ''X25519''
      then Inl (DwnError ''RecordsWriteValidateIntegrityEncryptionEphemeralPublicKeyInvalid'' []) else Inr ())"

definition validateKeyEncryptionEntry :: "key_encryption \<Rightarrow> unit result" where
  "validateKeyEncryptionEntry entry =
     (if isX25519KeyAgreementAlgorithm (ke_algorithm entry) then validateX25519KeyEncryptionEntry entry
      else Inl (DwnError ''RecordsWriteValidateIntegrityEncryptionEphemeralPublicKeyInvalid'' []))"

fun validate_entries :: "key_encryption list \<Rightarrow> unit result" where
  "validate_entries [] = Inr ()"
| "validate_entries (entry # entries) = bind (validateKeyEncryptionEntry entry) (\<lambda>_. validate_entries entries)"

definition validateEncryptionProperty :: "records_env \<Rightarrow> dwn_encryption \<Rightarrow> unit result" where
  "validateEncryptionProperty E encryption =
     bind (re_base64UrlToBytes E (en_initializationVector encryption)) (\<lambda>initializationVector.
     if length initializationVector \<noteq> 16
     then Inl (DwnError ''RecordsWriteValidateIntegrityEncryptionInitializationVectorInvalid'' [])
     else validate_entries (en_keyEncryption encryption))"

definition parse_write :: "records_env \<Rightarrow> write_message \<Rightarrow> records_write result" where
  "parse_write E w =
     (let C = re_cids E; a = w_authorization w; d = WriteD (w_descriptor w) in
      bind (re_schema E (strip_encodedData (WriteMsg w))) (\<lambda>_.
      bind (case w_encryption w of None \<Rightarrow> Inr () | Some e \<Rightarrow> validateEncryptionProperty E e) (\<lambda>_.
      bind (validateSignatureStructure C (re_payload_schema E) (a_signature a) d ''RecordsWriteSignaturePayload'' True) (\<lambda>_.
      bind (case a_ownerSignature a of
              None \<Rightarrow> Inr ()
            | Some j \<Rightarrow> bind (validateSignatureStructure C (re_payload_schema E) j d ''GenericSignaturePayload'' False)
                           (\<lambda>_. Inr ())) (\<lambda>_.
      bind (validateAttestationIntegrity C w) (\<lambda>_.
      bind (new_records_write w) (\<lambda>rw.
      bind (validateIntegrity E rw) (\<lambda>_. Inr rw))))))))"

section \<open>Index values\<close>

definition scalar_values :: "(string \<times> scalar) list \<Rightarrow> key_values" where
  "scalar_values ps = map (\<lambda>(k, v). (k, One v)) ps"

definition write_indexes :: "records_env \<Rightarrow> records_write \<Rightarrow> bool \<Rightarrow> key_values result" where
  "write_indexes E rw isLatestBaseState =
     (let w = rw_message rw; d = w_descriptor w;
          descriptor = scalar_values (filter (\<lambda>(k, v). k \<noteq> ''published'' \<and> k \<noteq> ''squash'') (descriptor_properties d)) in
      bind (getEntryId (re_cids E) (rw_author rw) d) (\<lambda>entryId.
      let indexes = spread descriptor
            ([(''isLatestBaseState'', One (SBool isLatestBaseState)),
              (''published'', One (SBool (wd_published d = Some True))),
              (''squash'', One (SBool (wd_squash d = Some True)))] @
             opt_prop ''author'' (map_option (\<lambda>a. One (SStr a)) (rw_author rw)) @
             [(''recordId'', One (SStr (w_recordId w))), (''entryId'', One (SStr entryId))]);
          tagged = (case wd_tags d of
             Some ts \<Rightarrow> (if isLatestBaseState then spread indexes (buildTagIndexes ts) else indexes)
           | None \<Rightarrow> indexes);
          attested = (case rw_attesters rw of
             a # _ \<Rightarrow> AList.update ''attester'' (One (SStr a)) tagged
           | [] \<Rightarrow> tagged)
      in Inr (AList.update ''contextId'' (One (SStr (w_contextId w))) attested)))"

text \<open>The descriptor of a delete, and its index values from the initial write and from the write
  that held the mutable visibility facts.\<close>

definition delete_properties :: "delete_descriptor \<Rightarrow> key_values" where
  "delete_properties d =
     [(''interface'', One (SStr (js ''Records''))), (''method'', One (SStr (js ''Delete''))),
      (''messageTimestamp'', One (SStr (dd_messageTimestamp d))), (''recordId'', One (SStr (dd_recordId d))),
      (''prune'', One (SBool (dd_prune d)))] @
     opt_prop ''permissionGrantId'' (map_option (\<lambda>s. One (SStr s)) (dd_permissionGrantId d))"

definition delete_indexes :: "delete_message \<Rightarrow> write_message \<Rightarrow> write_message \<Rightarrow> key_values" where
  "delete_indexes dm initialWrite visibilitySourceWrite =
     (let i = w_descriptor initialWrite; v = w_descriptor visibilitySourceWrite;
          str = map_option (\<lambda>s. One (SStr s));
          indexes = spread
            ([(''isLatestBaseState'', One (SBool True)), (''published'', One (SBool (wd_published v = Some True)))] @
             opt_prop ''datePublished'' (str (wd_datePublished v)) @
             [(''module'', One (SStr (wd_module i))), (''modulePath'', One (SStr (wd_modulePath i)))] @
             opt_prop ''recipient'' (str (wd_recipient i)) @ opt_prop ''schema'' (str (wd_schema i)) @
             opt_prop ''parentId'' (str (wd_parentId i)) @
             [(''dateCreated'', One (SStr (wd_dateCreated i))), (''contextId'', One (SStr (w_contextId initialWrite)))] @
             opt_prop ''author'' (str (getAuthor (DeleteMsg dm))))
            (delete_properties (d_descriptor dm))
      in case wd_tags v of
           Some ts \<Rightarrow> spread indexes (buildTagIndexes ts)
         | None \<Rightarrow> indexes)"

definition parse_delete :: "records_env \<Rightarrow> delete_message \<Rightarrow> delete_message result" where
  "parse_delete E dm =
     bind (validateSignatureStructure (re_cids E) (re_payload_schema E) (a_signature (d_authorization dm))
             (DeleteD (d_descriptor dm)) ''GenericSignaturePayload'' True) (\<lambda>payload.
     bind (validateDelegatedGrantReferentialIntegrity E (DeleteMsg dm) (Some payload) None) (\<lambda>_.
     bind (validateTimestamp (dd_messageTimestamp (d_descriptor dm))) (\<lambda>_. Inr dm)))"

section \<open>Creating writes\<close>

record write_options =
  wo_recipient :: "jstr option"
  wo_module :: "jstr option"
  wo_modulePath :: "jstr option"
  wo_moduleRole :: "jstr option"
  wo_schema :: "jstr option"
  wo_tags :: "tags option"
  wo_recordId :: "jstr option"
  wo_parentContextId :: "jstr option"
  wo_data :: "8 word list option"
  wo_dataCid :: "jstr option"
  wo_dataSize :: "int option"
  wo_dateCreated :: "jstr option"
  wo_messageTimestamp :: "jstr option"
  wo_published :: "bool option"
  wo_datePublished :: "jstr option"
  wo_dataFormat :: jstr
  wo_signer :: "jstr option"
  wo_delegatedGrant :: "delegated_grant option"
  wo_attestationSigners :: "jstr list option"
  wo_encryption :: "dwn_encryption option"
  wo_encryptionInput :: "dwn_encryption option"
  wo_permissionGrantId :: "jstr option"
  wo_squash :: "bool option"

definition validateCreateOptions :: "write_options \<Rightarrow> bool \<Rightarrow> unit result" where
  "validateCreateOptions opts requireSignerForDelegatedGrant =
     (if wo_module opts = None \<or> wo_modulePath opts = None
      then Inl (DwnError ''RecordsWriteCreateMissingModule'' [])
      else if (wo_data opts = None) = (wo_dataCid opts = None)
      then Inl (DwnError ''RecordsWriteCreateDataAndDataCidMutuallyExclusive'' [])
      else if (wo_dataCid opts = None) \<noteq> (wo_dataSize opts = None)
      then Inl (DwnError ''RecordsWriteCreateDataCidAndDataSizeMutuallyInclusive'' [])
      else if requireSignerForDelegatedGrant \<and> wo_signer opts = None \<and> wo_delegatedGrant opts \<noteq> None
      then Inl (DwnError ''RecordsWriteCreateMissingSigner'' [])
      else if wo_encryption opts \<noteq> None \<and> wo_encryptionInput opts \<noteq> None
      then Inl (DwnError ''RecordsWriteCreateEncryptionAndEncryptionInputMutuallyExclusive'' [])
      else Inr ())"

definition getRecordIdFromContextId :: "jstr option \<Rightarrow> jstr option" where
  "getRecordIdFromContextId contextId = (case contextId of
     None \<Rightarrow> None
   | Some c \<Rightarrow> (case rev (filter (\<lambda>s. s \<noteq> []) (split_on slash c)) of s # _ \<Rightarrow> Some s | [] \<Rightarrow> None))"

definition createDescriptor :: "records_env \<Rightarrow> int \<Rightarrow> write_options \<Rightarrow> write_descriptor result" where
  "createDescriptor E now opts =
     bind (validateCreateOptions opts False) (\<lambda>_.
     bind (getCurrentTimestamp now) (\<lambda>currentTime.
     bind (normalizePermissionGrantInvocation
             \<lparr>gi_permissionGrantId = wo_permissionGrantId opts, gi_permissionGrantIds = None\<rparr>) (\<lambda>invocation.
     bind (normalizeModuleUrl E (the (wo_module opts))) (\<lambda>module.
     bind (case wo_schema opts of None \<Rightarrow> Inr None
           | Some s \<Rightarrow> bind (normalizeSchemaUrl E s) (\<lambda>n. Inr (Some n))) (\<lambda>schema.
     Inr \<lparr>wd_module = module, wd_modulePath = the (wo_modulePath opts), wd_recipient = wo_recipient opts,
       wd_schema = schema, wd_tags = wo_tags opts,
       wd_parentId = getRecordIdFromContextId (wo_parentContextId opts),
       wd_dataCid = (case wo_dataCid opts of Some c \<Rightarrow> c | None \<Rightarrow> cid_bytes (re_cids E) (the (wo_data opts))),
       wd_dataSize = (case wo_dataSize opts of Some n \<Rightarrow> n | None \<Rightarrow> int (length (the (wo_data opts)))),
       wd_dateCreated = (case wo_dateCreated opts of Some t \<Rightarrow> t | None \<Rightarrow> currentTime),
       wd_messageTimestamp = (case wo_messageTimestamp opts of Some t \<Rightarrow> t | None \<Rightarrow> currentTime),
       wd_published = wo_published opts,
       wd_datePublished = (if wo_published opts = Some True \<and> wo_datePublished opts = None
                           then Some currentTime else wo_datePublished opts),
       wd_dataFormat = wo_dataFormat opts,
       wd_permissionGrantId = gi_permissionGrantId invocation,
       wd_squash = wo_squash opts\<rparr>)))))"

text \<open>\<open>sign\<close>: the record id, the context id and the signature over both.  Signing an attestation
  yields one signature entry per signer.  An encryption input is represented by the envelope that
  is built from it.\<close>

definition createAttestation :: "jstr \<Rightarrow> jstr list option \<Rightarrow> jws option" where
  "createAttestation descriptorCid signers = (case signers of
     Some (s # ss) \<Rightarrow> Some \<lparr>jws_payload = Some \<lparr>sp_descriptorCid = descriptorCid, sp_permissionGrantId = None,
        sp_permissionGrantIds = None, sp_delegatedGrantId = None, sp_moduleRole = None, sp_recordId = None,
        sp_contextId = None, sp_attestationCid = None, sp_encryptionCid = None\<rparr>,
        jws_kid = s, jws_more_kids = ss\<rparr>
   | _ \<Rightarrow> None)"

definition createSignerSignature ::
  "cids \<Rightarrow> jstr \<Rightarrow> jstr \<Rightarrow> jstr \<Rightarrow> jws option \<Rightarrow> dwn_encryption option \<Rightarrow> jstr
    \<Rightarrow> jstr option \<Rightarrow> jstr option \<Rightarrow> jstr option \<Rightarrow> jws" where
  "createSignerSignature C recordId contextId descriptorCid attestation encryption signer
       delegatedGrantId permissionGrantId moduleRole =
     \<lparr>jws_payload = Some \<lparr>sp_descriptorCid = descriptorCid, sp_permissionGrantId = permissionGrantId,
        sp_permissionGrantIds = None, sp_delegatedGrantId = delegatedGrantId, sp_moduleRole = moduleRole,
        sp_recordId = Some recordId, sp_contextId = Some contextId,
        sp_attestationCid = map_option (cid_jws C) attestation,
        sp_encryptionCid = map_option (cid_encryption C) encryption\<rparr>,
      jws_kid = signer, jws_more_kids = []\<rparr>"

definition sign_write ::
  "cids \<Rightarrow> write_options \<Rightarrow> write_descriptor \<Rightarrow> jws option \<Rightarrow> dwn_encryption option \<Rightarrow> jstr \<Rightarrow> write_message" where
  "sign_write C opts d attestation encryption signer =
     (let delegatedGrantId = map_option (cid_grant C) (wo_delegatedGrant opts);
          authorDid = (case wo_delegatedGrant opts of
             None \<Rightarrow> extractDid signer | Some g \<Rightarrow> getSignerDid (dg_signature g));
          recordId = (case wo_recordId opts of Some r \<Rightarrow> r | None \<Rightarrow> cid_entry C d authorDid);
          contextId = (case wo_parentContextId opts of
             None \<Rightarrow> recordId
           | Some p \<Rightarrow> if p = [] then recordId else p @ [slash] @ recordId);
          signature = createSignerSignature C recordId contextId (cid_descriptor C (WriteD d)) attestation encryption
             signer delegatedGrantId (wd_permissionGrantId d) (wo_moduleRole opts)
      in \<lparr>w_authorization = \<lparr>a_signature = signature, a_authorDelegatedGrant = wo_delegatedGrant opts,
            a_ownerSignature = None, a_ownerDelegatedGrant = None\<rparr>,
          w_recordId = recordId, w_contextId = contextId, w_descriptor = d,
          w_attestation = attestation, w_encryption = encryption, w_encodedData = None\<rparr>)"

text \<open>The \<open>message\<close> of the created write: reading it fails while the write is not signed.\<close>

definition create_write :: "records_env \<Rightarrow> int \<Rightarrow> write_options \<Rightarrow> write_message result" where
  "create_write E now opts =
     bind (validateCreateOptions opts True) (\<lambda>_.
     bind (createDescriptor E now opts) (\<lambda>d.
     let C = re_cids E;
         attestation = createAttestation (cid_descriptor C (WriteD d)) (wo_attestationSigners opts);
         encryption = (case wo_encryption opts of Some e \<Rightarrow> Some e | None \<Rightarrow> wo_encryptionInput opts)
     in case wo_signer opts of
          Some signer \<Rightarrow> Inr (sign_write C opts d attestation encryption signer)
        | None \<Rightarrow> Inl (DwnError ''RecordsWriteMissingSigner'' [])))"

record create_from_options =
  cf_message :: write_message
  cf_data :: "8 word list option"
  cf_dataFormat :: "jstr option"
  cf_published :: "bool option"
  cf_tags :: "tags option"
  cf_messageTimestamp :: "jstr option"
  cf_datePublished :: "jstr option"
  cf_signer :: "jstr option"
  cf_delegatedGrant :: "delegated_grant option"
  cf_attestationSigners :: "jstr list option"
  cf_encryptionInput :: "dwn_encryption option"
  cf_moduleRole :: "jstr option"

definition create_from_write_options :: "jstr \<Rightarrow> records_write \<Rightarrow> create_from_options \<Rightarrow> write_options" where
  "create_from_write_options currentTime source opts =
     (let sm = cf_message opts; sd = w_descriptor sm;
          given = (case cf_datePublished opts of Some t \<Rightarrow> t \<noteq> [] | None \<Rightarrow> False);
          published = (case cf_published opts of Some b \<Rightarrow> Some b
                       | None \<Rightarrow> if given then Some True else wd_published sd);
          datePublished = (if given then cf_datePublished opts
             else if published = Some True
             then (if wd_published sd = Some True then wd_datePublished sd else Some currentTime)
             else None)
      in \<lparr>wo_recipient = wd_recipient sd, wo_module = Some (wd_module sd), wo_modulePath = Some (wd_modulePath sd),
          wo_moduleRole = (case cf_moduleRole opts of Some r \<Rightarrow> Some r
             | None \<Rightarrow> (case rw_signaturePayload source of Some p \<Rightarrow> sp_moduleRole p | None \<Rightarrow> None)),
          wo_schema = wd_schema sd, wo_tags = cf_tags opts, wo_recordId = Some (w_recordId sm),
          wo_parentContextId = getParentContextFromOfContextId (Some (w_contextId sm)),
          wo_data = cf_data opts,
          wo_dataCid = (if cf_data opts = None then Some (wd_dataCid sd) else None),
          wo_dataSize = (if cf_data opts = None then Some (wd_dataSize sd) else None),
          wo_dateCreated = Some (wd_dateCreated sd),
          wo_messageTimestamp = (case cf_messageTimestamp opts of Some t \<Rightarrow> Some t | None \<Rightarrow> Some currentTime),
          wo_published = published, wo_datePublished = datePublished,
          wo_dataFormat = (case cf_dataFormat opts of Some f \<Rightarrow> f | None \<Rightarrow> wd_dataFormat sd),
          wo_signer = cf_signer opts, wo_delegatedGrant = cf_delegatedGrant opts,
          wo_attestationSigners = cf_attestationSigners opts,
          wo_encryption = (if cf_encryptionInput opts = None \<and> cf_data opts = None then w_encryption sm else None),
          wo_encryptionInput = cf_encryptionInput opts,
          wo_permissionGrantId = None, wo_squash = None\<rparr>)"

definition createFrom :: "records_env \<Rightarrow> int \<Rightarrow> create_from_options \<Rightarrow> write_message result" where
  "createFrom E now opts =
     bind (parse_write E (cf_message opts)) (\<lambda>source.
     bind (getCurrentTimestamp now) (\<lambda>currentTime.
     create_write E now (create_from_write_options currentTime source opts)))"

section \<open>Facts about index values\<close>

lemma spread_skip: "k \<notin> fst ` set b \<Longrightarrow> map_of (spread a b) k = map_of a k"
proof -
  assume "k \<notin> fst ` set b"
  then have "map_of (rev b) k = None" by (simp add: map_of_eq_None_iff)
  then show ?thesis by (simp add: spread_lookup)
qed

lemma spread_hit: "map_of (rev b) k = Some v \<Longrightarrow> map_of (spread a b) k = Some v"
  by (simp add: spread_lookup)

lemma spread_distinct: "distinct (map fst a) \<Longrightarrow> distinct (map fst (spread a b))"
  unfolding spread_def by (induction b arbitrary: a) (auto simp: distinct_update)

lemma update_keys: "fst ` set (AList.update k v al) = insert k (fst ` set al)"
  by (simp flip: dom_map_of_conv_image_fst)

lemma spread_keys: "fst ` set (spread a b) = fst ` set a \<union> fst ` set b"
  unfolding spread_def by (induction b arbitrary: a) (simp_all add: update_keys split_beta)

lemma opt_prop_keys: "fst ` set (opt_prop p v) = (if v = None then {} else {p})"
  by (auto simp: opt_prop_def split: option.splits)

lemma opt_prop_map_fst: "map fst (opt_prop p v) = (if v = None then [] else [p])"
  by (auto simp: opt_prop_def split: option.splits)

lemma scalar_values_lookup: "map_of (scalar_values ps) k = map_option One (map_of ps k)"
  by (induction ps) (auto simp: scalar_values_def)

lemma tag_index_lookup:
  "distinct (map fst ts) \<Longrightarrow> map_of (rev (buildTagIndexes ts)) k
     = (if prefix ''tag.'' k then map_of ts (drop 4 k) else None)"
  by (simp add: tag_objects map_of_rev_distinct tag_object_lookup option.map_id)

text \<open>What the index values of a write are under a key that no other step touches.\<close>

definition base_indexes :: "records_write \<Rightarrow> bool \<Rightarrow> jstr \<Rightarrow> key_values" where
  "base_indexes rw latest entryId =
     (let w = rw_message rw; d = w_descriptor w in
      spread (scalar_values (filter (\<lambda>(k, v). k \<noteq> ''published'' \<and> k \<noteq> ''squash'') (descriptor_properties d)))
        ([(''isLatestBaseState'', One (SBool latest)), (''published'', One (SBool (wd_published d = Some True))),
          (''squash'', One (SBool (wd_squash d = Some True)))] @
         opt_prop ''author'' (map_option (\<lambda>a. One (SStr a)) (rw_author rw)) @
         [(''recordId'', One (SStr (w_recordId w))), (''entryId'', One (SStr entryId))]))"

definition tagged_indexes :: "records_write \<Rightarrow> bool \<Rightarrow> jstr \<Rightarrow> key_values" where
  "tagged_indexes rw latest entryId = (case wd_tags (w_descriptor (rw_message rw)) of
     Some ts \<Rightarrow> (if latest then spread (base_indexes rw latest entryId) (buildTagIndexes ts) else base_indexes rw latest entryId)
   | None \<Rightarrow> base_indexes rw latest entryId)"

definition complete_indexes :: "records_write \<Rightarrow> key_values \<Rightarrow> key_values" where
  "complete_indexes rw kv = AList.update ''contextId'' (One (SStr (w_contextId (rw_message rw))))
     (case rw_attesters rw of a # _ \<Rightarrow> AList.update ''attester'' (One (SStr a)) kv | [] \<Rightarrow> kv)"

lemma complete_indexes_lookup:
  "k \<noteq> ''contextId'' \<Longrightarrow> k \<noteq> ''attester'' \<Longrightarrow> map_of (complete_indexes rw kv) k = map_of kv k"
  by (simp add: complete_indexes_def split: list.splits)

lemma write_indexes_unfold:
  "write_indexes E rw latest = bind (getEntryId (re_cids E) (rw_author rw) (w_descriptor (rw_message rw))) (\<lambda>entryId.
     Inr (complete_indexes rw (tagged_indexes rw latest entryId)))"
  unfolding write_indexes_def tagged_indexes_def base_indexes_def complete_indexes_def Let_def ..

lemma write_indexes_ok:
  assumes "write_indexes E rw latest = Inr kv"
  obtains author where "rw_author rw = Some author"
    and "kv = complete_indexes rw (tagged_indexes rw latest (cid_entry (re_cids E) (w_descriptor (rw_message rw)) author))"
  using assms that by (auto simp: write_indexes_unfold bind_eq_Inr getEntryId_def split: option.splits)

lemma base_indexes_keys:
  "k \<notin> {''isLatestBaseState'', ''published'', ''squash'', ''author'', ''recordId'', ''entryId''} \<Longrightarrow>
   map_of (base_indexes rw latest entryId) k = map_option One (map_of (descriptor_properties (w_descriptor (rw_message rw))) k)"
proof -
  assume k: "k \<notin> {''isLatestBaseState'', ''published'', ''squash'', ''author'', ''recordId'', ''entryId''}"
  have "map_of (filter (\<lambda>(k, v). k \<noteq> ''published'' \<and> k \<noteq> ''squash'') ps) k = map_of ps k" for ps :: "(string \<times> scalar) list"
    using k by (induction ps) auto
  then show ?thesis
    unfolding base_indexes_def Let_def using k
    by (subst spread_skip) (simp_all add: image_Un opt_prop_keys scalar_values_lookup)
qed

lemma descriptor_properties_lookup:
  "map_of (descriptor_properties d) ''module'' = Some (SStr (wd_module d))"
  "map_of (descriptor_properties d) ''messageTimestamp'' = Some (SStr (wd_messageTimestamp d))"
  "map_of (descriptor_properties d) ''dateCreated'' = Some (SStr (wd_dateCreated d))"
  "map_of (descriptor_properties d) ''parentId'' = map_option SStr (wd_parentId d)"
  "map_of (descriptor_properties d) ''interface'' = Some (SStr (js ''Records''))"
  "map_of (descriptor_properties d) ''method'' = Some (SStr (js ''Write''))"
  "prefix ''tag.'' k \<Longrightarrow> map_of (descriptor_properties d) k = None"
  unfolding descriptor_properties_def prefix_def
  by (simp_all add: opt_prop_lookup del: map_of_append) (elim exE, simp add: opt_prop_lookup del: map_of_append)

lemma tagged_indexes_keys:
  "\<not> prefix ''tag.'' k \<Longrightarrow> map_of (tagged_indexes rw latest entryId) k = map_of (base_indexes rw latest entryId) k"
proof -
  assume k: "\<not> prefix ''tag.'' k"
  have "k \<notin> fst ` set (buildTagIndexes ts)" for ts
    using k tag_object_lookup [of id ts k] by (simp add: tag_objects flip: map_of_eq_None_iff)
  then show ?thesis by (simp add: tagged_indexes_def spread_skip split: option.splits)
qed

lemma tagged_indexes_tags:
  assumes "prefix ''tag.'' k" and "\<forall>ts. wd_tags (w_descriptor (rw_message rw)) = Some ts \<longrightarrow> distinct (map fst ts)"
  shows "map_of (tagged_indexes rw latest entryId) k =
     (case wd_tags (w_descriptor (rw_message rw)) of
        Some ts \<Rightarrow> if latest then map_of ts (drop 4 k) else None
      | None \<Rightarrow> None)"
proof -
  have "map_of (base_indexes rw latest entryId) k = None"
    using assms(1) descriptor_properties_lookup(7) [OF assms(1)] by (subst base_indexes_keys) auto
  then show ?thesis using assms
    by (auto simp: tagged_indexes_def spread_lookup tag_index_lookup split: option.splits)
qed

lemma write_indexes_lookup:
  assumes "write_indexes E rw latest = Inr kv"
    and "k \<notin> {''isLatestBaseState'', ''published'', ''squash'', ''author'', ''recordId'', ''entryId'', ''contextId'', ''attester''}"
    and "\<not> prefix ''tag.'' k"
  shows "map_of kv k = map_option One (map_of (descriptor_properties (w_descriptor (rw_message rw))) k)"
proof -
  obtain author where "kv = complete_indexes rw (tagged_indexes rw latest (cid_entry (re_cids E) (w_descriptor (rw_message rw)) author))"
    using assms(1) by (rule write_indexes_ok)
  then show ?thesis using assms(2,3) by (simp add: complete_indexes_lookup tagged_indexes_keys base_indexes_keys)
qed

lemma write_indexes_tags:
  assumes "write_indexes E rw latest = Inr kv" and "prefix ''tag.'' k"
    and "\<forall>ts. wd_tags (w_descriptor (rw_message rw)) = Some ts \<longrightarrow> distinct (map fst ts)"
  shows "map_of kv k = (case wd_tags (w_descriptor (rw_message rw)) of
        Some ts \<Rightarrow> if latest then map_of ts (drop 4 k) else None | None \<Rightarrow> None)"
proof -
  have "k \<noteq> ''contextId''" "k \<noteq> ''attester''" using assms(2) by auto
  moreover obtain author where "kv = complete_indexes rw (tagged_indexes rw latest (cid_entry (re_cids E) (w_descriptor (rw_message rw)) author))"
    using assms(1) by (rule write_indexes_ok)
  ultimately show ?thesis by (simp add: complete_indexes_lookup tagged_indexes_tags [OF assms(2,3)])
qed

lemma base_indexes_flags:
  assumes "rw_author rw = Some author"
  shows "map_of (base_indexes rw latest entryId) ''isLatestBaseState'' = Some (One (SBool latest))"
    "map_of (base_indexes rw latest entryId) ''recordId'' = Some (One (SStr (w_recordId (rw_message rw))))"
    "map_of (base_indexes rw latest entryId) ''entryId'' = Some (One (SStr entryId))"
    "map_of (base_indexes rw latest entryId) ''published''
       = Some (One (SBool (wd_published (w_descriptor (rw_message rw)) = Some True)))"
  by (simp_all add: base_indexes_def Let_def spread_lookup opt_prop_def assms)

lemma opt_prop_distinct [simp]: "distinct (map fst (opt_prop p v))"
  by (simp add: opt_prop_def split: option.splits)

lemma descriptor_properties_distinct: "distinct (map fst (descriptor_properties d))"
  by (simp add: descriptor_properties_def opt_prop_keys)

lemma base_indexes_distinct: "distinct (map fst (base_indexes rw latest entryId))"
proof -
  have "distinct (map fst (scalar_values (filter P (descriptor_properties d))))" for P d
    using descriptor_properties_distinct [of d]
    by (simp add: scalar_values_def comp_def split_beta distinct_map_filter)
  then show ?thesis unfolding base_indexes_def Let_def by (intro spread_distinct)
qed

lemma spread_single:
  assumes "Many vs \<notin> snd ` set b" and "map_of a k \<noteq> Some (Many vs)"
  shows "map_of (spread a b) k \<noteq> Some (Many vs)"
proof (cases "map_of (rev b) k")
  case None
  with assms show ?thesis by (simp add: spread_lookup)
next
  case (Some v)
  then have "v \<in> snd ` set b" by (force dest: map_of_SomeD)
  with assms(1) have "v \<noteq> Many vs" by blast
  with Some show ?thesis by (simp add: spread_lookup)
qed

lemma base_indexes_single: "map_of (base_indexes rw latest entryId) k \<noteq> Some (Many vs)"
  unfolding base_indexes_def Let_def
  by (rule spread_single) (auto simp: opt_prop_def scalar_values_lookup split: option.splits)

lemma write_indexes_distinct: "write_indexes E rw latest = Inr kv \<Longrightarrow> distinct (map fst kv)"
  by (erule write_indexes_ok)
    (simp add: complete_indexes_def tagged_indexes_def distinct_update spread_distinct base_indexes_distinct
      split: list.splits option.splits)

lemma delete_properties_keys:
  "fst ` set (delete_properties d) \<subseteq> {''interface'', ''method'', ''messageTimestamp'', ''recordId'', ''prune'', ''permissionGrantId''}"
  by (auto simp: delete_properties_def opt_prop_def split: option.splits)

lemma delete_indexes_lookup:
  assumes "\<forall>ts. wd_tags (w_descriptor v) = Some ts \<longrightarrow> distinct (map fst ts)"
  shows "map_of (delete_indexes dm i v) ''module'' = Some (One (SStr (wd_module (w_descriptor i))))"
    and "map_of (delete_indexes dm i v) ''tag.module'' =
      (case wd_tags (w_descriptor v) of Some ts \<Rightarrow> map_of ts ''module'' | None \<Rightarrow> None)"
proof -
  have m: "''module'' \<notin> fst ` set (delete_properties d)" "''tag.module'' \<notin> fst ` set (delete_properties d)" for d
    using delete_properties_keys [of d] by auto
  have t: "''module'' \<notin> fst ` set (buildTagIndexes ts)" for ts
    using tag_object_lookup [of id ts "''module''"] by (simp add: tag_objects flip: map_of_eq_None_iff)
  show "map_of (delete_indexes dm i v) ''module'' = Some (One (SStr (wd_module (w_descriptor i))))"
    by (simp add: delete_indexes_def Let_def spread_skip m t opt_prop_lookup del: map_of_append split: option.splits)
  show "map_of (delete_indexes dm i v) ''tag.module'' =
      (case wd_tags (w_descriptor v) of Some ts \<Rightarrow> map_of ts ''module'' | None \<Rightarrow> None)"
    using assms by (auto simp: delete_indexes_def Let_def spread_lookup [of "spread a b" for a b] tag_index_lookup
        spread_skip m opt_prop_lookup simp del: map_of_append split: option.splits)
qed

section \<open>Facts about created writes\<close>

lemma createDescriptor_ok:
  assumes "createDescriptor E now opts = Inr d"
  obtains currentTime where "getCurrentTimestamp now = Inr currentTime"
    "wd_dateCreated d = (case wo_dateCreated opts of Some t \<Rightarrow> t | None \<Rightarrow> currentTime)"
    "wd_messageTimestamp d = (case wo_messageTimestamp opts of Some t \<Rightarrow> t | None \<Rightarrow> currentTime)"
    "wd_datePublished d = (if wo_published opts = Some True \<and> wo_datePublished opts = None
                           then Some currentTime else wo_datePublished opts)"
    "normalizeModuleUrl E (the (wo_module opts)) = Inr (wd_module d)"
    "case wo_schema opts of None \<Rightarrow> wd_schema d = None
       | Some u \<Rightarrow> \<exists>n. wd_schema d = Some n \<and> normalizeSchemaUrl E u = Inr n"
    "wd_parentId d = getRecordIdFromContextId (wo_parentContextId opts)"
    "wd_modulePath d = the (wo_modulePath opts)" "wd_recipient d = wo_recipient opts"
    "wd_permissionGrantId d = wo_permissionGrantId opts" "wd_squash d = wo_squash opts"
proof -
  obtain t inv m sc where t: "getCurrentTimestamp now = Inr t"
    and inv: "normalizePermissionGrantInvocation
             \<lparr>gi_permissionGrantId = wo_permissionGrantId opts, gi_permissionGrantIds = None\<rparr> = Inr inv"
    and m: "normalizeModuleUrl E (the (wo_module opts)) = Inr m"
    and sc: "(case wo_schema opts of None \<Rightarrow> Inr None
           | Some u \<Rightarrow> bind (normalizeSchemaUrl E u) (\<lambda>n. Inr (Some n))) = Inr sc"
    and d: "d = \<lparr>wd_module = m, wd_modulePath = the (wo_modulePath opts), wd_recipient = wo_recipient opts,
       wd_schema = sc, wd_tags = wo_tags opts,
       wd_parentId = getRecordIdFromContextId (wo_parentContextId opts),
       wd_dataCid = (case wo_dataCid opts of Some c \<Rightarrow> c | None \<Rightarrow> cid_bytes (re_cids E) (the (wo_data opts))),
       wd_dataSize = (case wo_dataSize opts of Some n \<Rightarrow> n | None \<Rightarrow> int (length (the (wo_data opts)))),
       wd_dateCreated = (case wo_dateCreated opts of Some x \<Rightarrow> x | None \<Rightarrow> t),
       wd_messageTimestamp = (case wo_messageTimestamp opts of Some x \<Rightarrow> x | None \<Rightarrow> t),
       wd_published = wo_published opts,
       wd_datePublished = (if wo_published opts = Some True \<and> wo_datePublished opts = None
                           then Some t else wo_datePublished opts),
       wd_dataFormat = wo_dataFormat opts,
       wd_permissionGrantId = gi_permissionGrantId inv,
       wd_squash = wo_squash opts\<rparr>"
    using assms unfolding createDescriptor_def bind_eq_Inr by (elim exE conjE) simp
  have "gi_permissionGrantId inv = wo_permissionGrantId opts"
    using inv by (auto simp: normalizePermissionGrantInvocation_def split: if_splits)
  moreover have "case wo_schema opts of None \<Rightarrow> sc = None | Some u \<Rightarrow> \<exists>n. sc = Some n \<and> normalizeSchemaUrl E u = Inr n"
    using sc by (auto simp: bind_eq_Inr split: option.splits)
  ultimately show ?thesis by (intro that [OF t]; cases "wo_schema opts") (simp_all add: d m)
qed

lemma current_timestamp_valid: "getCurrentTimestamp now = Inr t \<Longrightarrow> validateTimestamp t = Inr ()"
  using format_fields [of now 0 t] parseTimestamp_stamp
  by (fastforce simp: getCurrentTimestamp_def validateTimestamp_def)

lemma create_write_ok:
  assumes "create_write E now opts = Inr w"
  obtains d signer where "createDescriptor E now opts = Inr d" "wo_signer opts = Some signer"
    "w = sign_write (re_cids E) opts d
       (createAttestation (cid_descriptor (re_cids E) (WriteD d)) (wo_attestationSigners opts))
       (case wo_encryption opts of Some e \<Rightarrow> Some e | None \<Rightarrow> wo_encryptionInput opts) signer"
  using assms that by (auto simp: create_write_def bind_eq_Inr Let_def split: option.splits)

lemma matching_invocation:
  "sp_permissionGrantId p = wd_permissionGrantId d \<Longrightarrow> sp_permissionGrantIds p = None \<Longrightarrow>
   validatePermissionGrantInvocationMatchesPayload (WriteD d) p = Inr ()"
  by (simp add: validatePermissionGrantInvocationMatchesPayload_def payload_invocation_def
      validatePermissionGrantInvocationCanonical_def normalizePermissionGrantIds_def split: option.splits)

lemma validateTimestamp_iff: "validateTimestamp t = Inr () \<longleftrightarrow> parseTimestamp t \<noteq> None"
  by (simp add: validateTimestamp_def)

lemma attestation_valid:
  assumes "\<forall>ss. signers = Some ss \<longrightarrow> length ss \<le> 1"
    and "w_attestation w = createAttestation (cid_descriptor C (WriteD (w_descriptor w))) signers"
  shows "validateAttestationIntegrity C w = Inr ()"
proof (cases "signers = None \<or> signers = Some []")
  case True
  with assms(2) have "w_attestation w = None" by (auto simp: createAttestation_def)
  then show ?thesis by (simp add: validateAttestationIntegrity_def)
next
  case False
  with assms(1) obtain s where "signers = Some [s]" by (auto simp: le_Suc_eq length_Suc_conv)
  with assms(2) show ?thesis
    by (simp add: validateAttestationIntegrity_def createAttestation_def decodePlainObjectPayload_def payload_properties_def)
qed

lemma validate_entries_iff:
  "validate_entries es = Inr () \<longleftrightarrow> (\<forall>k \<in> set es.
     ke_algorithm k = js ''X25519-HKDF-SHA256+A256KW'' \<and> ke_kty k = js ''OKP'' \<and> ke_crv k = js ''X25519'')"
  by (induction es) (auto simp: bind_eq_Inr validateKeyEncryptionEntry_def validateX25519KeyEncryptionEntry_def
      isX25519KeyAgreementAlgorithm_def split: if_splits simp del: js_simps)

text \<open>The content nonce has 16 bytes and every wrapped key was made with an ephemeral X25519 key.\<close>

definition well_encrypted :: "records_env \<Rightarrow> dwn_encryption \<Rightarrow> bool" where
  "well_encrypted E e \<longleftrightarrow> (\<exists>iv. re_base64UrlToBytes E (en_initializationVector e) = Inr iv \<and> length iv = 16)
     \<and> (\<forall>k \<in> set (en_keyEncryption e).
          ke_algorithm k = js ''X25519-HKDF-SHA256+A256KW'' \<and> ke_kty k = js ''OKP'' \<and> ke_crv k = js ''X25519'')"

lemma validateEncryptionProperty_iff: "validateEncryptionProperty E e = Inr () \<longleftrightarrow> well_encrypted E e"
  by (auto simp: validateEncryptionProperty_def well_encrypted_def bind_eq_Inr validate_entries_iff simp del: js_simps)

lemma url_stable:
  assumes "normalizeUrl E n = Inr n"
  shows "validateModuleUrlNormalized E n = Inr ()" "validateSchemaUrlNormalized E n = Inr ()"
  using assms by (simp_all add: validateModuleUrlNormalized_def validateSchemaUrlNormalized_def
      normalizeModuleUrl_def normalizeSchemaUrl_def)

text \<open>The immutable properties, one by one.\<close>

lemma check_immutable_iff:
  "check_immutable e n ps = Inr () \<longleftrightarrow> (\<forall>p \<in> set ps. p \<in> set mutableDescriptorProperties \<or> map_of n p = map_of e p)"
  by (induction ps) auto

lemma descriptor_properties_immutable:
  "map_of (descriptor_properties d) ''modulePath'' = Some (SStr (wd_modulePath d))"
  "map_of (descriptor_properties d) ''recipient'' = map_option SStr (wd_recipient d)"
  "map_of (descriptor_properties d) ''schema'' = map_option SStr (wd_schema d)"
  "map_of (descriptor_properties d) ''permissionGrantId'' = map_option SStr (wd_permissionGrantId d)"
  "map_of (descriptor_properties d) ''squash'' = map_option SBool (wd_squash d)"
  unfolding descriptor_properties_def by (simp_all add: opt_prop_lookup del: map_of_append)

lemma descriptor_properties_keys:
  "fst ` set (descriptor_properties d) \<subseteq> {''interface'', ''method'', ''module'', ''modulePath'', ''recipient'', ''schema'',
     ''parentId'', ''dateCreated'', ''permissionGrantId'', ''squash''} \<union> set mutableDescriptorProperties"
  unfolding descriptor_properties_def mutableDescriptorProperties_def
  by (simp add: image_Un opt_prop_keys)

lemma map_option_scalar [simp]:
  "map_option SStr x = map_option SStr y \<longleftrightarrow> x = y" "map_option SBool p = map_option SBool q \<longleftrightarrow> p = q"
  by (cases x; cases y; simp) (cases p; cases q; simp)

lemma verifyEquality_iff:
  fixes w w' :: write_message
  defines "d \<equiv> w_descriptor w" and "d' \<equiv> w_descriptor w'"
  shows "verifyEqualityOfImmutableProperties w w' = Inr () \<longleftrightarrow>
     wd_module d' = wd_module d \<and> wd_modulePath d' = wd_modulePath d \<and> wd_recipient d' = wd_recipient d
     \<and> wd_schema d' = wd_schema d \<and> wd_parentId d' = wd_parentId d \<and> wd_dateCreated d' = wd_dateCreated d
     \<and> wd_permissionGrantId d' = wd_permissionGrantId d \<and> wd_squash d' = wd_squash d"
proof -
  let ?I = "{''interface'', ''method'', ''module'', ''modulePath'', ''recipient'', ''schema'',
     ''parentId'', ''dateCreated'', ''permissionGrantId'', ''squash''}"
  let ?e = "descriptor_properties d" and ?n = "descriptor_properties d'"
  have absent: "map_of ?n p = map_of ?e p" if "p \<notin> fst ` set ?e" "p \<notin> fst ` set ?n" for p
    using that by (simp flip: map_of_eq_None_iff)
  have "verifyEqualityOfImmutableProperties w w' = Inr ()
      \<longleftrightarrow> (\<forall>p \<in> fst ` set ?e \<union> fst ` set ?n. p \<in> set mutableDescriptorProperties \<or> map_of ?n p = map_of ?e p)"
    by (simp add: verifyEqualityOfImmutableProperties_def Let_def check_immutable_iff d_def d'_def)
  also have "\<dots> \<longleftrightarrow> (\<forall>p \<in> ?I. map_of ?n p = map_of ?e p)" (is "?L \<longleftrightarrow> ?R")
  proof
    show ?R if ?L
    proof
      fix p assume p: "p \<in> ?I"
      then have "p \<notin> set mutableDescriptorProperties" by (auto simp: mutableDescriptorProperties_def)
      with \<open>?L\<close> absent show "map_of ?n p = map_of ?e p" by blast
    qed
    show ?L if ?R using that descriptor_properties_keys [of d] descriptor_properties_keys [of d'] by blast
  qed
  also have "\<dots> \<longleftrightarrow> wd_module d' = wd_module d \<and> wd_modulePath d' = wd_modulePath d \<and> wd_recipient d' = wd_recipient d
     \<and> wd_schema d' = wd_schema d \<and> wd_parentId d' = wd_parentId d \<and> wd_dateCreated d' = wd_dateCreated d
     \<and> wd_permissionGrantId d' = wd_permissionGrantId d \<and> wd_squash d' = wd_squash d"
    by (simp add: descriptor_properties_lookup descriptor_properties_immutable)
  finally show ?thesis .
qed

lemma parsed_urls:
  assumes "parse_write E w = Inr rw"
  shows "normalizeModuleUrl E (wd_module (w_descriptor w)) = Inr (wd_module (w_descriptor w))"
    and "wd_schema (w_descriptor w) = Some u \<Longrightarrow> normalizeSchemaUrl E u = Inr u"
proof -
  have rw: "rw_message rw = w" and v: "validateIntegrity E rw = Inr ()"
    using assms by (auto simp: parse_write_def new_records_write_def bind_eq_Inr Let_def)
  have "validateModuleUrlNormalized E (wd_module (w_descriptor w)) = Inr ()"
    "case wd_schema (w_descriptor w) of None \<Rightarrow> True | Some u \<Rightarrow> validateSchemaUrlNormalized E u = Inr ()"
    using v by (auto simp: validateIntegrity_def bind_eq_Inr rw Let_def split: option.splits if_splits)
  then show "normalizeModuleUrl E (wd_module (w_descriptor w)) = Inr (wd_module (w_descriptor w))"
    "wd_schema (w_descriptor w) = Some u \<Longrightarrow> normalizeSchemaUrl E u = Inr u"
    by (auto simp: validateModuleUrlNormalized_def validateSchemaUrlNormalized_def split: sum.splits)
qed

text \<open>What the creation options make true of the descriptor and of the signature.\<close>

lemma created_descriptor_valid:
  assumes "createDescriptor E now opts = Inr d"
    and "wo_messageTimestamp opts = wo_dateCreated opts"
    and "\<forall>t. wo_dateCreated opts = Some t \<or> wo_datePublished opts = Some t \<longrightarrow> parseTimestamp t \<noteq> None"
    and "normalizeUrl E (wd_module d) = Inr (wd_module d)" and "\<forall>n. wd_schema d = Some n \<longrightarrow> normalizeUrl E n = Inr n"
  shows "wd_messageTimestamp d = wd_dateCreated d" "validateTimestamp (wd_dateCreated d) = Inr ()"
    "(case wd_datePublished d of Some x \<Rightarrow> (if x = [] then Inr () else validateTimestamp x) | None \<Rightarrow> Inr ()) = Inr ()"
    "validateModuleUrlNormalized E (wd_module d) = Inr ()"
    "(case wd_schema d of None \<Rightarrow> Inr () | Some n \<Rightarrow> validateSchemaUrlNormalized E n) = Inr ()"
    "wd_parentId d = getRecordIdFromContextId (wo_parentContextId opts)"
proof -
  obtain t where t: "getCurrentTimestamp now = Inr t"
    "wd_dateCreated d = (case wo_dateCreated opts of Some x \<Rightarrow> x | None \<Rightarrow> t)"
    "wd_messageTimestamp d = (case wo_messageTimestamp opts of Some x \<Rightarrow> x | None \<Rightarrow> t)"
    "wd_datePublished d = (if wo_published opts = Some True \<and> wo_datePublished opts = None
       then Some t else wo_datePublished opts)"
    "normalizeModuleUrl E (the (wo_module opts)) = Inr (wd_module d)"
    "case wo_schema opts of None \<Rightarrow> wd_schema d = None
       | Some u \<Rightarrow> \<exists>n. wd_schema d = Some n \<and> normalizeSchemaUrl E u = Inr n"
    "wd_parentId d = getRecordIdFromContextId (wo_parentContextId opts)"
    using assms(1) by (rule createDescriptor_ok) blast
  note ok = current_timestamp_valid [OF t(1)]
  show "wd_messageTimestamp d = wd_dateCreated d" using t(2,3) assms(2) by simp
  show "validateTimestamp (wd_dateCreated d) = Inr ()"
    using t(2) assms(3) ok by (auto simp: validateTimestamp_iff split: option.splits)
  show "(case wd_datePublished d of Some x \<Rightarrow> (if x = [] then Inr () else validateTimestamp x) | None \<Rightarrow> Inr ()) = Inr ()"
    using t(4) assms(3) ok by (auto simp: validateTimestamp_iff split: option.splits)
  show "validateModuleUrlNormalized E (wd_module d) = Inr ()"
    by (rule url_stable(1) [OF assms(4)])
  show "(case wd_schema d of None \<Rightarrow> Inr () | Some n \<Rightarrow> validateSchemaUrlNormalized E n) = Inr ()"
    using assms(5) url_stable(2) by (simp split: option.splits)
  show "wd_parentId d = getRecordIdFromContextId (wo_parentContextId opts)" by (rule t(7))
qed

lemma signed_payload:
  assumes "w = sign_write C opts d attestation encryption signer" and "wo_recordId opts = None"
    and "wo_delegatedGrant opts = None"
    and p: "p = the (jws_payload (a_signature (w_authorization w)))"
  shows "jws_payload (a_signature (w_authorization w)) = Some p" "jws_more_kids (a_signature (w_authorization w)) = []"
    "sp_descriptorCid p = cid_descriptor C (WriteD d)"
    "sp_permissionGrantId p = wd_permissionGrantId d" "sp_permissionGrantIds p = None"
    "sp_recordId p = Some (w_recordId w)" "sp_contextId p = Some (w_contextId w)"
    "sp_attestationCid p = map_option (cid_jws C) (w_attestation w)"
    "sp_encryptionCid p = map_option (cid_encryption C) (w_encryption w)" "sp_delegatedGrantId p = None"
    "a_authorDelegatedGrant (w_authorization w) = None" "a_ownerDelegatedGrant (w_authorization w) = None"
    "a_ownerSignature (w_authorization w) = None" "w_descriptor w = d" "w_attestation w = attestation"
    "w_encodedData w = None" "getAuthor (WriteMsg w) = Some (extractDid signer)"
    "w_recordId w = cid_entry C d (extractDid signer)"
    "w_contextId w = (case wo_parentContextId opts of
       None \<Rightarrow> w_recordId w | Some q \<Rightarrow> if q = [] then w_recordId w else q @ [slash] @ w_recordId w)"
  unfolding p assms(1)
  by (simp_all add: sign_write_def createSignerSignature_def getAuthor_def author_of_authorization_def getSignerDid_def
      assms(2,3) Let_def split: option.splits)

lemma validateIntegrity_signed:
  assumes rw: "rw_message rw = w" "rw_signaturePayload rw = Some p" "rw_ownerSignaturePayload rw = None"
    and p: "sp_recordId p = Some (w_recordId w)" "sp_contextId p = Some (w_contextId w)"
      "sp_attestationCid p = map_option (cid_jws (re_cids E)) (w_attestation w)"
      "sp_encryptionCid p = map_option (cid_encryption (re_cids E)) (w_encryption w)" "sp_delegatedGrantId p = None"
    and a: "a_authorDelegatedGrant (w_authorization w) = None" "a_ownerDelegatedGrant (w_authorization w) = None"
    and initial: "rw_isInitialWrite (re_cids E) rw = Inr b" "validateInitialWriteIntegrity (re_cids E) rw b = Inr ()"
    and d: "validateTimestamp (wd_dateCreated (w_descriptor w)) = Inr ()"
      "validateTimestamp (wd_messageTimestamp (w_descriptor w)) = Inr ()"
      "(case wd_datePublished (w_descriptor w) of
          Some x \<Rightarrow> (if x = [] then Inr () else validateTimestamp x) | None \<Rightarrow> Inr ()) = Inr ()"
      "validateModuleUrlNormalized E (wd_module (w_descriptor w)) = Inr ()"
      "(case wd_schema (w_descriptor w) of None \<Rightarrow> Inr () | Some n \<Rightarrow> validateSchemaUrlNormalized E n) = Inr ()"
  shows "validateIntegrity E rw = Inr ()"
proof -
  have grants: "validateDelegatedGrantReferentialIntegrity E (WriteMsg w) (Some p) None = Inr ()"
    by (simp add: validateDelegatedGrantReferentialIntegrity_def validateAuthorDelegatedGrantReferentialIntegrity_def
        validateOwnerDelegatedGrantReferentialIntegrity_def validate_delegated_grant_def a p)
  have att: "(case map_option (cid_jws (re_cids E)) (w_attestation w) of
        None \<Rightarrow> Inr ()
      | Some cid \<Rightarrow> (case w_attestation w of
          None \<Rightarrow> Inl (OtherError (js ''undefined is not supported by the IPLD Data Model and cannot be encoded''))
        | Some j \<Rightarrow> guard (cid = cid_jws (re_cids E) j) (DwnError ''RecordsWriteValidateIntegrityAttestationMismatch'' [])))
      = Inr ()"
    by (cases "w_attestation w") simp_all
  have enc: "validateEncryptionCidIntegrity (re_cids E) w p = Inr ()"
    by (cases "w_encryption w") (simp_all add: validateEncryptionCidIntegrity_def p)
  show ?thesis
    unfolding validateIntegrity_def Let_def initial bind_simps rw p grants att enc d option.case by simp
qed

lemma created_parses:
  assumes "create_write E now opts = Inr w"
    and "wo_recordId opts = None" and "wo_delegatedGrant opts = None"
    and "wo_messageTimestamp opts = wo_dateCreated opts"
    and "\<forall>t. wo_dateCreated opts = Some t \<or> wo_datePublished opts = Some t \<longrightarrow> parseTimestamp t \<noteq> None"
    and "\<forall>p. wo_parentContextId opts = Some p \<longrightarrow> p = [] \<or> getRecordIdFromContextId (Some p) \<noteq> None"
    and "\<forall>ss. wo_attestationSigners opts = Some ss \<longrightarrow> length ss \<le> 1"
    and "normalizeUrl E (wd_module (w_descriptor w)) = Inr (wd_module (w_descriptor w))"
    and "\<forall>n. wd_schema (w_descriptor w) = Some n \<longrightarrow> normalizeUrl E n = Inr n"
    and "re_schema E (WriteMsg w) = Inr ()"
    and "\<forall>p. jws_payload (a_signature (w_authorization w)) = Some p
           \<longrightarrow> re_payload_schema E ''RecordsWriteSignaturePayload'' p = Inr ()"
    and "\<forall>e. w_encryption w = Some e \<longrightarrow> well_encrypted E e"
  shows "\<exists>rw. parse_write E w = Inr rw \<and> rw_message rw = w \<and> rw_isInitialWrite (re_cids E) rw = Inr True"
proof -
  let ?C = "re_cids E"
  obtain d signer where d: "createDescriptor E now opts = Inr d" and w: "w = sign_write ?C opts d
       (createAttestation (cid_descriptor ?C (WriteD d)) (wo_attestationSigners opts))
       (case wo_encryption opts of Some e \<Rightarrow> Some e | None \<Rightarrow> wo_encryptionInput opts) signer"
    using assms(1) by (rule create_write_ok)
  define p where "p = the (jws_payload (a_signature (w_authorization w)))"
  note s = signed_payload [OF w assms(2,3) p_def]
  note v = created_descriptor_valid [OF d assms(4,5) assms(8,9) [unfolded s(14)]]
  define rw where "rw = \<lparr>rw_message = w, rw_author = Some (extractDid signer), rw_signaturePayload = Some p,
    rw_owner = None, rw_ownerSignaturePayload = None, rw_attesters = getAttesters w\<rparr>"
  have new: "new_records_write w = Inr rw"
    unfolding new_records_write_def Let_def decodePlainObjectPayload_def s(1,13,17) owner_of_def by (simp add: rw_def)
  have initial: "rw_isInitialWrite ?C rw = Inr True"
    by (simp add: rw_isInitialWrite_def rw_def getEntryId_def s)
  have "wd_parentId d = None \<Longrightarrow> w_contextId w = w_recordId w"
    using v(6) assms(6) s(19) by (auto split: option.splits)
  then have "validateInitialWriteIntegrity ?C rw True = Inr ()"
    using v(1) s(14,18) by (simp add: validateInitialWriteIntegrity_def rw_def getEntryId_def)
  then have integrity: "validateIntegrity E rw = Inr ()"
    using v s(6-12,14) initial by (intro validateIntegrity_signed [of rw w p]) (simp_all add: rw_def)
  have sig: "validateSignatureStructure ?C (re_payload_schema E) (a_signature (w_authorization w)) (WriteD (w_descriptor w))
      ''RecordsWriteSignaturePayload'' True = Inr p"
    using assms(11) by (simp add: validateSignatureStructure_def matching_invocation s(1-5,14))
  have att: "validateAttestationIntegrity ?C w = Inr ()"
    using attestation_valid [OF assms(7), of w ?C] s(14,15) by simp
  have strip: "strip_encodedData (WriteMsg w) = WriteMsg w" using s(16) by (cases w) simp
  have enc: "(case w_encryption w of None \<Rightarrow> Inr () | Some e \<Rightarrow> validateEncryptionProperty E e) = Inr ()"
    using assms(12) by (cases "w_encryption w") (auto simp: validateEncryptionProperty_iff)
  have "parse_write E w = Inr rw"
    unfolding parse_write_def Let_def strip assms(10) bind_simps enc sig s(13) option.case att new integrity ..
  with initial show ?thesis by (auto simp: rw_def)
qed

section \<open>Examples\<close>

text \<open>An environment in which every generated validator accepts and URLs are their own normal form.\<close>

definition example_records_env :: records_env where
  "example_records_env = \<lparr>re_cids = example_cids, re_schema = (\<lambda>_. Inr ()), re_payload_schema = (\<lambda>_ _. Inr ()),
     re_base64UrlToBytes = (\<lambda>_. Inr (replicate 16 0)), re_href = Some,
     re_grant = (\<lambda>_. Inr \<lparr>gd_dateExpires = Some [], gd_delegated = Some True, gd_scope = Some \<lparr>ps_interface = Records,
       ps_method = Write, ps_module = None, ps_contextId = None, ps_modulePath = None\<rparr>, gd_publication = None\<rparr>),
     re_grant_schema = (\<lambda>_. Inr ())\<rparr>"

definition example_rw :: records_write where
  "example_rw = \<lparr>rw_message = (example_write [1] [1])\<lparr>w_descriptor :=
       (w_descriptor (example_write [1] [1]))\<lparr>wd_tags := Some [(''module'', One (SStr [9]))],
         wd_module := PERMISSIONS_MODULE_URI\<rparr>\<rparr>,
     rw_author = Some [7], rw_signaturePayload = None, rw_owner = None, rw_ownerSignaturePayload = None,
     rw_attesters = []\<rparr>"

section \<open>Properties\<close>

text \<open>A record keeps its fingerprint domains through its whole life: the index values of a
  write belong to the same domains whether it is indexed as the latest state or retained as history,
  and a tombstone belongs to the domains of the write whose state it ends.\<close>

theorem index_scopes_stable:
  assumes "write_indexes E rw True = Inr latest" and "write_indexes E rw False = Inr retained"
    and "\<forall>ts. wd_tags (w_descriptor (rw_message rw)) = Some ts \<longrightarrow> distinct (map fst ts)"
    and "wd_module (w_descriptor i) = wd_module (w_descriptor (rw_message rw))"
  shows "computeFingerprintScopes (strip_encodedData (WriteMsg (rw_message rw))) retained
           = computeFingerprintScopes (WriteMsg (rw_message rw)) latest
       \<and> computeFingerprintScopes (DeleteMsg dm) (delete_indexes dm i (rw_message rw))
           = computeFingerprintScopes (WriteMsg (rw_message rw)) latest"
proof -
  let ?d = "w_descriptor (rw_message rw)"
  have m: "map_of latest ''module'' = Some (One (SStr (wd_module ?d)))"
    "map_of retained ''module'' = Some (One (SStr (wd_module ?d)))"
    using write_indexes_lookup [OF assms(1), of "''module''"] write_indexes_lookup [OF assms(2), of "''module''"]
    by (simp_all add: descriptor_properties_lookup)
  have t: "map_of latest ''tag.module'' = (case wd_tags ?d of Some ts \<Rightarrow> map_of ts ''module'' | None \<Rightarrow> None)"
    "map_of retained ''tag.module'' = None"
    using write_indexes_tags [OF assms(1) _ assms(3), of "''tag.module''"]
      write_indexes_tags [OF assms(2) _ assms(3), of "''tag.module''"] by (simp_all split: option.splits)
  have "computeFingerprintScopes (strip_encodedData (WriteMsg (rw_message rw))) retained
      = computeFingerprintScopes (WriteMsg (rw_message rw)) latest"
    unfolding computeFingerprintScopes_def m t by (auto split: option.splits)
  moreover have "computeFingerprintScopes (DeleteMsg dm) (delete_indexes dm i (rw_message rw))
      = computeFingerprintScopes (WriteMsg (rw_message rw)) latest"
    unfolding computeFingerprintScopes_def m t delete_indexes_lookup [OF assms(3)] assms(4)
    by (auto split: option.splits)
  ultimately show ?thesis ..
qed

theorem index_scopes_stable_witness:
  "computeFingerprintScopes (strip_encodedData (WriteMsg (rw_message example_rw)))
       (projr (write_indexes example_records_env example_rw False))
     = computeFingerprintScopes (WriteMsg (rw_message example_rw)) (projr (write_indexes example_records_env example_rw True))
   \<and> computeFingerprintScopes (DeleteMsg (example_delete [1] [2] False))
       (delete_indexes (example_delete [1] [2] False) (rw_message example_rw) (rw_message example_rw))
     = computeFingerprintScopes (WriteMsg (rw_message example_rw)) (projr (write_indexes example_records_env example_rw True))"
proof (rule index_scopes_stable)
  show "write_indexes example_records_env example_rw True = Inr (projr (write_indexes example_records_env example_rw True))"
    "write_indexes example_records_env example_rw False = Inr (projr (write_indexes example_records_env example_rw False))"
    by (simp_all add: write_indexes_unfold getEntryId_def example_rw_def)
  show "\<forall>ts. wd_tags (w_descriptor (rw_message example_rw)) = Some ts \<longrightarrow> distinct (map fst ts)"
    by (simp add: example_rw_def)
qed simp


definition example_options :: write_options where
  "example_options = \<lparr>wo_recipient = None, wo_module = Some (js ''a:b''), wo_modulePath = Some [1], wo_moduleRole = None,
     wo_schema = None, wo_tags = None, wo_recordId = None, wo_parentContextId = None, wo_data = Some [1, 2],
     wo_dataCid = None, wo_dataSize = None, wo_dateCreated = None, wo_messageTimestamp = None, wo_published = Some True,
     wo_datePublished = None, wo_dataFormat = [1], wo_signer = Some (js ''did:a#k''), wo_delegatedGrant = None,
     wo_attestationSigners = None, wo_encryption = None, wo_encryptionInput = None, wo_permissionGrantId = None,
     wo_squash = None\<rparr>"

lemma example_url: "normalizeUrl (example_records_env\<lparr>re_href := (\<lambda>_. Some (js ''a:b''))\<rparr>) u = Inr (js ''a:b'')"
  by (simp add: normalizeUrl_def removeTrailingSlash_def numeral_3_eq_3)

lemma example_now: "getCurrentTimestamp 0 = Inr (js ''1970-01-01T00:00:00.000000Z'')"
  by code_simp


lemma example_create:
  "\<exists>w. create_write (example_records_env\<lparr>re_href := (\<lambda>_. Some (js ''a:b''))\<rparr>) 0
     (example_options\<lparr>wo_encryption := e, wo_permissionGrantId := g\<rparr>) = Inr w"
  using example_url example_now
  by (simp add: create_write_def createDescriptor_def validateCreateOptions_def example_options_def
      normalizePermissionGrantInvocation_def normalizeModuleUrl_def Let_def del: js_simps)

lemma example_created:
  assumes "create_write (example_records_env\<lparr>re_href := (\<lambda>_. Some (js ''a:b''))\<rparr>) 0
     (example_options\<lparr>wo_encryption := e, wo_permissionGrantId := g\<rparr>) = Inr w"
  shows "wd_module (w_descriptor w) = js ''a:b''" "wd_schema (w_descriptor w) = None" "w_encryption w = e"
  using assms example_url example_now
  by (auto simp: create_write_def createDescriptor_def validateCreateOptions_def example_options_def sign_write_def
      normalizePermissionGrantInvocation_def normalizeModuleUrl_def Let_def bind_eq_Inr simp del: js_simps split: option.splits if_splits)


text \<open>C40: An update made with \<open>createFrom\<close> belongs to the record of its source, and it passes the
  check that immutable properties are unchanged exactly when the source write invoked no permission
  grant and is not a squash: neither property is carried over.\<close>

theorem createFrom_immutable:
  assumes "createFrom E now opts = Inr w'"
    and "wd_parentId (w_descriptor (cf_message opts))
           = getRecordIdFromContextId (getParentContextFromOfContextId (Some (w_contextId (cf_message opts))))"
  shows "w_recordId w' = w_recordId (cf_message opts)
     \<and> (verifyEqualityOfImmutableProperties (cf_message opts) w' = Inr ()
        \<longleftrightarrow> wd_permissionGrantId (w_descriptor (cf_message opts)) = None \<and> wd_squash (w_descriptor (cf_message opts)) = None)"
proof -
  let ?w = "cf_message opts"
  obtain rw t where p: "parse_write E ?w = Inr rw"
    and c: "create_write E now (create_from_write_options t rw opts) = Inr w'"
    using assms(1) by (auto simp: createFrom_def bind_eq_Inr)
  let ?o = "create_from_write_options t rw opts"
  obtain d signer where d: "createDescriptor E now ?o = Inr d" and w': "w' = sign_write (re_cids E) ?o d
       (createAttestation (cid_descriptor (re_cids E) (WriteD d)) (wo_attestationSigners ?o))
       (case wo_encryption ?o of Some e \<Rightarrow> Some e | None \<Rightarrow> wo_encryptionInput ?o) signer"
    using c by (rule create_write_ok)
  have o: "wo_module ?o = Some (wd_module (w_descriptor ?w))" "wo_modulePath ?o = Some (wd_modulePath (w_descriptor ?w))"
    "wo_schema ?o = wd_schema (w_descriptor ?w)" "wo_recipient ?o = wd_recipient (w_descriptor ?w)"
    "wo_parentContextId ?o = getParentContextFromOfContextId (Some (w_contextId ?w))"
    "wo_dateCreated ?o = Some (wd_dateCreated (w_descriptor ?w))" "wo_permissionGrantId ?o = None" "wo_squash ?o = None"
    "wo_recordId ?o = Some (w_recordId ?w)"
    by (simp_all add: create_from_write_options_def Let_def)
  have "wd_module d = wd_module (w_descriptor ?w) \<and> wd_modulePath d = wd_modulePath (w_descriptor ?w)
     \<and> wd_schema d = wd_schema (w_descriptor ?w) \<and> wd_recipient d = wd_recipient (w_descriptor ?w)
     \<and> wd_parentId d = wd_parentId (w_descriptor ?w) \<and> wd_dateCreated d = wd_dateCreated (w_descriptor ?w)
     \<and> wd_permissionGrantId d = None \<and> wd_squash d = None" (is ?kept)
    using d
  proof (rule createDescriptor_ok)
    fix currentTime
    assume m: "normalizeModuleUrl E (the (wo_module ?o)) = Inr (wd_module d)"
      and sc: "case wo_schema ?o of None \<Rightarrow> wd_schema d = None
       | Some u \<Rightarrow> \<exists>n. wd_schema d = Some n \<and> normalizeSchemaUrl E u = Inr n"
      and rest: "wd_dateCreated d = (case wo_dateCreated ?o of Some x \<Rightarrow> x | None \<Rightarrow> currentTime)"
        "wd_parentId d = getRecordIdFromContextId (wo_parentContextId ?o)"
        "wd_modulePath d = the (wo_modulePath ?o)" "wd_recipient d = wo_recipient ?o"
        "wd_permissionGrantId d = wo_permissionGrantId ?o" "wd_squash d = wo_squash ?o"
    have "wd_module d = wd_module (w_descriptor ?w)" using m parsed_urls(1) [OF p] by (simp add: o)
    moreover have "wd_schema d = wd_schema (w_descriptor ?w)"
      using sc parsed_urls(2) [OF p] by (cases "wd_schema (w_descriptor ?w)") (auto simp: o)
    ultimately show ?kept using rest assms(2) by (simp add: o)
  qed
  moreover have "w_descriptor w' = d" "w_recordId w' = w_recordId ?w" by (simp_all add: w' sign_write_def o Let_def)
  ultimately show ?thesis by (auto simp: verifyEquality_iff)
qed

text \<open>A source write made under a permission grant, and options that update it.\<close>

definition example_source :: write_message where
  "example_source = projr (create_write (example_records_env\<lparr>re_href := (\<lambda>_. Some (js ''a:b''))\<rparr>) 0
     (example_options\<lparr>wo_encryption := None, wo_permissionGrantId := Some [7]\<rparr>))"

definition example_from :: create_from_options where
  "example_from = \<lparr>cf_message = example_source, cf_data = None, cf_dataFormat = None, cf_published = None,
     cf_tags = None, cf_messageTimestamp = None, cf_datePublished = None, cf_signer = Some (js ''did:a#k''),
     cf_delegatedGrant = None, cf_attestationSigners = None, cf_encryptionInput = None, cf_moduleRole = None\<rparr>"

theorem createFrom_immutable_witness:
  "\<exists>w'. createFrom (example_records_env\<lparr>re_href := (\<lambda>_. Some (js ''a:b''))\<rparr>) 0 example_from = Inr w'
     \<and> w_recordId w' = w_recordId example_source
     \<and> verifyEqualityOfImmutableProperties example_source w' \<noteq> Inr ()"
proof -
  let ?E = "example_records_env\<lparr>re_href := (\<lambda>_. Some (js ''a:b''))\<rparr>" and ?o = "example_options\<lparr>wo_encryption := None, wo_permissionGrantId := Some [7]\<rparr>"
  have w: "create_write ?E 0 ?o = Inr example_source"
    using example_create [where e = None and g = "Some [7]"] by (auto simp: example_source_def)
  note created = example_created [OF w]
  have "\<exists>rw. parse_write ?E example_source = Inr rw \<and> rw_message rw = example_source \<and> rw_isInitialWrite (re_cids ?E) rw = Inr True"
    using example_url by (intro created_parses [OF w])
      (simp_all add: created example_options_def, simp_all add: example_records_env_def)
  then obtain rw where rw: "parse_write ?E example_source = Inr rw" by blast
  have "\<exists>w'. createFrom ?E 0 example_from = Inr w'"
    using rw example_now example_url
    by (simp add: createFrom_def example_from_def create_from_write_options_def create_write_def createDescriptor_def
        validateCreateOptions_def normalizePermissionGrantInvocation_def normalizeModuleUrl_def normalizeSchemaUrl_def
        Let_def del: js_simps split: option.splits)
  then obtain w' where w': "createFrom ?E 0 example_from = Inr w'" ..
  obtain c signer where c: "createDescriptor ?E 0 ?o = Inr c" and sw: "example_source = sign_write (re_cids ?E) ?o c
      (createAttestation (cid_descriptor (re_cids ?E) (WriteD c)) (wo_attestationSigners ?o))
      (case wo_encryption ?o of Some e \<Rightarrow> Some e | None \<Rightarrow> wo_encryptionInput ?o) signer"
    using w by (rule create_write_ok)
  have d: "w_descriptor example_source = c" "w_contextId example_source = w_recordId example_source"
    "w_recordId example_source = wd_dateCreated c"
    unfolding sw by (simp_all add: sign_write_def Let_def example_options_def example_records_env_def example_cids_def)
  have root: "wd_parentId c = None" "wd_permissionGrantId c = Some [7]" "wd_dateCreated c = js ''1970-01-01T00:00:00.000000Z''"
    using c example_now by (auto elim!: createDescriptor_ok simp: example_options_def getRecordIdFromContextId_def simp del: js_simps)
  have id: "slash \<notin> set (w_recordId example_source)" by (simp add: d(3) root(3))
  have "wd_parentId (w_descriptor (cf_message example_from))
     = getRecordIdFromContextId (getParentContextFromOfContextId (Some (w_contextId (cf_message example_from))))"
    using d root id by (simp add: example_from_def getParentContextFromOfContextId_def getRecordIdFromContextId_def)
  with createFrom_immutable [OF w'] w' d root show ?thesis by (auto simp: example_from_def)
qed

end
