(* ===== verification/Store_Query.thy ===== *)
theory Store_Query
  imports Level_Store Records_Write
begin

text \<open>
  Queries of the message store (\<open>store/message-store-level.ts\<close>, \<open>store/index-level.ts\<close> and
  \<open>interfaces/records-write-query.ts\<close> of \<open>src/packages/dwn-sdk-js/src\<close>): sort and pagination, counting,
  the population of a \<open>$recordLimit\<close> path in bounded pages with its cache of rank boundaries, and the
  fetches of a record's writes.
\<close>

section \<open>Options\<close>

record message_sort =
  ms_dateCreated :: "sort_direction option"
  ms_datePublished :: "sort_direction option"
  ms_messageTimestamp :: "sort_direction option"

record pagination =
  pn_limit :: "nat option"
  pn_cursor :: "pagination_cursor option"

definition no_sort :: message_sort where
  "no_sort = \<lparr>ms_dateCreated = None, ms_datePublished = None, ms_messageTimestamp = None\<rparr>"

definition no_pagination :: pagination where
  "no_pagination = \<lparr>pn_limit = None, pn_cursor = None\<rparr>"

definition buildQueryOptions :: "message_sort \<Rightarrow> pagination \<Rightarrow> query_options" where
  "buildQueryOptions messageSort pagination =
     (let (p, chosen) =
        (if ms_dateCreated messageSort \<noteq> None then (''dateCreated'', ms_dateCreated messageSort)
         else if ms_datePublished messageSort \<noteq> None then (''datePublished'', ms_datePublished messageSort)
         else (''messageTimestamp'', ms_messageTimestamp messageSort))
      in \<lparr>qo_sortProperty = p,
          qo_sortDirection = (case chosen of Some d \<Rightarrow> d | None \<Rightarrow> Ascending),
          qo_limit = (case pn_limit pagination of
             Some l \<Rightarrow> Some (if l > 0 then l + 1 else l) | None \<Rightarrow> None),
          qo_cursor = pn_cursor pagination\<rparr>)"

section \<open>Record limits\<close>

record record_limit =
  rl_module :: jstr
  rl_modulePath :: jstr
  rl_contextId :: "jstr option"
  rl_parentId :: "names option"
  rl_max :: int

definition RECORD_LIMIT_RAW_PAGE_SIZE :: nat where "RECORD_LIMIT_RAW_PAGE_SIZE = 128"
definition RECORD_LIMIT_GROUP_CACHE_SIZE :: nat where "RECORD_LIMIT_GROUP_CACHE_SIZE = 128"

definition buildRecordLimitCandidateFilter :: "record_limit \<Rightarrow> filter_t" where
  "buildRecordLimitCandidateFilter rl =
     [(''interface'', EqualF (SStr (js ''Records''))), (''method'', EqualF (SStr (js ''Write''))),
      (''isLatestBaseState'', EqualF (SBool True)), (''module'', EqualF (SStr (rl_module rl))),
      (''modulePath'', EqualF (SStr (rl_modulePath rl)))] @
     opt_prop ''contextId'' (map_option (\<lambda>c. ObjF (no_object\<lparr>f_subtree := Some (SStr c)\<rparr>)) (rl_contextId rl)) @
     opt_prop ''parentId'' (map_option names_filter (rl_parentId rl))"

definition getRecordLimitParentIds :: "record_limit \<Rightarrow> jstr list option" where
  "getRecordLimitParentIds rl = (case rl_parentId rl of
     None \<Rightarrow> None
   | Some (NameMany ps) \<Rightarrow> Some ps
   | Some (NameOne p) \<Rightarrow> Some [p])"

text \<open>The cache of rank boundaries, oldest entry first.\<close>

type_synonym cutoffs = "(jstr \<times> jstr) list"

definition cacheRecordLimitCutoff :: "cutoffs \<Rightarrow> jstr \<Rightarrow> jstr \<Rightarrow> cutoffs" where
  "cacheRecordLimitCutoff cache groupKey cutoff =
     AList.update groupKey cutoff
       (if length cache \<ge> RECORD_LIMIT_GROUP_CACHE_SIZE
        then (case cache of [] \<Rightarrow> [] | (oldestKey, _) # _ \<Rightarrow> AList.delete oldestKey cache)
        else cache)"

definition group_key :: "jstr option \<Rightarrow> jstr" where
  "group_key parentId = (case parentId of None \<Rightarrow> js ''root'' | Some p \<Rightarrow> js ''parent:'' @ p)"

text \<open>The string under \<open>parentId\<close>, when there is one.\<close>

definition item_parent :: "indexed_item \<Rightarrow> jstr option result" where
  "item_parent it = (case map_of (snd it) ''parentId'' of
     None \<Rightarrow> Inr None
   | Some (One (SStr p)) \<Rightarrow> Inr (Some p)
   | Some _ \<Rightarrow> Inl (OtherError (js ''TypeError'')))"

definition isWithinRecordLimit ::
  "(jstr \<Rightarrow> int option) \<Rightarrow> indexed_item list \<Rightarrow> filter_t \<Rightarrow> int \<Rightarrow> cutoffs \<Rightarrow> indexed_item \<Rightarrow> (bool \<times> cutoffs) result" where
  "isWithinRecordLimit tn items candidateFilter limit cache it =
     (if \<not> matchFilter tn (snd it) candidateFilter then Inr (False, cache)
      else bind (item_parent it) (\<lambda>parentId.
        let groupKey = group_key parentId in
        bind (case map_of cache groupKey of
                Some cutoff \<Rightarrow> Inr (Some cutoff, AList.update groupKey cutoff (AList.delete groupKey cache))
              | None \<Rightarrow> bind (findRecordLimitRankCutoff tn items candidateFilter parentId limit) (\<lambda>cutoff.
                  Inr (cutoff, case cutoff of
                         None \<Rightarrow> cache | Some c \<Rightarrow> cacheRecordLimitCutoff cache groupKey c)))
          (\<lambda>(cutoff, cache'). case cutoff of
             None \<Rightarrow> Inr (False, cache')
           | Some c \<Rightarrow> bind (createRecordLimitRankKey (snd it)) (\<lambda>k. Inr (k \<le> c, cache')))))"

fun filterRecordLimitOccupants ::
  "(jstr \<Rightarrow> int option) \<Rightarrow> indexed_item list \<Rightarrow> filter_t \<Rightarrow> int \<Rightarrow> nat option \<Rightarrow> cutoffs \<Rightarrow> indexed_item list \<Rightarrow> indexed_item list
    \<Rightarrow> (indexed_item list \<times> cutoffs) result" where
  "filterRecordLimitOccupants tn items cf m limit cache occupants [] = Inr (occupants, cache)"
| "filterRecordLimitOccupants tn items cf m limit cache occupants (it # its) =
     bind (isWithinRecordLimit tn items cf m cache it) (\<lambda>(inside, cache').
       if inside
       then let occupants' = occupants @ [it]
            in if (case limit of Some l \<Rightarrow> length occupants' \<ge> l | None \<Rightarrow> False) then Inr (occupants', cache')
               else filterRecordLimitOccupants tn items cf m limit cache' occupants' its
       else filterRecordLimitOccupants tn items cf m limit cache' occupants its)"

text \<open>
  The loop of \<open>iterateRecordLimitPopulation\<close>: pages of raw items until one is short or the output is
  complete.  The first argument bounds the number of pages; \<^const>\<open>None\<close> is a loop that has not
  returned within it.
\<close>

definition queryWithBoundedPaging ::
  "(jstr \<Rightarrow> int option) \<Rightarrow> indexed_item list \<Rightarrow> filter_t list \<Rightarrow> query_options \<Rightarrow> indexed_item list result" where
  "queryWithBoundedPaging tn items filters q =
     bind (assertValidSubtreeFilters filters) (\<lambda>_. Inr (queryWithIteratorPaging tn items filters q))"

fun population_loop ::
  "nat \<Rightarrow> (jstr \<Rightarrow> int option) \<Rightarrow> indexed_item list \<Rightarrow> filter_t list \<Rightarrow> query_options \<Rightarrow> filter_t \<Rightarrow> int
    \<Rightarrow> pagination_cursor option \<Rightarrow> indexed_item list \<Rightarrow> cutoffs \<Rightarrow> indexed_item list result option" where
  "population_loop 0 tn items filters q cf m rawCursor output cache = None"
| "population_loop (Suc n) tn items filters q cf m rawCursor output cache =
     (case queryWithBoundedPaging tn items filters
             (q\<lparr>qo_cursor := rawCursor, qo_limit := Some RECORD_LIMIT_RAW_PAGE_SIZE\<rparr>) of
        Inl e \<Rightarrow> Some (Inl e)
      | Inr rawItems \<Rightarrow>
          if rawItems = [] then Some (Inr output)
          else case filterRecordLimitOccupants tn items cf m
                      (map_option (\<lambda>l. l - length output) (qo_limit q)) cache [] rawItems of
            Inl e \<Rightarrow> Some (Inl e)
          | Inr (occupants, cache') \<Rightarrow>
              let output' = output @ (case qo_limit q of
                    None \<Rightarrow> occupants | Some l \<Rightarrow> take (l - length output) occupants)
              in if (case qo_limit q of Some l \<Rightarrow> l \<le> length output' | None \<Rightarrow> False) then Some (Inr output')
                 else if length rawItems < RECORD_LIMIT_RAW_PAGE_SIZE then Some (Inr output')
                 else case createCursorFromItem (last rawItems) (qo_sortProperty q) of
                   Inl e \<Rightarrow> Some (Inl e)
                 | Inr c \<Rightarrow> population_loop n tn items filters q cf m (Some c) output' cache')"

definition iterateRecordLimitPopulation ::
  "nat \<Rightarrow> (jstr \<Rightarrow> int option) \<Rightarrow> indexed_item list \<Rightarrow> filter_t list \<Rightarrow> query_options \<Rightarrow> record_limit
    \<Rightarrow> indexed_item list result option" where
  "iterateRecordLimitPopulation n tn items filters q rl =
     (if qo_limit q = Some 0 then Some (Inr [])
      else population_loop n tn items filters q (buildRecordLimitCandidateFilter rl) (rl_max rl) (qo_cursor q) [] [])"

text \<open>A JavaScript \<open>Set\<close> of a list: its distinct elements by first occurrence.\<close>

definition remdups_first :: "'a list \<Rightarrow> 'a list" where
  "remdups_first xs = rev (remdups (rev xs))"

text \<open>The occupants of selected parent groups, resolved before the filters of the caller.\<close>

fun occupants_of_group :: "filter_t \<Rightarrow> (jstr \<Rightarrow> int option) \<Rightarrow> jstr \<Rightarrow> indexed_item list \<Rightarrow> indexed_item list result" where
  "occupants_of_group cf tn cutoff [] = Inr []"
| "occupants_of_group cf tn cutoff (it # its) =
     (if matchFilter tn (snd it) cf
      then bind (createRecordLimitRankKey (snd it)) (\<lambda>k.
           bind (occupants_of_group cf tn cutoff its) (\<lambda>r. Inr (if k \<le> cutoff then it # r else r)))
      else occupants_of_group cf tn cutoff its)"

fun iterateRecordLimitParentGroupOccupants ::
  "(jstr \<Rightarrow> int option) \<Rightarrow> indexed_item list \<Rightarrow> filter_t \<Rightarrow> int \<Rightarrow> jstr list \<Rightarrow> indexed_item list result" where
  "iterateRecordLimitParentGroupOccupants tn items cf m [] = Inr []"
| "iterateRecordLimitParentGroupOccupants tn items cf m (p # ps) =
     (let cf' = AList.update ''parentId'' (EqualF (SStr p)) cf in
      bind (findRecordLimitRankCutoff tn items cf' (Some p) m) (\<lambda>cutoff.
      bind (case cutoff of
              None \<Rightarrow> Inr []
            | Some c \<Rightarrow> occupants_of_group cf' tn c (iterateExactMatches items ''parentId'' (SStr p))) (\<lambda>xs.
      bind (iterateRecordLimitParentGroupOccupants tn items cf m ps) (\<lambda>rest. Inr (xs @ rest)))))"

definition queryRecordLimitParentGroups ::
  "(jstr \<Rightarrow> int option) \<Rightarrow> indexed_item list \<Rightarrow> filter_t \<Rightarrow> filter_t list \<Rightarrow> int \<Rightarrow> jstr list \<Rightarrow> query_options
    \<Rightarrow> indexed_item list result" where
  "queryRecordLimitParentGroups tn items cf filters m parentIds q =
     bind (assertValidSubtreeFilters (cf # filters)) (\<lambda>_.
     if qo_limit q = Some 0 then Inr []
     else bind (iterateRecordLimitParentGroupOccupants tn items cf m (remdups_first parentIds)) (\<lambda>occupants.
       let p = qo_sortProperty q; d = qo_sortDirection q;
           matches = filter (\<lambda>it. map_of (snd it) p \<noteq> None \<and> matchAnyFilter tn (snd it) filters
             \<and> (case qo_cursor q of None \<Rightarrow> True
                | Some c \<Rightarrow> isItemAfterCursor it d p (createStartingKeyFromCursor c))) occupants;
           sorted = sortItems p d matches
       in Inr (case qo_limit q of None \<Rightarrow> sorted | Some l \<Rightarrow> take l sorted)))"

definition countRecordLimitParentGroups ::
  "(jstr \<Rightarrow> int option) \<Rightarrow> indexed_item list \<Rightarrow> filter_t \<Rightarrow> filter_t list \<Rightarrow> int \<Rightarrow> jstr list \<Rightarrow> string \<Rightarrow> nat result" where
  "countRecordLimitParentGroups tn items cf filters m parentIds sortProperty =
     bind (assertValidSubtreeFilters (cf # filters)) (\<lambda>_.
     bind (iterateRecordLimitParentGroupOccupants tn items cf m (remdups_first parentIds)) (\<lambda>occupants.
       Inr (length (filter (\<lambda>it. map_of (snd it) sortProperty \<noteq> None \<and> matchAnyFilter tn (snd it) filters) occupants))))"

section \<open>Query and count\<close>

definition createCursorFromLastArrayItem :: "indexed_item list \<Rightarrow> string \<Rightarrow> pagination_cursor option result" where
  "createCursorFromLastArrayItem items p =
     (if items \<noteq> [] then bind (createCursorFromItem (last items) p) (\<lambda>c. Inr (Some c)) else Inr None)"

text \<open>The end of \<open>query\<close>: the extra result becomes a cursor, and the messages are read.\<close>

definition page_of_results ::
  "tenant_store \<Rightarrow> string \<Rightarrow> nat option \<Rightarrow> indexed_item list \<Rightarrow> (message list \<times> pagination_cursor option) result" where
  "page_of_results s p limit results =
     (let more = (case limit of Some l \<Rightarrow> l < length results | None \<Rightarrow> False);
          kept = (if more then butlast results else results)
      in bind (if more then createCursorFromLastArrayItem kept p else Inr None) (\<lambda>cursor.
           Inr (List.map_filter (\<lambda>it. ms_get s (fst it)) kept, cursor)))"

definition ms_query ::
  "store_env \<Rightarrow> tenant_store \<Rightarrow> filter_t list \<Rightarrow> message_sort \<Rightarrow> pagination \<Rightarrow> (message list \<times> pagination_cursor option) result" where
  "ms_query E s filters messageSort pagination =
     (let q = buildQueryOptions messageSort pagination in
      bind (index_query (se_tn E) (ts_index s) filters q) (\<lambda>results.
        page_of_results s (qo_sortProperty q) (pn_limit pagination) results))"

definition ms_query_limited ::
  "nat \<Rightarrow> store_env \<Rightarrow> tenant_store \<Rightarrow> filter_t list \<Rightarrow> message_sort \<Rightarrow> pagination \<Rightarrow> record_limit
    \<Rightarrow> (message list \<times> pagination_cursor option) result option" where
  "ms_query_limited n E s filters messageSort pagination rl =
     (let q = buildQueryOptions messageSort pagination in
      map_option (\<lambda>r. bind r (\<lambda>results. page_of_results s (qo_sortProperty q) (pn_limit pagination) results))
        (case getRecordLimitParentIds rl of
           None \<Rightarrow> iterateRecordLimitPopulation n (se_tn E) (ts_index s) filters q rl
         | Some parentIds \<Rightarrow> Some (queryRecordLimitParentGroups (se_tn E) (ts_index s)
             (buildRecordLimitCandidateFilter rl) filters (rl_max rl) parentIds q)))"

definition ms_count :: "store_env \<Rightarrow> tenant_store \<Rightarrow> filter_t list \<Rightarrow> message_sort \<Rightarrow> nat result" where
  "ms_count E s filters messageSort =
     bind (index_query (se_tn E) (ts_index s) filters (buildQueryOptions messageSort no_pagination)) (\<lambda>results. Inr (length results))"

definition ms_count_limited ::
  "nat \<Rightarrow> store_env \<Rightarrow> tenant_store \<Rightarrow> filter_t list \<Rightarrow> message_sort \<Rightarrow> record_limit \<Rightarrow> nat result option" where
  "ms_count_limited n E s filters messageSort rl =
     (let q = buildQueryOptions messageSort no_pagination in
      case getRecordLimitParentIds rl of
        Some parentIds \<Rightarrow> Some (countRecordLimitParentGroups (se_tn E) (ts_index s)
          (buildRecordLimitCandidateFilter rl) filters (rl_max rl) parentIds (qo_sortProperty q))
      | None \<Rightarrow> map_option (\<lambda>r. bind r (\<lambda>items. Inr (length items)))
          (iterateRecordLimitPopulation n (se_tn E) (ts_index s) filters q rl))"

section \<open>Fetching the writes of a record\<close>

text \<open>A query with no sort and no pagination, for its messages.\<close>

definition query_messages :: "store_env \<Rightarrow> tenant_store \<Rightarrow> filter_t \<Rightarrow> message list result" where
  "query_messages E s f = bind (ms_query E s [f] no_sort no_pagination) (\<lambda>(messages, _). Inr messages)"

definition fetchNewestRecordsWrite :: "store_env \<Rightarrow> tenant_store \<Rightarrow> jstr \<Rightarrow> message result" where
  "fetchNewestRecordsWrite E s recordId =
     bind (query_messages E s [(''interface'', EqualF (SStr (js ''Records''))), (''method'', EqualF (SStr (js ''Write''))),
             (''recordId'', EqualF (SStr recordId))]) (\<lambda>existingMessages.
     case getNewestMessage (se_cids E) existingMessages of
       Some m \<Rightarrow> Inr m
     | None \<Rightarrow> Inl (DwnError ''RecordsWriteGetNewestWriteRecordNotFound'' (js ''record not found'')))"

definition fetchInitialRecordsWriteMessage :: "store_env \<Rightarrow> tenant_store \<Rightarrow> jstr \<Rightarrow> message option result" where
  "fetchInitialRecordsWriteMessage E s recordId =
     bind (query_messages E s [(''entryId'', EqualF (SStr recordId))]) (\<lambda>messages.
     Inr (case messages of [] \<Rightarrow> None | m # _ \<Rightarrow> Some m))"

text \<open>Only writes are indexed under \<open>entryId\<close>; another message does not parse as a write.\<close>

definition fetchInitialRecordsWrite ::
  "records_env \<Rightarrow> store_env \<Rightarrow> tenant_store \<Rightarrow> jstr \<Rightarrow> records_write option result" where
  "fetchInitialRecordsWrite R E s recordId =
     bind (fetchInitialRecordsWriteMessage E s recordId) (\<lambda>found. case found of
       None \<Rightarrow> Inr None
     | Some (WriteMsg w) \<Rightarrow> bind (parse_write R w) (\<lambda>rw. Inr (Some rw))
     | Some _ \<Rightarrow> Inl (OtherError (js ''TypeError'')))"

section \<open>What a query returns\<close>

lemma set_sortItems: "set (sortItems p dir xs) = set xs"
  by (cases dir) (simp_all add: sortItems_def)

text \<open>Every row has a timestamp: the default order of a query.\<close>

definition timed :: "tenant_store \<Rightarrow> bool" where
  "timed s \<longleftrightarrow> (\<forall>c r. row_of s c = Some r \<longrightarrow> (\<exists>t. map_of (r_indexes r) ''messageTimestamp'' = Some (One (SStr t))))"

lemma index_rows:
  assumes "core_ok E s"
  shows "(c, i) \<in> set (ts_index s) \<longleftrightarrow> (\<exists>r. row_of s c = Some r \<and> r_indexes r = i)"
    and "row_of s c = Some r \<Longrightarrow> ms_get s c = Some (r_message r) \<and> getCid (se_cids E) (r_message r) = c"
proof -
  have A: "row_of s c = Some r \<Longrightarrow> map_of (ts_index s) c = Some (r_indexes r)" for r
    using core_row [OF assms, of c] by (auto simp: row_of_def split: option.splits)
  have B: "\<exists>r. row_of s c = Some r \<and> r_indexes r = i" if "map_of (ts_index s) c = Some i"
  proof -
    have "c \<in> dom (map_of (ts_cids s))" using that unfolding core_okD(8) [OF assms, symmetric] by blast
    then obtain p where "map_of (ts_cids s) c = Some p" by blast
    with core_row [OF assms this] that show ?thesis by (auto simp: row_of_def)
  qed
  show "(c, i) \<in> set (ts_index s) \<longleftrightarrow> (\<exists>r. row_of s c = Some r \<and> r_indexes r = i)"
    unfolding level.in_rows_iff [OF core_okD(2) [OF assms]] using A B by metis
  show "row_of s c = Some r \<Longrightarrow> ms_get s c = Some (r_message r) \<and> getCid (se_cids E) (r_message r) = c"
    using core_okD(9) [OF assms, of c] by (auto simp: row_of_def ms_get_def split: option.splits)
qed

definition default_options :: query_options where
  "default_options = buildQueryOptions no_sort no_pagination"

lemma default_options_simps [simp]:
  "qo_sortProperty default_options = ''messageTimestamp''" "qo_sortDirection default_options = Ascending"
  "qo_limit default_options = None" "qo_cursor default_options = None"
  by (simp_all add: default_options_def buildQueryOptions_def no_sort_def no_pagination_def)

lemma index_query_default:
  assumes "core_ok E s" and "timed s" and "assertValidSubtreeFilters fs = Inr ()"
  shows "index_query tn (ts_index s) fs default_options
           = Inr (sort_key (sort_value ''messageTimestamp'') (filter (\<lambda>it. matchAnyFilter tn (snd it) fs) (ts_index s)))"
proof -
  have s: "\<forall>it \<in> set (ts_index s). \<exists>v. map_of (snd it) (qo_sortProperty default_options) = Some (One v) \<and> sortable v"
  proof
    fix it assume "it \<in> set (ts_index s)"
    then obtain r where "row_of s (fst it) = Some r" "r_indexes r = snd it"
      using index_rows(1) [OF assms(1), of "fst it" "snd it"] by auto
    with assms(2) show "\<exists>v. map_of (snd it) (qo_sortProperty default_options) = Some (One v) \<and> sortable v"
      by (fastforce simp: timed_def)
  qed
  then have "\<forall>it \<in> set (ts_index s). map_of (snd it) (qo_sortProperty default_options) \<noteq> None" by force
  with s show ?thesis
    using index_query_in_memory [OF level.distinct_keys [OF core_okD(2) [OF assms(1)]] s, of tn fs] assms(3)
    by (simp add: queryWithInMemoryPaging_complete sortItems_def)
qed

lemma page_all:
  assumes "core_ok E s" and "set items \<subseteq> set (ts_index s)" and "distinct (map fst items)"
  shows "\<exists>ms. page_of_results s p None items = Inr (ms, None) \<and> distinct (map (getCid (se_cids E)) ms)
           \<and> set ms = {r_message r | r c. row_of s c = Some r \<and> (c, r_indexes r) \<in> set items}"
proof -
  define ms where "ms = List.map_filter (\<lambda>it. ms_get s (fst it)) items"
  have get: "\<exists>r. row_of s (fst it) = Some r \<and> ms_get s (fst it) = Some (r_message r) \<and> r_indexes r = snd it
      \<and> getCid (se_cids E) (r_message r) = fst it" if "it \<in> set items" for it
    using index_rows [OF assms(1), of "fst it"] assms(2) that by (metis prod.collapse subsetD)
  then have cids: "map (getCid (se_cids E)) ms = map fst items"
    unfolding ms_def by (induction items) (fastforce simp: List.map_filter_simps)+
  have "set ms = {r_message r | r c. row_of s c = Some r \<and> (c, r_indexes r) \<in> set items}"
  proof (rule set_eqI)
    fix m
    have "m \<in> set ms \<longleftrightarrow> (\<exists>it \<in> set items. ms_get s (fst it) = Some m)"
      unfolding ms_def by (induction items) (auto simp: List.map_filter_simps split: option.splits)
    also have "\<dots> \<longleftrightarrow> (\<exists>r c. m = r_message r \<and> row_of s c = Some r \<and> (c, r_indexes r) \<in> set items)"
    proof safe
      fix a b assume it: "(a, b) \<in> set items" and m: "ms_get s (fst (a, b)) = Some m"
      from get [OF it] m it show "\<exists>r c. m = r_message r \<and> row_of s c = Some r \<and> (c, r_indexes r) \<in> set items" by auto
    next
      fix r c assume r: "row_of s c = Some r" and it: "(c, r_indexes r) \<in> set items"
      from index_rows(2) [OF assms(1) r] it show "\<exists>it \<in> set items. ms_get s (fst it) = Some (r_message r)"
        by (intro bexI [of _ "(c, r_indexes r)"]) simp_all
    qed
    finally show "m \<in> set ms \<longleftrightarrow> m \<in> {r_message r | r c. row_of s c = Some r \<and> (c, r_indexes r) \<in> set items}" by auto
  qed
  with cids assms(3) show ?thesis by (auto simp: page_of_results_def ms_def)
qed

text \<open>A query with default options returns the messages of the matching rows, each once.\<close>

lemma query_messages_rows:
  assumes "core_ok E s" and "timed s" and "assertValidSubtreeFilters [f] = Inr ()"
  shows "\<exists>ms. query_messages E s f = Inr ms \<and> distinct (map (getCid (se_cids E)) ms)
           \<and> set ms = {r_message r | r c. row_of s c = Some r \<and> matchFilter (se_tn E) (r_indexes r) f}"
proof -
  define items where "items = sort_key (sort_value ''messageTimestamp'') (filter (\<lambda>it. matchAnyFilter (se_tn E) (snd it) [f]) (ts_index s))"
  have "distinct (map fst items)"
    using distinct_map_filter [OF level.distinct_keys [OF core_okD(2) [OF assms(1)]], of "\<lambda>it. matchAnyFilter (se_tn E) (snd it) [f]"]
    by (simp add: items_def distinct_map)
  moreover have items: "set items \<subseteq> set (ts_index s)" by (auto simp: items_def)
  ultimately obtain ms where ms: "page_of_results s ''messageTimestamp'' None items = Inr (ms, None)"
    "distinct (map (getCid (se_cids E)) ms)"
    "set ms = {r_message r | r c. row_of s c = Some r \<and> (c, r_indexes r) \<in> set items}"
    using page_all [OF assms(1), of items "''messageTimestamp''"] items by blast
  have "(c, r_indexes r) \<in> set items \<longleftrightarrow> matchFilter (se_tn E) (r_indexes r) f" if "row_of s c = Some r" for c r
    using index_rows(1) [OF assms(1), of c "r_indexes r"] that by (auto simp: items_def matchAnyFilter_iff)
  with ms(3) have "set ms = {r_message r | r c. row_of s c = Some r \<and> matchFilter (se_tn E) (r_indexes r) f}" by blast
  moreover have "query_messages E s f = Inr ms"
    using index_query_default [OF assms, of "se_tn E"] ms(1)
    by (simp add: query_messages_def ms_query_def default_options_def [symmetric] no_pagination_def [THEN arg_cong [of _ _ pn_limit]] items_def Let_def)
  ultimately show ?thesis using ms(2) by blast
qed

end
