(* ===== verification/Data_Store.thy ===== *)
theory Data_Store
  imports Message "HOL-Library.AList"
begin

text \<open>
  The data store (\<open>src/packages/dwn-sdk-js/src/store/data-store-level.ts\<close>): record data that is too
  large to be stored with its message, shared between the records that refer to the same content and
  garbage-collected with the last reference.

  The UnixFS importer and exporter are not part of the repository.  A blocks partition is represented
  by the files imported into it, keyed by the root CID, which is the content identifier
  \<^const>\<open>cid_bytes\<close> of the bytes; exporting a root yields the bytes that were imported under it.
\<close>

type_synonym bytes = "8 word list"

type_synonym data_ref = "jstr \<times> jstr \<times> jstr"

record refcount =
  rc_count :: int
  rc_dataSize :: int

record data_store =
  ds_refs :: "(data_ref \<times> int) list"
  ds_blocks :: "(jstr \<times> (jstr \<times> bytes) list) list"
  ds_refcounts :: "(jstr \<times> refcount) list"

definition empty_data :: data_store where
  "empty_data = \<lparr>ds_refs = [], ds_blocks = [], ds_refcounts = []\<rparr>"

definition getBlocksPartition :: "data_store \<Rightarrow> jstr \<Rightarrow> (jstr \<times> bytes) list" where
  "getBlocksPartition s dataCid = (case map_of (ds_blocks s) dataCid of None \<Rightarrow> [] | Some b \<Rightarrow> b)"

section \<open>Operations\<close>

definition data_put ::
  "cids \<Rightarrow> data_store \<Rightarrow> jstr \<Rightarrow> jstr \<Rightarrow> jstr \<Rightarrow> bytes \<Rightarrow> int \<times> data_store" where
  "data_put C s tenant recordId dataCid content =
     (case map_of (ds_refs s) (tenant, recordId, dataCid) of
        Some dataSize \<Rightarrow> (dataSize, s)
      | None \<Rightarrow>
          let refcountData = (case map_of (ds_refcounts s) dataCid of
                Some d \<Rightarrow> d | None \<Rightarrow> \<lparr>rc_count = 0, rc_dataSize = 0\<rparr>);
              (dataSize, blocks) =
                (if rc_count refcountData > 0 then (rc_dataSize refcountData, ds_blocks s)
                 else (int (length content),
                       AList.update dataCid
                         (AList.update (cid_bytes C content) content (getBlocksPartition s dataCid)) (ds_blocks s)))
          in (dataSize,
              \<lparr>ds_refs = AList.update (tenant, recordId, dataCid) dataSize (ds_refs s),
               ds_blocks = blocks,
               ds_refcounts = AList.update dataCid
                 \<lparr>rc_count = rc_count refcountData + 1, rc_dataSize = dataSize\<rparr> (ds_refcounts s)\<rparr>))"

definition data_get :: "data_store \<Rightarrow> jstr \<Rightarrow> jstr \<Rightarrow> jstr \<Rightarrow> (int \<times> bytes) option" where
  "data_get s tenant recordId dataCid =
     (case map_of (ds_refs s) (tenant, recordId, dataCid) of
        None \<Rightarrow> None
      | Some dataSize \<Rightarrow> (case map_of (getBlocksPartition s dataCid) dataCid of
          None \<Rightarrow> None
        | Some content \<Rightarrow> Some (dataSize, content)))"

definition data_delete :: "data_store \<Rightarrow> jstr \<Rightarrow> jstr \<Rightarrow> jstr \<Rightarrow> data_store" where
  "data_delete s tenant recordId dataCid =
     (case map_of (ds_refs s) (tenant, recordId, dataCid) of
        None \<Rightarrow> s
      | Some _ \<Rightarrow>
          let s1 = s\<lparr>ds_refs := AList.delete (tenant, recordId, dataCid) (ds_refs s)\<rparr>
          in case map_of (ds_refcounts s) dataCid of
               None \<Rightarrow> s1
             | Some refcountData \<Rightarrow>
                 let newCount = rc_count refcountData - 1
                 in if newCount \<le> 0
                    then s1\<lparr>ds_blocks := AList.delete dataCid (ds_blocks s),
                            ds_refcounts := AList.delete dataCid (ds_refcounts s)\<rparr>
                    else s1\<lparr>ds_refcounts := AList.update dataCid (refcountData\<lparr>rc_count := newCount\<rparr>) (ds_refcounts s)\<rparr>)"

section \<open>Reference counts\<close>

definition refs_to :: "data_store \<Rightarrow> jstr \<Rightarrow> data_ref set" where
  "refs_to s dataCid = {r \<in> dom (map_of (ds_refs s)). snd (snd r) = dataCid}"

text \<open>The invariant: a count for exactly the referenced contents, equal to the number of references;
  blocks for exactly those contents; the files of a partition under their content identifiers; and
  the same size in every reference to a content.\<close>

definition data_ok :: "cids \<Rightarrow> data_store \<Rightarrow> bool" where
  "data_ok C s \<longleftrightarrow>
     (\<forall>c. case map_of (ds_refcounts s) c of
            None \<Rightarrow> refs_to s c = {} \<and> getBlocksPartition s c = []
          | Some d \<Rightarrow> rc_count d = int (card (refs_to s c)) \<and> refs_to s c \<noteq> {} \<and>
              (\<exists>content. getBlocksPartition s c = [(cid_bytes C content, content)]
                 \<and> rc_dataSize d = int (length content))
              \<and> (\<forall>r \<in> refs_to s c. map_of (ds_refs s) r = Some (rc_dataSize d)))"

lemma finite_refs_to [simp]: "finite (refs_to s c)"
  unfolding refs_to_def using finite_dom_map_of by (rule finite_subset [rotated]) auto

lemma refs_to_insert:
  "refs_to (s\<lparr>ds_refs := AList.update (t, r, c) n (ds_refs s)\<rparr>) d =
     (if d = c then insert (t, r, c) (refs_to s d) else refs_to s d)"
  by (auto simp: refs_to_def update_conv' split: if_splits)

lemma refs_to_remove:
  "refs_to (s\<lparr>ds_refs := AList.delete (t, r, c) (ds_refs s)\<rparr>) d =
     (if d = c then refs_to s d - {(t, r, c)} else refs_to s d)"
  by (auto simp: refs_to_def delete_conv' split: if_splits)

lemma refs_to_eq: "ds_refs s = ds_refs s' \<Longrightarrow> refs_to s c = refs_to s' c"
  by (simp add: refs_to_def)

lemma blocks_eq: "ds_blocks s = ds_blocks s' \<Longrightarrow> getBlocksPartition s c = getBlocksPartition s' c"
  by (simp add: getBlocksPartition_def)

lemma data_ok_empty: "data_ok C empty_data"
  by (simp add: data_ok_def empty_data_def refs_to_def getBlocksPartition_def)

lemma data_okD:
  assumes "data_ok C s"
  shows "map_of (ds_refcounts s) c = None \<Longrightarrow> refs_to s c = {} \<and> getBlocksPartition s c = []"
    and "map_of (ds_refcounts s) c = Some d \<Longrightarrow> rc_count d = int (card (refs_to s c)) \<and> refs_to s c \<noteq> {} \<and>
              (\<exists>content. getBlocksPartition s c = [(cid_bytes C content, content)]
                 \<and> rc_dataSize d = int (length content))
              \<and> (\<forall>r \<in> refs_to s c. map_of (ds_refs s) r = Some (rc_dataSize d))"
  using assms unfolding data_ok_def by (auto dest: spec [of _ c])

text \<open>What one content identifier sees of the store; the operations change one view each.\<close>

definition view :: "data_store \<Rightarrow> jstr \<Rightarrow> refcount option \<times> data_ref set \<times> (data_ref \<rightharpoonup> int) \<times> (jstr \<times> bytes) list" where
  "view s c = (map_of (ds_refcounts s) c, refs_to s c, map_of (ds_refs s) |` refs_to s c, getBlocksPartition s c)"

definition view_ok :: "cids \<Rightarrow> refcount option \<times> data_ref set \<times> (data_ref \<rightharpoonup> int) \<times> (jstr \<times> bytes) list \<Rightarrow> bool" where
  "view_ok C v \<longleftrightarrow> (case v of (count, refs, sizes, blocks) \<Rightarrow> case count of
       None \<Rightarrow> refs = {} \<and> blocks = []
     | Some d \<Rightarrow> rc_count d = int (card refs) \<and> refs \<noteq> {} \<and>
         (\<exists>content. blocks = [(cid_bytes C content, content)] \<and> rc_dataSize d = int (length content))
         \<and> (\<forall>r \<in> refs. sizes r = Some (rc_dataSize d)))"

lemma data_ok_views: "data_ok C s \<longleftrightarrow> (\<forall>c. view_ok C (view s c))"
  by (simp add: data_ok_def view_def view_ok_def restrict_map_def cong: ball_cong option.case_cong)

lemma data_get_view:
  "data_get s t r c = (case fst (snd (snd (view s c))) (t, r, c) of
     None \<Rightarrow> None
   | Some n \<Rightarrow> map_option (Pair n) (map_of (snd (snd (snd (view s c)))) c))"
  by (auto simp: data_get_def view_def restrict_map_def refs_to_def split: option.splits)

lemma data_put_view:
  assumes "data_ok C s" and "map_of (ds_refs s) (t, r, c) = None"
  shows "view (snd (data_put C s t r c content)) d =
     (if d \<noteq> c then view s d
      else (case view s c of (count, refs, sizes, blocks) \<Rightarrow>
        let n = (case count of Some k \<Rightarrow> rc_dataSize k | None \<Rightarrow> int (length content))
        in (Some \<lparr>rc_count = (case count of Some k \<Rightarrow> rc_count k | None \<Rightarrow> 0) + 1, rc_dataSize = n\<rparr>,
            insert (t, r, c) refs, sizes((t, r, c) \<mapsto> n),
            (case count of Some k \<Rightarrow> blocks | None \<Rightarrow> [(cid_bytes C content, content)]))))"
proof (cases "map_of (ds_refcounts s) c")
  case None
  with data_okD(1) [OF assms(1) None] assms(2) show ?thesis
    by (auto simp: data_put_def view_def refs_to_def getBlocksPartition_def restrict_map_def fun_eq_iff Let_def update_conv'
        split: option.splits if_splits)
next
  case (Some k)
  from data_okD(2) [OF assms(1) Some] have "rc_count k > 0" by (simp add: card_gt_0_iff)
  with Some assms(2) show ?thesis
    by (auto simp: data_put_def view_def refs_to_def getBlocksPartition_def restrict_map_def fun_eq_iff Let_def update_conv'
        split: option.splits if_splits)
qed

lemma data_delete_view:
  assumes "data_ok C s" and "map_of (ds_refs s) (t, r, c) \<noteq> None"
  shows "view (data_delete s t r c) d =
     (if d \<noteq> c then view s d
      else (case view s c of (count, refs, sizes, blocks) \<Rightarrow>
        if refs = {(t, r, c)} then (None, {}, Map.empty, [])
        else (map_option (\<lambda>k. k\<lparr>rc_count := rc_count k - 1\<rparr>) count, refs - {(t, r, c)}, sizes((t, r, c) := None), blocks)))"
proof -
  obtain n where n: "map_of (ds_refs s) (t, r, c) = Some n" using assms(2) by auto
  then have mem: "(t, r, c) \<in> refs_to s c" by (auto simp: refs_to_def)
  with data_okD(1) [OF assms(1), of c] obtain k where k: "map_of (ds_refcounts s) c = Some k" by fastforce
  have count: "rc_count k = int (card (refs_to s c))" using data_okD(2) [OF assms(1) k] by blast
  have last: "rc_count k - 1 \<le> 0 \<longleftrightarrow> refs_to s c = {(t, r, c)}"
    using mem count card_le_Suc0_iff_eq [OF finite_refs_to, of s c] by auto
  have refs: "refs_to (data_delete s t r c) d = (if d = c then refs_to s d - {(t, r, c)} else refs_to s d)"
    using n k by (auto simp: data_delete_def refs_to_def Let_def delete_conv' split: if_splits)
  have other: "d \<noteq> c \<Longrightarrow> (t, r, c) \<notin> refs_to s d" by (auto simp: refs_to_def)
  show ?thesis
    using n k last refs other by (auto simp: data_delete_def view_def getBlocksPartition_def Let_def restrict_map_def
        fun_eq_iff delete_conv' update_conv' split: option.splits if_splits)
qed

lemma view_ok_insert:
  assumes "view_ok C (count, refs, sizes, blocks)" and "r \<notin> refs" and "finite refs"
  shows "view_ok C (Some \<lparr>rc_count = (case count of Some k \<Rightarrow> rc_count k | None \<Rightarrow> 0) + 1,
             rc_dataSize = (case count of Some k \<Rightarrow> rc_dataSize k | None \<Rightarrow> int (length content))\<rparr>,
           insert r refs, sizes(r \<mapsto> (case count of Some k \<Rightarrow> rc_dataSize k | None \<Rightarrow> int (length content))),
           (case count of Some k \<Rightarrow> blocks | None \<Rightarrow> [(cid_bytes C content, content)]))"
  using assms by (cases count) (auto simp: view_ok_def)

lemma view_ok_remove:
  assumes "view_ok C (count, refs, sizes, blocks)" and "r \<in> refs" and "refs \<noteq> {r}" and "finite refs"
  shows "view_ok C (map_option (\<lambda>k. k\<lparr>rc_count := rc_count k - 1\<rparr>) count, refs - {r}, sizes(r := None), blocks)"
proof -
  obtain k where k: "count = Some k" using assms(1,2) by (cases count) (auto simp: view_ok_def)
  have "0 < card refs" using assms(2,4) card_gt_0_iff by blast
  moreover have "card (refs - {r}) = card refs - 1" using assms(2,4) by (simp add: card_Diff_singleton)
  ultimately show ?thesis using assms k by (auto simp: view_ok_def)
qed

lemma data_ok_put: "data_ok C s \<Longrightarrow> data_ok C (snd (data_put C s t r c content))"
proof (cases "map_of (ds_refs s) (t, r, c)")
  case None
  assume ok: "data_ok C s"
  have "(t, r, c) \<notin> refs_to s c" using None by (auto simp: refs_to_def)
  then show ?thesis
    using ok view_ok_insert [of C "map_of (ds_refcounts s) c" "refs_to s c" _ _ "(t, r, c)" content]
    unfolding data_ok_views data_put_view [OF ok None]
    by (auto simp: view_def Let_def)
next
  case (Some n)
  then show "data_ok C s \<Longrightarrow> ?thesis" by (simp add: data_put_def)
qed

lemma data_ok_delete: "data_ok C s \<Longrightarrow> data_ok C (data_delete s t r c)"
proof (cases "map_of (ds_refs s) (t, r, c)")
  case (Some n)
  assume ok: "data_ok C s"
  have mem: "(t, r, c) \<in> refs_to s c" using Some by (auto simp: refs_to_def)
  obtain count sizes blocks where v: "view s c = (count, refs_to s c, sizes, blocks)" by (simp add: view_def)
  have vok: "view_ok C (count, refs_to s c, sizes, blocks)" using ok v by (metis data_ok_views)
  have "view_ok C (view (data_delete s t r c) d)" for d
  proof (cases "d = c")
    case True
    then show ?thesis
      using view_ok_remove [OF vok mem]
      by (simp add: data_delete_view [OF ok] Some v) (simp add: view_ok_def)
  next
    case False
    then show ?thesis using ok by (simp add: data_delete_view [OF ok] Some data_ok_views)
  qed
  then show ?thesis by (simp add: data_ok_views)
next
  case None
  then show "data_ok C s \<Longrightarrow> ?thesis" by (simp add: data_delete_def)
qed

section \<open>The interface of a data store\<close>

text \<open>
  What the storage controller and the handlers rely on: content is found under a reference from the
  moment it is stored there until that reference is deleted, whatever happens to other references.
\<close>

datatype ('k, 'b) blob_op = PutBlob 'k 'b | DeleteBlob 'k

primrec live :: "('k, 'b) blob_op \<Rightarrow> 'k set \<Rightarrow> 'k set" where
  "live (PutBlob k b) K = insert k K"
| "live (DeleteBlob k) K = K - {k}"

locale blob_store =
  fixes lookup :: "'s \<Rightarrow> 'k \<Rightarrow> 'b option"
    and store :: "'s \<Rightarrow> 'k \<Rightarrow> 'b \<Rightarrow> 's"
    and remove :: "'s \<Rightarrow> 'k \<Rightarrow> 's"
    and invar :: "'s \<Rightarrow> bool"
    and fits :: "'k \<Rightarrow> 'b \<Rightarrow> bool"
  assumes store_invar: "invar s \<Longrightarrow> fits k b \<Longrightarrow> invar (store s k b)"
    and remove_invar: "invar s \<Longrightarrow> invar (remove s k)"
    and lookup_fits: "invar s \<Longrightarrow> lookup s k = Some b \<Longrightarrow> fits k b"
    and lookup_store: "invar s \<Longrightarrow> fits k b \<Longrightarrow> lookup (store s k b) k \<noteq> None"
    and lookup_store_other: "invar s \<Longrightarrow> fits k b \<Longrightarrow> k' \<noteq> k \<Longrightarrow> lookup (store s k b) k' = lookup s k'"
    and lookup_remove: "invar s \<Longrightarrow> lookup (remove s k) k = None"
    and lookup_remove_other: "invar s \<Longrightarrow> k' \<noteq> k \<Longrightarrow> lookup (remove s k) k' = lookup s k'"
begin

primrec run_op :: "('k, 'b) blob_op \<Rightarrow> 's \<Rightarrow> 's" where
  "run_op (PutBlob k b) s = store s k b"
| "run_op (DeleteBlob k) s = remove s k"

lemma run_op_live:
  assumes "invar s" and "\<And>k b. op = PutBlob k b \<Longrightarrow> fits k b"
  shows "invar (run_op op s)" and "{k. lookup (run_op op s) k \<noteq> None} = live op {k. lookup s k \<noteq> None}"
proof -
  show "invar (run_op op s)" using assms by (cases op) (auto simp: store_invar remove_invar)
  show "{k. lookup (run_op op s) k \<noteq> None} = live op {k. lookup s k \<noteq> None}"
  proof (cases op)
    case (PutBlob k b)
    then have "fits k b" using assms(2) by simp
    with PutBlob show ?thesis using lookup_store lookup_store_other assms(1) by (auto; metis)
  next
    case (DeleteBlob k)
    then show ?thesis using lookup_remove lookup_remove_other assms(1) by (auto; metis option.distinct(1))
  qed
qed

lemma run_ops_live:
  assumes "invar s" and "\<And>k b. PutBlob k b \<in> set ops \<Longrightarrow> fits k b"
  shows "invar (fold run_op ops s) \<and> {k. lookup (fold run_op ops s) k \<noteq> None} = fold live ops {k. lookup s k \<noteq> None}"
  using assms
proof (induction ops arbitrary: s)
  case (Cons op ops)
  have "\<And>k b. op = PutBlob k b \<Longrightarrow> fits k b" using Cons.prems(2) by auto
  note step = run_op_live [OF Cons.prems(1) this]
  have "\<And>k b. PutBlob k b \<in> set ops \<Longrightarrow> fits k b" using Cons.prems(2) by auto
  from Cons.IH [OF step(1) this] step(2) show ?case by simp
qed simp

lemma remove_all:
  "invar s \<Longrightarrow> invar (fold (\<lambda>k s. remove s k) ks s)
     \<and> lookup (fold (\<lambda>k s. remove s k) ks s) k = (if k \<in> set ks then None else lookup s k)"
proof (induction ks arbitrary: s)
  case (Cons j ks)
  then show ?case
    using Cons.IH [OF remove_invar [OF Cons.prems, of j]] lookup_remove [OF Cons.prems, of j] lookup_remove_other [OF Cons.prems, of k j] by auto
qed simp

end

text \<open>Contents under the identifiers they are stored for.\<close>

definition contents_ok :: "cids \<Rightarrow> data_store \<Rightarrow> bool" where
  "contents_ok C s \<longleftrightarrow> data_ok C s \<and> (\<forall>c. \<forall>(k, b) \<in> set (getBlocksPartition s c). k = c)"

primrec ref_fits :: "cids \<Rightarrow> data_ref \<Rightarrow> int \<times> bytes \<Rightarrow> bool" where
  "ref_fits C k (n, b) = (cid_bytes C b = snd (snd k) \<and> n = int (length b))"

definition put_ref :: "cids \<Rightarrow> data_store \<Rightarrow> data_ref \<Rightarrow> int \<times> bytes \<Rightarrow> data_store" where
  "put_ref C s k v = (case k of (t, r, c) \<Rightarrow> snd (data_put C s t r c (snd v)))"

definition get_ref :: "data_store \<Rightarrow> data_ref \<Rightarrow> (int \<times> bytes) option" where
  "get_ref s k = (case k of (t, r, c) \<Rightarrow> data_get s t r c)"

definition delete_ref :: "data_store \<Rightarrow> data_ref \<Rightarrow> data_store" where
  "delete_ref s k = (case k of (t, r, c) \<Rightarrow> data_delete s t r c)"

lemma contents_ok_iff:
  "contents_ok C s \<longleftrightarrow> data_ok C s \<and> (\<forall>c. \<forall>(k, b) \<in> set (snd (snd (snd (view s c)))). k = c)"
  by (simp add: contents_ok_def view_def)

lemma contents_files:
  "contents_ok C s \<Longrightarrow> (k, b) \<in> set (snd (snd (snd (view s c)))) \<Longrightarrow> k = c"
  by (auto simp: contents_ok_iff)

lemma get_ref_view:
  "get_ref s (t, r, c) = (case fst (snd (snd (view s c))) (t, r, c) of
     None \<Rightarrow> None | Some n \<Rightarrow> map_option (Pair n) (map_of (snd (snd (snd (view s c)))) c))"
  by (simp add: get_ref_def data_get_view)

text \<open>A referenced content has one file, which lookups return.\<close>

lemma contents_ok_cases:
  assumes "contents_ok C s"
  obtains (free) "view s c = (None, {}, Map.empty, [])"
  | (used) d refs b where "view s c = (Some d, refs, map_of (ds_refs s) |` refs, [(c, b)])" "cid_bytes C b = c"
      "rc_dataSize d = int (length b)" "\<forall>r \<in> refs. map_of (ds_refs s) r = Some (int (length b))" "refs = refs_to s c"
proof (cases "map_of (ds_refcounts s) c")
  case None
  with assms data_okD(1) [of C s c] have "refs_to s c = {}" "getBlocksPartition s c = []" by (auto simp: contents_ok_def)
  with None show ?thesis by (intro free) (simp add: view_def restrict_map_def)
next
  case (Some d)
  with assms data_okD(2) [of C s c d] obtain b where b: "getBlocksPartition s c = [(cid_bytes C b, b)]"
    "rc_dataSize d = int (length b)" "\<forall>r \<in> refs_to s c. map_of (ds_refs s) r = Some (rc_dataSize d)"
    by (auto simp: contents_ok_def)
  then have "cid_bytes C b = c" using assms by (auto simp: contents_ok_def dest: spec [of _ c])
  with b Some show ?thesis by (intro used [of d "refs_to s c" b]) (simp_all add: view_def)
qed

lemma put_ref_existing: "map_of (ds_refs s) k = Some n \<Longrightarrow> put_ref C s k v = s"
  by (auto simp: put_ref_def data_put_def split: prod.splits)

lemma delete_ref_absent: "map_of (ds_refs s) k = None \<Longrightarrow> delete_ref s k = s"
  by (auto simp: delete_ref_def data_delete_def split: prod.splits)

lemma get_ref_absent: "map_of (ds_refs s) k = None \<Longrightarrow> get_ref s k = None"
  by (auto simp: get_ref_def data_get_def split: prod.splits)

lemma get_ref_present:
  assumes "contents_ok C s" and "map_of (ds_refs s) k = Some n"
  shows "\<exists>b. get_ref s k = Some (int (length b), b) \<and> cid_bytes C b = snd (snd k)"
proof -
  obtain t r c where k: "k = (t, r, c)" by (cases k)
  have mem: "k \<in> refs_to s c" using assms(2) by (auto simp: refs_to_def k)
  from assms(1) show ?thesis
  proof (cases rule: contents_ok_cases [where c = c])
    case free
    with mem show ?thesis by (simp add: view_def)
  next
    case (used d refs b)
    then show ?thesis using mem by (simp add: get_ref_view k)
  qed
qed

lemma contents_ok_put:
  assumes "contents_ok C s" and "ref_fits C k v"
  shows "contents_ok C (put_ref C s k v)"
    and "get_ref (put_ref C s k v) k \<noteq> None"
    and "k' \<noteq> k \<Longrightarrow> get_ref (put_ref C s k v) k' = get_ref s k'"
proof -
  obtain t r c where k: "k = (t, r, c)" by (cases k)
  obtain n b where v: "v = (n, b)" by (cases v)
  have ok: "data_ok C s" using assms(1) by (simp add: contents_ok_def)
  have "contents_ok C (put_ref C s k v) \<and> get_ref (put_ref C s k v) k \<noteq> None
     \<and> (k' \<noteq> k \<longrightarrow> get_ref (put_ref C s k v) k' = get_ref s k')"
  proof (cases "map_of (ds_refs s) k")
    case (Some m)
    then show ?thesis using assms(1) get_ref_present [OF assms(1) Some] by (auto simp: put_ref_existing)
  next
    case None
    then have new: "map_of (ds_refs s) (t, r, c) = None" by (simp add: k)
    have put: "put_ref C s k v = snd (data_put C s t r c b)" by (simp add: put_ref_def k v)
    have c: "cid_bytes C b = c" using assms(2) by (simp add: k v)
    from assms(1) have one: "contents_ok C (put_ref C s k v) \<and> get_ref (put_ref C s k v) k \<noteq> None"
      by (cases rule: contents_ok_cases [where c = c])
        (auto simp: contents_ok_iff k v put_ref_def data_ok_put [OF ok] data_put_view [OF ok new] get_ref_view Let_def c
          dest: contents_files [OF assms(1)])
    have "get_ref (put_ref C s k v) k' = get_ref s k'" if "k' \<noteq> k"
    proof -
      obtain t' r' c' where k': "k' = (t', r', c')" by (cases k')
      from assms(1) that show ?thesis
        unfolding put k' get_ref_view data_put_view [OF ok new]
        by (cases rule: contents_ok_cases [where c = c])
          (auto simp: k k' Let_def restrict_map_def)
    qed
    with one show ?thesis by blast
  qed
  then show "contents_ok C (put_ref C s k v)" "get_ref (put_ref C s k v) k \<noteq> None"
    "k' \<noteq> k \<Longrightarrow> get_ref (put_ref C s k v) k' = get_ref s k'" by blast+
qed

lemma contents_ok_delete:
  assumes "contents_ok C s"
  shows "contents_ok C (delete_ref s k)"
    and "get_ref (delete_ref s k) k = None"
    and "k' \<noteq> k \<Longrightarrow> get_ref (delete_ref s k) k' = get_ref s k'"
proof -
  obtain t r c where k: "k = (t, r, c)" by (cases k)
  obtain t' r' c' where k': "k' = (t', r', c')" by (cases k')
  have ok: "data_ok C s" using assms(1) by (simp add: contents_ok_def)
  have "contents_ok C (delete_ref s k) \<and> get_ref (delete_ref s k) k = None
     \<and> (k' \<noteq> k \<longrightarrow> get_ref (delete_ref s k) k' = get_ref s k')"
  proof (cases "map_of (ds_refs s) k")
    case None
    then show ?thesis using assms by (simp add: delete_ref_absent get_ref_absent)
  next
    case (Some m)
    then have old: "map_of (ds_refs s) (t, r, c) \<noteq> None" by (simp add: k)
    have view: "view (delete_ref s (t, r, c)) d = view (data_delete s t r c) d" for d by (simp add: delete_ref_def)
    have mem: "(t, r, c) \<in> refs_to s c" using Some by (auto simp: refs_to_def k)
    have "data_ok C (delete_ref s k)" using data_ok_delete [OF ok] by (simp add: delete_ref_def k)
    then have "contents_ok C (delete_ref s k)"
      using contents_files [OF assms(1)]
      by (auto simp: contents_ok_iff k view data_delete_view [OF ok old] split: prod.splits if_splits)
    moreover have "get_ref (delete_ref s k) k = None"
      by (simp add: k get_ref_view view data_delete_view [OF ok old] split: prod.splits)
    moreover have "get_ref (delete_ref s k) k' = get_ref s k'" if "k' \<noteq> k"
    proof (cases "c' = c")
      case True
      with that mem show ?thesis
        unfolding k k' True get_ref_view view data_delete_view [OF ok old] view_def [of s c]
        by (cases "refs_to s c = {(t, r, c)}") (auto simp: restrict_map_def split: option.split)
    next
      case False
      then show ?thesis unfolding k k' get_ref_view view data_delete_view [OF ok old] by simp
    qed
    ultimately show ?thesis by blast
  qed
  then show "contents_ok C (delete_ref s k)" "get_ref (delete_ref s k) k = None"
    "k' \<noteq> k \<Longrightarrow> get_ref (delete_ref s k) k' = get_ref s k'" by blast+
qed

lemma get_ref_fits: "contents_ok C s \<Longrightarrow> get_ref s k = Some v \<Longrightarrow> ref_fits C k v"
  using get_ref_present [of C s k] get_ref_absent [of s k] by (cases "map_of (ds_refs s) k") auto

interpretation blobs: blob_store get_ref "put_ref C" delete_ref "contents_ok C" "ref_fits C"
  by unfold_locales (simp_all add: contents_ok_put contents_ok_delete get_ref_fits)

text \<open>A put or a delete of the code, as one step.\<close>

fun data_op :: "cids \<Rightarrow> (data_ref, int \<times> bytes) blob_op \<Rightarrow> data_store \<Rightarrow> data_store" where
  "data_op C (PutBlob (t, r, c) (n, b)) s = snd (data_put C s t r c b)"
| "data_op C (DeleteBlob (t, r, c)) s = data_delete s t r c"

lemma data_op_run: "data_op C = blobs.run_op C"
proof (intro ext)
  show "data_op C op s = blobs.run_op C op s" for op s
    by (cases "(C, op, s)" rule: data_op.cases) (simp_all add: put_ref_def delete_ref_def)
qed

section \<open>Properties\<close>

text \<open>Two records of two tenants with the same content.\<close>

definition example_bytes_cids :: cids where
  "example_bytes_cids = example_cids\<lparr>cid_bytes := map unat\<rparr>"

definition example_data_ops :: "(data_ref, int \<times> bytes) blob_op list" where
  "example_data_ops = [PutBlob ([1], [2], [7]) (1, [7]), PutBlob ([3], [4], [7]) (1, [7]), DeleteBlob ([1], [2], [7])]"

text \<open>C12: Deduplicated data is safe: after any sequence of puts of content under its own content
  identifier and of deletes, in any tenants and records, exactly the references whose last operation
  was a put can be read; what is read has the content identifier and the size recorded; and the
  reference counts are the numbers of references, so that a delete never takes away content that
  another record still refers to and the last delete leaves no blocks behind.\<close>

theorem data_store_shares_safely:
  assumes "\<And>k v. PutBlob k v \<in> set ops \<Longrightarrow> ref_fits C k v"
  shows "let s = fold (data_op C) ops empty_data in
     (\<forall>t r c. data_get s t r c \<noteq> None \<longleftrightarrow> (t, r, c) \<in> fold live ops {})
   \<and> (\<forall>t r c n b. data_get s t r c = Some (n, b) \<longrightarrow> cid_bytes C b = c \<and> n = int (length b))
   \<and> data_ok C s"
proof -
  define s where "s = fold (data_op C) ops empty_data"
  have "contents_ok C empty_data"
    by (simp add: contents_ok_def data_ok_empty) (simp add: empty_data_def getBlocksPartition_def)
  moreover have "get_ref empty_data k = None" for k by (simp add: get_ref_absent empty_data_def)
  ultimately have ok: "contents_ok C s" and dom: "{k. get_ref s k \<noteq> None} = fold live ops {}"
    using blobs.run_ops_live [of C empty_data ops, OF _ assms] by (simp_all add: s_def data_op_run)
  have get: "data_get s t r c = get_ref s (t, r, c)" for t r c by (simp add: get_ref_def)
  have "data_get s t r c \<noteq> None \<longleftrightarrow> (t, r, c) \<in> fold live ops {}" for t r c
    unfolding get dom [symmetric] by simp
  moreover have "cid_bytes C b = c \<and> n = int (length b)" if "data_get s t r c = Some (n, b)" for t r c n b
    using get_ref_fits [OF ok that [unfolded get]] by simp
  ultimately show ?thesis using ok unfolding s_def [symmetric] Let_def contents_ok_def by blast
qed

theorem data_store_shares_safely_witness:
  "data_get (fold (data_op example_bytes_cids) example_data_ops empty_data) [3] [4] [7] \<noteq> None
   \<and> data_get (fold (data_op example_bytes_cids) example_data_ops empty_data) [1] [2] [7] = None"
proof -
  have fits: "PutBlob k v \<in> set example_data_ops \<Longrightarrow> ref_fits example_bytes_cids k v" for k v
    by (auto simp: example_data_ops_def example_bytes_cids_def)
  have "([3], [4], [7]) \<in> fold live example_data_ops {}" "([1], [2], [7]) \<notin> fold live example_data_ops {}"
    by (simp_all add: example_data_ops_def)
  then show ?thesis using data_store_shares_safely [OF fits] by (simp only: Let_def) blast
qed

end
