(* ===== verification/Storage_Controller.thy ===== *)
theory Storage_Controller
  imports Store_Query Data_Store
begin

text \<open>
  The storage controller (\<open>src/packages/dwn-sdk-js/src/store/storage-controller.ts\<close>): changes that touch
  the message store and the data store together.  A latest-state transition commits a new message and
  displaces the other messages of its record; a delete writes a tombstone and, when it prunes, purges
  the descendants of the record; a squash purges older siblings.

  The state is the message stores of the tenants and the data store of the node.  A loop of the code that
  follows parent links downwards is bounded by a first argument; \<^const>\<open>None\<close> is a run that has not
  returned within the bound.
\<close>

section \<open>Environment and state\<close>

record node_env =
  ne_records :: records_env
  ne_hash :: "jstr \<Rightarrow> fingerprint"
  ne_streamId :: "jstr \<Rightarrow> jstr"
  ne_epoch :: jstr
  ne_tn :: "jstr \<Rightarrow> int option"

definition ne_store :: "node_env \<Rightarrow> jstr \<Rightarrow> store_env" where
  "ne_store N tenant = \<lparr>se_cids = re_cids (ne_records N), se_hash = ne_hash N, se_streamId = ne_streamId N tenant,
     se_epoch = ne_epoch N, se_tn = ne_tn N\<rparr>"

lemma ne_store_simps [simp]:
  "se_cids (ne_store N tenant) = re_cids (ne_records N)" "se_hash (ne_store N tenant) = ne_hash N" "se_tn (ne_store N tenant) = ne_tn N"
  by (simp_all add: ne_store_def)

record node =
  n_messages :: "jstr \<Rightarrow> tenant_store"
  n_data :: data_store

definition maxDataSizeAllowedToBeEncoded :: int where
  "maxDataSizeAllowedToBeEncoded = 30000"

text \<open>The query for the messages of a record, and the record a message belongs to.  No message of
  another kind is stored under the Records interface.\<close>

definition record_query :: "jstr \<Rightarrow> filter_t" where
  "record_query recordId = [(''interface'', EqualF (SStr (js ''Records''))), (''recordId'', EqualF (SStr recordId))]"

primrec message_recordId :: "message \<Rightarrow> jstr" where
  "message_recordId (WriteMsg w) = w_recordId w"
| "message_recordId (DeleteMsg d) = dd_recordId (d_descriptor d)"
| "message_recordId (OtherMsg x) = []"

section \<open>Latest-state transitions\<close>

definition stripInlineData :: "write_message \<Rightarrow> write_message" where
  "stripInlineData w = w\<lparr>w_encodedData := None\<rparr>"

definition deleteFromDataStoreIfNeeded :: "data_store \<Rightarrow> jstr \<Rightarrow> message \<Rightarrow> message \<Rightarrow> data_store" where
  "deleteFromDataStoreIfNeeded ds tenant m newestMessage = (case m of
     WriteMsg w \<Rightarrow>
       (if wd_dataSize (w_descriptor w) \<le> maxDataSizeAllowedToBeEncoded then ds
        else if (case newestMessage of
                   WriteMsg n \<Rightarrow> wd_dataCid (w_descriptor w) = wd_dataCid (w_descriptor n)
                 | _ \<Rightarrow> False) then ds
        else data_delete ds tenant (w_recordId w) (wd_dataCid (w_descriptor w)))
   | _ \<Rightarrow> ds)"

text \<open>The plan of a transition: what to retain, what to delete, and what is displaced.  Only a write
  is retained; a retained message of another kind would not parse.\<close>

record transition_plan =
  tp_retains :: "(jstr \<times> message \<times> key_values) list"
  tp_deletes :: "jstr list"
  tp_displaced :: "message list"

definition retain_row :: "records_env \<Rightarrow> message \<Rightarrow> (message \<times> key_values) result" where
  "retain_row R m = (case m of
     WriteMsg w \<Rightarrow>
       bind (parse_write R (stripInlineData w)) (\<lambda>rw.
       bind (write_indexes R rw False) (\<lambda>indexes. Inr (WriteMsg (stripInlineData w), indexes)))
   | _ \<Rightarrow> Inl (OtherError (js ''TypeError'')))"

fun plan_transition ::
  "records_env \<Rightarrow> jstr \<Rightarrow> jstr set \<Rightarrow> message list \<Rightarrow> transition_plan result" where
  "plan_transition R newCid retainedCids [] = Inr \<lparr>tp_retains = [], tp_deletes = [], tp_displaced = []\<rparr>"
| "plan_transition R newCid retainedCids (m # ms) =
     (let c = getCid (re_cids R) m in
      if c = newCid then plan_transition R newCid retainedCids ms
      else bind (isInitialWrite (re_cids R) m) (\<lambda>initial.
        if initial \<or> c \<in> retainedCids
        then bind (retain_row R m) (\<lambda>(m', indexes).
             bind (plan_transition R newCid retainedCids ms) (\<lambda>p.
               Inr (p\<lparr>tp_retains := (c, m', indexes) # tp_retains p, tp_displaced := m # tp_displaced p\<rparr>)))
        else bind (plan_transition R newCid retainedCids ms) (\<lambda>p.
               Inr (p\<lparr>tp_deletes := c # tp_deletes p, tp_displaced := m # tp_displaced p\<rparr>))))"

definition commitLatestStateTransition ::
  "node_env \<Rightarrow> jstr \<Rightarrow> node \<Rightarrow> message list \<Rightarrow> message \<Rightarrow> key_values \<Rightarrow> message list \<Rightarrow> (put_result \<times> node) result" where
  "commitLatestStateTransition N tenant s existingMessages newMessage indexes additionalRetained =
     (let C = re_cids (ne_records N) in
      bind (plan_transition (ne_records N) (getCid C newMessage) (set (map (getCid C) additionalRetained)) existingMessages) (\<lambda>p.
      bind (commitLatestState (ne_store N tenant) (n_messages s tenant)
              \<lparr>tr_message = newMessage, tr_indexes = indexes, tr_retains = tp_retains p, tr_deletes = tp_deletes p\<rparr>)
        (\<lambda>(putResult, store).
          Inr (putResult,
            \<lparr>n_messages = (n_messages s)(tenant := store),
             n_data = fold (\<lambda>m ds. deleteFromDataStoreIfNeeded ds tenant m newMessage) (tp_displaced p) (n_data s)\<rparr>))))"

section \<open>Purging\<close>

fun delete_messages :: "store_env \<Rightarrow> tenant_store \<Rightarrow> jstr list \<Rightarrow> tenant_store result" where
  "delete_messages E s [] = Inr s"
| "delete_messages E s (c # cs) = bind (ms_delete E s c) (\<lambda>s'. delete_messages E s' cs)"

definition purgeRecordMessages :: "node_env \<Rightarrow> jstr \<Rightarrow> node \<Rightarrow> message list \<Rightarrow> node result" where
  "purgeRecordMessages N tenant s recordMessages =
     (let C = re_cids (ne_records N);
          recordsWrites = filter (\<lambda>m. d_method (descriptor_of m) = Write) recordMessages
      in case getNewestMessage C recordsWrites of
           Some (WriteMsg w) \<Rightarrow>
             bind (delete_messages (ne_store N tenant) (n_messages s tenant) (map (getCid C) recordMessages)) (\<lambda>store.
               Inr \<lparr>n_messages = (n_messages s)(tenant := store),
                    n_data = data_delete (n_data s) tenant (w_recordId w) (wd_dataCid (w_descriptor w))\<rparr>)
         | _ \<Rightarrow> Inl (OtherError (js ''TypeError'')))"

text \<open>Messages grouped by record, in the order of first appearance.\<close>

definition groupSquashSiblingsByRecordId :: "message list \<Rightarrow> (jstr \<times> message list) list" where
  "groupSquashSiblingsByRecordId ms =
     foldl (\<lambda>groups m. let r = message_recordId m in
              AList.update r (case map_of groups r of None \<Rightarrow> [m] | Some xs \<Rightarrow> xs @ [m]) groups) [] ms"

text \<open>\<open>purgeRecordDescendants\<close>: the children of all levels first, then the messages of each child.\<close>

fun purge_groups :: "node_env \<Rightarrow> jstr \<Rightarrow> node \<Rightarrow> (jstr \<times> message list) list \<Rightarrow> node result" where
  "purge_groups N tenant s [] = Inr s"
| "purge_groups N tenant s ((r, ms) # gs) = bind (purgeRecordMessages N tenant s ms) (\<lambda>s'. purge_groups N tenant s' gs)"

definition children_query :: "jstr \<Rightarrow> filter_t" where
  "children_query recordId = [(''interface'', EqualF (SStr (js ''Records''))), (''parentId'', EqualF (SStr recordId))]"

fun purgeRecordDescendants :: "nat \<Rightarrow> node_env \<Rightarrow> jstr \<Rightarrow> node \<Rightarrow> jstr \<Rightarrow> node result option"
  and purge_children :: "nat \<Rightarrow> node_env \<Rightarrow> jstr \<Rightarrow> node \<Rightarrow> jstr list \<Rightarrow> node result option" where
  "purgeRecordDescendants 0 N tenant s recordId = None"
| "purgeRecordDescendants (Suc n) N tenant s recordId =
     (case query_messages (ne_store N tenant) (n_messages s tenant) (children_query recordId) of
        Inl e \<Rightarrow> Some (Inl e)
      | Inr childMessages \<Rightarrow>
          let groups = groupSquashSiblingsByRecordId childMessages
          in map_option (\<lambda>r. bind r (\<lambda>s'. purge_groups N tenant s' groups))
               (purge_children n N tenant s (map fst groups)))"
| "purge_children n N tenant s [] = Some (Inr s)"
| "purge_children n N tenant s (r # rs) =
     (case purgeRecordDescendants n N tenant s r of
        None \<Rightarrow> None
      | Some (Inl e) \<Rightarrow> Some (Inl e)
      | Some (Inr s') \<Rightarrow> purge_children n N tenant s' rs)"

section \<open>Deletes and squashes\<close>

text \<open>The tombstone of \<open>performRecordsDelete\<close>: \<^const>\<open>None\<close> when there is nothing to do.  The newest
  write is the source of the visibility facts.\<close>

definition commit_tombstone ::
  "node_env \<Rightarrow> jstr \<Rightarrow> node \<Rightarrow> message list \<Rightarrow> delete_message \<Rightarrow> (put_result \<times> node) result" where
  "commit_tombstone N tenant s existingMessages d =
     (let C = re_cids (ne_records N) in
      bind (parse_delete (ne_records N) d) (\<lambda>_.
      bind (getInitialWrite C existingMessages) (\<lambda>initialWrite.
      let newestPreDeleteWrite = (case getNewestRecordsWrite C existingMessages of
            Some m \<Rightarrow> m | None \<Rightarrow> initialWrite)
      in case (initialWrite, newestPreDeleteWrite) of
           (WriteMsg i, WriteMsg v) \<Rightarrow>
             commitLatestStateTransition N tenant s existingMessages (DeleteMsg d) (delete_indexes d i v) [newestPreDeleteWrite]
         | _ \<Rightarrow> Inl (OtherError (js ''TypeError'')))))"

definition put_position :: "put_result \<Rightarrow> progress_token option" where
  "put_position r = (case r of Inserted t \<Rightarrow> Some t | Duplicate \<Rightarrow> None)"

definition performRecordsDelete ::
  "nat \<Rightarrow> node_env \<Rightarrow> jstr \<Rightarrow> node \<Rightarrow> delete_message \<Rightarrow> (progress_token option \<times> node) result option" where
  "performRecordsDelete n N tenant s d =
     (case query_messages (ne_store N tenant) (n_messages s tenant) (record_query (dd_recordId (d_descriptor d))) of
        Inl e \<Rightarrow> Some (Inl e)
      | Inr existingMessages \<Rightarrow>
          (case getNewestMessage (re_cids (ne_records N)) existingMessages of
             None \<Rightarrow> Some (Inr (None, s))
           | Some newestExistingMessage \<Rightarrow>
               if isDeleteBeatenByExistingTombstone (re_cids (ne_records N)) d newestExistingMessage
               then Some (Inr (None, s))
               else case commit_tombstone N tenant s existingMessages d of
                 Inl e \<Rightarrow> Some (Inl e)
               | Inr (putResult, s') \<Rightarrow>
                   if dd_prune (d_descriptor d)
                   then map_option (\<lambda>r. bind r (\<lambda>s''. Inr (put_position putResult, s'')))
                          (purgeRecordDescendants n N tenant s' (dd_recordId (d_descriptor d)))
                   else Some (Inr (put_position putResult, s'))))"

definition squash_query :: "write_message \<Rightarrow> filter_t" where
  "squash_query w =
     [(''interface'', EqualF (SStr (js ''Records''))), (''module'', EqualF (SStr (wd_module (w_descriptor w)))),
      (''modulePath'', EqualF (SStr (wd_modulePath (w_descriptor w))))] @
     (case getParentContextFromOfContextId (Some (w_contextId w)) of
        Some p \<Rightarrow> if p \<noteq> [] then [(''contextId'', ObjF (no_object\<lparr>f_subtree := Some (SStr p)\<rparr>))] else []
      | None \<Rightarrow> [])"

fun purge_squashed ::
  "node_env \<Rightarrow> jstr \<Rightarrow> write_message \<Rightarrow> node \<Rightarrow> (jstr \<times> message list) list \<Rightarrow> node result" where
  "purge_squashed N tenant w s [] = Inr s"
| "purge_squashed N tenant w s ((recordId, messages) # gs) =
     (if recordId = w_recordId w then purge_squashed N tenant w s gs
      else case getNewestMessage (re_cids (ne_records N)) messages of
        None \<Rightarrow> purge_squashed N tenant w s gs
      | Some newest \<Rightarrow>
          if messageTimestamp newest < wd_messageTimestamp (w_descriptor w)
          then bind (purgeRecordMessages N tenant s messages) (\<lambda>s'. purge_squashed N tenant w s' gs)
          else purge_squashed N tenant w s gs)"

definition performRecordsSquash :: "node_env \<Rightarrow> jstr \<Rightarrow> node \<Rightarrow> write_message \<Rightarrow> node result" where
  "performRecordsSquash N tenant s w =
     bind (query_messages (ne_store N tenant) (n_messages s tenant) (squash_query w)) (\<lambda>siblingMessages.
       purge_squashed N tenant w s (groupSquashSiblingsByRecordId siblingMessages))"

end
