(* ===== verification/Grant_Authorization.thy ===== *)
theory Grant_Authorization
  imports Storage_Controller
begin

text \<open>
  State reads for validation and authorisation by permission grants
  (\<open>core/validation-state-reader.ts\<close>, \<open>core/grant-authorization.ts\<close>, \<open>core/records-grant-authorization.ts\<close>,
  \<open>utils/permission-scope.ts\<close> and the hooks of \<open>modules/permissions.ts\<close> in \<open>src/packages/dwn-sdk-js/src\<close>):
  which grant is in force for a message at its timestamp, and what a grant covers.
\<close>

section \<open>The validation state reader\<close>

definition requestPath :: jstr where "requestPath = js ''request''"
definition grantPath :: jstr where "grantPath = js ''grant''"
definition revocationPath :: jstr where "revocationPath = js ''grant/revocation''"

definition grantRevocationFilter :: "jstr \<Rightarrow> filter_t" where
  "grantRevocationFilter grantId = [(''isLatestBaseState'', EqualF (SBool True)), (''parentId'', EqualF (SStr grantId)),
     (''modulePath'', EqualF (SStr revocationPath))]"

text \<open>The first message of a query that asks for one.\<close>

definition query_first :: "node_env \<Rightarrow> node \<Rightarrow> jstr \<Rightarrow> filter_t \<Rightarrow> sort_direction \<Rightarrow> message option result" where
  "query_first N s tenant f dir =
     bind (ms_query (ne_store N tenant) (n_messages s tenant) [f] (no_sort\<lparr>ms_messageTimestamp := Some dir\<rparr>)
             \<lparr>pn_limit = Some 1, pn_cursor = None\<rparr>) (\<lambda>(messages, _).
     Inr (case messages of [] \<Rightarrow> None | m # _ \<Rightarrow> Some m))"

abbreviation query_all :: "node_env \<Rightarrow> node \<Rightarrow> jstr \<Rightarrow> filter_t \<Rightarrow> message list result" where
  "query_all N s tenant f \<equiv> query_messages (ne_store N tenant) (n_messages s tenant) f"

definition fetchInitialWrite :: "node_env \<Rightarrow> node \<Rightarrow> jstr \<Rightarrow> jstr \<Rightarrow> message option result" where
  "fetchInitialWrite N s tenant recordId =
     bind (query_all N s tenant [(''interface'', EqualF (SStr (js ''Records''))), (''method'', EqualF (SStr (js ''Write''))),
             (''recordId'', EqualF (SStr recordId))]) (\<lambda>messages.
     if messages = [] then Inr None
     else bind (getInitialWrite (re_cids (ne_records N)) messages) (\<lambda>m. Inr (Some m)))"

text \<open>\<open>constructRecordChain\<close>: the loop up the parents, bounded by its first argument; the result has
  the root first.\<close>

fun record_chain :: "nat \<Rightarrow> node_env \<Rightarrow> node \<Rightarrow> jstr \<Rightarrow> jstr option \<Rightarrow> message list result option" where
  "record_chain n N s tenant None = Some (Inr [])"
| "record_chain 0 N s tenant (Some r) = None"
| "record_chain (Suc n) N s tenant (Some r) = (case fetchInitialWrite N s tenant r of
     Inl e \<Rightarrow> Some (Inl e)
   | Inr None \<Rightarrow> Some (Inl (DwnError ''ModuleAuthorizationParentNotFoundConstructingRecordChain'' []))
   | Inr (Some m) \<Rightarrow> map_option (\<lambda>res. bind res (\<lambda>chain. Inr (chain @ [m])))
       (record_chain n N s tenant (case m of WriteMsg w \<Rightarrow> wd_parentId (w_descriptor w) | _ \<Rightarrow> None)))"

definition constructRecordChain :: "nat \<Rightarrow> node_env \<Rightarrow> node \<Rightarrow> jstr \<Rightarrow> jstr option \<Rightarrow> message list result option" where
  "constructRecordChain n N s tenant descendantRecordId = record_chain n N s tenant descendantRecordId"

definition recordHasLocalTombstone :: "node_env \<Rightarrow> node \<Rightarrow> jstr \<Rightarrow> jstr \<Rightarrow> bool result" where
  "recordHasLocalTombstone N s tenant recordId =
     bind (query_all N s tenant [(''interface'', EqualF (SStr (js ''Records''))), (''method'', EqualF (SStr (js ''Delete''))),
             (''recordId'', EqualF (SStr recordId))]) (\<lambda>messages. Inr (messages \<noteq> []))"

definition recordHasPruneTombstone :: "node_env \<Rightarrow> node \<Rightarrow> jstr \<Rightarrow> jstr \<Rightarrow> bool result" where
  "recordHasPruneTombstone N s tenant recordId =
     bind (query_all N s tenant [(''interface'', EqualF (SStr (js ''Records''))), (''method'', EqualF (SStr (js ''Delete''))),
             (''recordId'', EqualF (SStr recordId)), (''prune'', EqualF (SBool True))]) (\<lambda>messages. Inr (messages \<noteq> []))"

definition fetchParentRecord :: "node_env \<Rightarrow> node \<Rightarrow> jstr \<Rightarrow> jstr \<Rightarrow> jstr \<Rightarrow> message option result" where
  "fetchParentRecord N s tenant parentModuleUri parentId =
     bind (fetchInitialRecordsWriteMessage (ne_store N tenant) (n_messages s tenant) parentId) (\<lambda>initialWrite.
     if (case initialWrite of Some (WriteMsg w) \<Rightarrow> wd_module (w_descriptor w) \<noteq> parentModuleUri | _ \<Rightarrow> True) then Inr None
     else bind (recordHasPruneTombstone N s tenant parentId) (\<lambda>pruned. Inr (if pruned then None else initialWrite)))"

definition constructRoleRecordFilter :: "jstr \<Rightarrow> jstr \<Rightarrow> jstr \<Rightarrow> jstr option \<Rightarrow> bool \<Rightarrow> filter_t" where
  "constructRoleRecordFilter moduleUri modulePath recipient contextIdPrefix latestStateOnly =
     [(''interface'', EqualF (SStr (js ''Records''))), (''method'', EqualF (SStr (js ''Write''))),
      (''module'', EqualF (SStr moduleUri)), (''modulePath'', EqualF (SStr modulePath)), (''recipient'', EqualF (SStr recipient))] @
     (if latestStateOnly then [(''isLatestBaseState'', EqualF (SBool True))] else []) @
     opt_prop ''contextId'' (map_option (\<lambda>c. ObjF (no_object\<lparr>f_subtree := Some (SStr c)\<rparr>)) contextIdPrefix)"

fun any_live_initial :: "node_env \<Rightarrow> node \<Rightarrow> jstr \<Rightarrow> message list \<Rightarrow> bool result" where
  "any_live_initial N s tenant [] = Inr False"
| "any_live_initial N s tenant (m # ms) =
     bind (isInitialWrite (re_cids (ne_records N)) m) (\<lambda>initial.
       if \<not> initial then any_live_initial N s tenant ms
       else bind (recordHasLocalTombstone N s tenant (message_recordId m)) (\<lambda>dead.
         if \<not> dead then Inr True else any_live_initial N s tenant ms))"

definition hasMatchingRoleRecord :: "node_env \<Rightarrow> node \<Rightarrow> jstr \<Rightarrow> jstr \<Rightarrow> jstr \<Rightarrow> jstr \<Rightarrow> jstr option \<Rightarrow> bool result" where
  "hasMatchingRoleRecord N s tenant moduleUri modulePath recipient contextIdPrefix =
     bind (query_all N s tenant (constructRoleRecordFilter moduleUri modulePath recipient contextIdPrefix True)) (\<lambda>matching.
     if matching \<noteq> [] then Inr True
     else bind (query_all N s tenant (constructRoleRecordFilter moduleUri modulePath recipient contextIdPrefix False))
            (any_live_initial N s tenant))"

definition queryLatestRoleRecords :: "node_env \<Rightarrow> node \<Rightarrow> jstr \<Rightarrow> jstr \<Rightarrow> jstr \<Rightarrow> jstr \<Rightarrow> jstr option \<Rightarrow> message list result" where
  "queryLatestRoleRecords N s tenant moduleUri modulePath recipient contextIdPrefix =
     query_all N s tenant (constructRoleRecordFilter moduleUri modulePath recipient contextIdPrefix True)"

definition queryAudienceRecords :: "node_env \<Rightarrow> node \<Rightarrow> jstr \<Rightarrow> jstr \<Rightarrow> jstr \<Rightarrow> jstr \<Rightarrow> jstr option \<Rightarrow> message list result" where
  "queryAudienceRecords N s tenant moduleUri rolePath contextId keyId =
     query_all N s tenant
       ([(''interface'', EqualF (SStr (js ''Records''))), (''method'', EqualF (SStr (js ''Write''))),
         (''isLatestBaseState'', EqualF (SBool True)), (''module'', EqualF (SStr moduleUri)),
         (''modulePath'', EqualF (SStr ENCRYPTION_CONTROL_AUDIENCE_PATH)), (''tag.module'', EqualF (SStr moduleUri)),
         (''tag.rolePath'', EqualF (SStr rolePath)), (''tag.contextId'', EqualF (SStr contextId))] @
        opt_prop ''tag.keyId'' (map_option (\<lambda>k. EqualF (SStr k)) keyId))"

definition fetchGrant :: "node_env \<Rightarrow> node \<Rightarrow> jstr \<Rightarrow> jstr \<Rightarrow> permission_grant result" where
  "fetchGrant N s tenant permissionGrantId =
     bind (query_all N s tenant [(''recordId'', EqualF (SStr permissionGrantId)), (''isLatestBaseState'', EqualF (SBool True))])
       (\<lambda>messages. case messages of
          WriteMsg w # _ \<Rightarrow>
            (if wd_modulePath (w_descriptor w) \<noteq> grantPath then Inl (DwnError ''GrantAuthorizationGrantMissing'' [])
             else parse_grant (ne_records N) w)
        | _ \<Rightarrow> Inl (DwnError ''GrantAuthorizationGrantMissing'' []))"

definition fetchOldestGrantRevocation :: "node_env \<Rightarrow> node \<Rightarrow> jstr \<Rightarrow> jstr \<Rightarrow> message option result" where
  "fetchOldestGrantRevocation N s tenant permissionGrantId =
     query_first N s tenant (grantRevocationFilter permissionGrantId) Ascending"

definition fetchLatestSquashRecordAtScope ::
  "node_env \<Rightarrow> node \<Rightarrow> jstr \<Rightarrow> jstr \<Rightarrow> jstr \<Rightarrow> jstr option \<Rightarrow> message option result" where
  "fetchLatestSquashRecordAtScope N s tenant moduleUri modulePath contextIdPrefix =
     query_first N s tenant
       ([(''interface'', EqualF (SStr (js ''Records''))), (''method'', EqualF (SStr (js ''Write''))),
         (''isLatestBaseState'', EqualF (SBool True)), (''module'', EqualF (SStr moduleUri)),
         (''modulePath'', EqualF (SStr modulePath)), (''squash'', EqualF (SBool True))] @
        opt_prop ''contextId'' (map_option (\<lambda>c. ObjF (no_object\<lparr>f_subtree := Some (SStr c)\<rparr>)) contextIdPrefix)) Descending"

definition hasStoredData :: "node \<Rightarrow> jstr \<Rightarrow> jstr \<Rightarrow> jstr \<Rightarrow> bool" where
  "hasStoredData s tenant recordId dataCid = (data_get (n_data s) tenant recordId dataCid \<noteq> None)"

section \<open>Scopes\<close>

record module_scope =
  mo_module :: "jstr option"
  mo_modulePath :: "jstr option"
  mo_contextId :: "jstr option"

definition optional_subtree :: "jstr \<Rightarrow> jstr option \<Rightarrow> bool" where
  "optional_subtree subtree candidate = (case candidate of None \<Rightarrow> False | Some c \<Rightarrow> matchesSubtree subtree (SStr c))"

definition scope_matches :: "module_scope \<Rightarrow> module_scope \<Rightarrow> bool" where
  "scope_matches scope target =
     (if mo_modulePath scope \<noteq> None \<and> mo_contextId scope \<noteq> None then False
      else if (mo_modulePath scope \<noteq> None \<or> mo_contextId scope \<noteq> None) \<and> mo_module scope = None then False
      else if mo_module scope \<noteq> None \<and> mo_module scope \<noteq> mo_module target then False
      else case mo_modulePath scope of
        Some p \<Rightarrow> optional_subtree p (mo_modulePath target)
      | None \<Rightarrow> (case mo_contextId scope of
          Some c \<Rightarrow> optional_subtree c (mo_contextId target)
        | None \<Rightarrow> True))"

definition grant_module_scope :: "permission_scope \<Rightarrow> module_scope" where
  "grant_module_scope sc = \<lparr>mo_module = ps_module sc, mo_modulePath = ps_modulePath sc, mo_contextId = ps_contextId sc\<rparr>"

definition getModuleScopeTarget :: "write_message \<Rightarrow> module_scope" where
  "getModuleScopeTarget w = \<lparr>mo_module = Some (wd_module (w_descriptor w)),
     mo_modulePath = Some (wd_modulePath (w_descriptor w)), mo_contextId = Some (w_contextId w)\<rparr>"

section \<open>Grants in force\<close>

definition verifyExpectedGrantorAndGrantee :: "jstr \<Rightarrow> jstr \<Rightarrow> permission_grant \<Rightarrow> unit result" where
  "verifyExpectedGrantorAndGrantee expectedGrantor expectedGrantee g =
     (if expectedGrantee \<noteq> pg_grantee g then Inl (DwnError ''GrantAuthorizationNotGrantedToAuthor'' [])
      else if expectedGrantor \<noteq> pg_grantor g then Inl (DwnError ''GrantAuthorizationNotGrantedForTenant'' [])
      else Inr ())"

definition verifyGrantActive :: "node_env \<Rightarrow> node \<Rightarrow> jstr \<Rightarrow> jstr \<Rightarrow> permission_grant \<Rightarrow> unit result" where
  "verifyGrantActive N s grantedFor authorizationTimestamp g =
     (if authorizationTimestamp < pg_dateGranted g then Inl (DwnError ''GrantAuthorizationGrantNotYetActive'' [])
      else if authorizationTimestamp \<ge> pg_dateExpires g then Inl (DwnError ''GrantAuthorizationGrantExpired'' [])
      else bind (fetchOldestGrantRevocation N s grantedFor (pg_id g)) (\<lambda>oldest.
        case oldest of
          Some m \<Rightarrow> (if messageTimestamp m \<le> authorizationTimestamp
                     then Inl (DwnError ''GrantAuthorizationGrantRevoked'' []) else Inr ())
        | None \<Rightarrow> Inr ()))"

definition verifyGrantScopeInterfaceAndMethod :: "dwn_interface \<Rightarrow> dwn_method \<Rightarrow> permission_grant \<Rightarrow> unit result" where
  "verifyGrantScopeInterfaceAndMethod dwnInterface dwnMethod g =
     (let sc = pg_scope g; mismatch = Inl (DwnError ''GrantAuthorizationMethodMismatch'' []) in
      if dwnInterface \<noteq> ps_interface sc then Inl (DwnError ''GrantAuthorizationInterfaceMismatch'' [])
      else if dwnInterface = Messages
      then (if ps_method sc \<noteq> Read then mismatch
            else if dwnMethod \<notin> {Read, Query, Subscribe} then mismatch else Inr ())
      else if dwnInterface = Records \<and> dwnMethod \<in> {Read, Query, Subscribe, Count}
      then (if ps_method sc \<noteq> Read then mismatch else Inr ())
      else if dwnMethod \<noteq> ps_method sc then mismatch else Inr ())"

definition performBaseValidation ::
  "node_env \<Rightarrow> node \<Rightarrow> message \<Rightarrow> jstr \<Rightarrow> jstr \<Rightarrow> permission_grant \<Rightarrow> jstr option \<Rightarrow> unit result" where
  "performBaseValidation N s incomingMessage expectedGrantor expectedGrantee g authorizationTimestamp =
     bind (verifyExpectedGrantorAndGrantee expectedGrantor expectedGrantee g) (\<lambda>_.
     bind (verifyGrantActive N s expectedGrantor
             (case authorizationTimestamp of Some t \<Rightarrow> t | None \<Rightarrow> messageTimestamp incomingMessage) g) (\<lambda>_.
     verifyGrantScopeInterfaceAndMethod (d_interface (descriptor_of incomingMessage)) (d_method (descriptor_of incomingMessage)) g))"

section \<open>Records grants\<close>

definition throwScopeMismatchAfterModuleMatch :: "module_scope \<Rightarrow> module_scope \<Rightarrow> js_error" where
  "throwScopeMismatchAfterModuleMatch scope target =
     (if mo_contextId scope \<noteq> None then DwnError ''RecordsGrantAuthorizationScopeContextIdMismatch'' []
      else if mo_modulePath scope \<noteq> None \<and> mo_modulePath scope \<noteq> mo_modulePath target
      then DwnError ''RecordsGrantAuthorizationScopeModulePathMismatch'' []
      else DwnError ''RecordsGrantAuthorizationScopeMismatch'' [])"

definition verify_scope_with :: "string \<Rightarrow> write_message \<Rightarrow> permission_scope \<Rightarrow> unit result" where
  "verify_scope_with moduleMismatch w sc =
     (let scope = grant_module_scope sc; target = getModuleScopeTarget w in
      if scope_matches scope target then Inr ()
      else if mo_module scope \<noteq> mo_module target then Inl (DwnError moduleMismatch [])
      else Inl (throwScopeMismatchAfterModuleMatch scope target))"

definition verifyScope :: "write_message \<Rightarrow> permission_scope \<Rightarrow> unit result" where
  "verifyScope w sc = verify_scope_with ''RecordsGrantAuthorizationScopeModuleMismatch'' w sc"

definition verifyDeleteScope :: "write_message \<Rightarrow> permission_scope \<Rightarrow> unit result" where
  "verifyDeleteScope w sc = verify_scope_with ''RecordsGrantAuthorizationDeleteModuleScopeMismatch'' w sc"

definition verifyConditions :: "write_message \<Rightarrow> jstr option \<Rightarrow> unit result" where
  "verifyConditions w publication =
     (if publication = Some (js ''Required'') \<and> wd_published (w_descriptor w) \<noteq> Some True
      then Inl (DwnError ''RecordsGrantAuthorizationConditionPublicationRequired'' [])
      else if publication = Some (js ''Prohibited'') \<and> wd_published (w_descriptor w) = Some True
      then Inl (DwnError ''RecordsGrantAuthorizationConditionPublicationProhibited'' [])
      else Inr ())"

definition rga_authorizeWrite :: "node_env \<Rightarrow> node \<Rightarrow> write_message \<Rightarrow> jstr \<Rightarrow> jstr \<Rightarrow> permission_grant \<Rightarrow> unit result" where
  "rga_authorizeWrite N s w expectedGrantor expectedGrantee g =
     bind (performBaseValidation N s (WriteMsg w) expectedGrantor expectedGrantee g None) (\<lambda>_.
     bind (verifyScope w (pg_scope g)) (\<lambda>_.
     verifyConditions w (pg_publication g)))"

definition rga_authorizeRead ::
  "node_env \<Rightarrow> node \<Rightarrow> message \<Rightarrow> write_message \<Rightarrow> jstr \<Rightarrow> jstr \<Rightarrow> permission_grant \<Rightarrow> unit result" where
  "rga_authorizeRead N s readMessage toBeRead expectedGrantor expectedGrantee g =
     bind (performBaseValidation N s readMessage expectedGrantor expectedGrantee g None) (\<lambda>_.
     verifyScope toBeRead (pg_scope g))"

definition rga_authorizeQueryOrSubscribe ::
  "node_env \<Rightarrow> node \<Rightarrow> message \<Rightarrow> records_filter \<Rightarrow> jstr \<Rightarrow> jstr \<Rightarrow> permission_grant \<Rightarrow> unit result" where
  "rga_authorizeQueryOrSubscribe N s incomingMessage f expectedGrantor expectedGrantee g =
     bind (performBaseValidation N s incomingMessage expectedGrantor expectedGrantee g None) (\<lambda>_.
     guard (scope_matches (grant_module_scope (pg_scope g))
              \<lparr>mo_module = rf_module f, mo_modulePath = rf_modulePath f, mo_contextId = rf_contextId f\<rparr>)
       (DwnError ''RecordsGrantAuthorizationQueryOrSubscribeModuleScopeMismatch'' []))"

definition rga_authorizeDelete ::
  "node_env \<Rightarrow> node \<Rightarrow> delete_message \<Rightarrow> write_message \<Rightarrow> jstr \<Rightarrow> jstr \<Rightarrow> permission_grant \<Rightarrow> unit result" where
  "rga_authorizeDelete N s d toDelete expectedGrantor expectedGrantee g =
     bind (performBaseValidation N s (DeleteMsg d) expectedGrantor expectedGrantee g None) (\<lambda>_.
     verifyDeleteScope toDelete (pg_scope g))"

section \<open>Delegates\<close>

definition author_delegate_grant :: "records_env \<Rightarrow> delegated_grant option \<Rightarrow> permission_grant result" where
  "author_delegate_grant R g = (case g of
     None \<Rightarrow> Inl (OtherError (js ''TypeError'')) | Some d \<Rightarrow> parse_grant R (grant_message d))"

definition authorizeAuthorDelegate :: "node_env \<Rightarrow> node \<Rightarrow> records_write \<Rightarrow> unit result" where
  "authorizeAuthorDelegate N s rw =
     (let w = rw_message rw; a = w_authorization w in
      bind (author_delegate_grant (ne_records N) (a_authorDelegatedGrant a)) (\<lambda>g.
      case rw_author rw of
        Some author \<Rightarrow> rga_authorizeWrite N s w author (getSignerDid (a_signature a)) g
      | None \<Rightarrow> Inl (OtherError (js ''TypeError''))))"

definition authorizeOwnerDelegate :: "node_env \<Rightarrow> node \<Rightarrow> records_write \<Rightarrow> unit result" where
  "authorizeOwnerDelegate N s rw =
     (let w = rw_message rw; a = w_authorization w in
      bind (author_delegate_grant (ne_records N) (a_ownerDelegatedGrant a)) (\<lambda>g.
      case (rw_owner rw, a_ownerSignature a) of
        (Some owner, Some j) \<Rightarrow> rga_authorizeWrite N s w owner (getSignerDid j) g
      | _ \<Rightarrow> Inl (OtherError (js ''TypeError''))))"

definition authorizeDelegate :: "node_env \<Rightarrow> node \<Rightarrow> delete_message \<Rightarrow> write_message \<Rightarrow> unit result" where
  "authorizeDelegate N s d toDelete =
     (let a = d_authorization d in
      bind (author_delegate_grant (ne_records N) (a_authorDelegatedGrant a)) (\<lambda>g.
      rga_authorizeDelete N s d toDelete (author_of_authorization a) (getSignerDid (a_signature a)) g))"

end
