(* ===== verification/Records_Handlers.thy ===== *)
theory Records_Handlers
  imports Grant_Authorization
begin

text \<open>
  The handlers of \<open>RecordsWrite\<close> and \<open>RecordsDelete\<close>
  (\<open>handlers/records-write.ts\<close>, \<open>handlers/records-delete.ts\<close>, \<open>core/message-reply.ts\<close>, \<open>core/core-module.ts\<close>
  and the hooks of \<open>modules/permissions.ts\<close> in \<open>src/packages/dwn-sdk-js/src\<close>): the checks on an incoming
  message in their order, the status of the reply, and the change to the stores.

  Signature verification, the module rules (referential integrity, role-based authorisation), the
  control records of encryption, and the Base64URL codec are parameters.  A resumable task runs at
  once.  A handler returns the reply and the new state; \<^const>\<open>Inl\<close> is an error that the handler does not
  turn into a reply.
\<close>

section \<open>Replies\<close>

record reply =
  rp_code :: nat
  rp_detail :: jstr
  rp_errorCode :: "string option"
  rp_position :: "progress_token option"

definition messageReplyFromError :: "js_error \<Rightarrow> nat \<Rightarrow> reply" where
  "messageReplyFromError e code = (case e of
     DwnError c prose \<Rightarrow> \<lparr>rp_code = code, rp_detail = js c @ js '': '' @ prose, rp_errorCode = Some c, rp_position = None\<rparr>
   | OtherError m \<Rightarrow> \<lparr>rp_code = code, rp_detail = m, rp_errorCode = None, rp_position = None\<rparr>)"

definition status_reply :: "nat \<Rightarrow> string \<Rightarrow> reply" where
  "status_reply code detail = \<lparr>rp_code = code, rp_detail = js detail, rp_errorCode = None, rp_position = None\<rparr>"

section \<open>Dependencies\<close>

record core_module =
  cm_validateRecord :: "(write_message \<Rightarrow> bytes \<Rightarrow> unit result) option"
  cm_preProcessWrite :: "(jstr \<Rightarrow> node \<Rightarrow> write_message \<Rightarrow> unit result) option"
  cm_postProcessWrite :: "(jstr \<Rightarrow> node \<Rightarrow> records_write \<Rightarrow> node result) option"
  cm_mapErrorToStatusCode :: "(string \<Rightarrow> nat option) option"

type_synonym registry = "(jstr \<times> core_module) list"

fun registry_mapErrorToStatusCode :: "registry \<Rightarrow> string \<Rightarrow> nat option" where
  "registry_mapErrorToStatusCode [] code = None"
| "registry_mapErrorToStatusCode ((uri, m) # ms) code =
     (case (case cm_mapErrorToStatusCode m of None \<Rightarrow> None | Some f \<Rightarrow> f code) of
        Some status \<Rightarrow> Some status
      | None \<Rightarrow> registry_mapErrorToStatusCode ms code)"

record handler_env =
  he_node :: node_env
  he_authenticate :: "authorization \<Rightarrow> jws option \<Rightarrow> unit result"
  he_referential :: "jstr \<Rightarrow> node \<Rightarrow> records_write \<Rightarrow> rule_set result"
  he_module_write :: "jstr \<Rightarrow> node \<Rightarrow> records_write \<Rightarrow> unit result"
  he_module_delete :: "jstr \<Rightarrow> node \<Rightarrow> delete_message \<Rightarrow> records_write \<Rightarrow> unit result"
  he_control_authorize :: "jstr \<Rightarrow> node \<Rightarrow> records_write \<Rightarrow> unit result"
  he_control_pre :: "jstr \<Rightarrow> node \<Rightarrow> write_message \<Rightarrow> unit result"
  he_control_validate :: "jstr \<Rightarrow> node \<Rightarrow> write_message \<Rightarrow> bytes \<Rightarrow> unit result"
  he_core :: registry
  he_base64 :: "bytes \<Rightarrow> jstr"

abbreviation he_cids :: "handler_env \<Rightarrow> cids" where
  "he_cids H \<equiv> re_cids (ne_records (he_node H))"

definition isControlMessage :: "write_message \<Rightarrow> bool" where
  "isControlMessage w = isEncryptionControlPath (Some (wd_modulePath (w_descriptor w)))"

definition control_mapErrorToStatusCode :: "string \<Rightarrow> nat option" where
  "control_mapErrorToStatusCode code = (if prefix ''EncryptionControlValidate'' code then Some 400 else None)"

definition getCoreModuleForWrite :: "handler_env \<Rightarrow> write_message \<Rightarrow> core_module option" where
  "getCoreModuleForWrite H w = map_of (he_core H) (wd_module (w_descriptor w))"

section \<open>The data of a write\<close>

definition cloneAndAddEncodedData :: "handler_env \<Rightarrow> write_message \<Rightarrow> bytes \<Rightarrow> write_message" where
  "cloneAndAddEncodedData H w content = w\<lparr>w_encodedData := Some (he_base64 H content)\<rparr>"

text \<open>The data store is part of the result also when the write is refused: data that failed its
  integrity check is deleted again.\<close>

definition processMessageWithDataStream ::
  "handler_env \<Rightarrow> jstr \<Rightarrow> node \<Rightarrow> write_message \<Rightarrow> bytes \<Rightarrow> write_message result \<times> data_store" where
  "processMessageWithDataStream H tenant s w content =
     (let C = he_cids H; d = w_descriptor w in
      if wd_dataSize d \<le> maxDataSizeAllowedToBeEncoded
      then (bind (validateDataIntegrity (wd_dataCid d) (wd_dataSize d) (cid_bytes C content) (int (length content))) (\<lambda>_.
            bind (case getCoreModuleForWrite H w of
                    Some m \<Rightarrow> (case cm_validateRecord m of Some f \<Rightarrow> f w content | None \<Rightarrow> Inr ())
                  | None \<Rightarrow> Inr ()) (\<lambda>_.
            bind (if isControlMessage w then he_control_validate H tenant s w content else Inr ()) (\<lambda>_.
            Inr (cloneAndAddEncodedData H w content)))), n_data s)
      else let (dataSize, ds) = data_put C (n_data s) tenant (w_recordId w) (wd_dataCid d) content
           in case validateDataIntegrity (wd_dataCid d) (wd_dataSize d) (cid_bytes C content) dataSize of
                Inl e \<Rightarrow> (Inl e, data_delete ds tenant (w_recordId w) (wd_dataCid d))
              | Inr _ \<Rightarrow> (Inr w, ds))"

definition processMessageWithoutDataStream ::
  "jstr \<Rightarrow> node \<Rightarrow> write_message \<Rightarrow> write_message \<Rightarrow> write_message result" where
  "processMessageWithoutDataStream tenant s w newestExistingWrite =
     (let d = w_descriptor w; n = w_descriptor newestExistingWrite in
      bind (validateDataIntegrity (wd_dataCid d) (wd_dataSize d) (wd_dataCid n) (wd_dataSize n)) (\<lambda>_.
      if wd_dataSize d \<le> maxDataSizeAllowedToBeEncoded
      then (case w_encodedData newestExistingWrite of
              None \<Rightarrow> Inl (DwnError ''RecordsWriteMissingEncodedDataInPrevious'' [])
            | Some e \<Rightarrow> Inr (w\<lparr>w_encodedData := Some e\<rparr>))
      else if hasStoredData s tenant (w_recordId newestExistingWrite) (wd_dataCid d) then Inr w
      else Inl (DwnError ''RecordsWriteMissingDataInPrevious'' [])))"

section \<open>Checks on a write\<close>

definition handler_getInitialWrite :: "cids \<Rightarrow> message list \<Rightarrow> bool \<Rightarrow> message option result" where
  "handler_getInitialWrite C existingMessages newMessageIsInitialWrite =
     (if newMessageIsInitialWrite then Inr None
      else bind (getInitialWrite C existingMessages) (\<lambda>m. Inr (Some m)))"

definition verifyImmutableProperties :: "write_message \<Rightarrow> write_message \<Rightarrow> unit result" where
  "verifyImmutableProperties initialWrite w = (case verifyEqualityOfImmutableProperties initialWrite w of
     Inl (DwnError c p) \<Rightarrow>
       (if c = ''RecordsWriteImmutablePropertyChanged''
        then Inl (DwnError c (js ''immutable RecordsWrite properties cannot be changed.''))
        else Inl (DwnError c p))
   | r \<Rightarrow> r)"

definition verifyImmutablePropertiesReply :: "message option \<Rightarrow> write_message \<Rightarrow> reply option" where
  "verifyImmutablePropertiesReply initialWrite w = (case initialWrite of
     Some (WriteMsg i) \<Rightarrow> (case verifyImmutableProperties i w of
        Inr _ \<Rightarrow> None | Inl e \<Rightarrow> Some (messageReplyFromError e 400))
   | _ \<Rightarrow> None)"

definition enforceSquashBackstop :: "handler_env \<Rightarrow> jstr \<Rightarrow> node \<Rightarrow> write_message \<Rightarrow> rule_set \<Rightarrow> unit result" where
  "enforceSquashBackstop H tenant s w ruleSet =
     (if \<not> rs_squash ruleSet then Inr ()
      else let parentContextId = getParentContextFromOfContextId (Some (w_contextId w));
               contextIdPrefix = (case parentContextId of Some p \<Rightarrow> if p \<noteq> [] then Some p else None | None \<Rightarrow> None)
           in bind (fetchLatestSquashRecordAtScope (he_node H) s tenant (wd_module (w_descriptor w))
                      (wd_modulePath (w_descriptor w)) contextIdPrefix) (\<lambda>newestSquash.
              case newestSquash of
                None \<Rightarrow> Inr ()
              | Some q \<Rightarrow>
                  if wd_messageTimestamp (w_descriptor w) \<le> messageTimestamp q
                  then Inl (DwnError ''ModuleAuthorizationSquashBackstop'' [])
                  else Inr ()))"

definition authorizeRecordsWrite :: "handler_env \<Rightarrow> jstr \<Rightarrow> node \<Rightarrow> records_write \<Rightarrow> unit result" where
  "authorizeRecordsWrite H tenant s rw =
     (let N = he_node H; w = rw_message rw in
      if rw_owner rw \<noteq> None \<and> rw_owner rw \<noteq> Some tenant
      then Inl (DwnError ''RecordsWriteOwnerAndTenantMismatch'' [])
      else if isControlMessage w then he_control_authorize H tenant s rw
      else
      bind (if isSignedByAuthorDelegate (WriteMsg w) then authorizeAuthorDelegate N s rw else Inr ()) (\<lambda>_.
      bind (if isSignedByOwnerDelegate (WriteMsg w) then authorizeOwnerDelegate N s rw else Inr ()) (\<lambda>_.
      if rw_owner rw \<noteq> None then Inr ()
      else if rw_author rw = Some tenant then Inr ()
      else case (rw_author rw, case rw_signaturePayload rw of None \<Rightarrow> None | Some p \<Rightarrow> sp_permissionGrantId p) of
        (Some author, Some permissionGrantId) \<Rightarrow>
          bind (fetchGrant N s tenant permissionGrantId) (\<lambda>g. rga_authorizeWrite N s w tenant author g)
      | _ \<Rightarrow> he_module_write H tenant s rw)))"

section \<open>Committing a write\<close>

text \<open>What is stored and whether it is the latest base state: an initial write without data is not
  queryable.\<close>

definition resolve_data ::
  "handler_env \<Rightarrow> jstr \<Rightarrow> node \<Rightarrow> write_message \<Rightarrow> bytes option \<Rightarrow> message option \<Rightarrow> bool
    \<Rightarrow> (write_message \<times> bool) result \<times> data_store" where
  "resolve_data H tenant s w stream newestExistingMessage newMessageIsInitialWrite = (case stream of
     None \<Rightarrow>
       ((if newMessageIsInitialWrite then Inr (w, False)
         else case newestExistingMessage of
           Some (WriteMsg n) \<Rightarrow> bind (processMessageWithoutDataStream tenant s w n) (\<lambda>w'. Inr (w', True))
         | _ \<Rightarrow> Inl (OtherError (js ''TypeError''))), n_data s)
   | Some content \<Rightarrow>
       (let (r, ds) = processMessageWithDataStream H tenant s w content in (bind r (\<lambda>w'. Inr (w', True)), ds)))"

definition pre_checks :: "handler_env \<Rightarrow> jstr \<Rightarrow> node \<Rightarrow> write_message \<Rightarrow> bytes option \<Rightarrow> message option \<Rightarrow> unit result" where
  "pre_checks H tenant s w stream newestExistingMessage =
     (if (case newestExistingMessage of Some m \<Rightarrow> d_method (descriptor_of m) = Delete | None \<Rightarrow> False)
      then Inl (DwnError ''RecordsWriteNotAllowedAfterDelete'' [])
      else bind (case getCoreModuleForWrite H w of
                   Some m \<Rightarrow> (case cm_preProcessWrite m of Some f \<Rightarrow> f tenant s w | None \<Rightarrow> Inr ())
                 | None \<Rightarrow> Inr ()) (\<lambda>_.
           if isControlMessage w
           then bind (he_control_pre H tenant s w) (\<lambda>_.
                guard (stream \<noteq> None) (DwnError ''EncryptionControlValidateUnexpectedRecord'' []))
           else Inr ()))"

definition commitRecordsWrite ::
  "handler_env \<Rightarrow> jstr \<Rightarrow> node \<Rightarrow> records_write \<Rightarrow> bytes option \<Rightarrow> message list \<Rightarrow> message option \<Rightarrow> bool
    \<Rightarrow> progress_token option result \<times> node" where
  "commitRecordsWrite H tenant s rw stream existingMessages newestExistingMessage newMessageIsInitialWrite =
     (let w = rw_message rw in
      case pre_checks H tenant s w stream newestExistingMessage of
        Inl e \<Rightarrow> (Inl e, s)
      | Inr _ \<Rightarrow>
          (let (resolved, ds) = resolve_data H tenant s w stream newestExistingMessage newMessageIsInitialWrite;
               s1 = s\<lparr>n_data := ds\<rparr>
           in case bind resolved (\<lambda>(w', isLatestBaseState).
                bind (write_indexes (ne_records (he_node H)) rw isLatestBaseState) (\<lambda>indexes.
                commitLatestStateTransition (he_node H) tenant s1 existingMessages (WriteMsg w') indexes [])) of
                Inl e \<Rightarrow> (Inl e, s1)
              | Inr (putResult, s2) \<Rightarrow> (Inr (put_position putResult), s2)))"

definition mapCommitWriteErrorToReply :: "handler_env \<Rightarrow> js_error \<Rightarrow> reply result" where
  "mapCommitWriteErrorToReply H e = (case e of
     DwnError c _ \<Rightarrow>
       (if c \<in> {''RecordsWriteMissingEncodedDataInPrevious'', ''RecordsWriteMissingDataInPrevious'',
                ''RecordsWriteNotAllowedAfterDelete'', ''RecordsWriteDataCidMismatch'', ''RecordsWriteDataSizeMismatch''}
           \<or> prefix ''SchemaValidator'' c \<or> control_mapErrorToStatusCode c \<noteq> None
           \<or> registry_mapErrorToStatusCode (he_core H) c \<noteq> None
        then Inr (messageReplyFromError e 400) else Inl e)
   | OtherError _ \<Rightarrow> Inl e)"

section \<open>Replays\<close>

definition message_hasStoredData :: "node \<Rightarrow> jstr \<Rightarrow> write_message \<Rightarrow> bool" where
  "message_hasStoredData s tenant w =
     (w_encodedData w \<noteq> None \<or> hasStoredData s tenant (w_recordId w) (wd_dataCid (w_descriptor w)))"

definition complete_existing ::
  "handler_env \<Rightarrow> jstr \<Rightarrow> node \<Rightarrow> records_write \<Rightarrow> jstr \<Rightarrow> bytes \<Rightarrow> (reply \<times> node) result" where
  "complete_existing H tenant s rw incomingCid content =
     (let (r, ds) = processMessageWithDataStream H tenant s (rw_message rw) content; s1 = s\<lparr>n_data := ds\<rparr> in
      case bind r (\<lambda>completed.
           bind (write_indexes (ne_records (he_node H)) rw True) (\<lambda>indexes.
           completeData (ne_store (he_node H) tenant) (n_messages s tenant) incomingCid indexes (w_encodedData completed))) of
        Inr (CCompleted position, store) \<Rightarrow>
          Inr ((status_reply 202 ''Accepted'')\<lparr>rp_position := Some position\<rparr>,
               s1\<lparr>n_messages := (n_messages s)(tenant := store)\<rparr>)
      | Inr (_, store) \<Rightarrow> Inr (status_reply 409 ''Conflict'', s1\<lparr>n_messages := (n_messages s)(tenant := store)\<rparr>)
      | Inl e \<Rightarrow>
          if (case e of DwnError c _ \<Rightarrow> c = ''MessageStoreCompleteDataInvalidTarget'' | _ \<Rightarrow> False)
          then Inr (status_reply 409 ''Conflict'', s1)
          else bind (mapCommitWriteErrorToReply H e) (\<lambda>rp. Inr (rp, s1)))"

definition handleExistingRecordsWrite ::
  "handler_env \<Rightarrow> jstr \<Rightarrow> node \<Rightarrow> records_write \<Rightarrow> message \<Rightarrow> bool \<Rightarrow> jstr \<Rightarrow> bytes option \<Rightarrow> (reply \<times> node) result" where
  "handleExistingRecordsWrite H tenant s rw existingMessage recordHasAdvanced incomingCid stream =
     (case (stream, existingMessage) of
        (Some content, WriteMsg existing) \<Rightarrow>
          bind (isInitialWrite (he_cids H) existingMessage) (\<lambda>initial.
          if \<not> initial \<or> recordHasAdvanced \<or> message_hasStoredData s tenant existing
          then Inr (status_reply 409 ''Conflict'', s)
          else complete_existing H tenant s rw incomingCid content)
      | _ \<Rightarrow> Inr (status_reply 409 ''Conflict'', s))"

section \<open>RecordsWrite\<close>

text \<open>The part of the handler behind the admission checks.\<close>

definition apply_write ::
  "handler_env \<Rightarrow> jstr \<Rightarrow> node \<Rightarrow> records_write \<Rightarrow> bytes option \<Rightarrow> message list \<Rightarrow> bool \<Rightarrow> (reply \<times> node) result" where
  "apply_write H tenant s rw stream existingMessages initial =
     (let w = rw_message rw; newest = getNewestMessage (he_cids H) existingMessages in
      if (case newest of None \<Rightarrow> False | Some m \<Rightarrow> \<not> isNewer (he_cids H) (WriteMsg w) m)
      then Inr (status_reply 409 ''Conflict'', s)
      else case commitRecordsWrite H tenant s rw stream existingMessages newest initial of
        (Inl e, s1) \<Rightarrow> bind (mapCommitWriteErrorToReply H e) (\<lambda>rp. Inr (rp, s1))
      | (Inr position, s1) \<Rightarrow>
          bind (if wd_squash (w_descriptor w) = Some True then performRecordsSquash (he_node H) tenant s1 w else Inr s1) (\<lambda>s2.
          bind (case getCoreModuleForWrite H w of
                  Some m \<Rightarrow> (case cm_postProcessWrite m of Some f \<Rightarrow> f tenant s2 rw | None \<Rightarrow> Inr s2)
                | None \<Rightarrow> Inr s2) (\<lambda>s3.
          Inr ((if initial \<and> stream = None then status_reply 204 ''No Content'' else status_reply 202 ''Accepted'')
                 \<lparr>rp_position := position\<rparr>, s3))))"

text \<open>The checks on a new message in their order: initial write, module rules, authentication and
  authorisation, immutable properties, squash floor.\<close>

definition admit_write ::
  "handler_env \<Rightarrow> jstr \<Rightarrow> node \<Rightarrow> records_write \<Rightarrow> message list \<Rightarrow> bool \<Rightarrow> reply option" where
  "admit_write H tenant s rw existingMessages initial =
     (let w = rw_message rw in
      case handler_getInitialWrite (he_cids H) existingMessages initial of
        Inl e \<Rightarrow> Some (messageReplyFromError e 400)
      | Inr initialWrite \<Rightarrow> (case he_referential H tenant s rw of
          Inl e \<Rightarrow> Some (messageReplyFromError e 400)
        | Inr ruleSet \<Rightarrow>
          (case bind (he_authenticate H (w_authorization w) (w_attestation w)) (\<lambda>_. authorizeRecordsWrite H tenant s rw) of
             Inl e \<Rightarrow> Some (messageReplyFromError e 401)
           | Inr _ \<Rightarrow> (case verifyImmutablePropertiesReply initialWrite w of
               Some rp \<Rightarrow> Some rp
             | None \<Rightarrow> (case enforceSquashBackstop H tenant s w ruleSet of
                 Inl e \<Rightarrow> Some (messageReplyFromError e 409)
               | Inr _ \<Rightarrow> None)))))"

definition handle_write :: "handler_env \<Rightarrow> jstr \<Rightarrow> node \<Rightarrow> write_message \<Rightarrow> bytes option \<Rightarrow> (reply \<times> node) result" where
  "handle_write H tenant s w stream = (case parse_write (ne_records (he_node H)) w of
     Inl e \<Rightarrow> Inr (messageReplyFromError e 400, s)
   | Inr rw \<Rightarrow>
       bind (query_all (he_node H) s tenant (record_query (w_recordId w))) (\<lambda>existingMessages.
       let incomingCid = getCid (he_cids H) (WriteMsg w) in
       case find (\<lambda>m. getCid (he_cids H) m = incomingCid) existingMessages of
         Some existingMessage \<Rightarrow>
           handleExistingRecordsWrite H tenant s rw existingMessage (length existingMessages > 1) incomingCid stream
       | None \<Rightarrow>
           bind (rw_isInitialWrite (he_cids H) rw) (\<lambda>initial.
           case admit_write H tenant s rw existingMessages initial of
             Some rp \<Rightarrow> Inr (rp, s)
           | None \<Rightarrow> apply_write H tenant s rw stream existingMessages initial)))"

section \<open>RecordsDelete\<close>

definition authorizeRecordsDelete ::
  "handler_env \<Rightarrow> jstr \<Rightarrow> node \<Rightarrow> delete_message \<Rightarrow> records_write \<Rightarrow> unit result" where
  "authorizeRecordsDelete H tenant s d rw =
     (let N = he_node H; w = rw_message rw; author = getAuthor (DeleteMsg d);
          payload = jws_payload (a_signature (d_authorization d)) in
      bind (if isSignedByAuthorDelegate (DeleteMsg d) then authorizeDelegate N s d w else Inr ()) (\<lambda>_.
      if author = Some tenant then Inr ()
      else case (author, case payload of None \<Rightarrow> None | Some p \<Rightarrow> sp_permissionGrantId p) of
        (Some a, Some permissionGrantId) \<Rightarrow>
          bind (fetchGrant N s tenant permissionGrantId) (\<lambda>g. rga_authorizeDelete N s d w tenant a g)
      | _ \<Rightarrow> he_module_delete H tenant s d rw))"

definition delete_authorization :: "handler_env \<Rightarrow> jstr \<Rightarrow> node \<Rightarrow> delete_message \<Rightarrow> unit result" where
  "delete_authorization H tenant s d =
     bind (fetchInitialRecordsWrite (ne_records (he_node H)) (ne_store (he_node H) tenant) (n_messages s tenant)
             (dd_recordId (d_descriptor d))) (\<lambda>initialWrite. case initialWrite of
       None \<Rightarrow> Inl (OtherError (js ''TypeError''))
     | Some rw \<Rightarrow>
         if isControlMessage (rw_message rw)
         then Inl (DwnError ''EncryptionControlValidateUnexpectedRecord'' (js ''encryption control records cannot be deleted.''))
         else authorizeRecordsDelete H tenant s d rw)"

definition delete_error_reply :: "js_error \<Rightarrow> reply" where
  "delete_error_reply e = (case e of
     DwnError c _ \<Rightarrow> (case control_mapErrorToStatusCode c of
        Some statusCode \<Rightarrow> messageReplyFromError e statusCode | None \<Rightarrow> messageReplyFromError e 401)
   | OtherError _ \<Rightarrow> messageReplyFromError e 401)"

definition handle_delete ::
  "nat \<Rightarrow> handler_env \<Rightarrow> jstr \<Rightarrow> node \<Rightarrow> delete_message \<Rightarrow> (reply \<times> node) result option" where
  "handle_delete n H tenant s d = (case parse_delete (ne_records (he_node H)) d of
     Inl e \<Rightarrow> Some (Inr (messageReplyFromError e 400, s))
   | Inr _ \<Rightarrow> (case he_authenticate H (d_authorization d) None of
       Inl e \<Rightarrow> Some (Inr (messageReplyFromError e 401, s))
     | Inr _ \<Rightarrow> (case query_all (he_node H) s tenant (record_query (dd_recordId (d_descriptor d))) of
         Inl e \<Rightarrow> Some (Inl e)
       | Inr existingMessages \<Rightarrow> (case getNewestMessage (he_cids H) existingMessages of
           None \<Rightarrow> Some (Inr (status_reply 404 ''Not Found'', s))
         | Some newest \<Rightarrow>
             if isDeleteBeatenByExistingTombstone (he_cids H) d newest
             then Some (Inr (status_reply 409 ''Conflict'', s))
             else case delete_authorization H tenant s d of
               Inl e \<Rightarrow> Some (Inr (delete_error_reply e, s))
             | Inr _ \<Rightarrow> map_option (\<lambda>r. bind r (\<lambda>(position, s').
                 Inr ((status_reply 202 ''Accepted'')\<lparr>rp_position := position\<rparr>, s')))
                 (performRecordsDelete n (he_node H) tenant s d)))))"

section \<open>The permissions module\<close>

definition permissions_preProcessWrite :: "node_env \<Rightarrow> jstr \<Rightarrow> node \<Rightarrow> write_message \<Rightarrow> unit result" where
  "permissions_preProcessWrite N tenant s w =
     (let d = w_descriptor w in
      if wd_modulePath d \<noteq> revocationPath then Inr ()
      else case wd_parentId d of
        None \<Rightarrow> Inl (DwnError ''GrantAuthorizationGrantMissing'' [])
      | Some grantId \<Rightarrow> bind (fetchGrant N s tenant grantId) (\<lambda>g.
          guard (map_option (\<lambda>m. One (SStr m)) (ps_module (pg_scope g))
                   = (case wd_tags d of None \<Rightarrow> None | Some ts \<Rightarrow> map_of ts ''module''))
            (DwnError ''PermissionsModuleValidateRevocationModuleTagMismatch'' [])))"

fun delete_large_data :: "jstr \<Rightarrow> message list \<Rightarrow> data_store \<Rightarrow> data_store" where
  "delete_large_data tenant [] ds = ds"
| "delete_large_data tenant (WriteMsg w # ms) ds = delete_large_data tenant ms
     (if wd_dataSize (w_descriptor w) > maxDataSizeAllowedToBeEncoded
      then data_delete ds tenant (w_recordId w) (wd_dataCid (w_descriptor w)) else ds)"
| "delete_large_data tenant (m # ms) ds = delete_large_data tenant ms ds"

definition permissions_postProcessWrite :: "node_env \<Rightarrow> jstr \<Rightarrow> node \<Rightarrow> records_write \<Rightarrow> node result" where
  "permissions_postProcessWrite N tenant s rw =
     (let d = w_descriptor (rw_message rw) in
      if wd_modulePath d \<noteq> revocationPath then Inr s
      else case wd_parentId d of
        None \<Rightarrow> Inl (OtherError (js ''TypeError''))
      | Some grantId \<Rightarrow>
          bind (query_all N s tenant [(''permissionGrantId'', EqualF (SStr grantId)),
                  (''dateCreated'', ObjF (no_object\<lparr>f_gte := Some (SStr (wd_messageTimestamp d))\<rparr>))]) (\<lambda>messages.
          if messages = [] then Inr s
          else bind (delete_messages (ne_store N tenant) (n_messages s tenant) (map (getCid (re_cids (ne_records N))) messages))
                 (\<lambda>store. Inr \<lparr>n_messages = (n_messages s)(tenant := store),
                                n_data = delete_large_data tenant messages (n_data s)\<rparr>)))"

definition permissions_mapErrorToStatusCode :: "string \<Rightarrow> nat option" where
  "permissions_mapErrorToStatusCode code = (if prefix ''PermissionsModuleValidate'' code then Some 400 else None)"

end
