(* ===== verification/Latest_State.thy ===== *)
theory Latest_State
  imports Records_Handlers
begin

text \<open>
  The latest-state invariant of a node: what the stores of the tenants satisfy after any sequence of
  handled writes and deletes, and what a single transition does to the rows of its record.
\<close>

section \<open>Index values of records\<close>

definition record_values :: "key_values \<Rightarrow> jstr \<Rightarrow> jstr \<Rightarrow> bool \<Rightarrow> bool" where
  "record_values kv recordId timestamp latest \<longleftrightarrow>
     map_of kv ''interface'' = Some (One (SStr (js ''Records''))) \<and> map_of kv ''recordId'' = Some (One (SStr recordId))
   \<and> map_of kv ''messageTimestamp'' = Some (One (SStr timestamp))
   \<and> map_of kv ''isLatestBaseState'' = Some (One (SBool latest))"

lemma write_indexes_values:
  assumes "write_indexes R rw latest = Inr kv"
  shows "record_values kv (w_recordId (rw_message rw)) (wd_messageTimestamp (w_descriptor (rw_message rw))) latest"
proof -
  obtain author where a: "rw_author rw = Some author"
    and kv: "kv = complete_indexes rw (tagged_indexes rw latest (cid_entry (re_cids R) (w_descriptor (rw_message rw)) author))"
    using assms by (rule write_indexes_ok)
  have "map_of kv ''recordId'' = Some (One (SStr (w_recordId (rw_message rw))))"
    "map_of kv ''isLatestBaseState'' = Some (One (SBool latest))"
    by (simp_all add: kv complete_indexes_lookup tagged_indexes_keys base_indexes_flags [OF a])
  moreover have "map_of kv ''interface'' = Some (One (SStr (js ''Records'')))"
    "map_of kv ''messageTimestamp'' = Some (One (SStr (wd_messageTimestamp (w_descriptor (rw_message rw)))))"
    by (simp_all add: write_indexes_lookup [OF assms] descriptor_properties_lookup)
  ultimately show ?thesis by (simp add: record_values_def)
qed

lemma delete_indexes_other:
  assumes "\<not> prefix ''tag.'' k" and "k \<in> fst ` set (delete_properties (d_descriptor d))"
  shows "map_of (delete_indexes d i v) k = map_of (delete_properties (d_descriptor d)) k"
proof -
  have t: "k \<notin> fst ` set (buildTagIndexes ts)" for ts
    using assms(1) tag_object_lookup [of id ts k] by (simp add: tag_objects flip: map_of_eq_None_iff)
  have "distinct (map fst (delete_properties (d_descriptor d)))"
    by (simp add: delete_properties_def opt_prop_def split: option.splits)
  then have "map_of (rev (delete_properties (d_descriptor d))) k = map_of (delete_properties (d_descriptor d)) k"
    by (simp add: map_of_rev_distinct)
  moreover obtain x where "map_of (delete_properties (d_descriptor d)) k = Some x"
    using assms(2) by (meson map_of_eq_None_iff option.exhaust)
  ultimately have "map_of (spread a (delete_properties (d_descriptor d))) k = map_of (delete_properties (d_descriptor d)) k" for a
    by (simp add: spread_lookup)
  then show ?thesis using t by (simp add: delete_indexes_def Let_def spread_skip split: option.splits)
qed

lemma delete_indexes_values:
  "record_values (delete_indexes d i v) (dd_recordId (d_descriptor d)) (dd_messageTimestamp (d_descriptor d)) True"
proof -
  have "map_of (delete_indexes d i v) k = map_of (delete_properties (d_descriptor d)) k"
    if "k \<in> {''interface'', ''recordId'', ''messageTimestamp''}" for k
    using that by (intro delete_indexes_other) (auto simp: delete_properties_def)
  then have "map_of (delete_indexes d i v) ''interface'' = Some (One (SStr (js ''Records'')))"
    "map_of (delete_indexes d i v) ''recordId'' = Some (One (SStr (dd_recordId (d_descriptor d))))"
    "map_of (delete_indexes d i v) ''messageTimestamp'' = Some (One (SStr (dd_messageTimestamp (d_descriptor d))))"
    by (simp_all add: delete_properties_def)
  moreover have "map_of (delete_indexes d i v) ''isLatestBaseState'' = Some (One (SBool True))"
  proof -
    have "''isLatestBaseState'' \<notin> fst ` set (buildTagIndexes ts)" for ts
      using tag_object_lookup [of id ts "''isLatestBaseState''"] by (simp add: tag_objects flip: map_of_eq_None_iff)
    moreover have "''isLatestBaseState'' \<notin> fst ` set (delete_properties (d_descriptor d))"
      using delete_properties_keys [of "d_descriptor d"] by auto
    ultimately show ?thesis by (simp add: delete_indexes_def Let_def spread_skip split: option.splits)
  qed
  ultimately show ?thesis by (simp add: record_values_def)
qed

lemma parse_write_message: "parse_write R w = Inr rw \<Longrightarrow> rw_message rw = w"
  by (auto simp: parse_write_def new_records_write_def Let_def bind_eq_Inr)

section \<open>The plan of a transition\<close>

lemma strip_stripInlineData: "strip_encodedData (WriteMsg (stripInlineData w)) = strip_encodedData (WriteMsg w)"
  by (simp add: stripInlineData_def)

lemma retain_row_values:
  assumes "retain_row R m = Inr (m', i)"
  shows "\<exists>w. m = WriteMsg w \<and> m' = WriteMsg (stripInlineData w)
     \<and> record_values i (w_recordId w) (wd_messageTimestamp (w_descriptor w)) False"
proof -
  obtain w rw where w: "m = WriteMsg w" "parse_write R (stripInlineData w) = Inr rw"
    "write_indexes R rw False = Inr i" "m' = WriteMsg (stripInlineData w)"
    using assms by (auto simp: retain_row_def bind_eq_Inr split: message.splits)
  from write_indexes_values [OF w(3)] parse_write_message [OF w(2)] w show ?thesis by (simp add: stripInlineData_def)
qed

text \<open>The retained rows come from writes among the messages, stripped and no longer latest.\<close>

definition retained :: "records_env \<Rightarrow> message list \<Rightarrow> (jstr \<times> message \<times> key_values) list \<Rightarrow> bool" where
  "retained R ms rs \<longleftrightarrow> (\<forall>(c, m', i) \<in> set rs. \<exists>w. WriteMsg w \<in> set ms \<and> c = getCid (re_cids R) (WriteMsg w)
     \<and> m' = WriteMsg (stripInlineData w) \<and> record_values i (w_recordId w) (wd_messageTimestamp (w_descriptor w)) False)"

lemma retained_Cons: "retained R ms rs \<Longrightarrow> retained R (m # ms) rs"
  by (fastforce simp: retained_def)

lemma retained_add:
  "retained R ms rs \<Longrightarrow> retain_row R m = Inr (m', i) \<Longrightarrow> retained R (m # ms) ((getCid (re_cids R) m, m', i) # rs)"
  using retain_row_values [of R m m' i] retained_Cons [of R ms rs m] by (auto simp: retained_def)

definition planned :: "records_env \<Rightarrow> jstr \<Rightarrow> message list \<Rightarrow> transition_plan \<Rightarrow> bool" where
  "planned R nc ms p \<longleftrightarrow> tp_displaced p = filter (\<lambda>m. getCid (re_cids R) m \<noteq> nc) ms
     \<and> distinct (tp_deletes p @ map fst (tp_retains p))
     \<and> set (tp_deletes p @ map fst (tp_retains p)) = getCid (re_cids R) ` set (tp_displaced p)
     \<and> retained R ms (tp_retains p)"

lemma planned_fresh:
  assumes "planned R nc ms p" and "getCid (re_cids R) m \<notin> getCid (re_cids R) ` set ms"
  shows "getCid (re_cids R) m \<notin> set (tp_deletes p)" "getCid (re_cids R) m \<notin> fst ` set (tp_retains p)"
proof -
  have "getCid (re_cids R) ` set (tp_displaced p) \<subseteq> getCid (re_cids R) ` set ms"
    using assms(1) by (auto simp: planned_def)
  with assms have "getCid (re_cids R) m \<notin> set (tp_deletes p @ map fst (tp_retains p))" unfolding planned_def by blast
  then show "getCid (re_cids R) m \<notin> set (tp_deletes p)" "getCid (re_cids R) m \<notin> fst ` set (tp_retains p)" by simp_all
qed

lemma planned_step:
  assumes "planned R nc ms p" and "getCid (re_cids R) m \<notin> getCid (re_cids R) ` set ms" and "getCid (re_cids R) m \<noteq> nc"
  shows "planned R nc (m # ms) (p\<lparr>tp_deletes := getCid (re_cids R) m # tp_deletes p, tp_displaced := m # tp_displaced p\<rparr>)"
    and "retain_row R m = Inr (m', i) \<Longrightarrow>
      planned R nc (m # ms) (p\<lparr>tp_retains := (getCid (re_cids R) m, m', i) # tp_retains p, tp_displaced := m # tp_displaced p\<rparr>)"
proof -
  have "getCid (re_cids R) m \<notin> getCid (re_cids R) ` {x \<in> set ms. getCid (re_cids R) x \<noteq> nc}" using assms(2) by auto
  with assms planned_fresh [OF assms(1,2)] retained_Cons [of R ms "tp_retains p" m]
  show "planned R nc (m # ms) (p\<lparr>tp_deletes := getCid (re_cids R) m # tp_deletes p, tp_displaced := m # tp_displaced p\<rparr>)"
    by (simp add: planned_def)
  show "planned R nc (m # ms) (p\<lparr>tp_retains := (getCid (re_cids R) m, m', i) # tp_retains p, tp_displaced := m # tp_displaced p\<rparr>)"
    if "retain_row R m = Inr (m', i)"
    using assms planned_fresh [OF assms(1,2)] retained_add [OF _ that, of ms "tp_retains p"] by (simp add: planned_def)
qed

lemma plan_transition_plan:
  "plan_transition R nc keep ms = Inr p \<Longrightarrow> distinct (map (getCid (re_cids R)) ms) \<Longrightarrow> planned R nc ms p"
proof (induction ms arbitrary: p)
  case (Cons m ms)
  let ?c = "getCid (re_cids R) m"
  have fresh: "?c \<notin> getCid (re_cids R) ` set ms" and d: "distinct (map (getCid (re_cids R)) ms)"
    using Cons.prems(2) by auto
  show ?case
  proof (cases "?c = nc")
    case True
    then have "plan_transition R nc keep ms = Inr p" using Cons.prems(1) by (simp add: Let_def)
    from Cons.IH [OF this d] True show ?thesis by (simp add: planned_def retained_Cons)
  next
    case False
    then obtain initial where i: "isInitialWrite (re_cids R) m = Inr initial"
      using Cons.prems(1) by (auto simp: Let_def bind_eq_Inr)
    show ?thesis
    proof (cases "initial \<or> ?c \<in> keep")
      case True
      then obtain m' idx q where q: "retain_row R m = Inr (m', idx)" "plan_transition R nc keep ms = Inr q"
        "p = q\<lparr>tp_retains := (?c, m', idx) # tp_retains q, tp_displaced := m # tp_displaced q\<rparr>"
        using Cons.prems(1) False i by (auto simp: Let_def bind_eq_Inr)
      show ?thesis unfolding q(3) by (rule planned_step(2) [OF Cons.IH [OF q(2) d] fresh False q(1)])
    next
      case del: False
      then obtain q where q: "plan_transition R nc keep ms = Inr q"
        "p = q\<lparr>tp_deletes := ?c # tp_deletes q, tp_displaced := m # tp_displaced q\<rparr>"
        using Cons.prems(1) False i by (auto simp: Let_def bind_eq_Inr)
      show ?thesis unfolding q(2) by (rule planned_step(1) [OF Cons.IH [OF q(1) d] fresh False])
    qed
  qed
qed (simp add: planned_def retained_def)

text \<open>What a transition keeps of its record besides the new message: the initial write and what the
  caller retains.\<close>

lemma plan_transition_sets:
  "plan_transition R nc keep ms = Inr p \<Longrightarrow> distinct (map (getCid (re_cids R)) ms) \<Longrightarrow> m \<in> set ms \<Longrightarrow> getCid (re_cids R) m \<noteq> nc \<Longrightarrow>
     getCid (re_cids R) m \<in> fst ` set (tp_retains p) \<longleftrightarrow> isInitialWrite (re_cids R) m = Inr True \<or> getCid (re_cids R) m \<in> keep"
proof (induction ms arbitrary: p)
  case (Cons x ms)
  let ?c = "getCid (re_cids R) x"
  have d: "distinct (map (getCid (re_cids R)) ms)" and fresh: "?c \<notin> getCid (re_cids R) ` set ms" using Cons.prems(2) by auto
  show ?case
  proof (cases "?c = nc")
    case True
    with Cons.prems have "plan_transition R nc keep ms = Inr p" "m \<in> set ms" by (auto simp: Let_def)
    then show ?thesis using Cons.IH d Cons.prems(4) by blast
  next
    case False
    then obtain initial where i: "isInitialWrite (re_cids R) x = Inr initial"
      using Cons.prems(1) by (auto simp: Let_def bind_eq_Inr)
    obtain q where q: "plan_transition R nc keep ms = Inr q"
      and t: "fst ` set (tp_retains p) = (if initial \<or> ?c \<in> keep then insert ?c (fst ` set (tp_retains q)) else fst ` set (tp_retains q))"
      using Cons.prems(1) False i by (cases "initial \<or> ?c \<in> keep") (auto simp: Let_def bind_eq_Inr)
    have "?c \<notin> fst ` set (tp_retains q)" using planned_fresh(2) [OF plan_transition_plan [OF q d] fresh] .
    show ?thesis
    proof (cases "m = x")
      case True
      then show ?thesis using t i \<open>?c \<notin> fst ` set (tp_retains q)\<close> by auto
    next
      case False
      then have m: "m \<in> set ms" using Cons.prems(3) by simp
      then have "getCid (re_cids R) m \<noteq> ?c" using fresh by (metis image_eqI)
      with t have "getCid (re_cids R) m \<in> fst ` set (tp_retains p) \<longleftrightarrow> getCid (re_cids R) m \<in> fst ` set (tp_retains q)" by auto
      then show ?thesis using Cons.IH [OF q d m Cons.prems(4)] by simp
    qed
  qed
qed simp

lemma spec_retains_lookup:
  "distinct (map fst rs) \<Longrightarrow> spec_retains rs R c = (case map_of rs c of
     None \<Rightarrow> R c | Some (m, i) \<Rightarrow> map_option (\<lambda>r. r\<lparr>r_message := m, r_indexes := i\<rparr>) (R c))"
proof (induction rs arbitrary: R)
  case (Cons x rs)
  obtain d m i where x: "x = (d, m, i)" by (cases x)
  with Cons show ?case
    by (auto simp: map_of_eq_None_iff split: option.splits)
       (metis (no_types, lifting) image_eqI fst_conv map_of_SomeD)+
qed simp

section \<open>The invariant of a tenant\<close>

primrec is_record :: "message \<Rightarrow> bool" where
  "is_record (WriteMsg w) = True"
| "is_record (DeleteMsg d) = True"
| "is_record (OtherMsg x) = False"

definition of_record :: "jstr \<Rightarrow> row \<Rightarrow> bool" where
  "of_record recordId r \<longleftrightarrow> is_record (r_message r) \<and> message_recordId (r_message r) = recordId"

definition latest_row :: "row \<Rightarrow> bool" where
  "latest_row r \<longleftrightarrow> map_of (r_indexes r) ''isLatestBaseState'' = Some (One (SBool True))"

text \<open>A row is indexed as the message it holds; a tombstone is latest state.\<close>

definition row_ok :: "row \<Rightarrow> bool" where
  "row_ok r \<longleftrightarrow>
     (if is_record (r_message r)
      then \<exists>t b. record_values (r_indexes r) (message_recordId (r_message r)) t b
        \<and> (\<forall>d. r_message r = DeleteMsg d \<longrightarrow> b)
      else map_of (r_indexes r) ''interface'' \<noteq> Some (One (SStr (js ''Records'')))
        \<and> map_of (r_indexes r) ''interface'' \<noteq> None
        \<and> (\<exists>i. map_of (r_indexes r) ''interface'' = Some (One i))
        \<and> (\<exists>t. map_of (r_indexes r) ''messageTimestamp'' = Some (One (SStr t))))"

lemma row_okI:
  "is_record (r_message r) \<Longrightarrow> record_values (r_indexes r) (message_recordId (r_message r)) t b
     \<Longrightarrow> (\<And>d. r_message r = DeleteMsg d \<Longrightarrow> b) \<Longrightarrow> row_ok r"
  unfolding row_ok_def by auto

definition single_latest :: "tenant_store \<Rightarrow> bool" where
  "single_latest s \<longleftrightarrow> (\<forall>rid c c' r r'. row_of s c = Some r \<and> row_of s c' = Some r' \<and> of_record rid r \<and> of_record rid r'
     \<and> latest_row r \<and> latest_row r' \<longrightarrow> c = c')"

definition tenant_ok :: "store_env \<Rightarrow> tenant_store \<Rightarrow> bool" where
  "tenant_ok E s \<longleftrightarrow> store_ok E s \<and> (\<forall>c r. row_of s c = Some r \<longrightarrow> row_ok r) \<and> single_latest s"

lemma tenant_okD:
  assumes "tenant_ok E s"
  shows "store_ok E s" "core_ok E s" "row_of s c = Some r \<Longrightarrow> row_ok r" "single_latest s" "timed s"
proof -
  have rows: "row_ok r" if "row_of s c = Some r" for c r using assms that by (simp add: tenant_ok_def)
  show "store_ok E s" "single_latest s" "core_ok E s" using assms by (simp_all add: tenant_ok_def store_ok_def)
  show "row_of s c = Some r \<Longrightarrow> row_ok r" by (rule rows)
  show "timed s" unfolding timed_def
    using rows by (fastforce simp: row_ok_def record_values_def split: if_splits)
qed

lemma record_query_matches:
  "row_ok r \<Longrightarrow> matchFilter tn (r_indexes r) (record_query rid) \<longleftrightarrow> of_record rid r"
  by (auto simp: row_ok_def record_query_def record_values_def of_record_def matchIndexValue_def split: if_splits)

lemma record_query_valid: "assertValidSubtreeFilters [record_query rid] = Inr ()"
  by (simp add: assertValidSubtreeFilters_def record_query_def isSubtreeFilter_def)

lemma record_query_rows:
  assumes "tenant_ok E s"
  obtains ms where "query_messages E s (record_query rid) = Inr ms" "distinct (map (getCid (se_cids E)) ms)"
    "set ms = {r_message r | r c. row_of s c = Some r \<and> of_record rid r}"
proof -
  have "{r_message r | r c. row_of s c = Some r \<and> matchFilter (se_tn E) (r_indexes r) (record_query rid)}
      = {r_message r | r c. row_of s c = Some r \<and> of_record rid r}"
    using tenant_okD(3) [OF assms] record_query_matches by blast
  with query_messages_rows [OF tenant_okD(2,5) [OF assms] record_query_valid, of rid] that show ?thesis by auto
qed

lemma record_query_set:
  assumes "tenant_ok E s" and "query_messages E s (record_query rid) = Inr ex"
  shows "set ex = {r_message r | r c. row_of s c = Some r \<and> of_record rid r}"
  by (rule record_query_rows [OF assms(1), of rid]) (use assms(2) in simp)

lemma row_cid: "tenant_ok E s \<Longrightarrow> row_of s c = Some r \<Longrightarrow> getCid (se_cids E) (r_message r) = c"
  using index_rows(2) tenant_okD(2) by blast

section \<open>One transition\<close>

text \<open>What a transition leaves of a row of its record.\<close>

definition displaced_row :: "row \<Rightarrow> row option \<Rightarrow> bool" where
  "displaced_row r r' \<longleftrightarrow> r' = None \<or> (\<exists>w i. r_message r = WriteMsg w
     \<and> r' = Some (r\<lparr>r_message := WriteMsg (stripInlineData w), r_indexes := i\<rparr>)
     \<and> record_values i (w_recordId w) (wd_messageTimestamp (w_descriptor w)) False)"

lemma spec_commit_lookup:
  assumes "distinct (map fst (tr_retains t))"
  shows "spec_commit E t position R c =
    (let nc = getCid (se_cids E) (tr_message t);
         R1 = (if R nc = None then R(nc \<mapsto> \<lparr>r_position = position, r_message = tr_message t, r_indexes = tr_indexes t,
                 r_scopes = computeFingerprintScopes (tr_message t) (tr_indexes t)\<rparr>) else R)
     in if c \<in> set (tr_deletes t) \<and> R c \<noteq> None then None
        else case map_of (tr_retains t) c of
          None \<Rightarrow> R1 c | Some (m, i) \<Rightarrow> map_option (\<lambda>r. r\<lparr>r_message := m, r_indexes := i\<rparr>) (R1 c))"
  unfolding spec_commit_def Let_def spec_retains_lookup [OF assms] ..

lemma planned_touches:
  assumes "tenant_ok E s" and "planned R nc ex p" and "se_cids E = re_cids R"
    and "set ex = {r_message r | r c. row_of s c = Some r \<and> of_record rid r}"
  shows "set (tp_deletes p) \<union> fst ` set (tp_retains p) = {c. c \<noteq> nc \<and> (\<exists>r. row_of s c = Some r \<and> of_record rid r)}"
proof -
  have "set (tp_deletes p) \<union> fst ` set (tp_retains p) = getCid (re_cids R) ` {x \<in> set ex. getCid (re_cids R) x \<noteq> nc}"
    using assms(2) by (simp add: planned_def)
  also have "\<dots> = {c. c \<noteq> nc \<and> (\<exists>r. row_of s c = Some r \<and> of_record rid r)}"
    unfolding assms(4) using row_cid [OF assms(1)] unfolding assms(3) by (auto simp: image_iff)
  finally show ?thesis .
qed

text \<open>The commit behind a transition, on the rows.\<close>

lemma transition_commit:
  assumes ok: "tenant_ok (ne_store N tenant) (n_messages s tenant)" and hash: "\<And>c. length (ne_hash N c) = 32"
    and q: "query_messages (ne_store N tenant) (n_messages s tenant) (record_query rid) = Inr ex"
    and t: "commitLatestStateTransition N tenant s ex m idx ret = Inr (res, s')"
  obtains p where "planned (ne_records N) (getCid (re_cids (ne_records N)) m) ex p"
    "set ex = {r_message r | r c. row_of (n_messages s tenant) c = Some r \<and> of_record rid r}"
    "store_ok (ne_store N tenant) (n_messages s' tenant)"
    "row_of (n_messages s' tenant) = spec_commit (ne_store N tenant)
       \<lparr>tr_message = m, tr_indexes = idx, tr_retains = tp_retains p, tr_deletes = tp_deletes p\<rparr>
       (ts_head (n_messages s tenant) + 1) (row_of (n_messages s tenant))"
    "\<forall>t'. t' \<noteq> tenant \<longrightarrow> n_messages s' t' = n_messages s t'"
    "n_data s' = fold (\<lambda>x ds. deleteFromDataStoreIfNeeded ds tenant x m) (tp_displaced p) (n_data s)"
    "\<forall>x \<in> set ex. getCid (re_cids (ne_records N)) x \<noteq> getCid (re_cids (ne_records N)) m \<longrightarrow>
       (getCid (re_cids (ne_records N)) x \<in> fst ` set (tp_retains p) \<longleftrightarrow> isInitialWrite (re_cids (ne_records N)) x = Inr True
          \<or> getCid (re_cids (ne_records N)) x \<in> getCid (re_cids (ne_records N)) ` set ret)"
proof -
  let ?E = "ne_store N tenant" and ?C = "re_cids (ne_records N)" and ?S = "n_messages s tenant"
  obtain p store where p: "plan_transition (ne_records N) (getCid ?C m) (set (map (getCid ?C) ret)) ex = Inr p"
    and c: "commitLatestState ?E ?S \<lparr>tr_message = m, tr_indexes = idx, tr_retains = tp_retains p, tr_deletes = tp_deletes p\<rparr>
              = Inr (res, store)"
    and s': "s' = \<lparr>n_messages = (n_messages s)(tenant := store),
       n_data = fold (\<lambda>x ds. deleteFromDataStoreIfNeeded ds tenant x m) (tp_displaced p) (n_data s)\<rparr>"
    using t by (auto simp: commitLatestStateTransition_def Let_def bind_eq_Inr)
  obtain ms where "query_messages ?E ?S (record_query rid) = Inr ms" "distinct (map (getCid (se_cids ?E)) ms)"
    "set ms = {r_message r | r c. row_of ?S c = Some r \<and> of_record rid r}"
    using record_query_rows [OF ok] by blast
  with q have ex: "distinct (map (getCid ?C) ex)" "set ex = {r_message r | r c. row_of ?S c = Some r \<and> of_record rid r}" by simp_all
  have plan: "planned (ne_records N) (getCid ?C m) ex p" using plan_transition_plan [OF p ex(1)] .
  have "\<And>c. length (se_hash ?E c) = 32" using hash by simp
  from commitLatestState_rows [OF tenant_okD(1) [OF ok] this _ c] plan ex(2) s' plan_transition_sets [OF p ex(1)] that
  show ?thesis by (simp add: planned_def)
qed

lemma transition_rows:
  assumes ok: "tenant_ok (ne_store N tenant) (n_messages s tenant)" and hash: "\<And>c. length (ne_hash N c) = 32"
    and q: "query_messages (ne_store N tenant) (n_messages s tenant) (record_query rid) = Inr ex"
    and t: "commitLatestStateTransition N tenant s ex m idx ret = Inr (res, s')"
  defines "S \<equiv> n_messages s tenant" and "S' \<equiv> n_messages s' tenant" and "nc \<equiv> getCid (re_cids (ne_records N)) m"
  shows "store_ok (ne_store N tenant) S'"
    and "row_of S' nc = (case row_of S nc of Some r \<Rightarrow> Some r | None \<Rightarrow> Some \<lparr>r_position = ts_head S + 1, r_message = m,
           r_indexes = idx, r_scopes = computeFingerprintScopes m idx\<rparr>)"
    and "c \<noteq> nc \<Longrightarrow> row_of S c = Some r \<Longrightarrow> of_record rid r \<Longrightarrow> displaced_row r (row_of S' c)"
    and "c \<noteq> nc \<Longrightarrow> (\<And>r. row_of S c = Some r \<Longrightarrow> \<not> of_record rid r) \<Longrightarrow> row_of S' c = row_of S c"
    and "t' \<noteq> tenant \<Longrightarrow> n_messages s' t' = n_messages s t'"
    and "c \<noteq> nc \<Longrightarrow> row_of S c = Some r \<Longrightarrow> of_record rid r \<Longrightarrow> row_of S' c \<noteq> None \<longleftrightarrow>
           isInitialWrite (re_cids (ne_records N)) (r_message r) = Inr True \<or> c \<in> getCid (re_cids (ne_records N)) ` set ret"
proof -
  let ?C = "re_cids (ne_records N)"
  obtain p where plan: "planned (ne_records N) nc ex p"
    and ex: "set ex = {r_message r | r c. row_of S c = Some r \<and> of_record rid r}"
    and store: "store_ok (ne_store N tenant) S'"
    and rows: "row_of S' = spec_commit (ne_store N tenant)
       \<lparr>tr_message = m, tr_indexes = idx, tr_retains = tp_retains p, tr_deletes = tp_deletes p\<rparr> (ts_head S + 1) (row_of S)"
    and other: "\<forall>t'. t' \<noteq> tenant \<longrightarrow> n_messages s' t' = n_messages s t'"
    and "n_data s' = fold (\<lambda>x ds. deleteFromDataStoreIfNeeded ds tenant x m) (tp_displaced p) (n_data s)"
    and sets: "\<forall>x \<in> set ex. getCid ?C x \<noteq> nc \<longrightarrow> (getCid ?C x \<in> fst ` set (tp_retains p) \<longleftrightarrow>
           isInitialWrite ?C x = Inr True \<or> getCid ?C x \<in> getCid ?C ` set ret)"
    by (rule transition_commit [OF ok hash q t, folded S_def S'_def nc_def])
  show "store_ok (ne_store N tenant) S'" "t' \<noteq> tenant \<Longrightarrow> n_messages s' t' = n_messages s t'" using store other by simp_all
  have touched: "set (tp_deletes p) \<union> fst ` set (tp_retains p) = {c. c \<noteq> nc \<and> (\<exists>r. row_of S c = Some r \<and> of_record rid r)}"
    using planned_touches [OF ok plan _ ex [unfolded S_def]] by (simp add: S_def)
  have dr: "distinct (map fst (tp_retains p))" and ret: "retained (ne_records N) ex (tp_retains p)"
    using plan by (auto simp: planned_def)
  have keep: "map_of (tp_retains p) d = None \<longleftrightarrow> d \<notin> fst ` set (tp_retains p)" for d by (rule map_of_eq_None_iff)
  have L: "row_of S' d = (let R1 = (if row_of S nc = None then (row_of S)(nc \<mapsto> \<lparr>r_position = ts_head S + 1,
        r_message = m, r_indexes = idx, r_scopes = computeFingerprintScopes m idx\<rparr>) else row_of S)
     in if d \<in> set (tp_deletes p) \<and> row_of S d \<noteq> None then None
        else case map_of (tp_retains p) d of
          None \<Rightarrow> R1 d | Some (m, i) \<Rightarrow> map_option (\<lambda>r. r\<lparr>r_message := m, r_indexes := i\<rparr>) (R1 d))" for d
    unfolding rows Let_def by (subst spec_commit_lookup) (simp_all only: dr nc_def Let_def transition.simps ne_store_simps)
  have "nc \<notin> set (tp_deletes p)" "nc \<notin> fst ` set (tp_retains p)" using touched by auto
  then show "row_of S' nc = (case row_of S nc of Some r \<Rightarrow> Some r | None \<Rightarrow> Some \<lparr>r_position = ts_head S + 1, r_message = m,
           r_indexes = idx, r_scopes = computeFingerprintScopes m idx\<rparr>)"
    unfolding L Let_def keep [symmetric] by (auto split: option.splits)
  show "row_of S' c = row_of S c" if c: "c \<noteq> nc" and r: "\<And>r. row_of S c = Some r \<Longrightarrow> \<not> of_record rid r"
  proof -
    have "c \<notin> set (tp_deletes p)" "c \<notin> fst ` set (tp_retains p)" using touched r by auto
    then show ?thesis using c unfolding L Let_def keep [symmetric] by auto
  qed
  show "row_of S' c \<noteq> None \<longleftrightarrow> isInitialWrite ?C (r_message r) = Inr True \<or> c \<in> getCid ?C ` set ret"
    if c: "c \<noteq> nc" and r: "row_of S c = Some r" "of_record rid r"
  proof -
    have "r_message r \<in> set ex" using ex r by blast
    moreover have "getCid ?C (r_message r) = c" using row_cid [OF ok, folded S_def] r(1) by simp
    ultimately have "c \<in> fst ` set (tp_retains p) \<longleftrightarrow> isInitialWrite ?C (r_message r) = Inr True \<or> c \<in> getCid ?C ` set ret"
      using bspec [OF sets, of "r_message r"] c by simp
    moreover have "c \<in> set (tp_deletes p) \<longleftrightarrow> c \<notin> fst ` set (tp_retains p)"
    proof -
      have "set (tp_deletes p) \<inter> fst ` set (tp_retains p) = {}" using plan by (auto simp: planned_def)
      then show ?thesis using touched c r by blast
    qed
    ultimately show ?thesis using r(1) c keep [of c] unfolding L by (auto split: option.splits)
  qed
  show "displaced_row r (row_of S' c)" if c: "c \<noteq> nc" and r: "row_of S c = Some r" "of_record rid r"
  proof (cases "c \<in> set (tp_deletes p)")
    case True
    then show ?thesis using r unfolding L by (simp add: displaced_row_def)
  next
    case False
    have "c \<in> fst ` set (tp_retains p)" using touched c r False by blast
    then obtain m' i where mi: "map_of (tp_retains p) c = Some (m', i)" using keep [of c] by (cases "map_of (tp_retains p) c") auto
    with ret obtain w where w: "WriteMsg w \<in> set ex" "c = getCid (re_cids (ne_records N)) (WriteMsg w)"
      "m' = WriteMsg (stripInlineData w)" "record_values i (w_recordId w) (wd_messageTimestamp (w_descriptor w)) False"
      by (fastforce simp: retained_def dest: map_of_SomeD)
    obtain r' c' where "row_of S c' = Some r'" "r_message r' = WriteMsg w" using w(1) ex by auto
    then have "r_message r = WriteMsg w" using row_cid [OF ok, folded S_def, of c' r'] w(2) r(1) by simp
    moreover from this have "row_of S' c = Some (r\<lparr>r_message := WriteMsg (stripInlineData w), r_indexes := i\<rparr>)"
      using w(3) mi False c r(1) unfolding L by simp
    ultimately show ?thesis using w(4) by (auto simp: displaced_row_def)
  qed
qed

lemma displaced_row_facts:
  assumes "displaced_row r (Some r')" and "row_ok r"
  shows "row_ok r'" "\<not> latest_row r'" "of_record rid r' \<longleftrightarrow> of_record rid r"
  using assms
  by (auto simp: displaced_row_def row_ok_def latest_row_def of_record_def stripInlineData_def record_values_def)

text \<open>A transition keeps the invariant, and leaves the new message as the only row of its record that
  can be latest state.\<close>

lemma transition_ok:
  assumes ok: "tenant_ok (ne_store N tenant) (n_messages s tenant)" and hash: "\<And>c. length (ne_hash N c) = 32"
    and q: "query_messages (ne_store N tenant) (n_messages s tenant) (record_query rid) = Inr ex"
    and t: "commitLatestStateTransition N tenant s ex m idx ret = Inr (res, s')"
    and m: "is_record m" "message_recordId m = rid"
    and v: "record_values idx rid time b" "\<And>d. m = DeleteMsg d \<Longrightarrow> b"
  shows "tenant_ok (ne_store N tenant) (n_messages s' tenant)"
    and "row_of (n_messages s' tenant) c = Some r \<Longrightarrow> of_record rid r \<Longrightarrow> latest_row r \<Longrightarrow> c = getCid (re_cids (ne_records N)) m"
proof -
  define S S' nc where defs: "S = n_messages s tenant" "S' = n_messages s' tenant" "nc = getCid (re_cids (ne_records N)) m"
  note T = transition_rows [OF ok hash q t, folded defs]
  have okr: "row_of S c = Some r \<Longrightarrow> row_ok r" for c r using tenant_okD(3) [OF ok] by (simp add: defs)
  have other: "row_ok r' \<and> \<not> (of_record rid r' \<and> latest_row r') \<and> (\<forall>rid'. rid' \<noteq> rid \<and> of_record rid' r' \<longrightarrow> row_of S c = Some r')"
    if c: "c \<noteq> nc" and r': "row_of S' c = Some r'" for c r'
  proof (cases "\<exists>r. row_of S c = Some r \<and> of_record rid r")
    case True
    then obtain r where r: "row_of S c = Some r" "of_record rid r" by blast
    from displaced_row_facts [OF T(3) [OF c r, unfolded r'] okr [OF r(1)]] r(2)
    show ?thesis by (auto simp: of_record_def)
  next
    case False
    with T(4) [OF c] r' have "row_of S c = Some r'" by auto
    with False okr show ?thesis by blast
  qed
  have new: "row_ok r' \<and> (row_of S nc = Some r' \<or> of_record rid r')" if "row_of S' nc = Some r'" for r'
  proof (cases "row_of S nc")
    case None
    with T(2) that have r': "r_message r' = m" "r_indexes r' = idx" by auto
    have "row_ok r'" by (rule row_okI [of r' "time" b]) (use r' m v in auto)
    then show ?thesis using r' m by (simp add: of_record_def)
  qed (use T(2) that okr in auto)
  show only: "c = nc" if "row_of (n_messages s' tenant) c = Some r" "of_record rid r" "latest_row r" for c r
    using other [of c r] that by (auto simp: defs)
  have "single_latest S'" unfolding single_latest_def
  proof (intro allI impI, elim conjE)
    fix rid' c c' r r' assume a: "row_of S' c = Some r" "row_of S' c' = Some r'" "of_record rid' r" "of_record rid' r'"
      "latest_row r" "latest_row r'"
    show "c = c'"
    proof (cases "rid' = rid")
      case True
      then show ?thesis using only [of c r] only [of c' r'] a by (simp add: defs)
    next
      case False
      have "row_of S c = Some r" if "row_of S' c = Some r" "of_record rid' r" for c r
        using other [of c r] new [of r] that False by (cases "c = nc") (auto simp: of_record_def)
      then have "row_of S c = Some r" "row_of S c' = Some r'" using a by blast+
      then show ?thesis using tenant_okD(4) [OF ok] a unfolding single_latest_def defs by blast
    qed
  qed
  moreover have "row_ok r" if "row_of S' c = Some r" for c r using other [of c r] new [of r] that by (cases "c = nc") auto
  ultimately show "tenant_ok (ne_store N tenant) (n_messages s' tenant)" using T(1) by (simp add: tenant_ok_def defs)
qed

section \<open>The invariant of a node\<close>

definition node_ok :: "node_env \<Rightarrow> node \<Rightarrow> bool" where
  "node_ok N s \<longleftrightarrow> (\<forall>tenant. tenant_ok (ne_store N tenant) (n_messages s tenant))"

definition hash_ok :: "node_env \<Rightarrow> bool" where
  "hash_ok N \<longleftrightarrow> (\<forall>c. length (ne_hash N c) = 32)"

lemma hash_okD: "hash_ok N \<Longrightarrow> length (ne_hash N c) = 32"
  by (simp add: hash_ok_def)

text \<open>A change that only takes rows of one tenant away.\<close>

definition removed_rows :: "node_env \<Rightarrow> jstr \<Rightarrow> node \<Rightarrow> node \<Rightarrow> bool" where
  "removed_rows N tenant s s' \<longleftrightarrow> (\<forall>t. t \<noteq> tenant \<longrightarrow> n_messages s' t = n_messages s t)
     \<and> store_ok (ne_store N tenant) (n_messages s' tenant)
     \<and> (\<forall>c. row_of (n_messages s' tenant) c = None \<or> row_of (n_messages s' tenant) c = row_of (n_messages s tenant) c)"

lemma removed_rows_refl: "node_ok N s \<Longrightarrow> removed_rows N tenant s s"
  using tenant_okD(1) by (auto simp: removed_rows_def node_ok_def)

lemma removed_rows_trans: "removed_rows N tenant s s' \<Longrightarrow> removed_rows N tenant s' s'' \<Longrightarrow> removed_rows N tenant s s''"
  unfolding removed_rows_def by metis

lemma removed_rows_ok:
  assumes "removed_rows N tenant s s'" and "node_ok N s"
  shows "node_ok N s'"
proof -
  have rows: "row_of (n_messages s' tenant) c = Some r \<Longrightarrow> row_of (n_messages s tenant) c = Some r" for c r
    using assms(1) unfolding removed_rows_def by (metis option.distinct(1))
  have ok: "tenant_ok (ne_store N t) (n_messages s t)" for t using assms(2) by (simp add: node_ok_def)
  have "single_latest (n_messages s' tenant)"
    using rows tenant_okD(4) [OF ok [of tenant]] unfolding single_latest_def by meson
  then have "tenant_ok (ne_store N tenant) (n_messages s' tenant)"
    using rows tenant_okD(3) [OF ok [of tenant]] assms(1) by (auto simp: tenant_ok_def removed_rows_def)
  with ok assms(1) show ?thesis unfolding node_ok_def removed_rows_def by metis
qed

text \<open>The contract of an operation that purges: the hooks of the core modules, the purge of a record
  and of squashed siblings.\<close>

locale purging =
  fixes N :: node_env and purge :: "jstr \<Rightarrow> node \<Rightarrow> 'a \<Rightarrow> node result"
  assumes removes: "hash_ok N \<Longrightarrow> node_ok N s \<Longrightarrow> purge tenant s x = Inr s' \<Longrightarrow> removed_rows N tenant s s'"
begin

lemma keeps_ok: "hash_ok N \<Longrightarrow> node_ok N s \<Longrightarrow> purge tenant s x = Inr s' \<Longrightarrow> node_ok N s'"
  using removes removed_rows_ok by blast

lemma adds_nothing:
  assumes "hash_ok N" "node_ok N s" "purge tenant s x = Inr s'" "row_of (n_messages s' t) c = Some r"
  shows "row_of (n_messages s t) c = Some r"
  using removes [OF assms(1-3)] assms(4) unfolding removed_rows_def by (metis option.distinct(1))

end

lemma delete_messages_rows:
  assumes "store_ok E s" and "\<And>c. length (se_hash E c) = 32" and "delete_messages E s cs = Inr s'"
  shows "store_ok E s' \<and> row_of s' = (\<lambda>c. if c \<in> set cs then None else row_of s c)"
  using assms(1,3)
proof (induction cs arbitrary: s)
  case (Cons c cs)
  then obtain s1 where s1: "ms_delete E s c = Inr s1" "delete_messages E s1 cs = Inr s'" by (auto simp: bind_eq_Inr)
  with ms_delete_rows [OF Cons.prems(1) assms(2) s1(1)] Cons.IH [OF _ s1(2)] show ?case by (auto simp: fun_eq_iff)
qed simp

lemma delete_messages_removes:
  assumes "hash_ok N" and "node_ok N s"
    and "delete_messages (ne_store N tenant) (n_messages s tenant) cs = Inr store"
  shows "removed_rows N tenant s (\<lparr>n_messages = (n_messages s)(tenant := store), n_data = ds\<rparr>)"
proof -
  have "store_ok (ne_store N tenant) (n_messages s tenant)" using assms(2) tenant_okD(1) by (simp add: node_ok_def)
  from delete_messages_rows [OF this _ assms(3)] assms(1) show ?thesis by (simp add: removed_rows_def hash_ok_def)
qed

lemma purgeRecordMessages_removes:
  assumes "hash_ok N" and "node_ok N s" and "purgeRecordMessages N tenant s ms = Inr s'"
  shows "removed_rows N tenant s s'"
proof -
  obtain store ds where "delete_messages (ne_store N tenant) (n_messages s tenant) (map (getCid (re_cids (ne_records N))) ms) = Inr store"
    "s' = \<lparr>n_messages = (n_messages s)(tenant := store), n_data = ds\<rparr>"
    using assms(3) by (auto simp: purgeRecordMessages_def Let_def bind_eq_Inr split: option.splits message.splits)
  with delete_messages_removes [OF assms(1,2)] show ?thesis by blast
qed

interpretation record_purge: purging N "purgeRecordMessages N" for N
  by unfold_locales (rule purgeRecordMessages_removes)

lemma purge_squashed_step:
  "purge_squashed N tenant w s ((recordId, messages) # gs) = Inr s' \<Longrightarrow>
     purge_squashed N tenant w s gs = Inr s'
   \<or> (\<exists>s1. purgeRecordMessages N tenant s messages = Inr s1 \<and> purge_squashed N tenant w s1 gs = Inr s')"
  by (auto simp: bind_eq_Inr split: if_splits option.splits)

lemma purge_squashed_removes:
  "hash_ok N \<Longrightarrow> node_ok N s \<Longrightarrow> purge_squashed N tenant w s gs = Inr s' \<Longrightarrow> removed_rows N tenant s s'"
proof (induction gs arbitrary: s)
  case (Cons g gs)
  obtain r ms where g: "g = (r, ms)" by (cases g)
  from purge_squashed_step [OF Cons.prems(3) [unfolded g]] show ?case
  proof
    assume "purge_squashed N tenant w s gs = Inr s'"
    then show ?thesis by (rule Cons.IH [OF Cons.prems(1,2)])
  next
    assume "\<exists>s1. purgeRecordMessages N tenant s ms = Inr s1 \<and> purge_squashed N tenant w s1 gs = Inr s'"
    then obtain s1 where s1: "purgeRecordMessages N tenant s ms = Inr s1" "purge_squashed N tenant w s1 gs = Inr s'" by blast
    have "removed_rows N tenant s1 s'" by (rule Cons.IH [OF Cons.prems(1) record_purge.keeps_ok [OF Cons.prems(1,2) s1(1)] s1(2)])
    with record_purge.removes [OF Cons.prems(1,2) s1(1)] show ?thesis by (rule removed_rows_trans)
  qed
qed (simp add: removed_rows_refl)

interpretation squash_purge: purging N "performRecordsSquash N" for N
  by unfold_locales (auto simp: performRecordsSquash_def bind_eq_Inr intro: purge_squashed_removes)

interpretation permissions_purge: purging N "permissions_postProcessWrite N" for N
proof
  fix s tenant s' and x :: records_write
  assume a: "hash_ok N" "node_ok N s" "permissions_postProcessWrite N tenant s x = Inr s'"
  show "removed_rows N tenant s s'"
  proof (cases "s' = s")
    case True
    then show ?thesis using removed_rows_refl [OF a(2)] by simp
  next
    case False
    then obtain cs store ds where "delete_messages (ne_store N tenant) (n_messages s tenant) cs = Inr store"
      "s' = \<lparr>n_messages = (n_messages s)(tenant := store), n_data = ds\<rparr>"
      using a(3) by (auto simp: permissions_postProcessWrite_def Let_def bind_eq_Inr split: option.splits if_splits)
    with delete_messages_removes [OF a(1,2)] show ?thesis by blast
  qed
qed

lemma purge_groups_removes:
  "hash_ok N \<Longrightarrow> node_ok N s \<Longrightarrow> purge_groups N tenant s gs = Inr s' \<Longrightarrow> removed_rows N tenant s s'"
proof (induction N tenant s gs rule: purge_groups.induct)
  case (2 N tenant s r ms gs)
  then obtain s1 where s1: "purgeRecordMessages N tenant s ms = Inr s1" "purge_groups N tenant s1 gs = Inr s'"
    by (auto simp: bind_eq_Inr)
  have "removed_rows N tenant s1 s'" by (rule 2(1) [OF 2(2) record_purge.keeps_ok [OF 2(2,3) s1(1)] s1(2)])
  with record_purge.removes [OF 2(2,3) s1(1)] show ?case by (rule removed_rows_trans)
qed (simp add: removed_rows_refl)

lemma purgeRecordDescendants_removes:
  "purgeRecordDescendants n N tenant s r = Some (Inr s') \<Longrightarrow> hash_ok N \<Longrightarrow> node_ok N s \<Longrightarrow> removed_rows N tenant s s'"
  "purge_children n N tenant s rs = Some (Inr s') \<Longrightarrow> hash_ok N \<Longrightarrow> node_ok N s \<Longrightarrow> removed_rows N tenant s s'"
proof (induction n N tenant s r and n N tenant s rs arbitrary: s' and s' rule: purgeRecordDescendants_purge_children.induct)
  case (2 n N tenant s recordId)
  then obtain ms s1 where ms: "query_messages (ne_store N tenant) (n_messages s tenant) (children_query recordId) = Inr ms"
    and s1: "purge_children n N tenant s (map fst (groupSquashSiblingsByRecordId ms)) = Some (Inr s1)"
    and s': "purge_groups N tenant s1 (groupSquashSiblingsByRecordId ms) = Inr s'"
    by (auto simp: Let_def bind_eq_Inr split: sum.splits)
  have "removed_rows N tenant s s1" by (rule 2(1) [OF ms refl s1 2(3,4)])
  with purge_groups_removes [OF 2(3) removed_rows_ok s'] 2(4) show ?case using removed_rows_trans by blast
next
  case (4 n N tenant s r rs)
  then obtain s1 where s1: "purgeRecordDescendants n N tenant s r = Some (Inr s1)" "purge_children n N tenant s1 rs = Some (Inr s')"
    by (auto split: option.splits sum.splits)
  have "removed_rows N tenant s s1" by (rule 4(1) [OF s1(1) 4(4,5)])
  with 4(2) [OF s1(1) refl s1(2) 4(4)] removed_rows_ok [OF _ 4(5)] show ?case using removed_rows_trans by blast
qed (auto simp: removed_rows_refl)

section \<open>The handlers keep the invariant\<close>

lemma set_messages_ok:
  "node_ok N s \<Longrightarrow> tenant_ok (ne_store N tenant) store \<Longrightarrow> node_ok N \<lparr>n_messages = (n_messages s)(tenant := store), n_data = ds\<rparr>"
  by (simp add: node_ok_def)

lemma set_data_ok: "node_ok N (s\<lparr>n_data := ds\<rparr>) \<longleftrightarrow> node_ok N s"
  by (simp add: node_ok_def)

lemma transition_node_ok:
  assumes "hash_ok N" and "node_ok N s" and "query_all N s tenant (record_query rid) = Inr ex"
    and "commitLatestStateTransition N tenant s ex m idx ret = Inr (res, s')"
    and "is_record m" "message_recordId m = rid" "record_values idx rid time b" "\<And>d. m = DeleteMsg d \<Longrightarrow> b"
  shows "node_ok N s'"
proof -
  have ok: "tenant_ok (ne_store N tenant) (n_messages s tenant)" using assms(2) by (simp add: node_ok_def)
  have "tenant_ok (ne_store N tenant) (n_messages s' tenant)"
    by (rule transition_ok(1) [OF ok hash_okD [OF assms(1)] assms(3-8)])
  moreover have "n_messages s' t = n_messages s t" if "t \<noteq> tenant" for t
    by (rule transition_rows(5) [OF ok hash_okD [OF assms(1)] assms(3,4) that])
  ultimately show ?thesis using assms(2) by (metis node_ok_def)
qed

text \<open>The data of a write changes neither its record nor its timestamp.\<close>

lemma resolve_data_same:
  assumes "resolve_data H tenant s w stream newest initial = (Inr (w', latest), ds)"
  shows "\<exists>e. w' = w\<lparr>w_encodedData := e\<rparr>"
proof -
  have id: "w = w\<lparr>w_encodedData := w_encodedData w\<rparr>" by simp
  have "w' = w \<or> (\<exists>e. w' = w\<lparr>w_encodedData := e\<rparr>)"
    using assms
    by (auto simp: resolve_data_def processMessageWithDataStream_def processMessageWithoutDataStream_def Let_def bind_eq_Inr
        cloneAndAddEncodedData_def split: option.splits message.splits if_splits prod.splits sum.splits)
  with id show ?thesis by metis
qed

lemma commitRecordsWrite_ok:
  assumes "hash_ok (he_node H)" and "node_ok (he_node H) s" and "query_all (he_node H) s tenant (record_query (w_recordId (rw_message rw))) = Inr ex"
    and "commitRecordsWrite H tenant s rw stream ex newest initial = (r, s')"
  shows "node_ok (he_node H) s'"
proof -
  obtain res ds where d: "resolve_data H tenant s (rw_message rw) stream newest initial = (res, ds)" by fastforce
  show ?thesis
  proof (cases "s' = s \<or> s' = s\<lparr>n_data := ds\<rparr>")
    case True
    then show ?thesis using assms(2) set_data_ok by blast
  next
    case False
    then obtain w' latest idx put where r: "res = Inr (w', latest)"
      "write_indexes (ne_records (he_node H)) rw latest = Inr idx"
      "commitLatestStateTransition (he_node H) tenant (s\<lparr>n_data := ds\<rparr>) ex (WriteMsg w') idx [] = Inr (put, s')"
      using assms(4) d by (auto simp: commitRecordsWrite_def Let_def bind_eq_Inr split: sum.splits prod.splits)
    have "w_recordId w' = w_recordId (rw_message rw)" using resolve_data_same [of H tenant s "rw_message rw"] d r(1) by fastforce
    then show ?thesis
      using assms(2,3) write_indexes_values [OF r(2)]
      by (intro transition_node_ok [OF assms(1) _ _ r(3)]) (auto simp: set_data_ok)
  qed
qed

lemma completeData_alone:
  assumes ok: "tenant_ok E s" and c: "completeData E s c i d = Inr (CCompleted tok, s')"
  shows "\<exists>w. map_of (ts_blocks s) c = Some (WriteMsg w) \<and> (\<forall>c' r. row_of s c' = Some r \<and> of_record (w_recordId w) r \<longrightarrow> c' = c)"
proof -
  obtain w rows where w: "map_of (ts_blocks s) c = Some (WriteMsg w)"
    and q: "index_query (se_tn E) (ts_index s) [record_query (w_recordId w)] default_options = Inr rows"
    and alone: "\<forall>it \<in> set rows. fst it = c"
  proof -
    obtain p e m where g: "getLogEntryForMutation s c ''MessageStoreCompleteDataInvalidTarget'' = Inr (p, e)"
      and m: "readStoredMessage s c ''MessageStoreCompleteDataInvalidTarget'' = Inr m"
      using c by (auto simp: completeData_def bind_eq_Inr)
    have o: "default_options = record_query_options"
      by (simp add: default_options_def buildQueryOptions_def no_sort_def no_pagination_def record_query_options_def)
    obtain w where w: "m = WriteMsg w" using c g m by (cases m) (auto simp: completeData_def)
    with c g m obtain rows where "index_query (se_tn E) (ts_index s) [record_query (w_recordId w)] default_options = Inr rows"
      "\<forall>it \<in> set rows. fst it = c"
      unfolding o record_query_def by (auto simp: completeData_def bind_eq_Inr split: if_splits)
    moreover have "map_of (ts_blocks s) c = Some m" using m by (simp add: readStoredMessage_def split: option.splits)
    ultimately show ?thesis using w that by blast
  qed
  have "set rows = {it \<in> set (ts_index s). matchFilter (se_tn E) (snd it) (record_query (w_recordId w))}"
    using index_query_default [OF tenant_okD(2,5) [OF ok] record_query_valid, of "se_tn E" "w_recordId w"] q
    by (auto simp: matchAnyFilter_iff)
  then have "c' = c" if "row_of s c' = Some r" "of_record (w_recordId w) r" for c' r
    using alone index_rows(1) [OF tenant_okD(2) [OF ok], of c' "r_indexes r"] record_query_matches [OF tenant_okD(3) [OF ok that(1)]] that
    by (metis (mono_tags, lifting) fst_conv mem_Collect_eq snd_conv)
  with w show ?thesis by blast
qed

lemma completeData_ok:
  assumes ok: "tenant_ok E s" and hash: "\<And>c. length (se_hash E c) = 32" and c: "completeData E s c i d = Inr (res, s')"
    and q: "row_of s c = Some q" "of_record rid q" and v: "record_values i rid t True"
  shows "tenant_ok E s'"
proof (cases res)
  case (CCompleted tok)
  note C = completeData_rows [OF tenant_okD(1) [OF ok] hash c, of tok]
  obtain w where w: "map_of (ts_blocks s) c = Some (WriteMsg w)"
    "\<And>c' r. row_of s c' = Some r \<Longrightarrow> of_record (w_recordId w) r \<Longrightarrow> c' = c"
    using completeData_alone [OF ok c [unfolded CCompleted]] by blast
  from q(1) w(1) have qw: "r_message q = WriteMsg w" by (auto simp: row_of_def split: option.splits)
  then have rid: "w_recordId w = rid" using q(2) by (simp add: of_record_def)
  obtain r where r: "row_of s' = (row_of s)(c \<mapsto> r)" "r_indexes r = i" "r_message r = completed_message w d"
    using C CCompleted q(1) qw by auto
  have "row_ok r" by (rule row_okI [of r t True]) (use r v rid in \<open>auto simp: completed_message_def split: option.splits\<close>)
  moreover have "single_latest s'" unfolding single_latest_def
  proof (intro allI impI, elim conjE)
    fix rid' c1 c2 r1 r2 assume a: "row_of s' c1 = Some r1" "row_of s' c2 = Some r2" "of_record rid' r1" "of_record rid' r2"
      "latest_row r1" "latest_row r2"
    have "of_record rid r" using r(3) rid by (simp add: of_record_def completed_message_def split: option.splits)
    then have other: "c' = c" if "row_of s' c' = Some r'" "of_record rid r'" for c' r'
      using that w(2) [of c' r'] r(1) rid by (cases "c' = c") auto
    show "c1 = c2"
    proof (cases "rid' = rid")
      case True
      then show ?thesis using other [of c1 r1] other [of c2 r2] a by simp
    next
      case False
      then have "\<not> of_record rid' r" using \<open>of_record rid r\<close> by (auto simp: of_record_def)
      then have "row_of s c1 = Some r1" "row_of s c2 = Some r2" using a r(1) by (auto split: if_splits)
      then show ?thesis using tenant_okD(4) [OF ok] a unfolding single_latest_def by blast
    qed
  qed
  ultimately show ?thesis using C r(1) tenant_okD(3) [OF ok] by (auto simp: tenant_ok_def)
qed (use completeData_rows [OF tenant_okD(1) [OF ok] hash c] ok in auto)

text \<open>The hooks behind a write purge at most.\<close>

definition hooks_ok :: "handler_env \<Rightarrow> bool" where
  "hooks_ok H \<longleftrightarrow> (\<forall>m f. m \<in> snd ` set (he_core H) \<and> cm_postProcessWrite m = Some f \<longrightarrow> purging (he_node H) f)"

lemma post_process_ok:
  assumes "hash_ok (he_node H)" and "hooks_ok H" and "node_ok (he_node H) s"
    and "(case getCoreModuleForWrite H w of
            Some m \<Rightarrow> (case cm_postProcessWrite m of Some f \<Rightarrow> f tenant s rw | None \<Rightarrow> Inr s) | None \<Rightarrow> Inr s) = Inr s'"
  shows "node_ok (he_node H) s'"
proof (cases "s' = s")
  case False
  with assms(4) obtain m f where m: "getCoreModuleForWrite H w = Some m" "cm_postProcessWrite m = Some f" "f tenant s rw = Inr s'"
    by (auto split: option.splits)
  then have "m \<in> snd ` set (he_core H)" using map_of_SomeD by (force simp: getCoreModuleForWrite_def)
  with assms(2) m have "purging (he_node H) f" by (auto simp: hooks_ok_def)
  from purging.keeps_ok [OF this assms(1,3) m(3)] show ?thesis .
qed (use assms in simp)

lemma squash_step_ok:
  "hash_ok N \<Longrightarrow> node_ok N s \<Longrightarrow> (if b then performRecordsSquash N tenant s w else Inr s) = Inr s' \<Longrightarrow> node_ok N s'"
  using squash_purge.keeps_ok by (auto split: if_splits)

lemma apply_write_ok:
  assumes "hash_ok (he_node H)" and "hooks_ok H" and "node_ok (he_node H) s"
    and "query_all (he_node H) s tenant (record_query (w_recordId (rw_message rw))) = Inr ex"
    and "apply_write H tenant s rw stream ex initial = Inr (rp, s')"
  shows "node_ok (he_node H) s'"
proof -
  define newest where "newest = getNewestMessage (he_cids H) ex"
  obtain r s1 where c: "commitRecordsWrite H tenant s rw stream ex newest initial = (r, s1)" by fastforce
  have ok1: "node_ok (he_node H) s1" by (rule commitRecordsWrite_ok [OF assms(1,3,4) c])
  show ?thesis
  proof (cases "s' = s \<or> s' = s1")
    case True
    then show ?thesis using assms(3) ok1 by auto
  next
    case False
    with assms(5) c obtain s2 where "(if wd_squash (w_descriptor (rw_message rw)) = Some True
        then performRecordsSquash (he_node H) tenant s1 (rw_message rw) else Inr s1) = Inr s2"
      and p: "(case getCoreModuleForWrite H (rw_message rw) of
            Some m \<Rightarrow> (case cm_postProcessWrite m of Some f \<Rightarrow> f tenant s2 rw | None \<Rightarrow> Inr s2) | None \<Rightarrow> Inr s2) = Inr s'"
      by (auto simp: apply_write_def Let_def bind_eq_Inr newest_def [symmetric] split: sum.splits if_splits prod.splits)
    from squash_step_ok [OF assms(1) ok1 this(1)] post_process_ok [OF assms(1,2) _ p] show ?thesis by blast
  qed
qed

lemma complete_existing_ok:
  assumes "hash_ok (he_node H)" and ok: "node_ok (he_node H) s"
    and q: "row_of (n_messages s tenant) c = Some q" "of_record (w_recordId (rw_message rw)) q"
    and r: "complete_existing H tenant s rw c content = Inr (rp, s')"
  shows "node_ok (he_node H) s'"
proof -
  let ?E = "ne_store (he_node H) tenant"
  obtain p ds where p: "processMessageWithDataStream H tenant s (rw_message rw) content = (p, ds)" by fastforce
  have ok': "tenant_ok ?E (n_messages s tenant)" using ok by (simp add: node_ok_def)
  consider "s' = s\<lparr>n_data := ds\<rparr>"
    | i res d store where "write_indexes (ne_records (he_node H)) rw True = Inr i"
      "completeData ?E (n_messages s tenant) c i d = Inr (res, store)"
      "s' = s\<lparr>n_data := ds, n_messages := (n_messages s)(tenant := store)\<rparr>"
    using r p by (fastforce simp: complete_existing_def Let_def bind_eq_Inr split: sum.splits prod.splits complete_result.splits
        if_splits js_error.splits)
  then show ?thesis
  proof cases
    case 1
    then show ?thesis using ok by (simp add: set_data_ok)
  next
    case 2
    have "tenant_ok ?E store"
      by (rule completeData_ok [OF ok' _ 2(2) q write_indexes_values [OF 2(1)]]) (use hash_okD [OF assms(1)] in simp)
    then show ?thesis using ok 2(3) by (simp add: node_ok_def)
  qed
qed

lemma handle_write_ok:
  assumes "hash_ok (he_node H)" and "hooks_ok H" and ok: "node_ok (he_node H) s"
    and r: "handle_write H tenant s w stream = Inr (rp, s')"
  shows "node_ok (he_node H) s'"
proof (cases "s' = s")
  case False
  let ?N = "he_node H" and ?c = "getCid (he_cids H) (WriteMsg w)"
  obtain rw ex where rw: "parse_write (ne_records ?N) w = Inr rw" and ex: "query_all ?N s tenant (record_query (w_recordId w)) = Inr ex"
    using r False by (auto simp: handle_write_def bind_eq_Inr split: sum.splits)
  have w: "rw_message rw = w" by (rule parse_write_message [OF rw])
  have ok': "tenant_ok (ne_store ?N tenant) (n_messages s tenant)" using ok by (simp add: node_ok_def)
  show ?thesis
  proof (cases "find (\<lambda>m. getCid (he_cids H) m = ?c) ex")
    case None
    then obtain initial where "apply_write H tenant s rw stream ex initial = Inr (rp, s')"
      using r False rw ex by (auto simp: handle_write_def bind_eq_Inr Let_def split: option.splits)
    with apply_write_ok [OF assms(1,2) ok, of tenant rw] ex w show ?thesis by blast
  next
    case (Some m)
    then have m: "m \<in> set ex" "getCid (he_cids H) m = ?c" by (auto simp: find_Some_iff)
    have "\<exists>content. complete_existing H tenant s rw ?c content = Inr (rp, s')"
      using r False rw ex Some by (auto simp: handle_write_def handleExistingRecordsWrite_def bind_eq_Inr Let_def
          split: option.splits message.splits if_splits)
    then obtain content where "complete_existing H tenant s rw ?c content = Inr (rp, s')" by blast
    moreover obtain q where "row_of (n_messages s tenant) ?c = Some q" "of_record (w_recordId w) q"
    proof -
      obtain q c' where q: "m = r_message q" "row_of (n_messages s tenant) c' = Some q" "of_record (w_recordId w) q"
        using m(1) unfolding record_query_set [OF ok' ex] by blast
      with row_cid [OF ok' q(2)] m(2) have "c' = ?c" by simp
      with q that show ?thesis by blast
    qed
    ultimately show ?thesis using complete_existing_ok [OF assms(1) ok] w by blast
  qed
qed (use ok in simp)

lemma commit_tombstone_ok:
  assumes "hash_ok N" and "node_ok N s" and "query_all N s tenant (record_query (dd_recordId (d_descriptor d))) = Inr ex"
    and "commit_tombstone N tenant s ex d = Inr (res, s')"
  shows "node_ok N s'"
proof -
  obtain iw nw where "(case (iw, nw) of (WriteMsg i, WriteMsg v) \<Rightarrow>
        commitLatestStateTransition N tenant s ex (DeleteMsg d) (delete_indexes d i v) [nw]
      | _ \<Rightarrow> Inl (OtherError (js ''TypeError''))) = Inr (res, s')"
    using assms(4) unfolding commit_tombstone_def Let_def bind_eq_Inr by blast
  then obtain i v ret where "commitLatestStateTransition N tenant s ex (DeleteMsg d) (delete_indexes d i v) ret = Inr (res, s')"
    by (cases iw; cases nw) auto
  then show ?thesis by (intro transition_node_ok [OF assms(1-3)]) (auto intro: delete_indexes_values)
qed

lemma performRecordsDelete_ok:
  assumes "hash_ok N" and "node_ok N s" and r: "performRecordsDelete n N tenant s d = Some (Inr (p, s'))"
  shows "node_ok N s'"
proof (cases "s' = s")
  case False
  with r obtain ex res s1 where ex: "query_all N s tenant (record_query (dd_recordId (d_descriptor d))) = Inr ex"
    and t: "commit_tombstone N tenant s ex d = Inr (res, s1)"
    and s': "s' = s1 \<or> purgeRecordDescendants n N tenant s1 (dd_recordId (d_descriptor d)) = Some (Inr s')"
    by (auto simp: performRecordsDelete_def bind_eq_Inr split: sum.splits option.splits if_splits)
  have "node_ok N s1" by (rule commit_tombstone_ok [OF assms(1,2) ex t])
  with s' purgeRecordDescendants_removes(1) [OF _ assms(1)] removed_rows_ok show ?thesis by blast
qed (use assms in simp)

lemma handle_delete_ok:
  assumes "hash_ok (he_node H)" and "node_ok (he_node H) s" and r: "handle_delete n H tenant s d = Some (Inr (rp, s'))"
  shows "node_ok (he_node H) s'"
proof (cases "s' = s")
  case False
  with r obtain p where "performRecordsDelete n (he_node H) tenant s d = Some (Inr (p, s'))"
    by (auto simp: handle_delete_def bind_eq_Inr split: sum.splits option.splits if_splits)
  then show ?thesis using performRecordsDelete_ok assms by blast
qed (use assms in simp)

section \<open>Reachable nodes\<close>

text \<open>A handled message is a step, whatever its reply.\<close>

inductive node_step :: "handler_env \<Rightarrow> node \<Rightarrow> node \<Rightarrow> bool" for H where
  written: "handle_write H tenant s w stream = Inr (rp, s') \<Longrightarrow> node_step H s s'"
| deleted: "handle_delete n H tenant s d = Some (Inr (rp, s')) \<Longrightarrow> node_step H s s'"

inductive node_reachable :: "handler_env \<Rightarrow> node \<Rightarrow> node \<Rightarrow> bool" for H where
  here: "node_reachable H s s"
| further: "node_reachable H s t \<Longrightarrow> node_step H t u \<Longrightarrow> node_reachable H s u"

definition empty_node :: node where
  "empty_node = \<lparr>n_messages = (\<lambda>_. empty_store), n_data = empty_data\<rparr>"

lemma empty_node_ok: "node_ok N empty_node"
proof -
  have "row_of empty_store c = None" for c by (simp add: row_of_def empty_store_def)
  then show ?thesis using empty_store_ok by (simp add: node_ok_def empty_node_def tenant_ok_def single_latest_def)
qed

lemma node_step_ok: "node_step H s s' \<Longrightarrow> hash_ok (he_node H) \<Longrightarrow> hooks_ok H \<Longrightarrow> node_ok (he_node H) s \<Longrightarrow> node_ok (he_node H) s'"
  by (induction rule: node_step.induct) (blast intro: handle_write_ok handle_delete_ok)+

lemma node_reachable_ok:
  "node_reachable H s s' \<Longrightarrow> hash_ok (he_node H) \<Longrightarrow> hooks_ok H \<Longrightarrow> node_ok (he_node H) s \<Longrightarrow> node_ok (he_node H) s'"
  by (induction rule: node_reachable.induct) (blast intro: node_step_ok)+

end
