(* ===== verification/Handler_Properties.thy ===== *)
theory Handler_Properties
  imports Latest_State
begin

text \<open>
  What the handlers of writes and deletes guarantee, over the invariant of a node.
\<close>

section \<open>Refusals\<close>

lemma messageReplyFromError_code [simp]: "rp_code (messageReplyFromError e n) = n"
  by (simp add: messageReplyFromError_def split: js_error.splits)

lemma status_reply_code [simp]: "rp_code (status_reply n d) = n"
  by (simp add: status_reply_def)

lemma mapCommitWriteErrorToReply_code: "mapCommitWriteErrorToReply H e = Inr rp \<Longrightarrow> rp_code rp = 400"
  by (auto simp: mapCommitWriteErrorToReply_def split: js_error.splits if_splits)

lemma verifyImmutablePropertiesReply_code: "verifyImmutablePropertiesReply i w = Some rp \<Longrightarrow> rp_code rp = 400"
  by (auto simp: verifyImmutablePropertiesReply_def split: option.splits message.splits sum.splits)

lemma admit_write_code: "admit_write H tenant s rw ex initial = Some rp \<Longrightarrow> rp_code rp \<in> {400, 401, 409}"
  using verifyImmutablePropertiesReply_code
  by (fastforce simp: admit_write_def Let_def split: sum.splits option.splits)

lemma commitRecordsWrite_error:
  "commitRecordsWrite H tenant s rw stream ex newest initial = (Inl e, s') \<Longrightarrow> n_messages s' = n_messages s"
  by (auto simp: commitRecordsWrite_def Let_def split: sum.splits prod.splits)

definition refused :: "nat set \<Rightarrow> node \<Rightarrow> reply \<times> node \<Rightarrow> bool" where
  "refused codes s r \<longleftrightarrow> rp_code (fst r) \<in> codes \<and> n_messages (snd r) = n_messages s"

definition write_outcome :: "node \<Rightarrow> reply \<times> node \<Rightarrow> bool" where
  "write_outcome s r \<longleftrightarrow> rp_code (fst r) \<in> {202, 204} \<or> refused {400, 401, 409} s r"

lemma apply_write_outcome: "apply_write H tenant s rw stream ex initial = Inr r \<Longrightarrow> write_outcome s r"
  using mapCommitWriteErrorToReply_code commitRecordsWrite_error
  by (fastforce simp: apply_write_def Let_def bind_eq_Inr write_outcome_def refused_def split: if_splits sum.splits prod.splits)

lemma complete_existing_outcome:
  assumes "complete_existing H tenant s rw c content = Inr r"
  shows "write_outcome s r"
proof -
  let ?E = "ne_store (he_node H) tenant"
  have same: "store = n_messages s tenant"
    if "completeData ?E (n_messages s tenant) c i d = Inr (res, store)" "res = CDuplicate \<or> res = CSuperseded" for i d res store
    using completeData_cases [OF that(1)] that(2) by (metis complete_result.distinct(3,5))
  show ?thesis using assms mapCommitWriteErrorToReply_code same
    by (fastforce simp: complete_existing_def Let_def bind_eq_Inr write_outcome_def refused_def
        split: sum.splits prod.splits complete_result.splits if_splits js_error.splits)
qed

lemma conflict_outcome: "write_outcome s (status_reply 409 d, s)"
  by (simp add: write_outcome_def refused_def)

lemma handleExisting_outcome:
  assumes "handleExistingRecordsWrite H tenant s rw m advanced c stream = Inr r"
  shows "write_outcome s r"
proof (cases "r = (status_reply 409 ''Conflict'', s)")
  case True
  then show ?thesis by (simp only: conflict_outcome)
next
  case False
  then obtain content where "complete_existing H tenant s rw c content = Inr r"
    using assms by (cases stream; cases m) (auto simp: handleExistingRecordsWrite_def bind_eq_Inr split: if_splits)
  then show ?thesis by (rule complete_existing_outcome)
qed

lemma handle_write_outcome:
  assumes "handle_write H tenant s w stream = Inr r"
  shows "write_outcome s r"
proof (cases "parse_write (ne_records (he_node H)) w")
  case (Inl e)
  then show ?thesis using assms by (auto simp: handle_write_def write_outcome_def refused_def)
next
  case (Inr rw)
  let ?c = "getCid (he_cids H) (WriteMsg w)"
  obtain ex where ex: "query_all (he_node H) s tenant (record_query (w_recordId w)) = Inr ex"
    using assms Inr by (auto simp: handle_write_def bind_eq_Inr)
  show ?thesis
  proof (cases "find (\<lambda>m. getCid (he_cids H) m = ?c) ex")
    case (Some m)
    then show ?thesis using assms Inr ex handleExisting_outcome by (auto simp: handle_write_def)
  next
    case None
    obtain initial where i: "rw_isInitialWrite (he_cids H) rw = Inr initial"
      using assms Inr ex None by (auto simp: handle_write_def bind_eq_Inr)
    show ?thesis
      using assms Inr ex None i admit_write_code [of H tenant s rw ex initial] apply_write_outcome
      by (cases "admit_write H tenant s rw ex initial") (auto simp: handle_write_def write_outcome_def refused_def)
  qed
qed

lemma delete_error_reply_code: "rp_code (delete_error_reply e) \<in> {400, 401}"
  by (simp add: delete_error_reply_def control_mapErrorToStatusCode_def split: js_error.splits option.splits)

lemma handle_delete_outcome:
  assumes "handle_delete n H tenant s d = Some (Inr (rp, s'))"
  shows "rp_code rp = 202 \<or> rp_code rp \<in> {400, 401, 404, 409} \<and> s' = s"
  using assms delete_error_reply_code
  by (fastforce simp: handle_delete_def bind_eq_Inr split: sum.splits option.splits if_splits)

section \<open>Accepted writes\<close>

text \<open>An accepted message that is not stored yet goes through one transition.\<close>

lemma commitRecordsWrite_accepted:
  assumes "commitRecordsWrite H tenant s rw stream ex newest initial = (Inr p, s')"
  obtains w' latest idx ds put where "resolve_data H tenant s (rw_message rw) stream newest initial = (Inr (w', latest), ds)"
    "write_indexes (ne_records (he_node H)) rw latest = Inr idx" "p = put_position put"
    "commitLatestStateTransition (he_node H) tenant (s\<lparr>n_data := ds\<rparr>) ex (WriteMsg w') idx [] = Inr (put, s')"
  using assms by (auto simp: commitRecordsWrite_def Let_def bind_eq_Inr split: sum.splits prod.splits)

lemma resolve_data_latest:
  "resolve_data H tenant s w stream newest initial = (Inr (w', latest), ds) \<Longrightarrow> latest \<longleftrightarrow> stream \<noteq> None \<or> \<not> initial"
  by (auto simp: resolve_data_def bind_eq_Inr Let_def split: option.splits if_splits message.splits prod.splits)

lemma newest_all:
  assumes "getNewestMessage C ms = None \<or> (\<exists>n. getNewestMessage C ms = Some n \<and> isNewer C m n)" and "x \<in> set ms"
  shows "isNewer C m x"
proof -
  obtain n where n: "getNewestMessage C ms = Some n" "isNewer C m n" using assms by (cases ms) auto
  have "\<not> isNewer C x n" using newest_max [OF n(1)] assms(2) by (simp add: isNewer_age)
  with n(2) show ?thesis by (simp add: isNewer_age)
qed

lemma apply_write_accepted:
  assumes "apply_write H tenant s rw stream ex initial = Inr (rp, s')" and "rp_code rp \<in> {202, 204}"
    and "wd_squash (w_descriptor (rw_message rw)) \<noteq> Some True" and "getCoreModuleForWrite H (rw_message rw) = None"
  shows "(\<forall>x \<in> set ex. isNewer (he_cids H) (WriteMsg (rw_message rw)) x)
     \<and> (\<exists>p. commitRecordsWrite H tenant s rw stream ex (getNewestMessage (he_cids H) ex) initial = (Inr p, s'))
     \<and> (rp_code rp = 202 \<longleftrightarrow> \<not> (initial \<and> stream = None))"
proof -
  define newest where "newest = getNewestMessage (he_cids H) ex"
  have newer: "newest = None \<or> (\<exists>n. newest = Some n \<and> isNewer (he_cids H) (WriteMsg (rw_message rw)) n)"
    using assms(1,2) by (cases newest) (auto simp: apply_write_def Let_def newest_def [symmetric] split: if_splits)
  then have "\<not> (case newest of None \<Rightarrow> False | Some m \<Rightarrow> \<not> isNewer (he_cids H) (WriteMsg (rw_message rw)) m)"
    by (auto split: option.splits)
  then have "(case commitRecordsWrite H tenant s rw stream ex newest initial of
        (Inl e, s1) \<Rightarrow> bind (mapCommitWriteErrorToReply H e) (\<lambda>rp. Inr (rp, s1))
      | (Inr position, s1) \<Rightarrow> Inr ((if initial \<and> stream = None then status_reply 204 ''No Content'' else status_reply 202 ''Accepted'')
                 \<lparr>rp_position := position\<rparr>, s1)) = Inr (rp, s')"
    using assms(1,3,4) by (simp add: apply_write_def Let_def newest_def [symmetric] cong: sum.case_cong)
  with assms(2) mapCommitWriteErrorToReply_code newest_all [OF newer [unfolded newest_def]] show ?thesis
    unfolding newest_def [symmetric] by (auto simp: bind_eq_Inr split: prod.splits sum.splits if_splits)
qed

text \<open>An accepted write that is not stored yet was admitted, and then applied.\<close>

lemma handle_write_new:
  assumes ok: "node_ok (he_node H) s" and r: "handle_write H tenant s w stream = Inr (rp, s')" and code: "rp_code rp \<in> {202, 204}"
    and new: "row_of (n_messages s tenant) (getCid (he_cids H) (WriteMsg w)) = None"
  obtains rw ex initial where "parse_write (ne_records (he_node H)) w = Inr rw" "rw_message rw = w"
    "query_all (he_node H) s tenant (record_query (w_recordId w)) = Inr ex"
    "set ex = {r_message r | r c. row_of (n_messages s tenant) c = Some r \<and> of_record (w_recordId w) r}"
    "rw_isInitialWrite (he_cids H) rw = Inr initial"
    "admit_write H tenant s rw ex initial = None" "apply_write H tenant s rw stream ex initial = Inr (rp, s')"
proof -
  let ?N = "he_node H" and ?c = "getCid (he_cids H) (WriteMsg w)"
  have ok': "tenant_ok (ne_store ?N tenant) (n_messages s tenant)" using ok by (simp add: node_ok_def)
  obtain rw where rw: "parse_write (ne_records ?N) w = Inr rw"
    using r code by (auto simp: handle_write_def split: sum.splits)
  obtain ex where ex: "query_all ?N s tenant (record_query (w_recordId w)) = Inr ex"
    using r rw by (auto simp: handle_write_def bind_eq_Inr)
  note set_ex = record_query_set [OF ok' ex]
  have none: "find (\<lambda>m. getCid (he_cids H) m = ?c) ex = None"
  proof (rule ccontr)
    assume "find (\<lambda>m. getCid (he_cids H) m = ?c) ex \<noteq> None"
    then obtain m where "m \<in> set ex" "getCid (he_cids H) m = ?c" by (auto simp: find_None_iff)
    then obtain q c where "row_of (n_messages s tenant) c = Some q" "getCid (he_cids H) (r_message q) = ?c"
      unfolding set_ex by blast
    with row_cid [OF ok' this(1)] new show False by simp
  qed
  obtain initial where i: "rw_isInitialWrite (he_cids H) rw = Inr initial"
    using r rw ex none by (auto simp: handle_write_def bind_eq_Inr)
  have a: "admit_write H tenant s rw ex initial = None"
    using r rw ex none i code admit_write_code [of H tenant s rw ex initial]
    by (cases "admit_write H tenant s rw ex initial") (auto simp: handle_write_def)
  show ?thesis
    by (rule that [OF rw parse_write_message [OF rw] ex set_ex i a]) (use r rw ex none i a in \<open>simp add: handle_write_def\<close>)
qed

section \<open>Examples\<close>

text \<open>A node that accepts every signature and whose module rules allow everything; the permissions
  module is registered.\<close>

definition live_cids :: cids where
  "live_cids = example_cids\<lparr>cid_entry := (\<lambda>d author. wd_messageTimestamp d)\<rparr>"

definition live_signature :: "signature_payload \<Rightarrow> authorization" where
  "live_signature p = \<lparr>a_signature = \<lparr>jws_payload = Some p, jws_kid = js ''did:a#k'', jws_more_kids = []\<rparr>,
     a_authorDelegatedGrant = None, a_ownerSignature = None, a_ownerDelegatedGrant = None\<rparr>"

definition live_write :: "jstr \<Rightarrow> jstr \<Rightarrow> jstr option \<Rightarrow> write_message" where
  "live_write r t p = (let w = example_write r t; c = (case p of None \<Rightarrow> r | Some q \<Rightarrow> q @ [slash] @ r) in
     w\<lparr>w_authorization := live_signature \<lparr>sp_descriptorCid = t, sp_permissionGrantId = None, sp_permissionGrantIds = None,
         sp_delegatedGrantId = None, sp_moduleRole = None, sp_recordId = Some r, sp_contextId = Some c,
         sp_attestationCid = None, sp_encryptionCid = None\<rparr>,
       w_contextId := c,
       w_descriptor := (w_descriptor w)\<lparr>wd_module := js ''a:b'', wd_parentId := p, wd_dataCid := [1]\<rparr>\<rparr>)"

definition live_delete :: "jstr \<Rightarrow> jstr \<Rightarrow> bool \<Rightarrow> delete_message" where
  "live_delete r t prune = (example_delete r t prune)\<lparr>d_authorization := live_signature \<lparr>sp_descriptorCid = t,
     sp_permissionGrantId = None, sp_permissionGrantIds = None, sp_delegatedGrantId = None, sp_moduleRole = None,
     sp_recordId = None, sp_contextId = None, sp_attestationCid = None, sp_encryptionCid = None\<rparr>\<rparr>"

definition live_node_env :: node_env where
  "live_node_env = \<lparr>ne_records = example_records_env\<lparr>re_cids := live_cids\<rparr>,
     ne_hash = (\<lambda>c. take 32 (map of_nat c @ replicate 32 0)),
     ne_streamId = id, ne_epoch = js ''e'', ne_tn = (\<lambda>_. None)\<rparr>"

definition live_env :: handler_env where
  "live_env = \<lparr>he_node = live_node_env, he_authenticate = (\<lambda>_ _. Inr ()),
     he_referential = (\<lambda>_ _ _. Inr no_rules), he_module_write = (\<lambda>_ _ _. Inr ()),
     he_module_delete = (\<lambda>_ _ _ _. Inr ()), he_control_authorize = (\<lambda>_ _ _. Inr ()),
     he_control_pre = (\<lambda>_ _ _. Inr ()), he_control_validate = (\<lambda>_ _ _ _. Inr ()),
     he_core = [(PERMISSIONS_MODULE_URI, \<lparr>cm_validateRecord = None,
       cm_preProcessWrite = Some (permissions_preProcessWrite live_node_env),
       cm_postProcessWrite = Some (permissions_postProcessWrite live_node_env),
       cm_mapErrorToStatusCode = Some permissions_mapErrorToStatusCode\<rparr>)],
     he_base64 = map unat\<rparr>"

definition day :: "nat \<Rightarrow> jstr" where
  "day n = js ''2025-01-0'' @ [48 + n] @ js ''T00:00:00.000000Z''"

abbreviation did :: jstr where
  "did \<equiv> js ''did:a''"

lemma live_hash_ok: "hash_ok (he_node live_env)"
  by (simp add: hash_ok_def live_env_def live_node_env_def min_def)

lemma live_hooks_ok: "hooks_ok live_env"
  using permissions_purge.purging_axioms [of live_node_env] by (simp add: hooks_ok_def live_env_def)

text \<open>A record is written on an empty node.\<close>

definition live_result :: "(reply \<times> node) result" where
  "live_result = handle_write live_env did empty_node (live_write (day 1) (day 1) None) (Some [1])"

definition live_state :: node where
  "live_state = snd (projr live_result)"

lemma live_accepted:
  "(case live_result of Inl _ \<Rightarrow> False | Inr (rp, s) \<Rightarrow> rp_code rp = 202 \<and>
      map (\<lambda>(c, i). map_of i ''isLatestBaseState'') (ts_index (n_messages s did)) = [Some (One (SBool True))])"
  by code_simp

section \<open>Properties\<close>

text \<open>C1: In every state that handled writes and deletes of any tenants can lead to from the empty
  node, whatever the replies, the message store of every tenant is consistent, every record has at most one message
  indexed as its latest base state, and a tombstone is always that message.\<close>

theorem single_latest_state:
  assumes "hash_ok (he_node H)" and "hooks_ok H" and "node_reachable H empty_node s"
  shows "store_ok (ne_store (he_node H) tenant) (n_messages s tenant) \<and> single_latest (n_messages s tenant)
     \<and> (\<forall>c r d. row_of (n_messages s tenant) c = Some r \<and> r_message r = DeleteMsg d \<longrightarrow> latest_row r)"
proof -
  have "node_ok (he_node H) s" by (rule node_reachable_ok [OF assms(3,1,2) empty_node_ok])
  then have ok: "tenant_ok (ne_store (he_node H) tenant) (n_messages s tenant)" by (simp add: node_ok_def)
  have "latest_row r" if "row_of (n_messages s tenant) c = Some r" "r_message r = DeleteMsg d" for c r d
    using tenant_okD(3) [OF ok that(1)] that(2) by (auto simp: row_ok_def record_values_def latest_row_def)
  with tenant_okD(1,4) [OF ok] show ?thesis by blast
qed

theorem single_latest_state_witness:
  "\<exists>rp. live_result = Inr (rp, live_state) \<and> rp_code rp = 202 \<and> single_latest (n_messages live_state did)"
proof -
  obtain rp s where r: "live_result = Inr (rp, s)" "rp_code rp = 202"
    using live_accepted by (auto split: sum.splits prod.splits)
  have "live_state = s" unfolding live_state_def r(1) by simp
  with r have rp: "live_result = Inr (rp, live_state)" "rp_code rp = 202" by simp_all
  then have "node_reachable live_env empty_node live_state"
    unfolding live_result_def by (intro node_reachable.further [OF node_reachable.here node_step.written])
  from single_latest_state [OF live_hash_ok live_hooks_ok this] rp show ?thesis by blast
qed

text \<open>C23: A refused message changes no message store, and its status tells why.\<close>

theorem refusal_changes_nothing:
  "(handle_write H tenant s w stream = Inr (rp, s') \<longrightarrow>
      rp_code rp \<in> {202, 204} \<or> rp_code rp \<in> {400, 401, 409} \<and> n_messages s' = n_messages s)
   \<and> (handle_delete n H tenant s d = Some (Inr (rp, s')) \<longrightarrow>
      rp_code rp = 202 \<or> rp_code rp \<in> {400, 401, 404, 409} \<and> s' = s)"
  using handle_write_outcome [of H tenant s w stream "(rp, s')"] handle_delete_outcome [of n H tenant s d rp s']
  by (auto simp: write_outcome_def refused_def)

theorem refusal_changes_nothing_witness:
  "\<exists>rp s'. handle_delete 1 live_env did empty_node (live_delete (day 1) (day 3) False) = Some (Inr (rp, s'))
     \<and> rp_code rp = 404 \<and> s' = empty_node"
proof -
  have "(case handle_delete 1 live_env did empty_node (live_delete (day 1) (day 3) False) of
      Some (Inr (rp, s)) \<Rightarrow> rp_code rp = 404 | _ \<Rightarrow> False)"
    by code_simp
  then obtain rp s' where r: "handle_delete 1 live_env did empty_node (live_delete (day 1) (day 3) False) = Some (Inr (rp, s'))"
    "rp_code rp = 404"
    by (auto split: option.splits sum.splits prod.splits)
  with refusal_changes_nothing [of live_env did empty_node _ _ rp s' 1] show ?thesis by auto
qed

text \<open>C4: An accepted write that was not stored before becomes the message of its record at the head of
  the log, as the latest base state unless it is an initial write without data (status 204).  It was
  newer than every stored message of the record; of these only the initial write stays, stripped of
  its inline data and no longer latest.  No message of another record changes.  (No squash, and no
  hook of a core module.)\<close>

theorem accepted_write_transition:
  fixes H tenant s w s' rp
  defines "S \<equiv> n_messages s tenant" and "S' \<equiv> n_messages s' tenant" and "nc \<equiv> getCid (he_cids H) (WriteMsg w)"
  assumes "hash_ok (he_node H)" and "node_ok (he_node H) s"
    and "handle_write H tenant s w stream = Inr (rp, s')" and "rp_code rp \<in> {202, 204}" and "row_of S nc = None"
    and "wd_squash (w_descriptor w) \<noteq> Some True" and "getCoreModuleForWrite H w = None"
  shows "(\<exists>r e. row_of S' nc = Some r \<and> r_message r = WriteMsg (w\<lparr>w_encodedData := e\<rparr>) \<and> r_position r = ts_head S + 1
        \<and> (latest_row r \<longleftrightarrow> rp_code rp = 202))
    \<and> (\<forall>c r. c \<noteq> nc \<and> row_of S c = Some r \<longrightarrow>
        (if of_record (w_recordId w) r
         then isNewer (he_cids H) (WriteMsg w) (r_message r) \<and> displaced_row r (row_of S' c)
            \<and> (row_of S' c \<noteq> None \<longleftrightarrow> isInitialWrite (he_cids H) (r_message r) = Inr True)
         else row_of S' c = Some r))"
proof -
  let ?N = "he_node H" and ?rid = "w_recordId w"
  have ok: "tenant_ok (ne_store ?N tenant) (n_messages s tenant)" using assms(5) by (simp add: node_ok_def)
  obtain rw ex initial where "parse_write (ne_records ?N) w = Inr rw" and rw: "rw_message rw = w"
    and ex: "query_messages (ne_store ?N tenant) S (record_query ?rid) = Inr ex"
    "set ex = {r_message r | r c. row_of S c = Some r \<and> of_record ?rid r}"
    and "rw_isInitialWrite (he_cids H) rw = Inr initial" "admit_write H tenant s rw ex initial = None"
    and a: "apply_write H tenant s rw stream ex initial = Inr (rp, s')"
    by (rule handle_write_new [OF assms(5-7) assms(8) [unfolded S_def nc_def], folded S_def])
  note A = apply_write_accepted [OF a assms(7), unfolded rw, OF assms(9,10)]
  obtain p where p: "commitRecordsWrite H tenant s rw stream ex (getNewestMessage (he_cids H) ex) initial = (Inr p, s')"
    using A by blast
  obtain w' latest idx ds put where c: "resolve_data H tenant s w stream (getNewestMessage (he_cids H) ex) initial = (Inr (w', latest), ds)"
    "write_indexes (ne_records ?N) rw latest = Inr idx" 
    "commitLatestStateTransition ?N tenant (s\<lparr>n_data := ds\<rparr>) ex (WriteMsg w') idx [] = Inr (put, s')"
    by (rule commitRecordsWrite_accepted [OF p, unfolded rw])
  obtain e where e: "w' = w\<lparr>w_encodedData := e\<rparr>" using resolve_data_same [OF c(1)] by blast
  have cid: "getCid (he_cids H) (WriteMsg w') = nc" by (simp add: nc_def e getCid_def)
  have "n_messages (s\<lparr>n_data := ds\<rparr>) = n_messages s" by simp
  note R = transition_rows [OF _ hash_okD [OF assms(4)] _ c(3), of ?rid, unfolded cid this, folded S_def S'_def,
      OF ok [folded S_def] ex(1)]
  have T: "row_of S' nc = Some \<lparr>r_position = ts_head S + 1, r_message = WriteMsg w', r_indexes = idx,
      r_scopes = computeFingerprintScopes (WriteMsg w') idx\<rparr>"
    "\<And>c r. c \<noteq> nc \<Longrightarrow> row_of S c = Some r \<Longrightarrow> of_record ?rid r \<Longrightarrow> displaced_row r (row_of S' c)
       \<and> (row_of S' c \<noteq> None \<longleftrightarrow> isInitialWrite (he_cids H) (r_message r) = Inr True)"
    "\<And>c r. c \<noteq> nc \<Longrightarrow> row_of S c = Some r \<Longrightarrow> \<not> of_record ?rid r \<Longrightarrow> row_of S' c = Some r"
    subgoal using R(2) assms(8) by simp
    subgoal for c r using R(3) [of c r] R(6) [of c r] by simp
    subgoal for c r using R(4) [of c] by simp
    done
  have "latest_row \<lparr>r_position = ts_head S + 1, r_message = WriteMsg w', r_indexes = idx,
      r_scopes = computeFingerprintScopes (WriteMsg w') idx\<rparr> \<longleftrightarrow> rp_code rp = 202"
    using A resolve_data_latest [OF c(1)] write_indexes_values [OF c(2)] by (auto simp: latest_row_def record_values_def)
  moreover have "isNewer (he_cids H) (WriteMsg w) (r_message r)" if "row_of S c = Some r" "of_record ?rid r" for c r
    using A ex(2) that by blast
  ultimately show ?thesis using T e by auto
qed

theorem accepted_write_transition_witness:
  "\<exists>r. row_of (n_messages live_state did) (getCid live_cids (WriteMsg (live_write (day 1) (day 1) None))) = Some r
     \<and> latest_row r \<and> r_position r = 1"
proof -
  obtain rp s where r: "live_result = Inr (rp, s)" "rp_code rp = 202"
    using live_accepted by (auto split: sum.splits prod.splits)
  have s: "live_state = s" unfolding live_state_def r(1) by simp
  have e: "n_messages empty_node did = empty_store" "ts_head empty_store = 0" "row_of empty_store c = None" for c
    by (simp_all add: empty_node_def empty_store_def row_of_def)
  have "he_cids live_env = live_cids" by (simp add: live_env_def live_node_env_def)
  moreover have "getCoreModuleForWrite live_env (live_write (day 1) (day 1) None) = None"
    "wd_squash (w_descriptor (live_write (day 1) (day 1) None)) \<noteq> Some True"
    by code_simp+
  ultimately show ?thesis
    using accepted_write_transition [OF live_hash_ok empty_node_ok r(1) [unfolded live_result_def]] r(2) e
    by (auto simp: s)
qed

section \<open>Data of refused writes\<close>

lemma data_delete_gone: "data_get (data_delete ds t r c) t r c = None"
proof (cases "map_of (ds_refs ds) (t, r, c)")
  case None
  then show ?thesis by (simp add: data_delete_def data_get_def)
next
  case (Some n)
  then show ?thesis by (auto simp: data_delete_def data_get_def Let_def delete_conv' split: option.splits if_splits)
qed

text \<open>C32: Data that fails its integrity check is removed by reference: when a newer write of a record
  announces the CID of large data and sends other bytes, the reply is a 400, the message stores
  are untouched, and no data is left under the reference, not even data that an earlier accepted
  write of the record stored there.\<close>

theorem corrupt_data_unwinds:
  assumes "wd_dataSize (w_descriptor (rw_message rw)) > maxDataSizeAllowedToBeEncoded"
    and "cid_bytes (he_cids H) content \<noteq> wd_dataCid (w_descriptor (rw_message rw))"
    and "\<forall>n. getNewestMessage (he_cids H) existing = Some n \<longrightarrow> isNewer (he_cids H) (WriteMsg (rw_message rw)) n"
    and "pre_checks H tenant s (rw_message rw) (Some content) (getNewestMessage (he_cids H) existing) = Inr ()"
  shows "\<exists>rp s'. apply_write H tenant s rw (Some content) existing initial = Inr (rp, s')
     \<and> rp_code rp = 400 \<and> rp_errorCode rp = Some ''RecordsWriteDataCidMismatch'' \<and> n_messages s' = n_messages s
     \<and> data_get (n_data s') tenant (w_recordId (rw_message rw)) (wd_dataCid (w_descriptor (rw_message rw))) = None"
proof -
  let ?w = "rw_message rw" and ?e = "DwnError ''RecordsWriteDataCidMismatch'' []"
  obtain size ds where p: "data_put (he_cids H) (n_data s) tenant (w_recordId ?w) (wd_dataCid (w_descriptor ?w)) content = (size, ds)"
    by fastforce
  define ds' where "ds' = data_delete ds tenant (w_recordId ?w) (wd_dataCid (w_descriptor ?w))"
  have "resolve_data H tenant s ?w (Some content) n initial = (Inl ?e, ds')" for n
    using assms(1,2) p by (simp add: resolve_data_def processMessageWithDataStream_def validateDataIntegrity_def ds'_def)
  then have c: "commitRecordsWrite H tenant s rw (Some content) existing (getNewestMessage (he_cids H) existing) initial
      = (Inl ?e, s\<lparr>n_data := ds'\<rparr>)"
    using assms(4) by (simp add: commitRecordsWrite_def)
  have "apply_write H tenant s rw (Some content) existing initial = Inr (messageReplyFromError ?e 400, s\<lparr>n_data := ds'\<rparr>)"
    using assms(3) c by (simp add: apply_write_def Let_def mapCommitWriteErrorToReply_def split: option.splits)
  then show ?thesis using data_delete_gone by (auto simp: messageReplyFromError_def ds'_def)
qed

text \<open>A record with large data, and an update of it that keeps the data.\<close>

definition large_content :: bytes where
  "large_content = replicate 40000 1"

definition large_write :: "jstr \<Rightarrow> write_message" where
  "large_write t = (let w = live_write (day 1) t None in
     w\<lparr>w_descriptor := (w_descriptor w)\<lparr>wd_dataCid := map unat large_content, wd_dataSize := 40000\<rparr>\<rparr>)"

definition large_update :: records_write where
  "large_update = \<lparr>rw_message = large_write (day 2), rw_author = Some did, rw_signaturePayload = None, rw_owner = None,
     rw_ownerSignaturePayload = None, rw_attesters = []\<rparr>"

definition large_node :: node where
  "large_node = empty_node\<lparr>n_data := snd (data_put live_cids empty_data did (day 1) (map unat large_content) large_content)\<rparr>"

lemma large_write_simps [simp]:
  "w_recordId (large_write t) = day 1" "wd_dataCid (w_descriptor (large_write t)) = map unat large_content"
  "wd_dataSize (w_descriptor (large_write t)) = 40000" "wd_messageTimestamp (w_descriptor (large_write t)) = t"
  "wd_module (w_descriptor (large_write t)) = js ''a:b''" "wd_modulePath (w_descriptor (large_write t)) = js ''p''"
  by (simp_all add: large_write_def live_write_def example_write_def Let_def)

lemma day_order: "day 1 < day 2"
  by (simp add: day_def)

lemma live_bytes: "cid_bytes live_cids = map unat" "he_cids live_env = live_cids"
  by (simp_all add: live_cids_def example_cids_def live_env_def live_node_env_def)

theorem corrupt_data_unwinds_witness:
  "\<exists>rp s'. data_get (n_data large_node) did (day 1) (map unat large_content) = Some (40000, large_content)
     \<and> apply_write live_env did large_node large_update (Some [2]) [WriteMsg (large_write (day 1))] False = Inr (rp, s')
     \<and> rp_code rp = 400 \<and> data_get (n_data s') did (day 1) (map unat large_content) = None"
proof -
  let ?ms = "[WriteMsg (large_write (day 1))]"
  have len: "length large_content = 40000" by (simp add: large_content_def)
  have get: "data_get (n_data large_node) did (day 1) (map unat large_content) = Some (40000, large_content)"
    using len by (simp add: large_node_def data_put_def data_get_def empty_data_def empty_node_def getBlocksPartition_def live_bytes)
  have n: "getNewestMessage (he_cids live_env) ?ms = Some (WriteMsg (large_write (day 1)))"
    by (rule getNewestMessage_eqI) simp_all
  have newer: "isNewer (he_cids live_env) (WriteMsg (rw_message large_update)) (WriteMsg (large_write (day 1)))"
    using day_order by (simp add: isNewer_age age_def large_update_def)
  have "length (map unat ([2] :: bytes)) \<noteq> length (map unat large_content)" by (simp add: len)
  then have "map unat ([2] :: bytes) \<noteq> map unat large_content" by metis
  moreover have "pre_checks live_env did large_node (rw_message large_update) (Some [2]) (Some (WriteMsg (large_write (day 1)))) = Inr ()"
  proof -
    have "getCoreModuleForWrite live_env (large_write (day 2)) = None" "\<not> isControlMessage (large_write (day 2))"
      by (simp_all add: getCoreModuleForWrite_def live_env_def isControlMessage_def PERMISSIONS_MODULE_URI_def isEncryptionControlPath_def
        ENCRYPTION_CONTROL_PATHS_def ENCRYPTION_CONTROL_AUDIENCE_PATH_def ENCRYPTION_CONTROL_DELIVERY_PATH_def ENCRYPTION_CONTROL_ROOT_PATH_def)
    then show ?thesis by (simp add: pre_checks_def large_update_def)
  qed
  ultimately have "\<exists>rp s'. apply_write live_env did large_node large_update (Some [2]) ?ms False = Inr (rp, s') \<and> rp_code rp = 400
     \<and> rp_errorCode rp = Some ''RecordsWriteDataCidMismatch'' \<and> n_messages s' = n_messages large_node
     \<and> data_get (n_data s') did (w_recordId (rw_message large_update)) (wd_dataCid (w_descriptor (rw_message large_update))) = None"
    using n newer by (intro corrupt_data_unwinds) (simp_all add: large_update_def maxDataSizeAllowedToBeEncoded_def live_bytes)
  with get show ?thesis by (auto simp: large_update_def)
qed

end
