(* ===== verification/Purge.thy ===== *)
theory Purge
  imports Handler_Properties
begin

text \<open>
  The purge behind a pruning delete: it removes exactly the messages of the descendants of a record, and it
  ends when the records form a forest.
\<close>

section \<open>Groups of messages\<close>

lemma group_step:
  "groupSquashSiblingsByRecordId (ms @ [m]) = (let groups = groupSquashSiblingsByRecordId ms; r = message_recordId m in
     AList.update r (case map_of groups r of None \<Rightarrow> [m] | Some xs \<Rightarrow> xs @ [m]) groups)"
  by (simp add: groupSquashSiblingsByRecordId_def Let_def)

lemma group_facts:
  "distinct (map fst (groupSquashSiblingsByRecordId ms)) \<and>
   map_of (groupSquashSiblingsByRecordId ms) r = (let xs = filter (\<lambda>m. message_recordId m = r) ms in if xs = [] then None else Some xs)"
proof (induction ms arbitrary: r rule: rev_induct)
  case Nil
  then show ?case by (simp add: groupSquashSiblingsByRecordId_def)
next
  case (snoc m ms)
  let ?k = "message_recordId m"
  have d: "distinct (map fst (groupSquashSiblingsByRecordId ms))" using snoc by simp
  have "distinct (map fst (groupSquashSiblingsByRecordId (ms @ [m])))"
    unfolding group_step Let_def using d by (simp add: distinct_update)
  moreover have "map_of (groupSquashSiblingsByRecordId (ms @ [m])) r =
      (let xs = filter (\<lambda>m. message_recordId m = r) (ms @ [m]) in if xs = [] then None else Some xs)"
    unfolding group_step Let_def update_conv' using snoc [of r] snoc [of ?k] by (auto simp: Let_def)
  ultimately show ?case by blast
qed

lemma group_mem:
  "(r, xs) \<in> set (groupSquashSiblingsByRecordId ms) \<longleftrightarrow> xs \<noteq> [] \<and> xs = filter (\<lambda>m. message_recordId m = r) ms"
proof -
  have "(r, xs) \<in> set (groupSquashSiblingsByRecordId ms) \<longleftrightarrow> map_of (groupSquashSiblingsByRecordId ms) r = Some xs"
    using map_of_eq_Some_iff [OF conjunct1 [OF group_facts], of ms r xs] by simp
  then show ?thesis unfolding conjunct2 [OF group_facts] Let_def by auto
qed

lemma group_ids: "set (map fst (groupSquashSiblingsByRecordId ms)) = message_recordId ` set ms"
proof (rule set_eqI)
  fix r
  have "r \<in> set (map fst (groupSquashSiblingsByRecordId ms)) \<longleftrightarrow> (\<exists>xs. (r, xs) \<in> set (groupSquashSiblingsByRecordId ms))"
    by force
  also have "\<dots> \<longleftrightarrow> r \<in> message_recordId ` set ms" unfolding group_mem by (auto simp: filter_empty_conv)
  finally show "r \<in> set (map fst (groupSquashSiblingsByRecordId ms)) \<longleftrightarrow> r \<in> message_recordId ` set ms" .
qed

lemma group_messages: "(\<Union>g \<in> set (groupSquashSiblingsByRecordId ms). set (snd g)) = set ms"
proof -
  have "m \<in> (\<Union>g \<in> set (groupSquashSiblingsByRecordId ms). set (snd g))" if "m \<in> set ms" for m
  proof -
    have "(message_recordId m, filter (\<lambda>x. message_recordId x = message_recordId m) ms) \<in> set (groupSquashSiblingsByRecordId ms)"
      unfolding group_mem using that by (auto simp: filter_empty_conv)
    then show ?thesis using that by force
  qed
  moreover have "m \<in> set ms" if "g \<in> set (groupSquashSiblingsByRecordId ms)" "m \<in> set (snd g)" for g m
    using that group_mem [of "fst g" "snd g" ms] by (metis filter_is_subset prod.collapse subsetD)
  ultimately show ?thesis by blast
qed

section \<open>Rows that a purge removes\<close>

definition purged :: "node_env \<Rightarrow> jstr \<Rightarrow> node \<Rightarrow> jstr set \<Rightarrow> node \<Rightarrow> bool" where
  "purged N tenant s D s' \<longleftrightarrow> removed_rows N tenant s s'
     \<and> row_of (n_messages s' tenant) = (\<lambda>c. if c \<in> D then None else row_of (n_messages s tenant) c)"

lemma purged_trans: "purged N tenant s D s' \<Longrightarrow> purged N tenant s' D' s'' \<Longrightarrow> purged N tenant s (D \<union> D') s''"
  unfolding purged_def using removed_rows_trans by fastforce

lemma purged_refl: "node_ok N s \<Longrightarrow> purged N tenant s {} s"
  by (simp add: purged_def removed_rows_refl)

lemma purged_ok: "purged N tenant s D s' \<Longrightarrow> node_ok N s \<Longrightarrow> node_ok N s'"
  using removed_rows_ok by (auto simp: purged_def)

lemma purgeRecordMessages_purged:
  assumes "hash_ok N" and "node_ok N s" and "purgeRecordMessages N tenant s ms = Inr s'"
  shows "purged N tenant s (getCid (re_cids (ne_records N)) ` set ms) s'"
proof -
  obtain store ds where d: "delete_messages (ne_store N tenant) (n_messages s tenant) (map (getCid (re_cids (ne_records N))) ms) = Inr store"
    "s' = \<lparr>n_messages = (n_messages s)(tenant := store), n_data = ds\<rparr>"
    using assms(3) by (auto simp: purgeRecordMessages_def Let_def bind_eq_Inr split: option.splits message.splits)
  have "store_ok (ne_store N tenant) (n_messages s tenant)" using assms(2) tenant_okD(1) by (simp add: node_ok_def)
  with delete_messages_rows [OF this _ d(1)] d(2) record_purge.removes [OF assms] assms(1)
  show ?thesis by (simp add: purged_def hash_ok_def)
qed

lemma purge_groups_purged:
  "hash_ok N \<Longrightarrow> node_ok N s \<Longrightarrow> purge_groups N tenant s gs = Inr s' \<Longrightarrow>
     purged N tenant s (getCid (re_cids (ne_records N)) ` (\<Union>g \<in> set gs. set (snd g))) s'"
proof (induction N tenant s gs rule: purge_groups.induct)
  case (2 N tenant s r ms gs)
  then obtain s1 where s1: "purgeRecordMessages N tenant s ms = Inr s1" "purge_groups N tenant s1 gs = Inr s'"
    by (auto simp: bind_eq_Inr)
  note p = purgeRecordMessages_purged [OF 2(2,3) s1(1)]
  from purged_trans [OF p 2(1) [OF 2(2) purged_ok [OF p 2(3)] s1(2)]] show ?case by (simp add: image_Un)
qed (simp add: purged_refl)

section \<open>Descendants\<close>

definition child_row :: "node_env \<Rightarrow> jstr \<Rightarrow> row \<Rightarrow> bool" where
  "child_row N recordId r \<longleftrightarrow> matchFilter (ne_tn N) (r_indexes r) (children_query recordId)"

text \<open>The message with a CID belongs to a record below another one.\<close>

inductive descends :: "node_env \<Rightarrow> tenant_store \<Rightarrow> jstr \<Rightarrow> jstr \<Rightarrow> bool" for N S where
  child: "row_of S c = Some r \<Longrightarrow> child_row N recordId r \<Longrightarrow> descends N S recordId c"
| deeper: "row_of S c' = Some r \<Longrightarrow> child_row N recordId r \<Longrightarrow> descends N S (message_recordId (r_message r)) c
    \<Longrightarrow> descends N S recordId c"

lemma descends_below:
  "descends N S recordId c' \<Longrightarrow> row_of S c' = Some r \<Longrightarrow> descends N S (message_recordId (r_message r)) c \<Longrightarrow> descends N S recordId c"
  by (induction rule: descends.induct) (auto intro: descends.intros)

lemma descends_mono:
  assumes "descends N S' recordId c" and "\<And>c r. row_of S' c = Some r \<Longrightarrow> row_of S c = Some r"
  shows "descends N S recordId c"
  using assms(1) by induction (blast intro: descends.intros assms(2))+

text \<open>After the descendants of some records are gone, what is left below another record are its
  descendants that were not among them.\<close>

lemma descends_purged:
  assumes "row_of S' = (\<lambda>c. if \<exists>k \<in> K. descends N S k c then None else row_of S c)" and "descends N S recordId c"
  shows "(\<exists>k \<in> K. descends N S k c) \<or> descends N S' recordId c"
  using assms(2)
proof induction
  case (child c r recordId)
  show ?case
  proof (cases "\<exists>k \<in> K. descends N S k c")
    case False
    then have "row_of S' c = Some r" using assms(1) child(1) by simp
    then show ?thesis using child(2) descends.child by blast
  qed simp
next
  case (deeper c' r recordId c)
  show ?case
  proof (cases "\<exists>k \<in> K. descends N S k c'")
    case True
    then show ?thesis using descends_below deeper.hyps(1,3) by blast
  next
    case False
    then have "row_of S' c' = Some r" using assms(1) deeper.hyps(1) by auto
    then show ?thesis using deeper.IH deeper.hyps(2) descends.deeper by blast
  qed
qed

lemma children_query_valid: "assertValidSubtreeFilters [children_query rid] = Inr ()"
  by (simp add: assertValidSubtreeFilters_def children_query_def isSubtreeFilter_def)

lemma children_query_set:
  assumes "node_ok N s" and "query_all N s tenant (children_query rid) = Inr ms"
  shows "set ms = {r_message r | r c. row_of (n_messages s tenant) c = Some r \<and> child_row N rid r}"
proof -
  have ok: "tenant_ok (ne_store N tenant) (n_messages s tenant)" using assms(1) by (simp add: node_ok_def)
  from query_messages_rows [OF tenant_okD(2,5) [OF ok] children_query_valid, of rid] assms(2)
  show ?thesis by (simp add: child_row_def)
qed

lemma purge_step_exact:
  assumes ok: "node_ok N s" and q: "query_all N s tenant (children_query rid) = Inr ms"
  shows "{c. \<exists>k \<in> message_recordId ` set ms. descends N (n_messages s tenant) k c} \<union> getCid (re_cids (ne_records N)) ` set ms
       = {c. descends N (n_messages s tenant) rid c}"
proof -
  let ?S = "n_messages s tenant" and ?C = "re_cids (ne_records N)"
  have "tenant_ok (ne_store N tenant) ?S" using ok by (simp add: node_ok_def)
  note cid = row_cid [OF this, simplified]
  note set_ms = children_query_set [OF ok q]
  have A: "getCid ?C ` set ms = {c. \<exists>r. row_of ?S c = Some r \<and> child_row N rid r}"
    unfolding set_ms using cid by (auto simp: image_iff)
  have B: "descends N ?S rid c \<longleftrightarrow> (\<exists>r. row_of ?S c = Some r \<and> child_row N rid r)
      \<or> (\<exists>k \<in> message_recordId ` set ms. descends N ?S k c)" for c
  proof
    assume "descends N ?S rid c"
    then show "(\<exists>r. row_of ?S c = Some r \<and> child_row N rid r) \<or> (\<exists>k \<in> message_recordId ` set ms. descends N ?S k c)"
      unfolding set_ms by cases auto
  next
    assume "(\<exists>r. row_of ?S c = Some r \<and> child_row N rid r) \<or> (\<exists>k \<in> message_recordId ` set ms. descends N ?S k c)"
    then consider r where "row_of ?S c = Some r" "child_row N rid r"
      | r c' where "row_of ?S c' = Some r" "child_row N rid r" "descends N ?S (message_recordId (r_message r)) c"
      unfolding set_ms by auto
    then show "descends N ?S rid c"
    proof cases
      case 1
      then show ?thesis by (rule descends.child)
    next
      case 2
      then show ?thesis by (rule descends.deeper)
    qed
  qed
  show ?thesis unfolding A
    by (rule set_eqI) (use B in \<open>simp only: Un_iff mem_Collect_eq disj_commute\<close>)
qed

lemma purgeRecordDescendants_purged:
  "purgeRecordDescendants n N tenant s r = Some (Inr s') \<Longrightarrow> hash_ok N \<Longrightarrow> node_ok N s \<Longrightarrow>
     purged N tenant s {c. descends N (n_messages s tenant) r c} s'"
  "purge_children n N tenant s rs = Some (Inr s') \<Longrightarrow> hash_ok N \<Longrightarrow> node_ok N s \<Longrightarrow>
     purged N tenant s {c. \<exists>r \<in> set rs. descends N (n_messages s tenant) r c} s'"
proof (induction n N tenant s r and n N tenant s rs arbitrary: s' and s' rule: purgeRecordDescendants_purge_children.induct)
  case (2 n N tenant s recordId)
  then obtain ms s1 where ms: "query_messages (ne_store N tenant) (n_messages s tenant) (children_query recordId) = Inr ms"
    and s1: "purge_children n N tenant s (map fst (groupSquashSiblingsByRecordId ms)) = Some (Inr s1)"
    and s': "purge_groups N tenant s1 (groupSquashSiblingsByRecordId ms) = Inr s'"
    by (auto simp: Let_def bind_eq_Inr split: sum.splits)
  have p: "purged N tenant s {c. \<exists>k \<in> message_recordId ` set ms. descends N (n_messages s tenant) k c} s1"
    using 2(1) [OF ms refl s1 2(3,4)] unfolding group_ids .
  note g = purge_groups_purged [OF 2(3) purged_ok [OF p 2(4)] s']
  show ?case using purged_trans [OF p g] unfolding group_messages purge_step_exact [OF 2(4) ms] .
next
  case (4 n N tenant s r rs)
  then obtain s1 where s1: "purgeRecordDescendants n N tenant s r = Some (Inr s1)" "purge_children n N tenant s1 rs = Some (Inr s')"
    by (auto split: option.splits sum.splits)
  note p = 4(1) [OF s1(1) 4(4,5)]
  note q = 4(2) [OF s1(1) refl s1(2) 4(4) purged_ok [OF p 4(5)]]
  let ?S = "n_messages s tenant" and ?S1 = "n_messages s1 tenant"
  have rows: "row_of ?S1 = (\<lambda>c. if \<exists>k \<in> {r}. descends N ?S k c then None else row_of ?S c)"
    using p by (simp add: purged_def)
  have "descends N ?S k c" if "descends N ?S1 k c" for k c
    by (rule descends_mono [OF that]) (use rows in \<open>simp split: if_splits\<close>)
  moreover have "descends N ?S r c \<or> descends N ?S1 k c" if "descends N ?S k c" for k c
    using descends_purged [OF rows that] by simp
  ultimately have "descends N ?S r c \<or> (\<exists>k \<in> set rs. descends N ?S1 k c) \<longleftrightarrow> (\<exists>k \<in> set (r # rs). descends N ?S k c)" for c
    unfolding list.set by blast
  then have "{c. descends N ?S r c} \<union> {c. \<exists>k \<in> set rs. descends N ?S1 k c} = {c. \<exists>k \<in> set (r # rs). descends N ?S k c}"
    by blast
  with purged_trans [OF p q] show ?case by simp
qed (auto simp: purged_refl)

section \<open>Termination\<close>

text \<open>Records form a forest: a child is deeper than its parent.\<close>

definition forest :: "node_env \<Rightarrow> tenant_store \<Rightarrow> (jstr \<Rightarrow> nat) \<Rightarrow> bool" where
  "forest N S height \<longleftrightarrow> (\<forall>c r recordId. row_of S c = Some r \<and> child_row N recordId r
      \<longrightarrow> height (message_recordId (r_message r)) < height recordId)"

lemma forest_removed: "removed_rows N tenant s s' \<Longrightarrow> forest N (n_messages s tenant) h \<Longrightarrow> forest N (n_messages s' tenant) h"
  unfolding removed_rows_def forest_def by (metis option.distinct(1))

lemma purgeRecordDescendants_ends:
  "hash_ok N \<Longrightarrow> node_ok N s \<Longrightarrow> forest N (n_messages s tenant) h \<Longrightarrow> h r < n \<Longrightarrow> \<exists>res. purgeRecordDescendants n N tenant s r = Some res"
  "hash_ok N \<Longrightarrow> node_ok N s \<Longrightarrow> forest N (n_messages s tenant) h \<Longrightarrow> \<forall>r \<in> set rs. h r < n \<Longrightarrow> \<exists>res. purge_children n N tenant s rs = Some res"
proof (induction n N tenant s r and n N tenant s rs rule: purgeRecordDescendants_purge_children.induct)
  case (2 n N tenant s recordId)
  show ?case
  proof (cases "query_messages (ne_store N tenant) (n_messages s tenant) (children_query recordId)")
    case (Inr ms)
    have "\<forall>k \<in> message_recordId ` set ms. h k < n"
      unfolding children_query_set [OF 2(3) Inr] using 2(4,5) by (fastforce simp: forest_def)
    then have "\<exists>res. purge_children n N tenant s (map fst (groupSquashSiblingsByRecordId ms)) = Some res"
      unfolding group_ids [symmetric] by (rule 2(1) [OF Inr refl 2(2-4)])
    then show ?thesis using Inr by auto
  qed simp
next
  case (4 n N tenant s r rs)
  then obtain res where res: "purgeRecordDescendants n N tenant s r = Some res" by auto
  show ?case
  proof (cases res)
    case (Inr s1)
    have rem: "removed_rows N tenant s s1" using purgeRecordDescendants_removes(1) [OF _ 4(3,4)] res Inr by simp
    have "\<exists>res. purge_children n N tenant s1 rs = Some res"
      by (rule 4(2) [OF res Inr 4(3) removed_rows_ok [OF rem 4(4)] forest_removed [OF rem 4(5)]]) (use 4(6) in simp)
    then show ?thesis using res Inr by simp
  qed (use res in simp)
qed auto

section \<open>Examples\<close>

text \<open>A node that holds one message.\<close>

definition row_put :: "message \<Rightarrow> key_values \<Rightarrow> (put_result \<times> tenant_store) result" where
  "row_put m i = put (ne_store live_node_env did) empty_store m i"

definition row_node :: "message \<Rightarrow> key_values \<Rightarrow> node" where
  "row_node m i = \<lparr>n_messages = (\<lambda>t. if t = did then snd (projr (row_put m i)) else empty_store), n_data = empty_data\<rparr>"

lemma row_node_rows:
  assumes "i \<noteq> []"
  shows "store_ok (ne_store live_node_env did) (n_messages (row_node m i) did)"
    and "row_of (n_messages (row_node m i) did) = [getCid live_cids m \<mapsto> \<lparr>r_position = 1, r_message = m,
     r_indexes = i, r_scopes = computeFingerprintScopes m i\<rparr>]"
    and "ts_head (n_messages (row_node m i) did) = 1"
proof -
  have "\<not> isl (row_put m i)"
    using position_one assms by (simp add: row_put_def put_def insert_operations_def createPutOperations_def Let_def getHead_def
        empty_store_def)
  then obtain res where p: "put (ne_store live_node_env did) empty_store m i = Inr (res, n_messages (row_node m i) did)"
    by (cases "row_put m i") (auto simp: row_node_def row_put_def)
  have h: "length (se_hash (ne_store live_node_env did) c) = 32" for c
    using hash_okD [OF live_hash_ok] by (simp add: live_env_def)
  have e: "row_of empty_store = Map.empty" "ts_head empty_store = 0" "re_cids (ne_records live_node_env) = live_cids"
    by (auto simp: row_of_def empty_store_def live_node_env_def)
  note C = commitLatestState_rows [OF empty_store_ok h _ p [unfolded put_commit]]
  show "store_ok (ne_store live_node_env did) (n_messages (row_node m i) did)" using C by simp
  show "row_of (n_messages (row_node m i) did) = [getCid live_cids m \<mapsto> \<lparr>r_position = 1, r_message = m,
     r_indexes = i, r_scopes = computeFingerprintScopes m i\<rparr>]"
    using C by (simp add: spec_commit_def Let_def e)
  show "ts_head (n_messages (row_node m i) did) = 1" using C e by simp
qed

lemma row_node_ok:
  assumes "record_values i (message_recordId m) t b" and "m = WriteMsg w"
  shows "node_ok live_node_env (row_node m i)"
proof -
  have i: "i \<noteq> []" using assms(1) by (auto simp: record_values_def)
  have "row_ok \<lparr>r_position = 1, r_message = m, r_indexes = i, r_scopes = computeFingerprintScopes m i\<rparr>"
    by (rule row_okI [of _ t b]) (use assms in simp_all)
  then have "tenant_ok (ne_store live_node_env did) (n_messages (row_node m i) did)"
    using row_node_rows [OF i] by (auto simp: tenant_ok_def single_latest_def split: if_splits)
  moreover have "n_messages (row_node m i) t = empty_store" if "t \<noteq> did" for t using that by (simp add: row_node_def)
  moreover have "tenant_ok (ne_store live_node_env t) empty_store" for t
    using empty_node_ok [of live_node_env] by (simp add: node_ok_def empty_node_def)
  ultimately show ?thesis unfolding node_ok_def by metis
qed

text \<open>A write below the record \<open>[9]\<close>.\<close>

definition child_message :: message where
  "child_message = WriteMsg (example_write [1] [5])"

definition child_indexes :: key_values where
  "child_indexes = [(''interface'', One (SStr (js ''Records''))), (''recordId'', One (SStr [1])), (''parentId'', One (SStr [9])),
     (''messageTimestamp'', One (SStr [5])), (''isLatestBaseState'', One (SBool True))]"

definition child_node :: node where
  "child_node = row_node child_message child_indexes"

lemma child_rows:
  "store_ok (ne_store live_node_env did) (n_messages child_node did) \<and>
   row_of (n_messages child_node did) = [getCid live_cids child_message \<mapsto> \<lparr>r_position = 1, r_message = child_message,
     r_indexes = child_indexes, r_scopes = computeFingerprintScopes child_message child_indexes\<rparr>]"
  unfolding child_node_def using row_node_rows [of child_indexes child_message] by (simp add: child_indexes_def)

lemma child_node_ok: "node_ok live_node_env child_node"
  unfolding child_node_def
  by (rule row_node_ok [of _ _ "[5]" True]) (simp_all add: record_values_def child_indexes_def child_message_def example_write_def)

lemma child_node_child:
  "row_of (n_messages child_node did) c = Some r \<Longrightarrow> child_row live_node_env recordId r \<longleftrightarrow> recordId = [9]"
  "row_of (n_messages child_node did) c = Some r \<Longrightarrow> message_recordId (r_message r) = [1]"
  using child_rows
  by (auto simp: child_row_def children_query_def child_indexes_def matchIndexValue_def child_message_def example_write_def split: if_splits)

lemma child_query:
  "query_all live_node_env child_node did (children_query recordId) = Inr (if recordId = [9] then [child_message] else [])"
proof -
  let ?S = "n_messages child_node did" and ?E = "ne_store live_node_env did"
  have ok: "tenant_ok ?E ?S" using child_node_ok by (simp add: node_ok_def)
  obtain ms where ms: "query_messages ?E ?S (children_query recordId) = Inr ms" "distinct (map (getCid live_cids) ms)"
    using query_messages_rows [OF tenant_okD(2,5) [OF ok] children_query_valid, of recordId] by (auto simp: live_node_env_def)
  have "set ms = {r_message r | r c. row_of ?S c = Some r \<and> child_row live_node_env recordId r}"
    by (rule children_query_set [OF child_node_ok ms(1)])
  also have "\<dots> = (if recordId = [9] then {child_message} else {})"
    using child_node_child(1) [of _ _ recordId] child_rows by (auto split: if_splits)
  finally have "set ms = (if recordId = [9] then {child_message} else {})" .
  with ms(2) have "ms = (if recordId = [9] then [child_message] else [])"
    by (cases ms; cases "tl ms") (auto split: if_splits)
  with ms(1) show ?thesis by simp
qed

lemma child_purge: "\<exists>s. purgeRecordDescendants 2 live_node_env did child_node [9] = Some (Inr s)"
proof -
  let ?S = "n_messages child_node did" and ?c = "getCid live_cids child_message"
  have cids: "re_cids (ne_records live_node_env) = live_cids" by (simp add: live_node_env_def)
  obtain e where e: "map_of (ts_cids ?S) ?c = Some 1" "map_of (ts_log ?S) 1 = Some e"
    using fun_cong [OF conjunct2 [OF child_rows], of ?c] unfolding row_of_def by (auto split: option.splits)
  then have "\<exists>store. delete_messages (ne_store live_node_env did) ?S [?c] = Inr store"
    using position_one by (simp add: ms_delete_def remove_operations_def)
  moreover have "getNewestMessage live_cids [child_message] = Some child_message" by (rule getNewestMessage_eqI) simp_all
  ultimately have "\<exists>s. purgeRecordMessages live_node_env did child_node [child_message] = Inr s"
    by (auto simp: purgeRecordMessages_def Let_def cids child_message_def)
  moreover have "groupSquashSiblingsByRecordId [child_message] = [([1], [child_message])]"
    by (simp add: groupSquashSiblingsByRecordId_def child_message_def example_write_def Let_def)
  moreover have "purgeRecordDescendants 1 live_node_env did child_node [1] = Some (Inr child_node)"
    by (simp add: child_query groupSquashSiblingsByRecordId_def del: js_simps)
  ultimately show ?thesis
    unfolding numeral_2_eq_2 by (auto simp: child_query simp del: js_simps)
qed

section \<open>Properties\<close>

text \<open>C18: A purge below a record removes exactly the messages of its descendants: of the children found
  by their parent id, of the children of these, and so on.  Every other message of the tenant and
  every other tenant keep their state, and the node stays consistent.\<close>

theorem purge_removes_descendants:
  assumes "hash_ok N" and "node_ok N s" and "purgeRecordDescendants n N tenant s recordId = Some (Inr s')"
  shows "node_ok N s' \<and> (\<forall>t. t \<noteq> tenant \<longrightarrow> n_messages s' t = n_messages s t)
     \<and> row_of (n_messages s' tenant) c
         = (if descends N (n_messages s tenant) recordId c then None else row_of (n_messages s tenant) c)"
proof -
  have p: "purged N tenant s {c. descends N (n_messages s tenant) recordId c} s'"
    by (rule purgeRecordDescendants_purged(1) [OF assms(3,1,2)])
  with purged_ok [OF p assms(2)] show ?thesis by (simp add: purged_def removed_rows_def)
qed

theorem purge_removes_descendants_witness:
  "\<exists>s'. purgeRecordDescendants 2 live_node_env did child_node [9] = Some (Inr s')
     \<and> row_of (n_messages child_node did) (getCid live_cids child_message) \<noteq> None
     \<and> row_of (n_messages s' did) (getCid live_cids child_message) = None"
proof -
  obtain s' where s': "purgeRecordDescendants 2 live_node_env did child_node [9] = Some (Inr s')"
    using child_purge by blast
  obtain r where r: "row_of (n_messages child_node did) (getCid live_cids child_message) = Some r" using child_rows by simp
  then have "descends live_node_env (n_messages child_node did) [9] (getCid live_cids child_message)"
    using child_node_child(1) by (blast intro: descends.child)
  then show ?thesis
    using purge_removes_descendants [OF live_hash_ok [unfolded live_env_def, simplified] child_node_ok s', of "getCid live_cids child_message"]
      r s' by simp
qed

text \<open>C19: The purge below a record ends: when records form a forest, it returns within as many nested
  levels as the record is high, whatever the purges of the children do to the store on the way.\<close>

theorem purge_terminates:
  assumes "hash_ok N" and "node_ok N s" and "forest N (n_messages s tenant) height" and "height recordId < n"
  shows "\<exists>res. purgeRecordDescendants n N tenant s recordId = Some res"
  by (rule purgeRecordDescendants_ends(1) [OF assms])

theorem purge_terminates_witness: "\<exists>res. purgeRecordDescendants 2 live_node_env did child_node [9] = Some res"
proof (rule purge_terminates [where height = "\<lambda>r. if r = [9] then 1 else 0"])
  show "hash_ok live_node_env" using live_hash_ok by (simp add: live_env_def)
  show "node_ok live_node_env child_node" by (rule child_node_ok)
  show "forest live_node_env (n_messages child_node did) (\<lambda>r. if r = [9] then 1 else 0)"
    unfolding forest_def using child_node_child by auto
qed simp

end
