(* ===== verification/Grant_Properties.thy ===== *)
theory Grant_Properties
  imports Purge
begin

text \<open>
  What authorisation by a permission grant and the squash floor guarantee, in terms of the stored rows.
\<close>

section \<open>The first message of a query\<close>

text \<open>Rows carry the timestamp of their message, in the fixed-width form that parsing enforces.\<close>

definition timestamp_like :: "jstr \<Rightarrow> bool" where
  "timestamp_like t \<longleftrightarrow> length t = 27 \<and> (\<forall>c \<in> set t. 45 \<le> c \<and> c \<le> 90)"

definition times_ok :: "tenant_store \<Rightarrow> bool" where
  "times_ok S \<longleftrightarrow> (\<forall>c r. row_of S c = Some r \<longrightarrow> timestamp_like (messageTimestamp (r_message r))
     \<and> map_of (r_indexes r) ''messageTimestamp'' = Some (One (SStr (messageTimestamp (r_message r)))))"

lemma times_okD:
  assumes "times_ok S" and "row_of S c = Some r"
  shows "timestamp_like (messageTimestamp (r_message r))"
    and "map_of (r_indexes r) ''messageTimestamp'' = Some (One (SStr (messageTimestamp (r_message r))))"
  using assms by (simp_all add: times_ok_def)

lemma append_le_append: "length a = length b \<Longrightarrow> (a :: jstr) @ c \<le> b @ d \<Longrightarrow> a \<le> b"
  by (induction a b rule: list_induct2) (auto simp: le_less)

lemma json_timestamp: "timestamp_like t \<Longrightarrow> json_string t = 34 # t @ [34]"
proof -
  assume "timestamp_like t"
  then have "\<forall>c \<in> set t. 45 \<le> c \<and> c \<le> 90" by (simp add: timestamp_like_def)
  then have "concat (map json_unit t) = t" by (induction t) (auto simp: json_unit_def)
  then show ?thesis by (simp add: json_string_def)
qed

lemma message_time_order:
  assumes "timestamp_like a" "timestamp_like b" and "json_string a @ x \<le> json_string b @ y"
  shows "a \<le> b"
  using assms append_le_append [of a b "34 # x" "34 # y"] by (simp add: json_timestamp timestamp_like_def)

definition first_options :: "sort_direction \<Rightarrow> query_options" where
  "first_options dir = buildQueryOptions (no_sort\<lparr>ms_messageTimestamp := Some dir\<rparr>) \<lparr>pn_limit = Some 1, pn_cursor = None\<rparr>"

lemma first_options_simps:
  "qo_sortProperty (first_options dir) = ''messageTimestamp''" "qo_sortDirection (first_options dir) = dir"
  "qo_limit (first_options dir) = Some 2" "qo_cursor (first_options dir) = None"
  by (simp_all add: first_options_def buildQueryOptions_def no_sort_def)

lemma index_query_timed:
  assumes "tenant_ok E s" and "assertValidSubtreeFilters [f] = Inr ()"
  shows "index_query (se_tn E) (ts_index s) [f] (first_options dir)
     = Inr (take 2 (sortItems ''messageTimestamp'' dir (filter (\<lambda>it. matchFilter (se_tn E) (snd it) f) (ts_index s))))"
proof -
  let ?q = "first_options dir"
  note q = first_options_simps
  note core = tenant_okD(2) [OF assms(1)]
  have s: "\<forall>it \<in> set (ts_index s). \<exists>v. map_of (snd it) (qo_sortProperty ?q) = Some (One v) \<and> sortable v"
  proof
    fix it assume "it \<in> set (ts_index s)"
    then obtain r where "row_of s (fst it) = Some r" "r_indexes r = snd it"
      using index_rows(1) [OF core, of "fst it" "snd it"] by auto
    with tenant_okD(5) [OF assms(1)] show "\<exists>v. map_of (snd it) (qo_sortProperty ?q) = Some (One v) \<and> sortable v"
      unfolding q by (fastforce simp: timed_def)
  qed
  then have n: "\<forall>it \<in> set (ts_index s). map_of (snd it) (qo_sortProperty ?q) \<noteq> None" by force
  have "matchAnyFilter tn kv [f] \<longleftrightarrow> matchFilter tn kv f" for tn kv by (auto simp: matchAnyFilter_iff)
  then show ?thesis
    using index_query_in_memory [OF level.distinct_keys [OF core_okD(2) [OF core]] s, of "se_tn E" "[f]"] assms(2)
      queryWithInMemoryPaging_complete [OF n, of "se_tn E" "[f]"]
    by (simp add: q Let_def)
qed

text \<open>The messages that a filter selects, and the first of them in either direction.\<close>

definition selected :: "node_env \<Rightarrow> tenant_store \<Rightarrow> filter_t \<Rightarrow> message set" where
  "selected N S f = {r_message r | r c. row_of S c = Some r \<and> matchFilter (ne_tn N) (r_indexes r) f}"

definition first_of :: "sort_direction \<Rightarrow> message set \<Rightarrow> message option \<Rightarrow> bool" where
  "first_of dir M found \<longleftrightarrow> (case found of
     None \<Rightarrow> M = {}
   | Some m \<Rightarrow> m \<in> M \<and> (\<forall>x \<in> M. case dir of
       Ascending \<Rightarrow> messageTimestamp m \<le> messageTimestamp x | Descending \<Rightarrow> messageTimestamp x \<le> messageTimestamp m))"

lemma sortItems_head:
  assumes "sortItems p dir xs = y # ys" and "x \<in> set xs"
  shows "y \<in> set xs \<and> (case dir of Ascending \<Rightarrow> sort_value p y \<le> sort_value p x | Descending \<Rightarrow> sort_value p x \<le> sort_value p y)"
proof -
  have set: "set (y # ys) = set xs" using set_sortItems [of p dir xs] assms(1) by simp
  have sorted: "sorted (map (sort_value p) (sort_key (sort_value p) xs))" by simp
  show ?thesis
  proof (cases dir)
    case Ascending
    then show ?thesis using assms set sorted by (auto simp: sortItems_def)
  next
    case Descending
    then have "sort_key (sort_value p) xs = rev ys @ [y]" using assms(1) by (simp add: sortItems_def rev_eq_Cons_iff)
    with sorted assms(2) set Descending show ?thesis by (auto simp: sorted_append)
  qed
qed

lemma query_first_rows:
  assumes ok: "tenant_ok (ne_store N tenant) (n_messages s tenant)" and times: "times_ok (n_messages s tenant)"
    and f: "assertValidSubtreeFilters [f] = Inr ()"
  shows "\<exists>found. query_first N s tenant f dir = Inr found \<and> first_of dir (selected N (n_messages s tenant) f) found"
proof -
  let ?E = "ne_store N tenant" and ?S = "n_messages s tenant" and ?p = "''messageTimestamp''"
  define xs where "xs = filter (\<lambda>it. matchFilter (ne_tn N) (snd it) f) (ts_index ?S)"
  note core = tenant_okD(2) [OF ok]
  have item: "\<exists>r. row_of ?S (fst it) = Some r \<and> r_indexes r = snd it \<and> ms_get ?S (fst it) = Some (r_message r)
      \<and> sort_value ?p it = json_string (messageTimestamp (r_message r)) @ fst it
      \<and> timestamp_like (messageTimestamp (r_message r)) \<and> r_message r \<in> selected N ?S f" if "it \<in> set xs" for it
  proof -
    from that obtain r where r: "row_of ?S (fst it) = Some r" "r_indexes r = snd it" "matchFilter (ne_tn N) (snd it) f"
      using index_rows(1) [OF core, of "fst it" "snd it"] by (auto simp: xs_def)
    moreover have "map_of (snd it) ?p = Some (One (SStr (messageTimestamp (r_message r))))"
      "timestamp_like (messageTimestamp (r_message r))" using times_okD [OF times r(1)] r(2) by simp_all
    ultimately show ?thesis
      using index_rows(2) [OF core r(1)] by (auto simp: sort_value_def sort_scalar_def selected_def)
  qed
  have sel: "\<exists>it \<in> set xs. \<exists>r. row_of ?S (fst it) = Some r \<and> m = r_message r" if "m \<in> selected N ?S f" for m
    using that index_rows(1) [OF core] by (force simp: selected_def xs_def)
  have q: "query_first N s tenant f dir = bind (page_of_results ?S ?p (Some 1) (take 2 (sortItems ?p dir xs)))
      (\<lambda>(messages, _). Inr (case messages of [] \<Rightarrow> None | m # _ \<Rightarrow> Some m))"
    using index_query_timed [OF ok f, of dir]
    by (simp add: query_first_def ms_query_def xs_def Let_def first_options_def [symmetric] first_options_simps del: One_nat_def)
  show ?thesis
  proof (cases "sortItems ?p dir xs")
    case Nil
    then have "xs = []" using set_sortItems [of ?p dir xs] by simp
    then have "selected N ?S f = {}" using sel by auto
    then show ?thesis using q Nil by (simp add: page_of_results_def first_of_def List.map_filter_simps)
  next
    case (Cons y ys)
    have y: "y \<in> set xs" using set_sortItems [of ?p dir xs] Cons by auto
    from item [OF y] obtain r where r: "row_of ?S (fst y) = Some r" "r_indexes r = snd y" "ms_get ?S (fst y) = Some (r_message r)"
      "sort_value ?p y = json_string (messageTimestamp (r_message r)) @ fst y" "timestamp_like (messageTimestamp (r_message r))"
      "r_message r \<in> selected N ?S f" by blast
    have "map_of (snd y) ?p = Some (One (SStr (messageTimestamp (r_message r))))" using times_okD [OF times r(1)] r(2) by simp
    then have "\<exists>c. page_of_results ?S ?p (Some 1) (take 2 (sortItems ?p dir xs)) = Inr ([r_message r], c)"
      using Cons r(3) by (cases ys) (auto simp: page_of_results_def createCursorFromLastArrayItem_def createCursorFromItem_def
          List.map_filter_simps numeral_2_eq_2)
    then have "query_first N s tenant f dir = Inr (Some (r_message r))" unfolding q by auto
    moreover have "first_of dir (selected N ?S f) (Some (r_message r))"
    proof -
      have "case dir of Ascending \<Rightarrow> messageTimestamp (r_message r) \<le> messageTimestamp m
          | Descending \<Rightarrow> messageTimestamp m \<le> messageTimestamp (r_message r)" if m: "m \<in> selected N ?S f" for m
      proof -
        obtain it r' where it: "it \<in> set xs" "row_of ?S (fst it) = Some r'" "m = r_message r'" using sel [OF m] by blast
        with item [OF it(1)] have i: "sort_value ?p it = json_string (messageTimestamp m) @ fst it" "timestamp_like (messageTimestamp m)"
          by auto
        show ?thesis
          using sortItems_head [OF Cons it(1)] message_time_order [OF r(5) i(2)] message_time_order [OF i(2) r(5)] r(4) i(1)
          by (cases dir) auto
      qed
      then show ?thesis using r(6) by (simp add: first_of_def)
    qed
    ultimately show ?thesis by blast
  qed
qed

section \<open>Grants\<close>

lemma bind_unit_Inr: "bind (r :: unit result) (\<lambda>_. q) = Inr x \<longleftrightarrow> r = Inr () \<and> q = Inr x"
  by (cases r) auto

lemma revocation_filter_valid: "assertValidSubtreeFilters [grantRevocationFilter g] = Inr ()"
  by (simp add: assertValidSubtreeFilters_def grantRevocationFilter_def isSubtreeFilter_def)

lemma verifyGrantActive_iff:
  assumes "node_ok N s" and "times_ok (n_messages s grantor)"
  shows "verifyGrantActive N s grantor t g = Inr () \<longleftrightarrow> pg_dateGranted g \<le> t \<and> t < pg_dateExpires g
     \<and> (\<forall>m \<in> selected N (n_messages s grantor) (grantRevocationFilter (pg_id g)). t < messageTimestamp m)"
proof -
  let ?M = "selected N (n_messages s grantor) (grantRevocationFilter (pg_id g))"
  have "tenant_ok (ne_store N grantor) (n_messages s grantor)" using assms(1) by (simp add: node_ok_def)
  from query_first_rows [OF this assms(2) revocation_filter_valid, of "pg_id g" Ascending]
  obtain found where found: "fetchOldestGrantRevocation N s grantor (pg_id g) = Inr found" "first_of Ascending ?M found"
    by (auto simp: fetchOldestGrantRevocation_def)
  have "(\<forall>m. found = Some m \<longrightarrow> t < messageTimestamp m) \<longleftrightarrow> (\<forall>m \<in> ?M. t < messageTimestamp m)"
    using found(2) by (cases found) (auto simp: first_of_def)
  then show ?thesis using found(1) by (cases found) (auto simp: verifyGrantActive_def not_less not_le)
qed

text \<open>When a write at its timestamp is covered by a grant.\<close>

definition grant_covers_write :: "node_env \<Rightarrow> node \<Rightarrow> write_message \<Rightarrow> jstr \<Rightarrow> jstr \<Rightarrow> permission_grant \<Rightarrow> bool" where
  "grant_covers_write N s w grantor grantee g \<longleftrightarrow>
     pg_grantor g = grantor \<and> pg_grantee g = grantee
   \<and> pg_dateGranted g \<le> wd_messageTimestamp (w_descriptor w) \<and> wd_messageTimestamp (w_descriptor w) < pg_dateExpires g
   \<and> (\<forall>m \<in> selected N (n_messages s grantor) (grantRevocationFilter (pg_id g)). wd_messageTimestamp (w_descriptor w) < messageTimestamp m)
   \<and> ps_interface (pg_scope g) = Records \<and> ps_method (pg_scope g) = Write
   \<and> scope_matches (grant_module_scope (pg_scope g)) (getModuleScopeTarget w)
   \<and> (pg_publication g = Some (js ''Required'') \<longrightarrow> wd_published (w_descriptor w) = Some True)
   \<and> (pg_publication g = Some (js ''Prohibited'') \<longrightarrow> wd_published (w_descriptor w) \<noteq> Some True)"

section \<open>The squash floor\<close>

definition squash_filter :: "write_message \<Rightarrow> filter_t" where
  "squash_filter w =
     [(''interface'', EqualF (SStr (js ''Records''))), (''method'', EqualF (SStr (js ''Write''))),
      (''isLatestBaseState'', EqualF (SBool True)), (''module'', EqualF (SStr (wd_module (w_descriptor w)))),
      (''modulePath'', EqualF (SStr (wd_modulePath (w_descriptor w)))), (''squash'', EqualF (SBool True))] @
     (case getParentContextFromOfContextId (Some (w_contextId w)) of
        Some p \<Rightarrow> if p \<noteq> [] then [(''contextId'', ObjF (no_object\<lparr>f_subtree := Some (SStr p)\<rparr>))] else []
      | None \<Rightarrow> [])"

lemma squash_filter_valid: "assertValidSubtreeFilters [squash_filter w] = Inr ()"
  by (auto simp: assertValidSubtreeFilters_def squash_filter_def isSubtreeFilter_def subtree_property_def split: option.splits)

lemma enforceSquashBackstop_first:
  assumes "rs_squash ruleSet"
  shows "enforceSquashBackstop H tenant s w ruleSet = bind (query_first (he_node H) s tenant (squash_filter w) Descending) (\<lambda>found.
     case found of None \<Rightarrow> Inr ()
     | Some q \<Rightarrow> if wd_messageTimestamp (w_descriptor w) \<le> messageTimestamp q
                then Inl (DwnError ''ModuleAuthorizationSquashBackstop'' []) else Inr ())"
proof (cases "getParentContextFromOfContextId (Some (w_contextId w))")
  case (Some p)
  then show ?thesis
    using assms by (cases "p = []") (simp_all add: enforceSquashBackstop_def fetchLatestSquashRecordAtScope_def squash_filter_def Let_def opt_prop_def)
qed (use assms in \<open>simp add: enforceSquashBackstop_def fetchLatestSquashRecordAtScope_def squash_filter_def Let_def opt_prop_def\<close>)

lemma enforceSquashBackstop_iff:
  assumes "node_ok (he_node H) s" and "times_ok (n_messages s tenant)"
  shows "enforceSquashBackstop H tenant s w ruleSet = Inr () \<longleftrightarrow>
     \<not> rs_squash ruleSet \<or> (\<forall>q \<in> selected (he_node H) (n_messages s tenant) (squash_filter w). messageTimestamp q < wd_messageTimestamp (w_descriptor w))"
proof (cases "rs_squash ruleSet")
  case True
  let ?M = "selected (he_node H) (n_messages s tenant) (squash_filter w)" and ?t = "wd_messageTimestamp (w_descriptor w)"
  have "tenant_ok (ne_store (he_node H) tenant) (n_messages s tenant)" using assms(1) by (simp add: node_ok_def)
  from query_first_rows [OF this assms(2) squash_filter_valid, of w Descending]
  obtain found where found: "query_first (he_node H) s tenant (squash_filter w) Descending = Inr found" "first_of Descending ?M found"
    by blast
  have "(\<forall>m. found = Some m \<longrightarrow> messageTimestamp m < ?t) \<longleftrightarrow> (\<forall>m \<in> ?M. messageTimestamp m < ?t)"
    using found(2) by (cases found) (auto simp: first_of_def)
  then show ?thesis using found(1) True
    by (cases found) (auto simp: enforceSquashBackstop_first not_less not_le split: if_splits)
qed (simp add: enforceSquashBackstop_def)

section \<open>Examples\<close>

definition squash_rules :: rule_set where
  "squash_rules = RuleSet None None False None None None None False True []"

text \<open>A write at a path, stored as latest state.\<close>

definition stored_write :: "jstr \<Rightarrow> message" where
  "stored_write t = WriteMsg (live_write (day 1) t None)"

definition stored_indexes :: "jstr \<Rightarrow> jstr \<Rightarrow> jstr \<Rightarrow> key_values" where
  "stored_indexes p parent t = [(''interface'', One (SStr (js ''Records''))), (''recordId'', One (SStr (day 1))),
     (''method'', One (SStr (js ''Write''))), (''module'', One (SStr (js ''a:b''))), (''modulePath'', One (SStr p)),
     (''parentId'', One (SStr parent)), (''squash'', One (SBool True)),
     (''messageTimestamp'', One (SStr t)), (''isLatestBaseState'', One (SBool True))]"

definition stored_node :: "jstr \<Rightarrow> jstr \<Rightarrow> jstr \<Rightarrow> node" where
  "stored_node p parent t = row_node (stored_write t) (stored_indexes p parent t)"

lemma stored_write_simps [simp]: "messageTimestamp (stored_write t) = t" "message_recordId (stored_write t) = day 1"
  by (simp_all add: stored_write_def live_write_def example_write_def Let_def)

lemma stored_node_ok: "node_ok live_node_env (stored_node p parent t)"
  unfolding stored_node_def
  by (rule row_node_ok [of _ _ t True "live_write (day 1) t None"])
     (simp_all add: record_values_def stored_indexes_def stored_write_def live_write_def example_write_def Let_def)

lemma stored_rows:
  "row_of (n_messages (stored_node p parent t) did) c = Some r \<Longrightarrow> r_message r = stored_write t \<and> r_indexes r = stored_indexes p parent t"
  unfolding stored_node_def by (subst (asm) row_node_rows) (auto simp: stored_indexes_def split: if_splits)

lemma stored_selected:
  "selected live_node_env (n_messages (stored_node p parent t) did) f
     = (if matchFilter (ne_tn live_node_env) (stored_indexes p parent t) f then {stored_write t} else {})"
proof -
  have "stored_indexes p parent t \<noteq> []" by (simp add: stored_indexes_def)
  from row_node_rows(2) [OF this] show ?thesis
    by (auto simp: selected_def stored_node_def)
qed

lemma day_timestamp: "n < 10 \<Longrightarrow> timestamp_like (day n)"
  by (auto simp: timestamp_like_def day_def)

lemma stored_times: "n < 10 \<Longrightarrow> times_ok (n_messages (stored_node p parent (day n)) did)"
  unfolding times_ok_def using stored_rows [of p parent "day n"] day_timestamp
  by (fastforce simp: stored_indexes_def)

definition example_grant :: permission_grant where
  "example_grant = \<lparr>pg_id = [7], pg_grantor = did, pg_grantee = js ''did:b'', pg_dateGranted = day 1, pg_dateExpires = day 9,
     pg_delegated = None, pg_scope = \<lparr>ps_interface = Records, ps_method = Write, ps_module = Some (js ''a:b''),
       ps_contextId = None, ps_modulePath = Some (js ''p'')\<rparr>, pg_publication = None\<rparr>"

section \<open>Properties\<close>

text \<open>C8: A permission grant authorises a write exactly when it was issued by the tenant to the author, is in
  force at the timestamp of the write (granted, not expired, and with no stored revocation that is as old
  or older), is a grant for writes of records, and its scope and its condition on publication cover
  the write.\<close>

theorem write_grant_exact:
  assumes "node_ok N s" and "times_ok (n_messages s grantor)"
  shows "rga_authorizeWrite N s w grantor grantee g = Inr () \<longleftrightarrow> grant_covers_write N s w grantor grantee g"
proof -
  have base: "performBaseValidation N s (WriteMsg w) grantor grantee g None = Inr () \<longleftrightarrow>
      verifyExpectedGrantorAndGrantee grantor grantee g = Inr ()
    \<and> verifyGrantActive N s grantor (wd_messageTimestamp (w_descriptor w)) g = Inr ()
    \<and> verifyGrantScopeInterfaceAndMethod Records Write g = Inr ()"
    by (simp add: performBaseValidation_def bind_unit_Inr)
  have 1: "verifyExpectedGrantorAndGrantee grantor grantee g = Inr () \<longleftrightarrow> pg_grantor g = grantor \<and> pg_grantee g = grantee"
    by (auto simp: verifyExpectedGrantorAndGrantee_def)
  have 2: "verifyGrantScopeInterfaceAndMethod Records Write g = Inr ()
      \<longleftrightarrow> ps_interface (pg_scope g) = Records \<and> ps_method (pg_scope g) = Write"
    by (auto simp: verifyGrantScopeInterfaceAndMethod_def Let_def)
  have 3: "verifyScope w (pg_scope g) = Inr () \<longleftrightarrow> scope_matches (grant_module_scope (pg_scope g)) (getModuleScopeTarget w)"
    by (simp add: verifyScope_def verify_scope_with_def Let_def)
  have 4: "verifyConditions w (pg_publication g) = Inr () \<longleftrightarrow>
      (pg_publication g = Some (js ''Required'') \<longrightarrow> wd_published (w_descriptor w) = Some True)
    \<and> (pg_publication g = Some (js ''Prohibited'') \<longrightarrow> wd_published (w_descriptor w) \<noteq> Some True)"
    by (auto simp: verifyConditions_def)
  show ?thesis
    unfolding rga_authorizeWrite_def bind_unit_Inr base 1 2 3 4 verifyGrantActive_iff [OF assms] grant_covers_write_def
    by argo
qed

text \<open>A grant that is revoked at day 3 authorises a write of day 2 and not one of day 4.\<close>

theorem write_grant_exact_witness:
  "rga_authorizeWrite live_node_env (stored_node revocationPath [7] (day 3)) (live_write (day 1) (day 2) None) did (js ''did:b'') example_grant = Inr ()
   \<and> rga_authorizeWrite live_node_env (stored_node revocationPath [7] (day 3)) (live_write (day 1) (day 4) None) did (js ''did:b'') example_grant \<noteq> Inr ()"
proof -
  have "matchFilter (ne_tn live_node_env) (stored_indexes revocationPath [7] (day 3)) (grantRevocationFilter [7])"
    by (simp add: stored_indexes_def grantRevocationFilter_def matchIndexValue_def)
  then have sel: "selected live_node_env (n_messages (stored_node revocationPath [7] (day 3)) did) (grantRevocationFilter [7]) = {stored_write (day 3)}"
    unfolding stored_selected by simp
  have order: "day 1 \<le> day 2" "day 2 < day 3" "day 2 < day 9" "\<not> day 4 < day 3" by (simp_all add: day_def)
  have t: "wd_messageTimestamp (w_descriptor (live_write (day 1) t None)) = t" for t
    by (simp add: live_write_def example_write_def Let_def)
  have sc: "scope_matches (grant_module_scope (pg_scope example_grant)) (getModuleScopeTarget (live_write (day 1) t None))" for t
    by (simp add: scope_matches_def grant_module_scope_def example_grant_def getModuleScopeTarget_def live_write_def example_write_def
        Let_def optional_subtree_def matchesSubtree_def)
  have "grant_covers_write live_node_env (stored_node revocationPath [7] (day 3)) (live_write (day 1) (day 2) None) did (js ''did:b'') example_grant"
    "\<not> grant_covers_write live_node_env (stored_node revocationPath [7] (day 3)) (live_write (day 1) (day 4) None) did (js ''did:b'') example_grant"
    using sel order sc unfolding grant_covers_write_def t by (simp_all add: example_grant_def del: js_simps)
  then show ?thesis using write_grant_exact [OF stored_node_ok stored_times] by simp
qed

text \<open>C24: Where a module path allows squashing, a write passes the squash floor exactly when it is newer than
  every squash record stored as latest state at its path and parent context; elsewhere it always passes.\<close>

theorem squash_floor_exact:
  assumes "node_ok (he_node H) s" and "times_ok (n_messages s tenant)"
  shows "enforceSquashBackstop H tenant s w ruleSet = Inr () \<longleftrightarrow>
     \<not> rs_squash ruleSet \<or> (\<forall>q \<in> selected (he_node H) (n_messages s tenant) (squash_filter w).
        messageTimestamp q < wd_messageTimestamp (w_descriptor w))"
  by (rule enforceSquashBackstop_iff [OF assms])

theorem squash_floor_exact_witness:
  "enforceSquashBackstop live_env did (stored_node (js ''p'') [7] (day 3)) (live_write (day 1) (day 4) None) squash_rules = Inr ()
   \<and> enforceSquashBackstop live_env did (stored_node (js ''p'') [7] (day 3)) (live_write (day 1) (day 3) None) squash_rules \<noteq> Inr ()"
proof -
  have n: "he_node live_env = live_node_env" by (simp add: live_env_def)
  have order: "day 3 < day 4" by (simp add: day_def)
  have t: "wd_messageTimestamp (w_descriptor (live_write (day 1) t None)) = t" for t
    by (simp add: live_write_def example_write_def Let_def)
  have "matchFilter (ne_tn live_node_env) (stored_indexes (js ''p'') [7] (day 3)) (squash_filter (live_write (day 1) t None))" for t
    by (simp add: stored_indexes_def squash_filter_def matchIndexValue_def live_write_def example_write_def Let_def
        getParentContextFromOfContextId_def day_def)
  then have sel: "selected live_node_env (n_messages (stored_node (js ''p'') [7] (day 3)) did) (squash_filter (live_write (day 1) t None)) = {stored_write (day 3)}" for t
    unfolding stored_selected by simp
  have "enforceSquashBackstop live_env did (stored_node (js ''p'') [7] (day 3)) (live_write (day 1) t None) squash_rules = Inr ()
      \<longleftrightarrow> day 3 < t" for t
    using squash_floor_exact [of live_env "stored_node (js ''p'') [7] (day 3)" did "live_write (day 1) t None" squash_rules]
      stored_node_ok stored_times [of 3] by (simp add: n sel t squash_rules_def del: js_simps One_nat_def)
  with order show ?thesis by simp
qed

end
