(* ===== verification/Tombstones.thy ===== *)
theory Tombstones
  imports Purge
begin

text \<open>
  Deletes against stored tombstones: what the storage controller does with a delete when the newest
  message of the record is a write.
\<close>

section \<open>Deletes\<close>

lemma performRecordsDelete_write:
  assumes "hash_ok N" and ok: "node_ok N s" and r: "performRecordsDelete n N tenant s d = Some (Inr (p, s'))"
    and plain: "\<not> dd_prune (d_descriptor d)"
    and ex: "query_all N s tenant (record_query (dd_recordId (d_descriptor d))) = Inr ex"
    and newest: "getNewestMessage (re_cids (ne_records N)) ex = Some (WriteMsg v)"
  obtains i w res where "commitLatestStateTransition N tenant s ex (DeleteMsg d) (delete_indexes d i w) [WriteMsg w] = Inr (res, s')"
proof -
  obtain res where "commit_tombstone N tenant s ex d = Inr (res, s')"
    using r ex newest plain by (auto simp: performRecordsDelete_def isDeleteBeatenByExistingTombstone_def split: sum.splits)
  then obtain iw nw where c: "(case (iw, nw) of (WriteMsg i, WriteMsg v) \<Rightarrow>
        commitLatestStateTransition N tenant s ex (DeleteMsg d) (delete_indexes d i v) [nw]
      | _ \<Rightarrow> Inl (OtherError (js ''TypeError''))) = Inr (res, s')"
    unfolding commit_tombstone_def Let_def bind_eq_Inr by blast
  then show ?thesis using that by (cases iw; cases nw) auto
qed

section \<open>Examples\<close>

text \<open>A record with one write, and a delete that is older than the write.\<close>

definition kept_write :: write_message where
  "kept_write = live_write (day 5) (day 5) None"

definition kept_indexes :: "bool \<Rightarrow> key_values" where
  "kept_indexes latest = projr (write_indexes (ne_records live_node_env) (projr (parse_write (ne_records live_node_env) kept_write)) latest)"

definition kept_node :: node where
  "kept_node = row_node (WriteMsg kept_write) (kept_indexes True)"

definition late_delete :: delete_message where
  "late_delete = live_delete (day 5) (day 2) False"

lemma kept_facts:
  "\<not> isl (parse_delete (ne_records live_node_env) late_delete)"
  "case retain_row (ne_records live_node_env) (WriteMsg kept_write) of
     Inr (m, i) \<Rightarrow> m = WriteMsg kept_write \<and> i = kept_indexes False \<and> i \<noteq> [] | _ \<Rightarrow> False"
  "assertFingerprintScopesUntouched (computeFingerprintScopes (WriteMsg kept_write) (kept_indexes True)) (WriteMsg kept_write) (kept_indexes False)
     = Inr ()"
  by code_simp+

lemma kept_values: "record_values (kept_indexes True) (day 5) (day 5) True" "isInitialWrite live_cids (WriteMsg kept_write) = Inr True"
  unfolding record_values_def by code_simp+

lemma kept_node_ok: "node_ok live_node_env kept_node"
  unfolding kept_node_def
  by (rule row_node_ok [of _ _ "day 5" True kept_write]) (use kept_values in \<open>simp_all add: kept_write_def live_write_def example_write_def Let_def\<close>)

lemma kept_rows:
  "row_of (n_messages kept_node did) = [getCid live_cids (WriteMsg kept_write) \<mapsto> \<lparr>r_position = 1, r_message = WriteMsg kept_write,
     r_indexes = kept_indexes True, r_scopes = computeFingerprintScopes (WriteMsg kept_write) (kept_indexes True)\<rparr>]"
  unfolding kept_node_def by (rule row_node_rows(2)) (use kept_values in \<open>auto simp: record_values_def\<close>)

lemma kept_query: "query_all live_node_env kept_node did (record_query (day 5)) = Inr [WriteMsg kept_write]"
proof -
  let ?S = "n_messages kept_node did" and ?E = "ne_store live_node_env did"
  have ok: "tenant_ok ?E ?S" using kept_node_ok by (simp add: node_ok_def)
  obtain ms where ms: "query_messages ?E ?S (record_query (day 5)) = Inr ms" "distinct (map (getCid (se_cids ?E)) ms)"
    "set ms = {r_message r | r c. row_of ?S c = Some r \<and> of_record (day 5) r}"
    by (rule record_query_rows [OF ok])
  have "set ms = {WriteMsg kept_write}"
    unfolding ms(3) kept_rows by (auto simp: of_record_def kept_write_def live_write_def example_write_def Let_def split: if_splits)
  with ms(2) have "ms = [WriteMsg kept_write]" by (cases ms; cases "tl ms") auto
  with ms(1) show ?thesis by simp
qed

lemma kept_commit:
  "\<exists>res. commitLatestState (ne_store live_node_env did) (n_messages kept_node did)
     \<lparr>tr_message = DeleteMsg late_delete, tr_indexes = delete_indexes late_delete kept_write kept_write,
      tr_retains = [(getCid live_cids (WriteMsg kept_write), WriteMsg kept_write, kept_indexes False)], tr_deletes = []\<rparr> = Inr res"
proof -
  let ?S = "n_messages kept_node did" and ?c = "getCid live_cids (WriteMsg kept_write)" and ?d = "getCid live_cids (DeleteMsg late_delete)"
  have cids: "re_cids (ne_records live_node_env) = live_cids" by (simp add: live_node_env_def)
  have ok: "core_ok (ne_store live_node_env did) ?S" using kept_node_ok tenant_okD(2) by (simp add: node_ok_def)
  obtain e where e: "map_of (ts_cids ?S) ?c = Some 1" "map_of (ts_log ?S) 1 = Some e"
    "le_fingerprintScopes e = computeFingerprintScopes (WriteMsg kept_write) (kept_indexes True)"
    using fun_cong [OF kept_rows, of ?c] unfolding row_of_def by (auto split: option.splits)
  have ne: "?d \<noteq> ?c" by code_simp
  have "map_of (ts_cids ?S) ?d = None"
    using fun_cong [OF kept_rows, of ?d] ne row_of_None [OF ok, of ?d] by simp
  moreover have "ts_head ?S = 1"
    unfolding kept_node_def by (rule row_node_rows(3)) (use kept_values in \<open>auto simp: record_values_def\<close>)
  moreover have "encodePositionKey 2 = Inr (replicate 19 48 @ [50])"
    by (simp add: encodePositionKey_def padStart_def decimal.simps)
  moreover have "delete_indexes late_delete kept_write kept_write \<noteq> []" "kept_indexes False \<noteq> []" by code_simp+
  ultimately show ?thesis
    using e kept_facts(3) position_one
    by (simp add: commitLatestState_def Let_def cids insert_operations_def createPutOperations_def getHead_def replace_operations_def
        getLogEntryForMutation_def numeral_2_eq_2 [symmetric])
qed

lemma kept_delete: "\<exists>p s. performRecordsDelete 0 live_node_env did kept_node late_delete = Some (Inr (p, s))"
proof -
  have cids: "re_cids (ne_records live_node_env) = live_cids" by (simp add: live_node_env_def)
  have n: "getNewestMessage live_cids [WriteMsg kept_write] = Some (WriteMsg kept_write)" by (rule getNewestMessage_eqI) simp_all
  have r: "retain_row (ne_records live_node_env) (WriteMsg kept_write) = Inr (WriteMsg kept_write, kept_indexes False)"
    using kept_facts(2) by (auto split: sum.splits prod.splits)
  have d: "dd_recordId (d_descriptor late_delete) = day 5" "\<not> dd_prune (d_descriptor late_delete)"
    by (simp_all add: late_delete_def live_delete_def example_delete_def)
  have ne: "getCid live_cids (WriteMsg kept_write) \<noteq> getCid live_cids (DeleteMsg late_delete)" by code_simp
  have "plan_transition (ne_records live_node_env) (getCid live_cids (DeleteMsg late_delete)) K [WriteMsg kept_write]
      = Inr \<lparr>tp_retains = [(getCid live_cids (WriteMsg kept_write), WriteMsg kept_write, kept_indexes False)], tp_deletes = [],
             tp_displaced = [WriteMsg kept_write]\<rparr>" for K
    using r ne kept_values(2) by (simp add: cids Let_def)
  then have "\<exists>x. commitLatestStateTransition live_node_env did kept_node [WriteMsg kept_write] (DeleteMsg late_delete)
      (delete_indexes late_delete kept_write kept_write) [WriteMsg kept_write] = Inr x"
    using kept_commit by (auto simp: commitLatestStateTransition_def Let_def cids)
  then have "\<exists>x. commit_tombstone live_node_env did kept_node [WriteMsg kept_write] late_delete = Inr x"
    using kept_facts(1) kept_values(2) n
    by (cases "parse_delete (ne_records live_node_env) late_delete") (auto simp: commit_tombstone_def Let_def cids getNewestRecordsWrite_def isRecordsWrite_def)
  then show ?thesis
    using kept_query n d by (auto simp: performRecordsDelete_def cids isDeleteBeatenByExistingTombstone_def put_position_def)
qed

section \<open>Properties\<close>

text \<open>C33: A delete of a record whose newest stored message is a write always takes effect, even against a
  newer tombstone or a prune that is stored already: the tombstone of the record becomes the one that arrived
  last, and no other tombstone of the record is left.\<close>

theorem last_tombstone_stands:
  assumes "hash_ok N" and "node_ok N s" and "performRecordsDelete n N tenant s d = Some (Inr (p, s'))"
    and "\<not> dd_prune (d_descriptor d)" and "row_of (n_messages s tenant) (getCid (re_cids (ne_records N)) (DeleteMsg d)) = None"
    and "query_all N s tenant (record_query (dd_recordId (d_descriptor d))) = Inr ex"
    and "getNewestMessage (re_cids (ne_records N)) ex = Some (WriteMsg v)"
  shows "(\<exists>r. row_of (n_messages s' tenant) (getCid (re_cids (ne_records N)) (DeleteMsg d)) = Some r
        \<and> r_message r = DeleteMsg d \<and> latest_row r)
    \<and> (\<forall>c r d'. row_of (n_messages s tenant) c = Some r \<and> r_message r = DeleteMsg d'
        \<and> dd_recordId (d_descriptor d') = dd_recordId (d_descriptor d) \<longrightarrow> row_of (n_messages s' tenant) c = None)"
proof -
  have ok: "tenant_ok (ne_store N tenant) (n_messages s tenant)" using assms(2) by (simp add: node_ok_def)
  obtain i w res where t: "commitLatestStateTransition N tenant s ex (DeleteMsg d) (delete_indexes d i w) [WriteMsg w] = Inr (res, s')"
    by (rule performRecordsDelete_write [OF assms(1-4,6,7)])
  note T = transition_rows [OF ok hash_okD [OF assms(1)] assms(6) t]
  have "row_of (n_messages s' tenant) c = None" if r: "row_of (n_messages s tenant) c = Some r" "r_message r = DeleteMsg d'"
    "dd_recordId (d_descriptor d') = dd_recordId (d_descriptor d)" for c r d'
  proof -
    have "of_record (dd_recordId (d_descriptor d)) r" using r by (simp add: of_record_def)
    moreover have "c \<noteq> getCid (re_cids (ne_records N)) (DeleteMsg d)" using r(1) assms(5) by auto
    ultimately show ?thesis using T(3) [of c r] r(1,2) by (auto simp: displaced_row_def)
  qed
  moreover have "latest_row \<lparr>r_position = a, r_message = DeleteMsg d, r_indexes = delete_indexes d i w, r_scopes = b\<rparr>" for a b
    using delete_indexes_values [of d i w] by (simp add: latest_row_def record_values_def)
  ultimately show ?thesis using T(2) assms(5) by auto
qed

theorem last_tombstone_stands_witness:
  "\<exists>p s r. performRecordsDelete 0 live_node_env did kept_node late_delete = Some (Inr (p, s))
     \<and> isNewer live_cids (WriteMsg kept_write) (DeleteMsg late_delete)
     \<and> row_of (n_messages s did) (getCid live_cids (DeleteMsg late_delete)) = Some r \<and> latest_row r"
proof -
  have cids: "re_cids (ne_records live_node_env) = live_cids" by (simp add: live_node_env_def)
  obtain p s where d: "performRecordsDelete 0 live_node_env did kept_node late_delete = Some (Inr (p, s))" using kept_delete by blast
  have n: "getNewestMessage live_cids [WriteMsg kept_write] = Some (WriteMsg kept_write)" by (rule getNewestMessage_eqI) simp_all
  have r: "dd_recordId (d_descriptor late_delete) = day 5" "\<not> dd_prune (d_descriptor late_delete)"
    by (simp_all add: late_delete_def live_delete_def example_delete_def)
  have ne: "getCid live_cids (DeleteMsg late_delete) \<noteq> getCid live_cids (WriteMsg kept_write)"
    "isNewer live_cids (WriteMsg kept_write) (DeleteMsg late_delete)" by code_simp+
  have h: "hash_ok live_node_env" using live_hash_ok by (simp add: live_env_def)
  have "row_of (n_messages kept_node did) (getCid live_cids (DeleteMsg late_delete)) = None" unfolding kept_rows using ne(1) by simp
  with last_tombstone_stands [OF h kept_node_ok d r(2), unfolded cids r(1), OF _ kept_query n] d ne(2) show ?thesis by blast
qed

end
