(* ===== verification/Record_Limit.thy ===== *)
theory Record_Limit
  imports Store_Query
begin

text \<open>
  The population of a \<open>$recordLimit\<close> path: pages of raw items, filtered by cached rank boundaries,
  are the occupants of the full query.
\<close>

section \<open>Occupancy\<close>

definition rank_key :: "indexed_item \<Rightarrow> jstr" where
  "rank_key it = projr (createRecordLimitRankKey (snd it))"

text \<open>An item is within the limit of its parent group when fewer candidates of the group rank before it.\<close>

definition occupant :: "(jstr \<Rightarrow> int option) \<Rightarrow> indexed_item list \<Rightarrow> filter_t \<Rightarrow> int \<Rightarrow> indexed_item \<Rightarrow> bool" where
  "occupant tn items cf m it \<longleftrightarrow> matchFilter tn (snd it) cf \<and>
     int (card {x \<in> set items. matchFilter tn (snd x) cf \<and> item_parent x = item_parent it \<and> rank_key x < rank_key it}) < m"

text \<open>Candidates are records: they have a creation date, a record id and at most one parent, and
  they are ranked by different keys.\<close>

definition rankable :: "(jstr \<Rightarrow> int option) \<Rightarrow> indexed_item list \<Rightarrow> filter_t \<Rightarrow> int \<Rightarrow> bool" where
  "rankable tn items cf m \<longleftrightarrow> m \<ge> 1 \<and> distinct (map fst items)
     \<and> (\<exists>p. map_of cf ''modulePath'' = Some (EqualF (SStr p)))
     \<and> (\<forall>it \<in> set items. matchFilter tn (snd it) cf \<longrightarrow>
          \<not> isl (createRecordLimitRankKey (snd it)) \<and> \<not> isl (item_parent it))
     \<and> inj_on rank_key {it \<in> set items. matchFilter tn (snd it) cf}"

lemma rankableD:
  assumes "rankable tn items cf m"
  shows "m \<ge> 1" "distinct (map fst items)" "inj_on rank_key {it \<in> set items. matchFilter tn (snd it) cf}"
    and "it \<in> set items \<Longrightarrow> matchFilter tn (snd it) cf \<Longrightarrow> createRecordLimitRankKey (snd it) = Inr (rank_key it)"
    and "it \<in> set items \<Longrightarrow> matchFilter tn (snd it) cf \<Longrightarrow> \<exists>p. item_parent it = Inr p"
proof -
  show "m \<ge> 1" "distinct (map fst items)" "inj_on rank_key {it \<in> set items. matchFilter tn (snd it) cf}"
    using assms by (simp_all add: rankable_def)
  assume it: "it \<in> set items" "matchFilter tn (snd it) cf"
  with assms have "\<not> isl (createRecordLimitRankKey (snd it))" "\<not> isl (item_parent it)" by (auto simp: rankable_def)
  then show "createRecordLimitRankKey (snd it) = Inr (rank_key it)" "\<exists>p. item_parent it = Inr p"
    by (cases "createRecordLimitRankKey (snd it)"; cases "item_parent it"; simp add: rank_key_def)+
qed

lemma matchFilter_equal:
  "matchFilter tn kvs f \<Longrightarrow> map_of f p = Some (EqualF v) \<Longrightarrow> (case map_of kvs p of
     Some (One w) \<Rightarrow> w = v | Some (Many ws) \<Rightarrow> v \<in> set ws | None \<Rightarrow> False)"
proof (induction tn kvs f rule: matchFilter.induct)
  case (2 tn kvs q g rest)
  have any: "matchAnyIndexValue tn (EqualF v) ws \<longleftrightarrow> v \<in> set ws" for ws
    by (induction ws) (auto simp: matchIndexValue_def)
  show ?case
  proof (cases "q = p")
    case True
    then show ?thesis using 2 any by (auto simp: matchIndexValue_def split: option.splits key_value.splits if_splits)
  next
    case False
    then show ?thesis using 2 by (auto split: option.splits key_value.splits if_splits)
  qed
qed simp

lemma group_candidates_set:
  assumes "map_of cf ''modulePath'' = Some (EqualF (SStr mp))"
    and "\<And>it. it \<in> set items \<Longrightarrow> matchFilter tn (snd it) cf \<Longrightarrow> \<exists>p. item_parent it = Inr p"
  shows "set (group_candidates tn items cf mp parent) = {it \<in> set items. matchFilter tn (snd it) cf \<and> item_parent it = Inr parent}"
proof (cases parent)
  case None
  have e: "item_parent it = Inr None \<longleftrightarrow> map_of (snd it) ''parentId'' = None" for it
    by (auto simp: item_parent_def split: option.splits key_value.splits scalar.splits)
  show ?thesis unfolding None e group_candidates_def iterateExactMatches_def
    using matchFilter_equal [OF _ assms(1)] by auto
next
  case (Some q)
  define E where "E it = (case map_of (snd it) ''parentId'' of Some (One w) \<Rightarrow> w = SStr q | Some (Many ws) \<Rightarrow> SStr q \<in> set ws | None \<Rightarrow> False)"
    for it :: indexed_item
  have e: "E it \<longleftrightarrow> item_parent it = Inr (Some q)" if "it \<in> set items" "matchFilter tn (snd it) cf" for it
    using assms(2) [OF that] by (auto simp: E_def item_parent_def split: option.splits key_value.splits scalar.splits)
  have "group_candidates tn items cf mp parent = filter (\<lambda>it. matchFilter tn (snd it) cf) (filter E items)"
    by (simp add: group_candidates_def iterateExactMatches_def Some E_def [abs_def])
  then show ?thesis using e Some by auto
qed

lemma rank_keys_map:
  "\<forall>it \<in> set its. createRecordLimitRankKey (snd it) = Inr (rank_key it) \<Longrightarrow> rank_keys its = Inr (map rank_key its)"
  by (induction its) auto

text \<open>The boundary of a group decides occupancy.\<close>

lemma cutoff_occupant:
  assumes ok: "rankable tn items cf m" and it: "it \<in> set items" "matchFilter tn (snd it) cf" and parent: "item_parent it = Inr parent"
  shows "\<exists>c. findRecordLimitRankCutoff tn items cf parent m = Inr (Some c) \<and> (rank_key it \<le> c \<longleftrightarrow> occupant tn items cf m it)"
proof -
  obtain mp where mp: "map_of cf ''modulePath'' = Some (EqualF (SStr mp))" using ok by (auto simp: rankable_def)
  define G where "G = group_candidates tn items cf mp parent"
  have set_G: "set G = {x \<in> set items. matchFilter tn (snd x) cf \<and> item_parent x = Inr parent}"
    unfolding G_def by (rule group_candidates_set [OF mp rankableD(5) [OF ok]])
  have keys: "rank_keys G = Inr (map rank_key G)"
    by (rule rank_keys_map) (use set_G rankableD(4) [OF ok] in blast)
  have inj: "inj_on rank_key (set G)" by (rule inj_on_subset [OF rankableD(3) [OF ok]]) (use set_G in blast)
  have "distinct items" using rankableD(2) [OF ok] distinct_map by blast
  then have "distinct G" unfolding G_def group_candidates_def iterateExactMatches_def by (auto split: option.splits)
  with inj have dist: "distinct (map rank_key G)" by (simp add: distinct_map)
  have mem: "it \<in> set G" using it parent set_G by blast
  then have "map rank_key G \<noteq> []" by auto
  moreover have "0 < nat m" using rankableD(1) [OF ok] by simp
  ultimately obtain c where c: "rank_cutoff (map rank_key G) (nat m) = Some c"
    "\<forall>v \<in> set (map rank_key G). v \<le> c \<longleftrightarrow> card {w \<in> set (map rank_key G). w < v} < nat m"
    using rank_cutoff_exact [OF _ _ dist, of "nat m"] by blast
  have "{w \<in> set (map rank_key G). w < rank_key it} = rank_key ` {x \<in> set G. rank_key x < rank_key it}" by auto
  then have "card {w \<in> set (map rank_key G). w < rank_key it} = card {x \<in> set G. rank_key x < rank_key it}"
    using card_image [OF inj_on_subset [OF inj]] by simp
  also have "{x \<in> set G. rank_key x < rank_key it}
      = {x \<in> set items. matchFilter tn (snd x) cf \<and> item_parent x = item_parent it \<and> rank_key x < rank_key it}"
    using set_G parent by auto
  finally have "rank_key it \<le> c \<longleftrightarrow> occupant tn items cf m it"
    using c(2) mem it rankableD(1) [OF ok] by (simp add: occupant_def) linarith
  moreover have "findRecordLimitRankCutoff tn items cf parent m = Inr (Some c)"
    using mp keys c(1) rankableD(1) [OF ok] by (simp add: findRecordLimitRankCutoff_def G_def)
  ultimately show ?thesis by blast
qed

section \<open>The cache\<close>

text \<open>An entry of the cache is the boundary of its group.\<close>

definition cache_ok :: "(jstr \<Rightarrow> int option) \<Rightarrow> indexed_item list \<Rightarrow> filter_t \<Rightarrow> int \<Rightarrow> cutoffs \<Rightarrow> bool" where
  "cache_ok tn items cf m cache \<longleftrightarrow> (\<forall>parent c. map_of cache (group_key parent) = Some c
      \<longrightarrow> findRecordLimitRankCutoff tn items cf parent m = Inr (Some c))"

lemma group_key_inject: "group_key a = group_key b \<longleftrightarrow> a = b"
  by (auto simp: group_key_def split: option.splits)

lemma cache_ok_update:
  "cache_ok tn items cf m cache \<Longrightarrow> findRecordLimitRankCutoff tn items cf parent m = Inr (Some c)
     \<Longrightarrow> cache_ok tn items cf m (AList.update (group_key parent) c cache)"
  by (auto simp: cache_ok_def update_conv' group_key_inject split: if_splits)

lemma cache_ok_delete: "cache_ok tn items cf m cache \<Longrightarrow> cache_ok tn items cf m (AList.delete k cache)"
  by (auto simp: cache_ok_def delete_conv' split: if_splits)

lemma cache_ok_add:
  "cache_ok tn items cf m cache \<Longrightarrow> findRecordLimitRankCutoff tn items cf parent m = Inr (Some c)
     \<Longrightarrow> cache_ok tn items cf m (cacheRecordLimitCutoff cache (group_key parent) c)"
proof -
  assume a: "cache_ok tn items cf m cache" "findRecordLimitRankCutoff tn items cf parent m = Inr (Some c)"
  define old where "old = (if length cache \<ge> RECORD_LIMIT_GROUP_CACHE_SIZE
        then (case cache of [] \<Rightarrow> [] | (oldestKey, _) # _ \<Rightarrow> AList.delete oldestKey cache) else cache)"
  have "old = cache \<or> (\<exists>k. old = AList.delete k cache)"
    unfolding old_def by (cases cache) auto
  with a(1) cache_ok_delete have "cache_ok tn items cf m old" by blast
  from cache_ok_update [OF this a(2)] show ?thesis by (simp only: cacheRecordLimitCutoff_def old_def)
qed

lemma isWithinRecordLimit_occupant:
  assumes ok: "rankable tn items cf m" and cache: "cache_ok tn items cf m cache" and it: "it \<in> set items"
  shows "\<exists>cache'. isWithinRecordLimit tn items cf m cache it = Inr (occupant tn items cf m it, cache') \<and> cache_ok tn items cf m cache'"
proof (cases "matchFilter tn (snd it) cf")
  case False
  then show ?thesis using cache by (simp add: isWithinRecordLimit_def occupant_def)
next
  case True
  obtain parent where parent: "item_parent it = Inr parent" using rankableD(5) [OF ok it True] by blast
  obtain c where c: "findRecordLimitRankCutoff tn items cf parent m = Inr (Some c)" "rank_key it \<le> c \<longleftrightarrow> occupant tn items cf m it"
    using cutoff_occupant [OF ok it True parent] by blast
  note key = rankableD(4) [OF ok it True]
  show ?thesis
  proof (cases "map_of cache (group_key parent)")
    case None
    then show ?thesis using True parent c key cache_ok_add [OF cache c(1)]
      by (simp add: isWithinRecordLimit_def Let_def)
  next
    case (Some c')
    with cache c(1) have "c' = c" by (simp add: cache_ok_def)
    then show ?thesis using True parent c key Some cache_ok_update [OF cache_ok_delete [OF cache] c(1)]
      by (simp add: isWithinRecordLimit_def Let_def)
  qed
qed

text \<open>What a limit leaves of a list when \<open>k\<close> elements are there already.\<close>

primrec clip :: "nat option \<Rightarrow> nat \<Rightarrow> 'a list \<Rightarrow> 'a list" where
  "clip None k xs = xs"
| "clip (Some l) k xs = take (l - k) xs"

lemma clip_Nil [simp]: "clip limit k [] = []"
  by (cases limit) simp_all

lemma filterRecordLimitOccupants_filter:
  assumes ok: "rankable tn items cf m"
  shows "cache_ok tn items cf m cache \<Longrightarrow> set its \<subseteq> set items \<Longrightarrow> (\<forall>l. limit = Some l \<longrightarrow> length found < l) \<Longrightarrow>
    \<exists>cache'. filterRecordLimitOccupants tn items cf m limit cache found its
        = Inr (found @ clip limit (length found) (filter (occupant tn items cf m) its), cache') \<and> cache_ok tn items cf m cache'"
proof (induction its arbitrary: cache found)
  case Nil
  then show ?case by simp
next
  case (Cons it its)
  obtain cache1 where c1: "isWithinRecordLimit tn items cf m cache it = Inr (occupant tn items cf m it, cache1)" "cache_ok tn items cf m cache1"
    using isWithinRecordLimit_occupant [OF ok Cons.prems(1), of it] Cons.prems(2) by auto
  have sub: "set its \<subseteq> set items" using Cons.prems(2) by simp
  show ?case
  proof (cases "occupant tn items cf m it")
    case False
    then show ?thesis using Cons.IH [OF c1(2) sub Cons.prems(3)] c1(1) by simp
  next
    case True
    show ?thesis
    proof (cases "case limit of Some l \<Rightarrow> length (found @ [it]) \<ge> l | None \<Rightarrow> False")
      case full: True
      then obtain l where l: "limit = Some l" "l = Suc (length found)" using Cons.prems(3) by (auto split: option.splits)
      then show ?thesis using True c1 by simp
    next
      case more: False
      then have "\<forall>l. limit = Some l \<longrightarrow> length (found @ [it]) < l" by auto
      from Cons.IH [OF c1(2) sub this] show ?thesis
        using True c1(1) more Cons.prems(3) by (cases limit) (auto simp: take_Cons')
    qed
  qed
qed

section \<open>Pages\<close>

text \<open>The raw items from a cursor on, in the order of the query.\<close>

definition raw_items :: "(jstr \<Rightarrow> int option) \<Rightarrow> indexed_item list \<Rightarrow> filter_t list \<Rightarrow> query_options \<Rightarrow> indexed_item list" where
  "raw_items tn items filters q = filter (\<lambda>it. matchAnyFilter tn (snd it) filters)
     (after_filter (qo_sortProperty q) (qo_sortDirection q) (qo_cursor q) (sortItems (qo_sortProperty q) (qo_sortDirection q) items))"

definition sortable_items :: "string \<Rightarrow> indexed_item list \<Rightarrow> bool" where
  "sortable_items p items \<longleftrightarrow> (\<forall>it \<in> set items. \<exists>v. map_of (snd it) p = Some (One v) \<and> sortable v)"

lemma iterator_pages:
  assumes "sortable_items (qo_sortProperty q) items" and "distinct (map fst items)"
  shows "queryWithIteratorPaging tn items filters (q\<lparr>qo_limit := Some l\<rparr>) = take l (raw_items tn items filters q)"
proof -
  have "getIndexIterator items (q\<lparr>qo_limit := Some l\<rparr>) = after_filter (qo_sortProperty q) (qo_sortDirection q) (qo_cursor q)
      (sortItems (qo_sortProperty q) (qo_sortDirection q) items)"
    using getIndexIterator_eq [of items "q\<lparr>qo_limit := Some l\<rparr>"] assms by (simp add: sortable_items_def)
  then show ?thesis by (simp add: queryWithIteratorPaging_def iterator_loop_limit raw_items_def)
qed

lemma createCursorFromItem_scalar:
  "map_of (snd it) p = Some (One v) \<Longrightarrow> sortable v \<Longrightarrow>
     \<exists>c. createCursorFromItem it p = Inr c \<and> createStartingKeyFromCursor c = cursor_key p it"
  by (cases v) (auto simp: createCursorFromItem_def createStartingKeyFromCursor_def cursor_key_def sort_scalar_def)

lemma filter_split:
  "filter Q L = xs @ y # ys \<Longrightarrow> \<exists>us vs. L = us @ y # vs \<and> Q y \<and> ys = filter Q vs"
proof (induction L arbitrary: xs)
  case (Cons z L)
  show ?case
  proof (cases "Q z \<and> xs = []")
    case True
    then have "z = y" "ys = filter Q L" using Cons.prems by auto
    then show ?thesis using True by (intro exI [of _ "[]"] exI [of _ L]) simp
  next
    case False
    then obtain xs' where "filter Q L = xs' @ y # ys" using Cons.prems by (cases xs) (auto split: if_splits)
    from Cons.IH [OF this] obtain us vs where "L = us @ y # vs" "Q y" "ys = filter Q vs" by blast
    then show ?thesis by (intro exI [of _ "z # us"] exI [of _ vs]) simp
  qed
qed simp

lemma after_suffix:
  assumes "sorted_wrt (\<lambda>a b. isItemAfterCursor b dir p (cursor_key p a) \<and> \<not> isItemAfterCursor a dir p (cursor_key p b)) (xs @ y # ys)"
  shows "filter (\<lambda>it. isItemAfterCursor it dir p (cursor_key p y)) (xs @ y # ys) = ys"
proof -
  have "\<forall>x \<in> set xs. \<not> isItemAfterCursor x dir p (cursor_key p y)" "\<forall>z \<in> set ys. isItemAfterCursor z dir p (cursor_key p y)"
    using assms by (auto simp: sorted_wrt_append)
  then show ?thesis using not_after_self by (simp add: filter_empty_conv filter_id_conv)
qed

text \<open>The cursor of an item of the raw items leads to the items behind it.\<close>

lemma raw_items_resume:
  assumes s: "sortable_items (qo_sortProperty q) items" and d: "distinct (map fst items)"
    and all: "raw_items tn items filters q = xs @ y # ys"
  shows "\<exists>c. createCursorFromItem y (qo_sortProperty q) = Inr c \<and> raw_items tn items filters (q\<lparr>qo_cursor := Some c\<rparr>) = ys"
proof -
  let ?p = "qo_sortProperty q" and ?d = "qo_sortDirection q"
  let ?L = "sortItems ?p ?d items" and ?M = "\<lambda>it. matchAnyFilter tn (snd it) filters"
  have sc: "\<forall>it \<in> set items. sortable (sort_scalar ?p it)" using s by (auto simp: sortable_items_def sort_scalar_def)
  note sorted = sortItems_after [OF sc d, of ?d]
  define P where "P it \<longleftrightarrow> (case qo_cursor q of None \<Rightarrow> True | Some c \<Rightarrow> isItemAfterCursor it ?d ?p (createStartingKeyFromCursor c))" for it
  have raw: "raw_items tn items filters q = filter (\<lambda>it. P it \<and> ?M it) ?L"
    by (cases "qo_cursor q") (simp_all add: raw_items_def after_filter_def P_def conj_commute)
  obtain us vs where L: "?L = us @ y # vs" "?M y" "ys = filter (\<lambda>it. P it \<and> ?M it) vs" "P y"
    using filter_split [OF all [unfolded raw]] by blast
  have "filter (\<lambda>it. P it \<and> ?M it) vs = filter ?M vs"
  proof (rule filter_cong [OF refl])
    fix z assume z: "z \<in> set vs"
    have "P z"
    proof (cases "qo_cursor q")
      case (Some c)
      have "sorted_wrt (\<lambda>a b. isItemAfterCursor a ?d ?p (createStartingKeyFromCursor c)
          \<longrightarrow> isItemAfterCursor b ?d ?p (createStartingKeyFromCursor c)) ?L" by (rule after_mono [OF sc d])
      with z L(1,4) Some show ?thesis by (simp add: P_def sorted_wrt_append)
    qed (simp add: P_def)
    then show "(P z \<and> ?M z) = ?M z" by simp
  qed
  moreover have "y \<in> set items"
  proof -
    have "y \<in> set ?L" using L(1) by simp
    then show ?thesis using set_sortItems by metis
  qed
  then obtain v where "map_of (snd y) ?p = Some (One v)" "sortable v" using s by (auto simp: sortable_items_def)
  from createCursorFromItem_scalar [OF this] obtain c where c: "createCursorFromItem y ?p = Inr c" "createStartingKeyFromCursor c = cursor_key ?p y"
    by blast
  moreover have "filter (\<lambda>it. isItemAfterCursor it ?d ?p (cursor_key ?p y)) ?L = vs"
    using after_suffix [of ?d ?p us y vs] sorted unfolding L(1) by blast
  ultimately show ?thesis using L(3) by (auto simp: raw_items_def after_filter_def)
qed

section \<open>The loop\<close>

lemma population_loop_occupants:
  assumes ok: "rankable tn items cf m" and s: "sortable_items (qo_sortProperty q) items"
    and f: "assertValidSubtreeFilters filters = Inr ()"
  shows "cache_ok tn items cf m cache \<Longrightarrow> (\<forall>l. qo_limit q = Some l \<longrightarrow> length found < l) \<Longrightarrow>
     length (raw_items tn items filters (q\<lparr>qo_cursor := cur\<rparr>)) < n \<Longrightarrow>
     population_loop n tn items filters q cf m cur found cache = Some (Inr (found @
       clip (qo_limit q) (length found) (filter (occupant tn items cf m) (raw_items tn items filters (q\<lparr>qo_cursor := cur\<rparr>)))))"
proof (induction n arbitrary: cur found cache)
  case (Suc n)
  let ?P = RECORD_LIMIT_RAW_PAGE_SIZE and ?occ = "occupant tn items cf m"
  define R where "R = raw_items tn items filters (q\<lparr>qo_cursor := cur\<rparr>)"
  define page where "page = take ?P R"
  have P: "0 < ?P" by (simp add: RECORD_LIMIT_RAW_PAGE_SIZE_def)
  have q: "queryWithBoundedPaging tn items filters (q\<lparr>qo_cursor := cur, qo_limit := Some ?P\<rparr>) = Inr page"
    using iterator_pages [of "q\<lparr>qo_cursor := cur\<rparr>" items tn filters ?P] s rankableD(2) [OF ok] f
    by (simp add: queryWithBoundedPaging_def page_def R_def)
  have "set R \<subseteq> set items" unfolding R_def raw_items_def after_filter_def using set_sortItems by (auto split: option.splits)
  then have sub: "set page \<subseteq> set items" unfolding page_def using set_take_subset by fastforce
  define lim where "lim = map_option (\<lambda>l. l - length found) (qo_limit q)"
  have "\<forall>l. lim = Some l \<longrightarrow> length [] < l" using Suc.prems(2) by (auto simp: lim_def)
  from filterRecordLimitOccupants_filter [OF ok Suc.prems(1) sub this]
  obtain cache' where fo: "filterRecordLimitOccupants tn items cf m lim cache [] page
      = Inr (clip lim 0 (filter ?occ page), cache')" "cache_ok tn items cf m cache'"
    by auto
  define found' where "found' = found @ clip (qo_limit q) (length found) (filter ?occ page)"
  show ?case
  proof (cases "page = []")
    case True
    then have "R = []" using P by (simp add: page_def)
    then show ?thesis using q True by (simp add: R_def [symmetric] split: option.splits)
  next
    case False
    have step: "population_loop (Suc n) tn items filters q cf m cur found cache =
        (if (case qo_limit q of Some l \<Rightarrow> l \<le> length found' | None \<Rightarrow> False) then Some (Inr found')
         else if length page < ?P then Some (Inr found')
         else case createCursorFromItem (last page) (qo_sortProperty q) of
           Inl e \<Rightarrow> Some (Inl e)
         | Inr c \<Rightarrow> population_loop n tn items filters q cf m (Some c) found' cache')"
    proof -
      have "found @ (case qo_limit q of None \<Rightarrow> clip lim 0 (filter ?occ page) | Some l \<Rightarrow> take (l - length found) (clip lim 0 (filter ?occ page))) = found'"
        by (cases "qo_limit q") (simp_all add: lim_def found'_def)
      then show ?thesis using False
        by (simp only: population_loop.simps q sum.case lim_def [symmetric] fo(1) prod.case Let_def if_False)
    qed
    have split: "R = page @ drop ?P R" by (simp add: page_def)
    show ?thesis
    proof (cases "(case qo_limit q of Some l \<Rightarrow> l \<le> length found' | None \<Rightarrow> False)")
      case True
      then obtain l where l: "qo_limit q = Some l" "l \<le> length found'" by (auto split: option.splits)
      then have "l - length found \<le> length (filter ?occ page)" using Suc.prems(2) by (auto simp: found'_def)
      then have "take (l - length found) (filter ?occ R) = take (l - length found) (filter ?occ page)"
        by (subst split) (simp add: filter_append)
      then show ?thesis using step True l by (simp add: R_def [symmetric] found'_def)
    next
      case room: False
      have out: "found @ clip (qo_limit q) (length found) (filter ?occ R)
          = found' @ clip (qo_limit q) (length found') (filter ?occ (drop ?P R))"
      proof (cases "qo_limit q")
        case None
        then show ?thesis by (subst split) (simp add: found'_def filter_append)
      next
        case (Some l)
        then have "length found' < l" using room by simp
        then have "found' = found @ filter ?occ page" "length (filter ?occ page) \<le> l - length found"
          using Some by (auto simp: found'_def)
        then show ?thesis by (subst split) (simp add: Some filter_append)
      qed
      show ?thesis
      proof (cases "length page < ?P")
        case True
        then have "drop ?P R = []" by (auto simp: page_def)
        with out have "found @ clip (qo_limit q) (length found) (filter ?occ R) = found'"
          by simp
        then show ?thesis using step room True by (simp add: R_def [symmetric] Let_def)
      next
        case long: False
        have R: "raw_items tn items filters (q\<lparr>qo_cursor := cur\<rparr>) = butlast page @ last page # drop ?P R"
          unfolding R_def [symmetric] using split append_butlast_last_id [OF False] by (metis append.assoc append_Cons append_Nil)
        obtain c where c: "createCursorFromItem (last page) (qo_sortProperty q) = Inr c"
          "raw_items tn items filters (q\<lparr>qo_cursor := Some c\<rparr>) = drop ?P R"
          using raw_items_resume [OF _ rankableD(2) [OF ok] R] s by auto
        have "length (drop ?P R) < n" using Suc.prems(3) long P by (simp add: page_def R_def)
        moreover have "\<forall>l. qo_limit q = Some l \<longrightarrow> length found' < l" using room by auto
        ultimately show ?thesis
          using step room long c Suc.IH [of cache' found' "Some c"] fo(2) out by (simp add: R_def [symmetric] Let_def)
      qed
    qed
  qed
qed simp

section \<open>Examples\<close>

definition limit_item :: "jstr \<Rightarrow> jstr \<Rightarrow> indexed_item" where
  "limit_item c t = (c, [(''interface'', One (SStr (js ''Records''))), (''method'', One (SStr (js ''Write''))),
     (''isLatestBaseState'', One (SBool True)), (''module'', One (SStr [])), (''modulePath'', One (SStr [1])), (''dateCreated'', One (SStr t)), (''recordId'', One (SStr c))])"

definition limit_items :: "indexed_item list" where
  "limit_items = [limit_item [61] [50], limit_item [62] [48], limit_item [63] [49]]"

definition limit_rule :: record_limit where
  "limit_rule = \<lparr>rl_module = [], rl_modulePath = [1], rl_contextId = None, rl_parentId = None, rl_max = 2\<rparr>"

definition limit_query :: query_options where
  "limit_query = \<lparr>qo_sortProperty = ''dateCreated'', qo_sortDirection = Descending, qo_limit = None, qo_cursor = None\<rparr>"

section \<open>Properties\<close>

text \<open>C17: The population of a path with a record limit is what the limit means: with fuel for one page
  more than there are items, the loop over bounded raw pages with its cache of rank boundaries returns, in query
  order and up to the page size, exactly the matching items for which fewer than \<open>max\<close> candidates of the
  same parent rank before them by creation date and record id.\<close>

theorem record_limit_population:
  assumes "rankable tn items (buildRecordLimitCandidateFilter rl) (rl_max rl)" and "sortable_items (qo_sortProperty q) items"
    and "assertValidSubtreeFilters filters = Inr ()" and "length items < n"
  shows "iterateRecordLimitPopulation n tn items filters q rl = Some (Inr (clip (qo_limit q) 0
           (filter (occupant tn items (buildRecordLimitCandidateFilter rl) (rl_max rl)) (raw_items tn items filters q))))"
proof (cases "qo_limit q = Some 0")
  case True
  then show ?thesis by (simp add: iterateRecordLimitPopulation_def)
next
  case False
  have q: "q\<lparr>qo_cursor := qo_cursor q\<rparr> = q" by simp
  have "length (raw_items tn items filters q) \<le> length items"
  proof -
    have "length (sortItems p d items) = length items" for p d by (cases d) (simp_all add: sortItems_def)
    then show ?thesis unfolding raw_items_def after_filter_def
      by (cases "qo_cursor q") (metis (no_types, lifting) option.case length_filter_le le_trans)+
  qed
  with assms(4) have len: "length (raw_items tn items filters (q\<lparr>qo_cursor := qo_cursor q\<rparr>)) < n" unfolding q by simp
  have "cache_ok tn items (buildRecordLimitCandidateFilter rl) (rl_max rl) []" by (simp add: cache_ok_def)
  moreover have "\<forall>l. qo_limit q = Some l \<longrightarrow> length [] < l" using False by auto
  ultimately show ?thesis
    using population_loop_occupants [OF assms(1-3) _ _ len, of "[]" "[]"] False unfolding q
    by (simp add: iterateRecordLimitPopulation_def)
qed

theorem record_limit_population_witness:
  "\<exists>xs. iterateRecordLimitPopulation 4 (\<lambda>_. None) limit_items [[]] limit_query limit_rule = Some (Inr xs) \<and> map fst xs = [[63], [62]]"
proof -
  let ?cf = "buildRecordLimitCandidateFilter limit_rule"
  have m: "matchFilter (\<lambda>_. None) (snd it) ?cf" "\<not> isl (createRecordLimitRankKey (snd it))" "\<not> isl (item_parent it)" if "it \<in> set limit_items" for it
    using that by (auto simp: limit_items_def limit_item_def buildRecordLimitCandidateFilter_def limit_rule_def matchIndexValue_def
        createRecordLimitRankKey_def item_parent_def opt_prop_def)
  have "map_of ?cf ''modulePath'' = Some (EqualF (SStr [1]))" by (simp add: buildRecordLimitCandidateFilter_def limit_rule_def)
  moreover have "inj_on rank_key {it \<in> set limit_items. matchFilter (\<lambda>_. None) (snd it) ?cf}"
    by (rule inj_on_subset [of _ "set limit_items"])
       (auto simp: inj_on_def limit_items_def rank_key_def createRecordLimitRankKey_def limit_item_def json_string_def json_unit_def keySegmentJoin_def)
  ultimately have r: "rankable (\<lambda>_. None) limit_items ?cf (rl_max limit_rule)"
    unfolding rankable_def using m by (auto simp: limit_rule_def limit_items_def limit_item_def)
  have so: "sortable_items (qo_sortProperty limit_query) limit_items"
    by (auto simp: sortable_items_def limit_query_def limit_items_def limit_item_def)
  have va: "assertValidSubtreeFilters [[]] = Inr ()" "length limit_items < 4"
    by (simp_all add: assertValidSubtreeFilters_def limit_items_def)
  have res: "map fst (clip (qo_limit limit_query) 0 (filter (occupant (\<lambda>_. None) limit_items ?cf (rl_max limit_rule))
      (raw_items (\<lambda>_. None) limit_items [[]] limit_query))) = [[63], [62]]"
  proof -
    have raw: "raw_items (\<lambda>_. None) limit_items [[]] limit_query = [limit_item [61] [50], limit_item [63] [49], limit_item [62] [48]]"
      by (simp add: raw_items_def after_filter_def limit_query_def limit_items_def sortItems_def sort_value_def sort_scalar_def
          limit_item_def json_string_def json_unit_def filter_simps)
    have occ: "occupant (\<lambda>_. None) limit_items ?cf (rl_max limit_rule) it
        \<longleftrightarrow> length (filter (\<lambda>x. rank_key x < rank_key it) limit_items) < 2" if "it \<in> set limit_items" for it
    proof -
      have p: "item_parent x = Inr None" if "x \<in> set limit_items" for x
        using that by (auto simp: limit_items_def limit_item_def item_parent_def)
      have "{x \<in> set limit_items. matchFilter (\<lambda>_. None) (snd x) ?cf \<and> item_parent x = item_parent it \<and> rank_key x < rank_key it}
          = set (filter (\<lambda>x. rank_key x < rank_key it) limit_items)" using m p that by auto
      moreover have "card (set (filter (\<lambda>x. rank_key x < rank_key it) limit_items)) = length (filter (\<lambda>x. rank_key x < rank_key it) limit_items)"
        by (rule distinct_card) (simp add: limit_items_def limit_item_def)
      moreover have "rl_max limit_rule = 2" by (simp add: limit_rule_def)
      ultimately show ?thesis using m(1) [OF that] unfolding occupant_def by simp
    qed
    have key: "rank_key (limit_item [61] [50]) = [34, 50, 34, 0, 34, 61, 34]" "rank_key (limit_item [62] [48]) = [34, 48, 34, 0, 34, 62, 34]"
      "rank_key (limit_item [63] [49]) = [34, 49, 34, 0, 34, 63, 34]"
      by (simp_all add: rank_key_def createRecordLimitRankKey_def limit_item_def json_string_def json_unit_def keySegmentJoin_def)
    have mem: "limit_item [61] [50] \<in> set limit_items" "limit_item [62] [48] \<in> set limit_items" "limit_item [63] [49] \<in> set limit_items"
      by (simp_all add: limit_items_def)
    have len: "length (filter (\<lambda>x. rank_key x < [34, t, 34, 0, 34, c, 34]) limit_items) = length (filter (\<lambda>x. x < [34, t, 34, 0, 34, c, 34])
        [[34, 50, 34, 0, 34, 61, 34], [34, 48, 34, 0, 34, 62, 34], [34, 49, 34, 0, 34, 63, 34]])" for t c
      by (simp only: limit_items_def filter.simps key if_distrib [of length] list.size)
    have o: "\<not> occupant (\<lambda>_. None) limit_items ?cf (rl_max limit_rule) (limit_item [61] [50])"
      "occupant (\<lambda>_. None) limit_items ?cf (rl_max limit_rule) (limit_item [62] [48])"
      "occupant (\<lambda>_. None) limit_items ?cf (rl_max limit_rule) (limit_item [63] [49])"
      unfolding occ [OF mem(1)] occ [OF mem(2)] occ [OF mem(3)] key len
      by simp_all
    have "qo_limit limit_query = None" "fst (limit_item c t) = c" for c t by (simp_all add: limit_query_def limit_item_def)
    then show ?thesis unfolding raw by (simp add: o)
  qed
  show ?thesis by (rule exI, rule conjI [OF record_limit_population [OF r so va] res])
qed

end
