(* ===== verification/Module_Graph.thy ===== *)
theory Module_Graph
  imports Records
begin

text \<open>
  The resolution of a module definition and the definitions it composes into a graph of record paths
  (\<open>core/module-graph.ts\<close> of \<open>src/packages/dwn-sdk-js/src\<close>): dependencies are loaded without cycles,
  every path of every definition becomes a node with its physical ancestors, references (\<open>$ref\<close>) are
  followed to the record they stand for, and the roles and actors of the action rules are bound.

  The resolver is the record \<open>resolver\<close> of its maps and sets, passed along; a thrown error ends the
  resolution.  The key of a node is the pair that the code serialises.  The recursive methods take
  the next level as an argument and run on fuel: \<^const>\<open>None\<close> is a resolution that did not end within it.
\<close>

section \<open>Computations that may not end\<close>

definition fbind :: "'a result option \<Rightarrow> ('a \<Rightarrow> 'b result option) \<Rightarrow> 'b result option" where
  "fbind r f = (case r of None \<Rightarrow> None | Some (Inl e) \<Rightarrow> Some (Inl e) | Some (Inr a) \<Rightarrow> f a)"

abbreviation fail :: "string \<Rightarrow> 'a result option" where
  "fail code \<equiv> Some (Inl (DwnError code []))"

lemma fbind_simps [simp]:
  "fbind None f = None" "fbind (Some (Inl e)) f = Some (Inl e)" "fbind (Some (Inr a)) f = f a"
  by (simp_all add: fbind_def)

lemma fbind_eq_Inr: "fbind r f = Some (Inr b) \<longleftrightarrow> (\<exists>a. r = Some (Inr a) \<and> f a = Some (Inr b))"
  by (auto simp: fbind_def split: option.splits sum.splits)

lemma fbind_not_None:
  "r \<noteq> None \<Longrightarrow> (\<And>a. r = Some (Inr a) \<Longrightarrow> f a \<noteq> None) \<Longrightarrow> fbind r f \<noteq> None"
  by (auto simp: fbind_def split: option.splits sum.splits)

section \<open>The graph\<close>

type_synonym address = "jstr \<times> jstr"

record ancestor_step =
  as_declaring :: address
  as_owning :: address
  as_typeName :: jstr
  as_ruleSet :: rule_set
  as_recordType :: module_type

record role_reference =
  rr_address :: address
  rr_rawRole :: jstr
  rr_physicalAncestors :: "ancestor_step list"
  rr_physicalDepth :: nat
  rr_parentPhysicalDepth :: nat
  rr_parentAncestor :: "address option"
  rr_ruleSet :: rule_set

record actor_reference =
  ac_address :: address
  ac_who :: "jstr option"
  ac_rawOf :: jstr
  ac_physicalDepth :: nat

record resolved_action =
  ra_rule :: action_rule
  ra_role :: "role_reference option"
  ra_actor :: "actor_reference option"

datatype node_kind = RecordNode | RefNode

record resolved_node =
  rn_declaring :: address
  rn_owning :: address
  rn_typeName :: jstr
  rn_ruleSet :: rule_set
  rn_recordType :: module_type
  rn_kind :: node_kind
  rn_declaredRuleSet :: rule_set
  rn_physicalAncestors :: "ancestor_step list"
  rn_physicalDepth :: nat
  rn_parentPhysicalDepth :: nat
  rn_expectedParent :: "address option"
  rn_rolesByRawRef :: "(jstr \<times> role_reference) list"
  rn_actions :: "resolved_action list"

record resolver =
  rv_definitions :: "(jstr \<times> module_definition) list"
  rv_nodes :: "(address \<times> resolved_node) list"
  rv_loading :: "jstr list"
  rv_resolving :: "address list"
  rv_refTargets :: "((jstr \<times> address) \<times> jstr) list"

record module_graph =
  mg_rootModuleUri :: jstr
  mg_definitionsByUri :: "(jstr \<times> module_definition) list"
  mg_nodesByDeclaredPath :: "(jstr \<times> resolved_node) list"
  mg_resolver :: resolver

definition empty_resolver :: resolver where
  "empty_resolver = \<lparr>rv_definitions = [], rv_nodes = [], rv_loading = [], rv_resolving = [], rv_refTargets = []\<rparr>"

section \<open>Loading definitions\<close>

type_synonym definition_lookup = "jstr \<Rightarrow> module_definition option"

fun load_uses ::
  "(resolver \<Rightarrow> module_definition \<Rightarrow> resolver result option) \<Rightarrow> records_env \<Rightarrow> definition_lookup
    \<Rightarrow> jstr list \<Rightarrow> (jstr \<times> jstr) list \<Rightarrow> resolver \<Rightarrow> resolver result option" where
  "load_uses load E getDefinition usedUris [] s = Some (Inr s)"
| "load_uses load E getDefinition usedUris ((alias, targetUri) # uses) s =
     (case validateModuleUrlNormalized E targetUri of
        Inl e \<Rightarrow> Some (Inl e)
      | Inr _ \<Rightarrow>
          if targetUri \<in> set usedUris then fail ''ModulesConfigureDuplicateUsesModule''
          else if targetUri \<in> set (rv_loading s) then fail ''ModulesConfigureInvalidUsesCycle''
          else if map_of (rv_definitions s) targetUri \<noteq> None
          then load_uses load E getDefinition (targetUri # usedUris) uses s
          else case getDefinition targetUri of
            None \<Rightarrow> fail ''ModulesConfigureComposedModuleNotInstalled''
          | Some target \<Rightarrow>
              if md_module target \<noteq> targetUri then fail ''ModulesConfigureInvalidUsesModuleUrl''
              else fbind (load s target) (load_uses load E getDefinition (targetUri # usedUris) uses))"

definition load_step ::
  "(resolver \<Rightarrow> module_definition \<Rightarrow> resolver result option) \<Rightarrow> records_env \<Rightarrow> definition_lookup
    \<Rightarrow> resolver \<Rightarrow> module_definition \<Rightarrow> resolver result option" where
  "load_step load E getDefinition s input =
     (let moduleUri = md_module input in
      if moduleUri \<in> set (rv_loading s) then fail ''ModulesConfigureInvalidUsesCycle''
      else if map_of (rv_definitions s) moduleUri \<noteq> None then Some (Inr s)
      else case validateModuleUrlNormalized E moduleUri of
        Inl e \<Rightarrow> Some (Inl e)
      | Inr _ \<Rightarrow>
          fbind (load_uses load E getDefinition [] (sort_key fst (case md_uses input of None \<Rightarrow> [] | Some u \<Rightarrow> u))
                  (s\<lparr>rv_loading := moduleUri # rv_loading s, rv_definitions := rv_definitions s @ [(moduleUri, input)]\<rparr>))
            (\<lambda>s'. Some (Inr (s'\<lparr>rv_loading := removeAll moduleUri (rv_loading s')\<rparr>))))"

primrec loadDefinition ::
  "nat \<Rightarrow> records_env \<Rightarrow> definition_lookup \<Rightarrow> resolver \<Rightarrow> module_definition \<Rightarrow> resolver result option" where
  "loadDefinition 0 E getDefinition = (\<lambda>s input. None)"
| "loadDefinition (Suc n) E getDefinition = load_step (loadDefinition n E getDefinition) E getDefinition"

section \<open>Nodes\<close>

abbreviation dollar :: nat where "dollar \<equiv> 36"

text \<open>The walk of \<open>declaredRuleSet\<close> along the segments of a path.\<close>

fun walk_path :: "(jstr \<times> rule_set) list \<Rightarrow> jstr list \<Rightarrow> rule_set option" where
  "walk_path children [] = None"
| "walk_path children (segment # segments) =
     (if segment = [] \<or> startsWith segment [dollar] then None
      else case map_of children segment of
        None \<Rightarrow> None
      | Some node \<Rightarrow> if segments = [] then Some node else walk_path (rs_children node) segments)"

definition declared_at :: "(jstr \<times> module_definition) list \<Rightarrow> address \<Rightarrow> rule_set option" where
  "declared_at ds a = (case map_of ds (fst a) of
     None \<Rightarrow> None | Some d \<Rightarrow> walk_path (md_structure d) (split_on slash (snd a)))"

text \<open>Definitions are loaded before a node refers to them.\<close>

definition declaredRuleSet :: "resolver \<Rightarrow> address \<Rightarrow> rule_set result" where
  "declaredRuleSet s a = (case map_of (rv_definitions s) (fst a) of
     None \<Rightarrow> Inl (OtherError (js ''TypeError''))
   | Some _ \<Rightarrow> (case declared_at (rv_definitions s) a of
       None \<Rightarrow> Inl (DwnError ''ModulesConfigureInvalidRefModulePath'' []) | Some rs \<Rightarrow> Inr rs))"

type_synonym node_resolver = "resolver \<Rightarrow> address \<Rightarrow> (resolved_node \<times> resolver) result option"

definition resolveReference :: "node_resolver \<Rightarrow> resolver \<Rightarrow> jstr \<Rightarrow> jstr \<Rightarrow> (resolved_node \<times> resolver) result option" where
  "resolveReference rec s moduleUri reference =
     (if colon \<notin> set reference then rec s (moduleUri, reference)
      else let alias = takeWhile (\<lambda>c. c \<noteq> colon) reference; path = tl (dropWhile (\<lambda>c. c \<noteq> colon) reference)
           in case map_of (rv_definitions s) moduleUri of
                None \<Rightarrow> Some (Inl (OtherError (js ''TypeError'')))
              | Some d \<Rightarrow> (case (case md_uses d of None \<Rightarrow> None | Some u \<Rightarrow> map_of u alias) of
                  None \<Rightarrow> fail ''ModulesConfigureInvalidRefAlias''
                | Some targetUri \<Rightarrow> rec s (targetUri, path)))"

definition ancestorStep :: "resolved_node \<Rightarrow> ancestor_step" where
  "ancestorStep node = \<lparr>as_declaring = rn_declaring node, as_owning = rn_owning node, as_typeName = rn_typeName node,
     as_ruleSet = rn_ruleSet node, as_recordType = rn_recordType node\<rparr>"

definition before_last_slash :: "jstr \<Rightarrow> jstr option" where
  "before_last_slash path = (if slash \<in> set path then Some (rev (tl (dropWhile (\<lambda>c. c \<noteq> slash) (rev path)))) else None)"

definition createReferenceNode ::
  "node_resolver \<Rightarrow> resolver \<Rightarrow> address \<Rightarrow> rule_set \<Rightarrow> jstr \<Rightarrow> (resolved_node \<times> resolver) result option" where
  "createReferenceNode rec s a rs reference =
     (if slash \<in> set (snd a) then fail ''ModulesConfigureInvalidRefNotAtRoot''
      else fbind (resolveReference rec s (fst a) reference) (\<lambda>(target, s').
        if rs_squash (rn_ruleSet target) \<or> list_ex (\<lambda>step. rs_squash (as_ruleSet step)) (rn_physicalAncestors target)
        then fail ''ModulesConfigureInvalidRefTargetSquash''
        else if map_of (rv_refTargets s') (fst a, rn_owning target) \<noteq> None
        then fail ''ModulesConfigureDuplicateRefTarget''
        else Some (Inr (target\<lparr>rn_declaring := a, rn_kind := RefNode, rn_declaredRuleSet := rs,
                               rn_rolesByRawRef := [], rn_actions := []\<rparr>,
                        s'\<lparr>rv_refTargets := ((fst a, rn_owning target), snd a) # rv_refTargets s'\<rparr>))))"

definition createRecordNode ::
  "node_resolver \<Rightarrow> resolver \<Rightarrow> address \<Rightarrow> rule_set \<Rightarrow> (resolved_node \<times> resolver) result option" where
  "createRecordNode rec s a rs =
     (let typeName = last (split_on slash (snd a)) in
      case map_of (rv_definitions s) (fst a) of
        None \<Rightarrow> Some (Inl (OtherError (js ''TypeError'')))
      | Some d \<Rightarrow> (case map_of (md_types d) typeName of
          None \<Rightarrow> fail ''ModulesConfigureInvalidRuleSetRecordType''
        | Some recordType \<Rightarrow>
            fbind (case before_last_slash (snd a) of
                     None \<Rightarrow> Some (Inr (None, s))
                   | Some p \<Rightarrow> fbind (rec s (fst a, p)) (\<lambda>(parent, s'). Some (Inr (Some parent, s')))) (\<lambda>(parent, s').
            let ancestors = (case parent of None \<Rightarrow> [] | Some q \<Rightarrow> rn_physicalAncestors q @ [ancestorStep q])
            in Some (Inr (\<lparr>rn_declaring = a, rn_owning = a, rn_typeName = typeName, rn_ruleSet = rs, rn_recordType = recordType,
                           rn_kind = RecordNode, rn_declaredRuleSet = rs, rn_physicalAncestors = ancestors,
                           rn_physicalDepth = length ancestors + 1, rn_parentPhysicalDepth = length ancestors,
                           rn_expectedParent = map_option rn_owning parent, rn_rolesByRawRef = [], rn_actions = []\<rparr>, s')))))"

definition resolve_node_step :: "node_resolver \<Rightarrow> node_resolver" where
  "resolve_node_step rec s a = (case map_of (rv_nodes s) a of
     Some node \<Rightarrow> Some (Inr (node, s))
   | None \<Rightarrow>
       if a \<in> set (rv_resolving s) then fail ''ModulesConfigureInvalidUsesCycle''
       else case declaredRuleSet s a of
         Inl e \<Rightarrow> Some (Inl e)
       | Inr rs \<Rightarrow>
           (let s1 = s\<lparr>rv_resolving := a # rv_resolving s\<rparr> in
            fbind (case rs_ref rs of None \<Rightarrow> createRecordNode rec s1 a rs | Some r \<Rightarrow> createReferenceNode rec s1 a rs r) (\<lambda>(node, s2).
            if rn_physicalDepth node > maxRecordNestingDepth then fail ''ModulesConfigureMaxDepthExceeded''
            else Some (Inr (node, s2\<lparr>rv_nodes := rv_nodes s2 @ [(a, node)], rv_resolving := removeAll a (rv_resolving s2)\<rparr>)))))"

primrec resolveNode :: "nat \<Rightarrow> node_resolver" where
  "resolveNode 0 = (\<lambda>s a. None)"
| "resolveNode (Suc n) = resolve_node_step (resolveNode n)"

section \<open>Structures\<close>

definition child_path :: "jstr \<Rightarrow> jstr \<Rightarrow> jstr" where
  "child_path parentPath name = (if parentPath = [] then name else parentPath @ slash # name)"

text \<open>The record paths below a rule set in the order of \<open>resolveStructure\<close>: siblings by name, each
  followed by what is below it.\<close>

fun rule_set_paths :: "jstr \<Rightarrow> rule_set \<Rightarrow> jstr list" where
  "rule_set_paths parentPath (RuleSet ka acts role ref sz tg rl im sq children) =
     concat (map snd (sort_key fst (map (\<lambda>(name, child).
       (name, child_path parentPath name # rule_set_paths (child_path parentPath name) child))
       (filter (\<lambda>(name, _). \<not> startsWith name [dollar]) children))))"

definition structure_paths :: "module_definition \<Rightarrow> jstr list" where
  "structure_paths d = rule_set_paths [] (RuleSet None None False None None None None False False (md_structure d))"

fun resolveStructure :: "node_resolver \<Rightarrow> jstr \<Rightarrow> jstr list \<Rightarrow> resolver \<Rightarrow> resolver result option" where
  "resolveStructure rec moduleUri [] s = Some (Inr s)"
| "resolveStructure rec moduleUri (path # paths) s =
     fbind (rec s (moduleUri, path)) (\<lambda>(_, s'). resolveStructure rec moduleUri paths s')"

fun resolve_definitions :: "node_resolver \<Rightarrow> (jstr \<times> module_definition) list \<Rightarrow> resolver \<Rightarrow> resolver result option" where
  "resolve_definitions rec [] s = Some (Inr s)"
| "resolve_definitions rec ((moduleUri, loaded) # ds) s =
     fbind (resolveStructure rec moduleUri (structure_paths loaded) s) (resolve_definitions rec ds)"

section \<open>Actions\<close>

definition resolveRole :: "node_resolver \<Rightarrow> resolver \<Rightarrow> jstr \<Rightarrow> jstr \<Rightarrow> (role_reference \<times> resolver) result option" where
  "resolveRole rec s moduleUri rawRole =
     fbind (resolveReference rec s moduleUri rawRole) (\<lambda>(target, s').
     if \<not> rs_role (rn_ruleSet target) then fail ''ModulesConfigureRoleDoesNotExistAtGivenPath''
     else Some (Inr (\<lparr>rr_address = rn_owning target, rr_rawRole = rawRole, rr_physicalAncestors = rn_physicalAncestors target,
                      rr_physicalDepth = rn_physicalDepth target, rr_parentPhysicalDepth = rn_parentPhysicalDepth target,
                      rr_parentAncestor = rn_expectedParent target, rr_ruleSet = rn_ruleSet target\<rparr>, s')))"

definition isSelfOrAncestor :: "resolved_node \<Rightarrow> address \<Rightarrow> bool" where
  "isSelfOrAncestor node a \<longleftrightarrow> rn_owning node = a \<or> list_ex (\<lambda>step. as_owning step = a) (rn_physicalAncestors node)"

definition resolveRoleAction ::
  "bool \<Rightarrow> node_resolver \<Rightarrow> resolver \<Rightarrow> resolved_node \<Rightarrow> action_rule \<Rightarrow> jstr \<Rightarrow> address list
    \<Rightarrow> (resolved_action \<times> address \<times> resolver) result option" where
  "resolveRoleAction requireKeyAgreement rec s node rule rawRole roleKeys =
     fbind (resolveRole rec s (fst (rn_declaring node)) rawRole) (\<lambda>(role, s').
     if (case rr_parentAncestor role of None \<Rightarrow> False | Some p \<Rightarrow> \<not> isSelfOrAncestor node p)
     then fail ''ModulesConfigureInvalidRoleAncestor''
     else if rr_address role \<in> set roleKeys then fail ''ModulesConfigureDuplicateRoleInRuleSet''
     else if requireKeyAgreement \<and> rn_kind node = RecordNode \<and> mt_encryptionRequired (rn_recordType node)
             \<and> js ''read'' \<in> set (ar_can rule) \<and> rs_keyAgreement (rr_ruleSet role) = None
     then fail ''ModulesConfigureInvalidEncryptedRoleMissingKeyAgreement''
     else Some (Inr (\<lparr>ra_rule = rule, ra_role = Some role, ra_actor = None\<rparr>, rr_address role, s')))"

type_synonym actor_key = "jstr option \<times> address option"

definition resolveActorAction ::
  "node_resolver \<Rightarrow> resolver \<Rightarrow> resolved_node \<Rightarrow> action_rule \<Rightarrow> actor_key list
    \<Rightarrow> (resolved_action \<times> actor_key \<times> resolver) result option" where
  "resolveActorAction rec s node rule actorKeys =
     fbind (case ar_of rule of
              None \<Rightarrow> Some (Inr (None, s))
            | Some of' \<Rightarrow> fbind (resolveReference rec s (fst (rn_declaring node)) of') (\<lambda>(target, s').
                if \<not> isSelfOrAncestor node (rn_owning target) then fail ''ModulesConfigureInvalidActionOfNotAnAncestor''
                else Some (Inr (Some \<lparr>ac_address = rn_owning target, ac_who = ar_who rule, ac_rawOf = of',
                                      ac_physicalDepth = rn_physicalDepth target\<rparr>, s')))) (\<lambda>(actor, s').
     let key = (ar_who rule, map_option ac_address actor) in
     if key \<in> set actorKeys then fail ''ModulesConfigureDuplicateActorInRuleSet''
     else Some (Inr (\<lparr>ra_rule = rule, ra_role = None, ra_actor = actor\<rparr>, key, s')))"

fun resolve_rules ::
  "bool \<Rightarrow> node_resolver \<Rightarrow> resolved_node \<Rightarrow> address list \<Rightarrow> actor_key list \<Rightarrow> action_rule list \<Rightarrow> resolver
    \<Rightarrow> (resolved_action list \<times> resolver) result option" where
  "resolve_rules requireKeyAgreement rec node roleKeys actorKeys [] s = Some (Inr ([], s))"
| "resolve_rules requireKeyAgreement rec node roleKeys actorKeys (rule # rules) s =
     (case ar_role rule of
        None \<Rightarrow> fbind (resolveActorAction rec s node rule actorKeys) (\<lambda>(action, key, s').
          fbind (resolve_rules requireKeyAgreement rec node roleKeys (key # actorKeys) rules s') (\<lambda>(actions, s'').
            Some (Inr (action # actions, s''))))
      | Some rawRole \<Rightarrow> fbind (resolveRoleAction requireKeyAgreement rec s node rule rawRole roleKeys) (\<lambda>(action, key, s').
          fbind (resolve_rules requireKeyAgreement rec node (key # roleKeys) actorKeys rules s') (\<lambda>(actions, s'').
            Some (Inr (action # actions, s'')))))"

text \<open>\<open>resolveActions\<close>: the actions and the map of its roles by their references are stored in the node.\<close>

definition resolveActions :: "bool \<Rightarrow> node_resolver \<Rightarrow> resolver \<Rightarrow> resolved_node \<Rightarrow> (resolved_node \<times> resolver) result option" where
  "resolveActions requireKeyAgreement rec s node =
     fbind (resolve_rules requireKeyAgreement rec node [] []
              (case rs_actions (rn_declaredRuleSet node) of None \<Rightarrow> [] | Some rules \<Rightarrow> rules) s) (\<lambda>(actions, s').
     Some (Inr (node\<lparr>rn_actions := actions,
       rn_rolesByRawRef := List.map_filter (\<lambda>a. map_option (\<lambda>r. (rr_rawRole r, r)) (ra_role a)) actions\<rparr>, s')))"

fun resolve_all_actions :: "bool \<Rightarrow> node_resolver \<Rightarrow> (address \<times> resolved_node) list \<Rightarrow> resolver \<Rightarrow> resolver result option" where
  "resolve_all_actions requireKeyAgreement rec [] s = Some (Inr s)"
| "resolve_all_actions requireKeyAgreement rec ((key, node) # nodes) s =
     fbind (resolveActions requireKeyAgreement rec s node) (\<lambda>(node', s').
     resolve_all_actions requireKeyAgreement rec nodes (s'\<lparr>rv_nodes := AList.update key node' (rv_nodes s')\<rparr>))"

section \<open>Resolution\<close>

text \<open>Every path of the loaded definitions is resolved before the actions, so that binding the actions
  adds no node.\<close>

definition resolveModuleGraph ::
  "nat \<Rightarrow> records_env \<Rightarrow> definition_lookup \<Rightarrow> bool \<Rightarrow> module_definition \<Rightarrow> module_graph result option" where
  "resolveModuleGraph n E getDefinition requireKeyAgreement d =
     fbind (loadDefinition n E getDefinition empty_resolver d) (\<lambda>s.
     fbind (resolve_definitions (resolveNode n) (rv_definitions s) s) (\<lambda>s.
     fbind (resolve_all_actions requireKeyAgreement (resolveNode n) (rv_nodes s) s) (\<lambda>s.
     Some (Inr \<lparr>mg_rootModuleUri = md_module d, mg_definitionsByUri = rv_definitions s,
       mg_nodesByDeclaredPath = map (\<lambda>(a, node). (snd a, node)) (filter (\<lambda>(a, node). fst (rn_declaring node) = md_module d) (rv_nodes s)),
       mg_resolver = s\<rparr>))))"

text \<open>A role invoked by a message: every declared node is in the map, so that one level is enough.\<close>

definition resolveInvokedRole :: "module_graph \<Rightarrow> jstr \<Rightarrow> role_reference result" where
  "resolveInvokedRole g moduleRole =
     (case resolveRole (resolveNode 1) (mg_resolver g) (mg_rootModuleUri g) moduleRole of
        Some r \<Rightarrow> bind r (\<lambda>(role, _). Inr role)
      | None \<Rightarrow> Inl (OtherError (js ''TypeError'')))"

end
