(* ===== verification/Module_Resolution.thy ===== *)
theory Module_Resolution
  imports Module_Graph
begin

text \<open>
  What the module graph means: which record a reference stands for and which records are its physical
  ancestors, as relations on the loaded definitions, and that the resolver with its cache computes
  them.  A locale states what one level of the resolver promises to the next.
\<close>

section \<open>References and ancestry\<close>

type_synonym definitions = "(jstr \<times> module_definition) list"

definition points :: "definitions \<Rightarrow> jstr \<Rightarrow> jstr \<Rightarrow> address \<Rightarrow> bool" where
  "points ds moduleUri reference a \<longleftrightarrow>
     (if colon \<notin> set reference then a = (moduleUri, reference)
      else \<exists>d u target. map_of ds moduleUri = Some d \<and> md_uses d = Some u
        \<and> map_of u (takeWhile (\<lambda>c. c \<noteq> colon) reference) = Some target
        \<and> a = (target, tl (dropWhile (\<lambda>c. c \<noteq> colon) reference)))"

text \<open>The record that a declared path stands for: itself, or what its reference leads to.\<close>

inductive resolves :: "definitions \<Rightarrow> address \<Rightarrow> address \<Rightarrow> bool" for ds where
  itself: "declared_at ds a = Some rs \<Longrightarrow> rs_ref rs = None \<Longrightarrow> resolves ds a a"
| follow: "declared_at ds a = Some rs \<Longrightarrow> rs_ref rs = Some r \<Longrightarrow> slash \<notin> set (snd a)
    \<Longrightarrow> points ds (fst a) r t \<Longrightarrow> resolves ds t b \<Longrightarrow> resolves ds a b"

text \<open>The records above a record, root first.\<close>

inductive ancestry :: "definitions \<Rightarrow> address \<Rightarrow> address list \<Rightarrow> bool" for ds where
  root: "before_last_slash (snd a) = None \<Longrightarrow> ancestry ds a []"
| nested: "before_last_slash (snd a) = Some p \<Longrightarrow> resolves ds (fst a, p) b \<Longrightarrow> ancestry ds b as \<Longrightarrow> ancestry ds a (as @ [b])"

text \<open>The record that a reference written in a module denotes.\<close>

definition denotes :: "definitions \<Rightarrow> jstr \<Rightarrow> jstr \<Rightarrow> address \<Rightarrow> bool" where
  "denotes ds moduleUri reference b \<longleftrightarrow> (\<exists>a. points ds moduleUri reference a \<and> resolves ds a b)"

lemma denotesI: "points ds u r a \<Longrightarrow> resolves ds a b \<Longrightarrow> denotes ds u r b"
  unfolding denotes_def by blast

lemma points_unique: "points ds u r a \<Longrightarrow> points ds u r b \<Longrightarrow> a = b"
  by (auto simp: points_def split: if_splits)

lemma resolves_unique: "resolves ds a b \<Longrightarrow> resolves ds a c \<Longrightarrow> b = c"
proof (induction arbitrary: c rule: resolves.induct)
  case (itself a rs)
  from itself.prems itself.hyps show ?case by (cases rule: resolves.cases) auto
next
  case (follow a rs r t b)
  from follow.prems follow.hyps obtain t' where "points ds (fst a) r t'" "resolves ds t' c"
    by (cases rule: resolves.cases) auto
  then show ?case using follow points_unique by metis
qed

lemma ancestry_unique: "ancestry ds a as \<Longrightarrow> ancestry ds a bs \<Longrightarrow> as = bs"
proof (induction arbitrary: bs rule: ancestry.induct)
  case (root a)
  from root.prems root.hyps show ?case by (cases rule: ancestry.cases) auto
next
  case (nested a p b as)
  from nested.prems nested.hyps obtain c cs where "resolves ds (fst a, p) c" "ancestry ds c cs" "bs = cs @ [c]"
    by (cases rule: ancestry.cases) auto
  then show ?case using nested resolves_unique by metis
qed

section \<open>Sound nodes\<close>

definition ancestors_sound :: "definitions \<Rightarrow> address \<Rightarrow> ancestor_step list \<Rightarrow> bool" where
  "ancestors_sound ds a steps \<longleftrightarrow> ancestry ds a (map as_owning steps)
     \<and> (\<forall>step \<in> set steps. declared_at ds (as_owning step) = Some (as_ruleSet step))"

definition node_sound :: "definitions \<Rightarrow> address \<Rightarrow> resolved_node \<Rightarrow> bool" where
  "node_sound ds a node \<longleftrightarrow> rn_declaring node = a
     \<and> resolves ds a (rn_owning node)
     \<and> declared_at ds a = Some (rn_declaredRuleSet node)
     \<and> declared_at ds (rn_owning node) = Some (rn_ruleSet node)
     \<and> ancestors_sound ds (rn_owning node) (rn_physicalAncestors node)
     \<and> rn_parentPhysicalDepth node = length (rn_physicalAncestors node)
     \<and> rn_physicalDepth node = length (rn_physicalAncestors node) + 1
     \<and> rn_expectedParent node = (if rn_physicalAncestors node = [] then None else Some (as_owning (last (rn_physicalAncestors node))))
     \<and> (rn_kind node = RefNode \<longleftrightarrow> rs_ref (rn_declaredRuleSet node) \<noteq> None)
     \<and> (rn_kind node = RefNode \<longrightarrow> \<not> rs_squash (rn_ruleSet node)
          \<and> (\<forall>step \<in> set (rn_physicalAncestors node). \<not> rs_squash (as_ruleSet step)))"

definition resolver_ok :: "resolver \<Rightarrow> bool" where
  "resolver_ok s \<longleftrightarrow> distinct (map fst (rv_nodes s))
     \<and> (\<forall>a node. map_of (rv_nodes s) a = Some node \<longrightarrow> node_sound (rv_definitions s) a node \<and> rn_physicalDepth node \<le> maxRecordNestingDepth)"

text \<open>A resolution keeps what is there, and adds no node that is being resolved further up.\<close>

definition extends :: "resolver \<Rightarrow> resolver \<Rightarrow> bool" where
  "extends s s' \<longleftrightarrow> rv_definitions s' = rv_definitions s \<and> rv_resolving s' = rv_resolving s
     \<and> (\<forall>a node. map_of (rv_nodes s) a = Some node \<longrightarrow> map_of (rv_nodes s') a = Some node)
     \<and> (\<forall>a \<in> set (rv_resolving s). map_of (rv_nodes s') a = map_of (rv_nodes s) a)"

lemma extends_refl: "extends s s"
  by (simp add: extends_def)

lemma extends_trans: "extends s s' \<Longrightarrow> extends s' s'' \<Longrightarrow> extends s s''"
  by (simp add: extends_def)

lemma extendsD:
  assumes "extends s s'"
  shows "rv_definitions s' = rv_definitions s" and "rv_resolving s' = rv_resolving s"
    and "map_of (rv_nodes s) a = Some node \<Longrightarrow> map_of (rv_nodes s') a = Some node"
    and "a \<in> set (rv_resolving s) \<Longrightarrow> map_of (rv_nodes s') a = map_of (rv_nodes s) a"
  using assms unfolding extends_def by blast+

lemma resolver_okD:
  assumes "resolver_ok s" and "map_of (rv_nodes s) a = Some node"
  shows "node_sound (rv_definitions s) a node" and "rn_physicalDepth node \<le> maxRecordNestingDepth"
  using assms unfolding resolver_ok_def by blast+

lemma node_soundD:
  assumes "node_sound ds a node"
  shows "resolves ds a (rn_owning node)" and "declared_at ds a = Some (rn_declaredRuleSet node)"
    and "declared_at ds (rn_owning node) = Some (rn_ruleSet node)"
    and "ancestors_sound ds (rn_owning node) (rn_physicalAncestors node)"
    and "rn_declaring node = a"
  using assms by (simp_all add: node_sound_def)

section \<open>The contract between the levels of the resolver\<close>

locale node_provider =
  fixes rec :: node_resolver
  assumes resolved: "resolver_ok s \<Longrightarrow> rec s a = Some (Inr (node, s')) \<Longrightarrow>
    resolver_ok s' \<and> extends s s' \<and> map_of (rv_nodes s') a = Some node"
begin

lemma resolved_sound:
  assumes "resolver_ok s" and "rec s a = Some (Inr (node, s'))"
  shows "node_sound (rv_definitions s) a node" and "resolver_ok s'" and "extends s s'"
proof -
  have r: "resolver_ok s'" "extends s s'" "map_of (rv_nodes s') a = Some node" using resolved [OF assms] by blast+
  show "node_sound (rv_definitions s) a node" using resolver_okD(1) [OF r(1,3)] extendsD(1) [OF r(2)] by simp
qed (use resolved [OF assms] in blast)+

lemma reference_sound:
  assumes "resolver_ok s" and "resolveReference rec s u r = Some (Inr (target, s'))"
  obtains t where "points (rv_definitions s) u r t" and "node_sound (rv_definitions s) t target"
    and "resolver_ok s'" and "extends s s'" and "rec s t = Some (Inr (target, s'))"
proof (cases "colon \<in> set r")
  case False
  with assms(2) have "rec s (u, r) = Some (Inr (target, s'))" by (simp add: resolveReference_def)
  with resolved_sound [OF assms(1) this] False show ?thesis by (intro that [of "(u, r)"]) (simp_all add: points_def)
next
  case True
  with assms(2) obtain d us t where t: "map_of (rv_definitions s) u = Some d" "md_uses d = Some us"
    "map_of us (takeWhile (\<lambda>c. c \<noteq> colon) r) = Some t"
    "rec s (t, tl (dropWhile (\<lambda>c. c \<noteq> colon) r)) = Some (Inr (target, s'))"
    by (auto simp: resolveReference_def Let_def split: option.splits)
  with resolved_sound [OF assms(1) t(4)] True show ?thesis
    by (intro that [of "(t, tl (dropWhile (\<lambda>c. c \<noteq> colon) r))"]) (auto simp: points_def)
qed

lemma record_node_sound:
  assumes "resolver_ok s" and "declared_at (rv_definitions s) a = Some rs" and "rs_ref rs = None"
    and "createRecordNode rec s a rs = Some (Inr (node, s'))"
  shows "node_sound (rv_definitions s) a node \<and> resolver_ok s' \<and> extends s s'"
proof -
  let ?ds = "rv_definitions s"
  have self: "resolves ?ds a a" using assms(2,3) by (rule resolves.itself)
  obtain d t where dt: "map_of ?ds (fst a) = Some d" "map_of (md_types d) (last (split_on slash (snd a))) = Some t"
    using assms(4) by (auto simp: createRecordNode_def Let_def split: option.splits)
  show ?thesis
  proof (cases "before_last_slash (snd a)")
    case None
    with assms(4) dt have "s' = s" and "node = \<lparr>rn_declaring = a, rn_owning = a, rn_typeName = last (split_on slash (snd a)),
        rn_ruleSet = rs, rn_recordType = t, rn_kind = RecordNode, rn_declaredRuleSet = rs, rn_physicalAncestors = [],
        rn_physicalDepth = 1, rn_parentPhysicalDepth = 0, rn_expectedParent = None, rn_rolesByRawRef = [], rn_actions = []\<rparr>"
      by (simp_all add: createRecordNode_def)
    with None assms self show ?thesis by (simp add: node_sound_def ancestors_sound_def ancestry.root extends_refl)
  next
    case (Some p)
    with assms(4) dt obtain q where q: "rec s (fst a, p) = Some (Inr (q, s'))"
      and node: "node = \<lparr>rn_declaring = a, rn_owning = a, rn_typeName = last (split_on slash (snd a)),
        rn_ruleSet = rs, rn_recordType = t, rn_kind = RecordNode, rn_declaredRuleSet = rs,
        rn_physicalAncestors = rn_physicalAncestors q @ [ancestorStep q],
        rn_physicalDepth = length (rn_physicalAncestors q @ [ancestorStep q]) + 1,
        rn_parentPhysicalDepth = length (rn_physicalAncestors q @ [ancestorStep q]),
        rn_expectedParent = Some (rn_owning q), rn_rolesByRawRef = [], rn_actions = []\<rparr>"
      by (auto simp: createRecordNode_def Let_def fbind_eq_Inr)
    note Q = resolved_sound [OF assms(1) q]
    have "ancestors_sound ?ds a (rn_physicalAncestors q @ [ancestorStep q])"
      using ancestry.nested [OF Some node_soundD(1) [OF Q(1)]] node_soundD(3,4) [OF Q(1)]
      by (simp add: ancestors_sound_def ancestorStep_def)
    with Q assms(2,3) self show ?thesis by (simp add: node_sound_def node ancestorStep_def)
  qed
qed

lemma reference_node_sound:
  assumes "resolver_ok s" and "declared_at (rv_definitions s) a = Some rs" and "rs_ref rs = Some r"
    and "createReferenceNode rec s a rs r = Some (Inr (node, s'))"
  shows "node_sound (rv_definitions s) a node \<and> resolver_ok s' \<and> extends s s'"
proof -
  let ?ds = "rv_definitions s"
  obtain target s1 where t: "slash \<notin> set (snd a)" "resolveReference rec s (fst a) r = Some (Inr (target, s1))"
    "\<not> rs_squash (rn_ruleSet target)" "\<not> list_ex (\<lambda>step. rs_squash (as_ruleSet step)) (rn_physicalAncestors target)"
    and node: "node = target\<lparr>rn_declaring := a, rn_kind := RefNode, rn_declaredRuleSet := rs, rn_rolesByRawRef := [], rn_actions := []\<rparr>"
    and s': "s' = s1\<lparr>rv_refTargets := ((fst a, rn_owning target), snd a) # rv_refTargets s1\<rparr>"
    using assms(4) by (auto simp: createReferenceNode_def fbind_eq_Inr split: if_splits)
  obtain b where b: "points ?ds (fst a) r b" "node_sound ?ds b target" "resolver_ok s1" "extends s s1"
    by (rule reference_sound [OF assms(1) t(2)])
  have "resolves ?ds a (rn_owning target)" by (rule resolves.follow [OF assms(2,3) t(1) b(1) node_soundD(1) [OF b(2)]])
  with b(2) assms(2,3) t(3,4) have "node_sound ?ds a node" by (simp add: node_sound_def node list_ex_iff)
  with b(3,4) show ?thesis by (simp add: s' resolver_ok_def extends_def)
qed

lemma step_provides: "node_provider (resolve_node_step rec)"
proof
  fix s a node s'
  assume ok: "resolver_ok s" and r: "resolve_node_step rec s a = Some (Inr (node, s'))"
  show "resolver_ok s' \<and> extends s s' \<and> map_of (rv_nodes s') a = Some node"
  proof (cases "map_of (rv_nodes s) a")
    case (Some n)
    with r ok show ?thesis by (simp add: resolve_node_step_def extends_refl)
  next
    case None
    let ?s1 = "s\<lparr>rv_resolving := a # rv_resolving s\<rparr>" and ?ds = "rv_definitions s"
    from r None obtain rs s2 where a: "a \<notin> set (rv_resolving s)" "declaredRuleSet s a = Inr rs"
      and c: "(case rs_ref rs of None \<Rightarrow> createRecordNode rec ?s1 a rs | Some r \<Rightarrow> createReferenceNode rec ?s1 a rs r) = Some (Inr (node, s2))"
      and depth: "rn_physicalDepth node \<le> maxRecordNestingDepth"
      and s': "s' = s2\<lparr>rv_nodes := rv_nodes s2 @ [(a, node)], rv_resolving := removeAll a (rv_resolving s2)\<rparr>"
      by (auto simp: resolve_node_step_def Let_def fbind_eq_Inr not_less split: if_splits sum.splits)
    have ok1: "resolver_ok ?s1" using ok by (simp add: resolver_ok_def)
    have decl: "declared_at (rv_definitions ?s1) a = Some rs"
      using a(2) by (simp add: declaredRuleSet_def split: option.splits)
    have "node_sound (rv_definitions ?s1) a node \<and> resolver_ok s2 \<and> extends ?s1 s2"
    proof (cases "rs_ref rs")
      case None
      with c record_node_sound [OF ok1 decl] show ?thesis by simp
    next
      case (Some r)
      with c reference_node_sound [OF ok1 decl] show ?thesis by simp
    qed
    then have s2: "node_sound ?ds a node" "resolver_ok s2" "extends ?s1 s2" by simp_all
    have none: "map_of (rv_nodes s2) a = None" using extendsD(4) [OF s2(3), of a] None by simp
    then have fresh: "a \<notin> fst ` set (rv_nodes s2)" by (simp add: map_of_eq_None_iff)
    have "resolver_ok s'"
      using s2(1,2) extendsD(1) [OF s2(3)] depth fresh none
      by (auto simp: s' resolver_ok_def map_add_def split: option.splits)
    moreover have "extends s s'"
      using s2(3) a(1) None by (auto simp: s' extends_def map_add_def split: option.splits)
    ultimately show ?thesis using none by (simp add: s' map_add_def)
  qed
qed

end

lemma resolveNode_provides: "node_provider (resolveNode n)"
proof (induction n)
  case 0
  show ?case by unfold_locales simp
qed (simp add: node_provider.step_provides)

interpretation level: node_provider "resolveNode n" for n
  by (rule resolveNode_provides)

section \<open>Declared paths\<close>

lemma set_rule_set_paths:
  "set (rule_set_paths p rs) = (\<Union>(name, child) \<in> {c \<in> set (rs_children rs). \<not> startsWith (fst c) [dollar]}.
     insert (child_path p name) (set (rule_set_paths (child_path p name) child)))"
  by (cases rs) auto

lemma walk_in_paths:
  "walk_path (rs_children rs) segments = Some r \<Longrightarrow> foldl child_path p segments \<in> set (rule_set_paths p rs)"
proof (induction segments arbitrary: rs p)
  case (Cons x segments)
  then obtain node where n: "\<not> startsWith x [dollar]" "(x, node) \<in> set (rs_children rs)"
    "if segments = [] then r = node else walk_path (rs_children node) segments = Some r"
    by (auto split: if_splits option.splits dest: map_of_SomeD)
  have "foldl child_path (child_path p x) segments \<in> insert (child_path p x) (set (rule_set_paths (child_path p x) node))"
    using n(3) Cons.IH by (cases "segments = []") auto
  with n(1,2) show ?case by (subst set_rule_set_paths) auto
qed simp

lemma walk_segments: "walk_path cs segments = Some r \<Longrightarrow> segments \<noteq> [] \<and> [] \<notin> set segments"
  by (induction cs segments rule: walk_path.induct) (auto split: if_splits option.splits)

lemma foldl_child_path: "p \<noteq> [] \<Longrightarrow> foldl child_path p segments = join_with slash (p # segments)"
proof (induction segments arbitrary: p)
  case (Cons x segments)
  have "foldl child_path p (x # segments) = foldl child_path (p @ slash # x) segments" using Cons.prems by (simp add: child_path_def)
  also have "\<dots> = join_with slash ((p @ slash # x) # segments)" by (rule Cons.IH) simp
  also have "\<dots> = join_with slash (p # x # segments)" by (cases segments) simp_all
  finally show ?case .
qed simp

lemma declared_in_structure:
  assumes "declared_at ds a = Some rs"
  obtains d where "map_of ds (fst a) = Some d" and "snd a \<in> set (structure_paths d)"
proof -
  from assms obtain d where d: "map_of ds (fst a) = Some d" "walk_path (md_structure d) (split_on slash (snd a)) = Some rs"
    by (auto simp: declared_at_def split: option.splits)
  obtain x xs where x: "split_on slash (snd a) = x # xs" "x \<noteq> []" using walk_segments [OF d(2)] by (cases "split_on slash (snd a)") auto
  have "foldl child_path [] (x # xs) = join_with slash (x # xs)"
    using foldl_child_path [OF x(2)] by (simp add: child_path_def)
  also have "\<dots> = snd a" using join_split [of slash "snd a"] x(1) by simp
  finally have path: "foldl child_path [] (split_on slash (snd a)) = snd a" using x(1) by simp
  show ?thesis
  proof (rule that [OF d(1)])
    show "snd a \<in> set (structure_paths d)" unfolding structure_paths_def
      using walk_in_paths [where rs = "RuleSet None None False None None None None False False (md_structure d)" and p = "[]"
        and segments = "split_on slash (snd a)" and r = rs] d(2) path by simp
  qed
qed

definition declared_nodes :: "definitions \<Rightarrow> address set" where
  "declared_nodes ds = (SIGMA u : dom (map_of ds). set (structure_paths (the (map_of ds u))))"

lemma finite_declared_nodes [simp]: "finite (declared_nodes ds)"
  unfolding declared_nodes_def by (rule finite_SigmaI) (simp_all add: finite_dom_map_of)

lemma declared_at_node: "declared_at ds a = Some rs \<Longrightarrow> a \<in> declared_nodes ds"
  by (erule declared_in_structure) (cases a, auto simp: declared_nodes_def)

section \<open>Termination\<close>

definition open_nodes :: "resolver \<Rightarrow> address set" where
  "open_nodes s = declared_nodes (rv_definitions s) - set (rv_resolving s)"

lemma open_nodes_extends: "extends s s' \<Longrightarrow> open_nodes s' = open_nodes s"
  by (simp add: open_nodes_def extends_def)

text \<open>A level that ends when fewer than \<open>k\<close> declared nodes are not being resolved above it.\<close>

locale bounded_provider = node_provider +
  fixes k :: nat
  assumes ends: "resolver_ok s \<Longrightarrow> card (open_nodes s) < k \<Longrightarrow> rec s a \<noteq> None"
begin

lemma reference_ends: "resolver_ok s \<Longrightarrow> card (open_nodes s) < k \<Longrightarrow> resolveReference rec s u r \<noteq> None"
  using ends by (auto simp: resolveReference_def Let_def split: option.splits)

lemma record_node_ends: "resolver_ok s \<Longrightarrow> card (open_nodes s) < k \<Longrightarrow> createRecordNode rec s a rs \<noteq> None"
  using ends [of s "(fst a, the (before_last_slash (snd a)))"]
  by (auto simp: createRecordNode_def Let_def fbind_def split: option.splits sum.splits)

lemma reference_node_ends: "resolver_ok s \<Longrightarrow> card (open_nodes s) < k \<Longrightarrow> createReferenceNode rec s a rs r \<noteq> None"
  using reference_ends [of s "fst a" r] by (auto simp: createReferenceNode_def fbind_def split: option.splits sum.splits)

lemma step_ends:
  assumes "resolver_ok s" and "card (open_nodes s) < Suc k"
  shows "resolve_node_step rec s a \<noteq> None"
proof (cases "map_of (rv_nodes s) a = None \<and> a \<notin> set (rv_resolving s) \<and> (\<exists>rs. declaredRuleSet s a = Inr rs)")
  case True
  then obtain rs where a: "map_of (rv_nodes s) a = None" "a \<notin> set (rv_resolving s)" "declaredRuleSet s a = Inr rs" by blast
  let ?s1 = "s\<lparr>rv_resolving := a # rv_resolving s\<rparr>"
  have ok1: "resolver_ok ?s1" using assms(1) by (simp add: resolver_ok_def)
  have "declared_at (rv_definitions s) a = Some rs" using a(3) by (simp add: declaredRuleSet_def split: option.splits)
  then have "a \<in> open_nodes s" using a(2) declared_at_node by (simp add: open_nodes_def)
  moreover have "open_nodes ?s1 = open_nodes s - {a}" by (auto simp: open_nodes_def)
  moreover have "finite (open_nodes s)" by (simp add: open_nodes_def)
  ultimately have "card (open_nodes ?s1) < card (open_nodes s)" using card_Diff1_less by metis
  then have k: "card (open_nodes ?s1) < k" using assms(2) by simp
  have "(case rs_ref rs of None \<Rightarrow> createRecordNode rec ?s1 a rs | Some r \<Rightarrow> createReferenceNode rec ?s1 a rs r) \<noteq> None"
    using record_node_ends [OF ok1 k] reference_node_ends [OF ok1 k] by (cases "rs_ref rs") simp_all
  then show ?thesis using a unfolding resolve_node_step_def Let_def
    by (auto simp: fbind_def split: sum.splits prod.splits)
qed (auto simp: resolve_node_step_def split: option.splits sum.splits)

lemma step_bounded: "bounded_provider (resolve_node_step rec) (Suc k)"
  by (intro bounded_provider.intro step_provides bounded_provider_axioms.intro step_ends)

end

lemma resolveNode_bounded: "bounded_provider (resolveNode n) n"
proof (induction n)
  case 0
  show ?case by unfold_locales simp
qed (simp add: bounded_provider.step_bounded)

interpretation bounded_level: bounded_provider "resolveNode n" n for n
  by (rule resolveNode_bounded)

section \<open>All paths\<close>

text \<open>What the loops over the paths and the rules promise, whatever level they run on.\<close>

context node_provider
begin

lemma structure_sound:
  "resolver_ok s \<Longrightarrow> resolveStructure rec u ps s = Some (Inr s') \<Longrightarrow>
     resolver_ok s' \<and> extends s s' \<and> (\<forall>p \<in> set ps. map_of (rv_nodes s') (u, p) \<noteq> None)"
proof (induction ps arbitrary: s)
  case (Cons p ps)
  then obtain node s1 where r: "rec s (u, p) = Some (Inr (node, s1))" "resolveStructure rec u ps s1 = Some (Inr s')"
    by (auto simp: fbind_eq_Inr)
  have 1: "resolver_ok s1" "extends s s1" "map_of (rv_nodes s1) (u, p) = Some node" using resolved [OF Cons.prems(1) r(1)] by blast+
  have 2: "resolver_ok s'" "extends s1 s'" "\<forall>q \<in> set ps. map_of (rv_nodes s') (u, q) \<noteq> None" using Cons.IH [OF 1(1) r(2)] by blast+
  have "map_of (rv_nodes s') (u, p) = Some node" by (rule extendsD(3) [OF 2(2) 1(3)])
  with 2 extends_trans [OF 1(2) 2(2)] show ?case by simp
qed (simp add: extends_refl)

lemma definitions_sound:
  "resolver_ok s \<Longrightarrow> resolve_definitions rec ds s = Some (Inr s') \<Longrightarrow>
     resolver_ok s' \<and> extends s s' \<and> (\<forall>(u, d) \<in> set ds. \<forall>p \<in> set (structure_paths d). map_of (rv_nodes s') (u, p) \<noteq> None)"
proof (induction ds arbitrary: s)
  case (Cons x ds)
  obtain u d where x: "x = (u, d)" by fastforce
  from Cons.prems(2) obtain s1 where r: "resolveStructure rec u (structure_paths d) s = Some (Inr s1)" "resolve_definitions rec ds s1 = Some (Inr s')"
    by (auto simp: x fbind_eq_Inr)
  have 1: "resolver_ok s1" "extends s s1" "\<forall>p \<in> set (structure_paths d). map_of (rv_nodes s1) (u, p) \<noteq> None"
    using structure_sound [OF Cons.prems(1) r(1)] by blast+
  have 2: "resolver_ok s'" "extends s1 s'"
    "\<forall>(u, d) \<in> set ds. \<forall>p \<in> set (structure_paths d). map_of (rv_nodes s') (u, p) \<noteq> None"
    using Cons.IH [OF 1(1) r(2)] by blast+
  have "\<forall>p \<in> set (structure_paths d). map_of (rv_nodes s') (u, p) \<noteq> None" using 1(3) extendsD(3) [OF 2(2)] by fastforce
  with 2 extends_trans [OF 1(2) 2(2)] show ?case by (simp add: x)
qed (simp add: extends_refl)

end

section \<open>Bound actions\<close>

definition role_sound :: "definitions \<Rightarrow> jstr \<Rightarrow> jstr \<Rightarrow> role_reference \<Rightarrow> bool" where
  "role_sound ds u raw role \<longleftrightarrow> denotes ds u raw (rr_address role)
     \<and> declared_at ds (rr_address role) = Some (rr_ruleSet role) \<and> rs_role (rr_ruleSet role)
     \<and> ancestors_sound ds (rr_address role) (rr_physicalAncestors role)
     \<and> rr_parentPhysicalDepth role = length (rr_physicalAncestors role)
     \<and> rr_parentAncestor role = (if rr_physicalAncestors role = [] then None else Some (as_owning (last (rr_physicalAncestors role))))"

definition action_sound :: "definitions \<Rightarrow> resolved_node \<Rightarrow> resolved_action \<Rightarrow> bool" where
  "action_sound ds node act \<longleftrightarrow> (case ar_role (ra_rule act) of
     Some raw \<Rightarrow> ra_actor act = None \<and> (\<exists>role. ra_role act = Some role \<and> role_sound ds (fst (rn_declaring node)) raw role
       \<and> (\<forall>p. rr_parentAncestor role = Some p \<longrightarrow> isSelfOrAncestor node p))
   | None \<Rightarrow> ra_role act = None \<and> (case ar_of (ra_rule act) of
       None \<Rightarrow> ra_actor act = None
     | Some of' \<Rightarrow> \<exists>t. ra_actor act = Some t \<and> ac_who t = ar_who (ra_rule act)
         \<and> denotes ds (fst (rn_declaring node)) of' (ac_address t) \<and> isSelfOrAncestor node (ac_address t)))"

definition declared_rules :: "resolved_node \<Rightarrow> action_rule list" where
  "declared_rules node = (case rs_actions (rn_declaredRuleSet node) of None \<Rightarrow> [] | Some rules \<Rightarrow> rules)"

definition actions_sound :: "definitions \<Rightarrow> resolved_node \<Rightarrow> bool" where
  "actions_sound ds node \<longleftrightarrow> map ra_rule (rn_actions node) = declared_rules node \<and> (\<forall>act \<in> set (rn_actions node). action_sound ds node act)"

context node_provider
begin

lemma role_resolved:
  assumes "resolver_ok s" and "resolveRole rec s u raw = Some (Inr (role, s'))"
  shows "role_sound (rv_definitions s) u raw role \<and> resolver_ok s' \<and> extends s s'"
proof -
  from assms(2) obtain target where t: "resolveReference rec s u raw = Some (Inr (target, s'))" "rs_role (rn_ruleSet target)"
    and role: "role = \<lparr>rr_address = rn_owning target, rr_rawRole = raw, rr_physicalAncestors = rn_physicalAncestors target,
      rr_physicalDepth = rn_physicalDepth target, rr_parentPhysicalDepth = rn_parentPhysicalDepth target,
      rr_parentAncestor = rn_expectedParent target, rr_ruleSet = rn_ruleSet target\<rparr>"
    by (auto simp: resolveRole_def fbind_eq_Inr split: if_splits)
  obtain b where b: "points (rv_definitions s) u raw b" "node_sound (rv_definitions s) b target" "resolver_ok s'" "extends s s'"
    by (rule reference_sound [OF assms(1) t(1)])
  have "denotes (rv_definitions s) u raw (rn_owning target)" by (rule denotesI [OF b(1) node_soundD(1) [OF b(2)]])
  with b(2) t(2) have "role_sound (rv_definitions s) u raw role" by (simp add: role_sound_def role node_sound_def)
  with b show ?thesis by simp
qed

lemma role_action_resolved:
  assumes "resolver_ok s" and "ar_role rule = Some raw" and "resolveRoleAction kr rec s node rule raw keys = Some (Inr (act, key, s'))"
  shows "ra_rule act = rule \<and> action_sound (rv_definitions s) node act \<and> resolver_ok s' \<and> extends s s'"
proof -
  from assms(3) obtain role where r: "resolveRole rec s (fst (rn_declaring node)) raw = Some (Inr (role, s'))"
    "\<not> (case rr_parentAncestor role of None \<Rightarrow> False | Some p \<Rightarrow> \<not> isSelfOrAncestor node p)"
    "act = \<lparr>ra_rule = rule, ra_role = Some role, ra_actor = None\<rparr>"
    by (auto simp: resolveRoleAction_def fbind_eq_Inr split: if_splits)
  with role_resolved [OF assms(1) r(1)] assms(2) show ?thesis by (auto simp: action_sound_def split: option.splits)
qed

lemma actor_action_resolved:
  assumes "resolver_ok s" and "ar_role rule = None" and "resolveActorAction rec s node rule keys = Some (Inr (act, key, s'))"
  shows "ra_rule act = rule \<and> action_sound (rv_definitions s) node act \<and> resolver_ok s' \<and> extends s s'"
proof (cases "ar_of rule")
  case None
  with assms(3) have "act = \<lparr>ra_rule = rule, ra_role = None, ra_actor = None\<rparr>" "s' = s"
    by (auto simp: resolveActorAction_def Let_def split: if_splits)
  with assms(1,2) None show ?thesis by (simp add: action_sound_def extends_refl)
next
  case (Some of')
  with assms(3) obtain target where t: "resolveReference rec s (fst (rn_declaring node)) of' = Some (Inr (target, s'))"
    "isSelfOrAncestor node (rn_owning target)"
    "act = \<lparr>ra_rule = rule, ra_role = None, ra_actor = Some \<lparr>ac_address = rn_owning target, ac_who = ar_who rule, ac_rawOf = of',
        ac_physicalDepth = rn_physicalDepth target\<rparr>\<rparr>"
    by (auto simp: resolveActorAction_def Let_def fbind_eq_Inr split: if_splits)
  obtain b where b: "points (rv_definitions s) (fst (rn_declaring node)) of' b" "node_sound (rv_definitions s) b target"
    "resolver_ok s'" "extends s s'"
    by (rule reference_sound [OF assms(1) t(1)])
  have "denotes (rv_definitions s) (fst (rn_declaring node)) of' (rn_owning target)" by (rule denotesI [OF b(1) node_soundD(1) [OF b(2)]])
  with b(3,4) t Some assms(2) show ?thesis by (simp add: action_sound_def)
qed

lemma rules_resolved:
  "resolver_ok s \<Longrightarrow> resolve_rules kr rec node rk ak rules s = Some (Inr (acts, s')) \<Longrightarrow>
     map ra_rule acts = rules \<and> (\<forall>act \<in> set acts. action_sound (rv_definitions s) node act) \<and> resolver_ok s' \<and> extends s s'"
proof (induction rules arbitrary: s rk ak acts)
  case (Cons rule rules)
  obtain act key s1 rk' ak' acts' where 1: "ra_rule act = rule \<and> action_sound (rv_definitions s) node act \<and> resolver_ok s1 \<and> extends s s1"
    and 2: "resolve_rules kr rec node rk' ak' rules s1 = Some (Inr (acts', s'))" "acts = act # acts'"
  proof (cases "ar_role rule")
    case None
    with Cons.prems(2) obtain act key s1 acts' where "resolveActorAction rec s node rule ak = Some (Inr (act, key, s1))"
      "resolve_rules kr rec node rk (key # ak) rules s1 = Some (Inr (acts', s'))" "acts = act # acts'"
      by (auto simp: fbind_eq_Inr)
    with actor_action_resolved [OF Cons.prems(1) None] that show ?thesis by blast
  next
    case (Some raw)
    with Cons.prems(2) obtain act key s1 acts' where "resolveRoleAction kr rec s node rule raw rk = Some (Inr (act, key, s1))"
      "resolve_rules kr rec node (key # rk) ak rules s1 = Some (Inr (acts', s'))" "acts = act # acts'"
      by (auto simp: fbind_eq_Inr)
    with role_action_resolved [OF Cons.prems(1) Some] that show ?thesis by blast
  qed
  have "resolver_ok s1" "extends s s1" using 1 by blast+
  with Cons.IH [OF _ 2(1)] 1 2(2) extendsD(1) [of s s1] extends_trans [of s s1 s'] show ?case by simp
qed (simp add: extends_refl)

lemma actions_step:
  assumes "resolver_ok s" and "map_of (rv_nodes s) a = Some node" and "resolveActions kr rec s node = Some (Inr (node', s1))"
  defines "s2 \<equiv> s1\<lparr>rv_nodes := AList.update a node' (rv_nodes s1)\<rparr>"
  shows "resolver_ok s2" and "rv_definitions s2 = rv_definitions s" and "rv_resolving s2 = rv_resolving s"
    and "actions_sound (rv_definitions s) node'" and "map_of (rv_nodes s2) a = Some node'"
    and "map_of (rv_nodes s) b = Some n \<Longrightarrow> b \<noteq> a \<Longrightarrow> map_of (rv_nodes s2) b = Some n"
proof -
  from assms(3) obtain acts where r: "resolve_rules kr rec node [] [] (declared_rules node) s = Some (Inr (acts, s1))"
    and node': "node' = node\<lparr>rn_actions := acts,
      rn_rolesByRawRef := List.map_filter (\<lambda>a. map_option (\<lambda>r. (rr_rawRole r, r)) (ra_role a)) acts\<rparr>"
    by (auto simp: resolveActions_def declared_rules_def fbind_eq_Inr)
  have R: "map ra_rule acts = declared_rules node" "\<forall>act \<in> set acts. action_sound (rv_definitions s) node act"
    "resolver_ok s1" "extends s s1" using rules_resolved [OF assms(1) r] by blast+
  have "node_sound (rv_definitions s) a node'" "rn_physicalDepth node' \<le> maxRecordNestingDepth"
    using resolver_okD [OF assms(1,2)] by (simp_all add: node' node_sound_def)
  then show "resolver_ok s2"
    using R(3) extendsD(1) [OF R(4)] by (simp add: s2_def resolver_ok_def map_of_update distinct_update)
  have same: "isSelfOrAncestor node' = isSelfOrAncestor node" "rn_declaring node' = rn_declaring node"
    by (simp_all add: fun_eq_iff isSelfOrAncestor_def node')
  have "action_sound ds node' act = action_sound ds node act" for ds act
    unfolding action_sound_def same ..
  then show "actions_sound (rv_definitions s) node'"
    using R(1,2) by (simp add: actions_sound_def node' declared_rules_def)
  show "map_of (rv_nodes s) b = Some n \<Longrightarrow> b \<noteq> a \<Longrightarrow> map_of (rv_nodes s2) b = Some n"
    using extendsD(3) [OF R(4)] by (simp add: s2_def map_of_update)
  show "rv_definitions s2 = rv_definitions s" "rv_resolving s2 = rv_resolving s" "map_of (rv_nodes s2) a = Some node'"
    using extendsD(1,2) [OF R(4)] by (simp_all add: s2_def map_of_update)
qed

lemma all_actions_resolved:
  "resolver_ok s \<Longrightarrow> distinct (map fst nodes) \<Longrightarrow> \<forall>x \<in> set nodes. map_of (rv_nodes s) (fst x) = Some (snd x)
   \<Longrightarrow> resolve_all_actions kr rec nodes s = Some (Inr s') \<Longrightarrow>
     resolver_ok s' \<and> rv_definitions s' = rv_definitions s
   \<and> (\<forall>a \<in> fst ` set nodes. \<exists>node. map_of (rv_nodes s') a = Some node \<and> actions_sound (rv_definitions s) node)
   \<and> (\<forall>a. a \<notin> fst ` set nodes \<longrightarrow> map_of (rv_nodes s) a \<noteq> None \<longrightarrow> map_of (rv_nodes s') a = map_of (rv_nodes s) a)"
proof (induction nodes arbitrary: s)
  case (Cons x nodes)
  obtain a node where x: "x = (a, node)" by fastforce
  from Cons.prems(4) obtain node' s1 where r: "resolveActions kr rec s node = Some (Inr (node', s1))"
    and rest: "resolve_all_actions kr rec nodes (s1\<lparr>rv_nodes := AList.update a node' (rv_nodes s1)\<rparr>) = Some (Inr s')"
    by (auto simp: x fbind_eq_Inr)
  define s2 where "s2 = s1\<lparr>rv_nodes := AList.update a node' (rv_nodes s1)\<rparr>"
  have a: "map_of (rv_nodes s) a = Some node" using Cons.prems(3) by (simp add: x)
  note S = actions_step [OF Cons.prems(1) a r, folded s2_def]
  have fresh: "a \<notin> fst ` set nodes" using Cons.prems(2) by (auto simp: x)
  have "\<forall>y \<in> set nodes. map_of (rv_nodes s2) (fst y) = Some (snd y)"
    using Cons.prems(3) S(6) fresh by (metis image_eqI list.set_intros(2))
  moreover have "distinct (map fst nodes)" using Cons.prems(2) by simp
  ultimately have I: "resolver_ok s'" "rv_definitions s' = rv_definitions s2"
    "\<forall>b \<in> fst ` set nodes. \<exists>n. map_of (rv_nodes s') b = Some n \<and> actions_sound (rv_definitions s2) n"
    "\<forall>b. b \<notin> fst ` set nodes \<longrightarrow> map_of (rv_nodes s2) b \<noteq> None \<longrightarrow> map_of (rv_nodes s') b = map_of (rv_nodes s2) b"
    using Cons.IH [OF S(1) _ _ rest [folded s2_def]] by blast+
  have "map_of (rv_nodes s') a = Some node'" using spec [OF I(4), of a] S(5) fresh by simp
  moreover have "map_of (rv_nodes s') b = map_of (rv_nodes s) b"
    if b: "b \<notin> fst ` set nodes" "b \<noteq> a" "map_of (rv_nodes s) b \<noteq> None" for b
  proof -
    obtain n where n: "map_of (rv_nodes s) b = Some n" using b(3) by blast
    have n2: "map_of (rv_nodes s2) b = Some n" by (rule S(6) [OF n b(2)])
    then have "map_of (rv_nodes s') b = map_of (rv_nodes s2) b" using I(4) b(1) by blast
    with n n2 show ?thesis by simp
  qed
  ultimately show ?case using I(1-3) S(2,4) by (simp add: x)
qed simp

end

section \<open>Loaded definitions\<close>

definition loaded :: "definition_lookup \<Rightarrow> resolver \<Rightarrow> module_definition \<Rightarrow> resolver \<Rightarrow> bool" where
  "loaded getDefinition s d s' \<longleftrightarrow> rv_nodes s' = rv_nodes s \<and> rv_resolving s' = rv_resolving s
     \<and> map_of (rv_definitions s) \<subseteq>\<^sub>m map_of (rv_definitions s')
     \<and> (\<forall>u x. map_of (rv_definitions s') u = Some x \<longrightarrow> map_of (rv_definitions s) u = Some x \<or> u = md_module d \<and> x = d \<or> getDefinition u = Some x)
     \<and> (map_of (rv_definitions s) (md_module d) = None \<longrightarrow> map_of (rv_definitions s') (md_module d) = Some d)"

definition unloaded :: "jstr set \<Rightarrow> resolver \<Rightarrow> jstr set" where
  "unloaded U s = U - dom (map_of (rv_definitions s))"

text \<open>A loader that ends while fewer than \<open>k\<close> modules of the universe \<open>U\<close> are not loaded.\<close>

locale definition_loader =
  fixes load :: "resolver \<Rightarrow> module_definition \<Rightarrow> resolver result option"
    and E :: records_env and getDefinition :: definition_lookup and U :: "jstr set" and k :: nat
  assumes loads: "load s d = Some (Inr s') \<Longrightarrow> loaded getDefinition s d s'"
    and finite: "finite U" and universe: "getDefinition u \<noteq> None \<Longrightarrow> u \<in> U"
    and ends: "md_module d \<in> U \<Longrightarrow> card (unloaded U s) < k \<Longrightarrow> load s d \<noteq> None"
begin

lemma uses_loaded:
  "load_uses load E getDefinition us xs s = Some (Inr s') \<Longrightarrow> rv_nodes s' = rv_nodes s \<and> rv_resolving s' = rv_resolving s
     \<and> map_of (rv_definitions s) \<subseteq>\<^sub>m map_of (rv_definitions s')
     \<and> (\<forall>u x. map_of (rv_definitions s') u = Some x \<longrightarrow> map_of (rv_definitions s) u = Some x \<or> getDefinition u = Some x)"
proof (induction xs arbitrary: s us)
  case (Cons x xs)
  obtain al t where x: "x = (al, t)" by fastforce
  from Cons.prems consider "load_uses load E getDefinition (t # us) xs s = Some (Inr s')"
    | d s1 where "getDefinition t = Some d" "md_module d = t" "load s d = Some (Inr s1)"
        "load_uses load E getDefinition (t # us) xs s1 = Some (Inr s')"
    by (auto simp: x fbind_eq_Inr split: sum.splits if_splits option.splits)
  then show ?case
  proof cases
    case 1
    then show ?thesis by (rule Cons.IH)
  next
    case 2
    note L = loads [OF 2(3), unfolded loaded_def 2(2)] and I = Cons.IH [OF 2(4)]
    have "map_of (rv_definitions s) \<subseteq>\<^sub>m map_of (rv_definitions s')" using L I map_le_trans by blast
    moreover have "map_of (rv_definitions s) u = Some y \<or> getDefinition u = Some y" if "map_of (rv_definitions s') u = Some y" for u y
      using L I 2(1) that by metis
    ultimately show ?thesis using L I by simp
  qed
qed simp

lemma unloaded_mono: "map_of (rv_definitions s) \<subseteq>\<^sub>m map_of (rv_definitions s') \<Longrightarrow> card (unloaded U s') \<le> card (unloaded U s)"
  by (rule card_mono) (use finite map_le_implies_dom_le in \<open>auto simp: unloaded_def\<close>)

lemma uses_end: "card (unloaded U s) < k \<Longrightarrow> load_uses load E getDefinition us xs s \<noteq> None"
proof (induction xs arbitrary: s us)
  case (Cons x xs)
  obtain al t where x: "x = (al, t)" by fastforce
  have "fbind (load s d) (load_uses load E getDefinition (t # us) xs) \<noteq> None" if "getDefinition t = Some d" "md_module d = t" for d
  proof (rule fbind_not_None)
    show "load s d \<noteq> None" by (rule ends) (use universe [of t] that Cons.prems in auto)
    fix s1 assume "load s d = Some (Inr s1)"
    from loads [OF this] have "card (unloaded U s1) \<le> card (unloaded U s)" by (intro unloaded_mono) (simp add: loaded_def)
    with Cons.prems show "load_uses load E getDefinition (t # us) xs s1 \<noteq> None" by (intro Cons.IH) simp
  qed
  with Cons show ?case by (auto simp: x split: sum.splits option.splits)
qed simp

lemma step_loads: "load_step load E getDefinition s d = Some (Inr s') \<Longrightarrow> loaded getDefinition s d s'"
proof (cases "map_of (rv_definitions s) (md_module d)")
  case (Some x)
  moreover assume "load_step load E getDefinition s d = Some (Inr s')"
  ultimately have "s' = s" by (auto simp: load_step_def Let_def split: if_splits)
  with Some show ?thesis by (simp add: loaded_def)
next
  case None
  let ?u = "md_module d"
  let ?s1 = "s\<lparr>rv_loading := ?u # rv_loading s, rv_definitions := rv_definitions s @ [(?u, d)]\<rparr>"
  assume "load_step load E getDefinition s d = Some (Inr s')"
  with None obtain us xs s2 where u: "load_uses load E getDefinition us xs ?s1 = Some (Inr s2)"
    and s': "s' = s2\<lparr>rv_loading := removeAll ?u (rv_loading s2)\<rparr>"
    by (auto simp: load_step_def Let_def fbind_eq_Inr split: if_splits sum.splits)
  have m: "map_of (rv_definitions s @ [(?u, d)]) = (map_of (rv_definitions s))(?u \<mapsto> d)"
    using None by (auto simp: map_add_def fun_eq_iff split: option.splits)
  note I = uses_loaded [OF u, simplified, unfolded m [simplified]]
  have le: "map_of (rv_definitions s) \<subseteq>\<^sub>m map_of (rv_definitions s')"
    using I None by (auto simp: s' map_le_def dom_def split: if_splits)
  have root: "map_of (rv_definitions s') ?u = Some d" using I by (simp add: s' map_le_def)
  have "map_of (rv_definitions s) v = Some x \<or> v = ?u \<and> x = d \<or> getDefinition v = Some x" if "map_of (rv_definitions s') v = Some x" for v x
  proof (cases "v = ?u")
    case False
    have "map_of (rv_definitions s2) v = Some x" using that by (simp add: s')
    with I False show ?thesis by (metis fun_upd_other)
  qed (use root that in simp)
  with I le root show ?thesis unfolding loaded_def s' by simp
qed

lemma step_ends:
  assumes "md_module d \<in> U" and "card (unloaded U s) < Suc k"
  shows "load_step load E getDefinition s d \<noteq> None"
proof (cases "map_of (rv_definitions s) (md_module d)")
  case (Some x)
  then show ?thesis by (auto simp: load_step_def Let_def)
next
  case None
  let ?u = "md_module d"
  let ?s1 = "s\<lparr>rv_loading := ?u # rv_loading s, rv_definitions := rv_definitions s @ [(?u, d)]\<rparr>"
  have "unloaded U ?s1 = unloaded U s - {?u}" by (auto simp: unloaded_def)
  moreover have "?u \<in> unloaded U s" "finite (unloaded U s)" using assms(1) None finite by (auto simp: unloaded_def)
  ultimately have "card (unloaded U ?s1) < card (unloaded U s)" using card_Diff1_less by metis
  with assms(2) have "load_uses load E getDefinition [] (sort_key fst (case md_uses d of None \<Rightarrow> [] | Some u \<Rightarrow> u)) ?s1 \<noteq> None"
    by (intro uses_end) simp
  then have "fbind (load_uses load E getDefinition [] (sort_key fst (case md_uses d of None \<Rightarrow> [] | Some u \<Rightarrow> u)) ?s1) f \<noteq> None"
    if "\<And>a. f a \<noteq> None" for f :: "resolver \<Rightarrow> resolver result option"
    using that by (rule fbind_not_None)
  then show ?thesis by (auto simp: load_step_def Let_def split: sum.splits)
qed

lemma step_loader: "definition_loader (load_step load E getDefinition) getDefinition U (Suc k)"
  using step_loads finite universe step_ends by unfold_locales blast+

end

lemma loadDefinition_loader:
  "finite U \<Longrightarrow> dom getDefinition \<subseteq> U \<Longrightarrow> definition_loader (loadDefinition n E getDefinition) getDefinition U n"
proof (induction n)
  case 0
  then show ?case by unfold_locales (auto simp: dom_def)
qed (simp add: definition_loader.step_loader)

text \<open>The universe of a resolution is the root and the installed modules.\<close>

interpretation installed: definition_loader "loadDefinition n E (map_of ds)" E "map_of ds" "insert root (fst ` set ds)" n
  for n E ds root
  by (rule loadDefinition_loader) (auto simp: dom_map_of_conv_image_fst)

section \<open>The whole resolution\<close>

definition complete :: "resolver \<Rightarrow> bool" where
  "complete s \<longleftrightarrow> (\<forall>a. declared_at (rv_definitions s) a \<noteq> None \<longrightarrow> map_of (rv_nodes s) a \<noteq> None)"

lemma resolver_ok_start: "rv_nodes s = [] \<Longrightarrow> resolver_ok s"
  by (simp add: resolver_ok_def)

lemma resolved_definitions_complete:
  assumes "resolver_ok s" and "resolve_definitions (resolveNode n) (rv_definitions s) s = Some (Inr s')"
  shows "resolver_ok s'" and "extends s s'" and "complete s'"
proof -
  have D: "resolver_ok s'" "extends s s'"
    "\<forall>(u, d) \<in> set (rv_definitions s). \<forall>p \<in> set (structure_paths d). map_of (rv_nodes s') (u, p) \<noteq> None"
    using level.definitions_sound [OF assms] by blast+
  show "complete s'" unfolding complete_def
  proof (intro allI impI)
    fix a assume "declared_at (rv_definitions s') a \<noteq> None"
    then obtain rs where "declared_at (rv_definitions s) a = Some rs" using extendsD(1) [OF D(2)] by auto
    then obtain d where "map_of (rv_definitions s) (fst a) = Some d" "snd a \<in> set (structure_paths d)" by (rule declared_in_structure)
    with bspec [OF D(3) map_of_SomeD, of "fst a" d] show "map_of (rv_nodes s') a \<noteq> None" by auto
  qed
qed (use level.definitions_sound [OF assms] in blast)+

lemma root_nodes:
  "\<forall>x \<in> set nodes. rn_declaring (snd x) = fst x \<Longrightarrow>
     map_of (map (\<lambda>(a, node). (snd a, node)) (filter (\<lambda>(a, node). fst (rn_declaring node) = u) nodes)) p = map_of nodes (u, p)"
  by (induction nodes) auto

lemma resolveModuleGraph_resolver:
  assumes "resolveModuleGraph n E (map_of ds) kr d = Some (Inr g)"
  shows "map_of (mg_definitionsByUri g) (md_module d) = Some d" and "mg_rootModuleUri g = md_module d"
    and "resolver_ok (mg_resolver g)" and "complete (mg_resolver g)" and "mg_definitionsByUri g = rv_definitions (mg_resolver g)"
    and "map_of (rv_nodes (mg_resolver g)) a = Some node \<Longrightarrow> actions_sound (mg_definitionsByUri g) node"
    and "map_of (mg_nodesByDeclaredPath g) p = map_of (rv_nodes (mg_resolver g)) (md_module d, p)"
proof -
  from assms obtain s1 s2 s3 where 1: "loadDefinition n E (map_of ds) empty_resolver d = Some (Inr s1)"
    and 2: "resolve_definitions (resolveNode n) (rv_definitions s1) s1 = Some (Inr s2)"
    and 3: "resolve_all_actions kr (resolveNode n) (rv_nodes s2) s2 = Some (Inr s3)"
    and g: "g = \<lparr>mg_rootModuleUri = md_module d, mg_definitionsByUri = rv_definitions s3,
       mg_nodesByDeclaredPath = map (\<lambda>(a, node). (snd a, node)) (filter (\<lambda>(a, node). fst (rn_declaring node) = md_module d) (rv_nodes s3)),
       mg_resolver = s3\<rparr>"
    by (auto simp: resolveModuleGraph_def fbind_eq_Inr)
  note L = installed.loads [OF 1, unfolded loaded_def empty_resolver_def, simplified]
  have "resolver_ok s1" using L by (simp add: resolver_ok_start)
  note D = resolved_definitions_complete [OF this 2]
  have keys: "\<forall>x \<in> set (rv_nodes s2). map_of (rv_nodes s2) (fst x) = Some (snd x)" "distinct (map fst (rv_nodes s2))"
    using D(1) by (auto simp: resolver_ok_def)
  have A: "resolver_ok s3" "rv_definitions s3 = rv_definitions s2"
    "\<forall>a \<in> fst ` set (rv_nodes s2). \<exists>node. map_of (rv_nodes s3) a = Some node \<and> actions_sound (rv_definitions s2) node"
    using level.all_actions_resolved [OF D(1) keys(2,1) 3] by blast+
  have in2: "a \<in> fst ` set (rv_nodes s2)" if "declared_at (rv_definitions s2) a \<noteq> None" for a
    using D(3) that unfolding complete_def map_of_eq_None_iff by blast
  show "complete (mg_resolver g)" unfolding complete_def
  proof (intro allI impI)
    fix a assume "declared_at (rv_definitions (mg_resolver g)) a \<noteq> None"
    then have "a \<in> fst ` set (rv_nodes s2)" using in2 A(2) by (simp add: g)
    with A(3) show "map_of (rv_nodes (mg_resolver g)) a \<noteq> None" by (auto simp: g)
  qed
  show "actions_sound (mg_definitionsByUri g) node" if n: "map_of (rv_nodes (mg_resolver g)) a = Some node" for a node
  proof -
    have "declared_at (rv_definitions s2) a \<noteq> None"
      using node_soundD(2) [OF resolver_okD(1) [OF A(1), of a node]] n A(2) by (simp add: g)
    from bspec [OF A(3) in2 [OF this]] n A(2) show ?thesis by (auto simp: g)
  qed
  have "\<forall>x \<in> set (rv_nodes s3). rn_declaring (snd x) = fst x"
  proof
    fix x assume "x \<in> set (rv_nodes s3)"
    then have "map_of (rv_nodes s3) (fst x) = Some (snd x)" using A(1) by (simp add: resolver_ok_def)
    from node_soundD(5) [OF resolver_okD(1) [OF A(1) this]] show "rn_declaring (snd x) = fst x" .
  qed
  from root_nodes [OF this] show "map_of (mg_nodesByDeclaredPath g) p = map_of (rv_nodes (mg_resolver g)) (md_module d, p)"
    by (simp add: g)
  show "map_of (mg_definitionsByUri g) (md_module d) = Some d"
    using L A(2) extendsD(1) [OF D(2)] by (simp add: g)
  show "resolver_ok (mg_resolver g)" using A(1) by (simp add: g)
  show "mg_rootModuleUri g = md_module d" "mg_definitionsByUri g = rv_definitions (mg_resolver g)" by (simp_all add: g)
qed

lemma resolveInvokedRole_sound:
  assumes "resolveModuleGraph n E (map_of ds) kr d = Some (Inr g)" and "resolveInvokedRole g raw = Inr role"
  shows "role_sound (mg_definitionsByUri g) (md_module d) raw role"
proof -
  note G = resolveModuleGraph_resolver [OF assms(1)]
  from assms(2) obtain s' where "resolveRole (resolveNode 1) (mg_resolver g) (md_module d) raw = Some (Inr (role, s'))"
    by (auto simp: resolveInvokedRole_def G(2) bind_eq_Inr split: option.splits)
  from level.role_resolved [OF G(3) this] show ?thesis by (simp add: G(5))
qed

text \<open>One level is enough to look a role up: there is nothing left to resolve.\<close>

lemma complete_one_level:
  assumes "complete s"
  shows "resolveNode 1 s a \<noteq> None"
proof (cases "map_of (rv_nodes s) a")
  case None
  then have "declared_at (rv_definitions s) a = None" using assms unfolding complete_def by blast
  with None show ?thesis by (auto simp: resolve_node_step_def declaredRuleSet_def split: option.splits)
qed (simp add: resolve_node_step_def)

lemma resolveInvokedRole_ends:
  assumes "resolveModuleGraph n E (map_of ds) kr d = Some (Inr g)"
  shows "resolveRole (resolveNode 1) (mg_resolver g) u raw \<noteq> None"
proof -
  have "resolveReference (resolveNode 1) (mg_resolver g) u raw \<noteq> None"
    using complete_one_level [OF resolveModuleGraph_resolver(4) [OF assms]]
    by (auto simp: resolveReference_def Let_def split: option.splits)
  then show ?thesis unfolding resolveRole_def by (rule fbind_not_None) (auto split: prod.splits)
qed

section \<open>Fuel\<close>

context bounded_provider
begin

lemma structure_ends:
  "resolver_ok s \<Longrightarrow> card (open_nodes s) < k \<Longrightarrow> resolveStructure rec u ps s \<noteq> None"
proof (induction ps arbitrary: s)
  case (Cons p ps)
  show ?case unfolding resolveStructure.simps
  proof (rule fbind_not_None [OF ends [OF Cons.prems]])
    fix x assume "rec s (u, p) = Some (Inr x)"
    then have r: "rec s (u, p) = Some (Inr (fst x, snd x))" by simp
    from resolved_sound(2,3) [OF Cons.prems(1) r] have "resolveStructure rec u ps (snd x) \<noteq> None"
      by (intro Cons.IH) (simp_all add: open_nodes_extends Cons.prems(2))
    then show "(case x of (_, s') \<Rightarrow> resolveStructure rec u ps s') \<noteq> None" by (simp add: split_beta)
  qed
qed simp

lemma definitions_end:
  "resolver_ok s \<Longrightarrow> card (open_nodes s) < k \<Longrightarrow> resolve_definitions rec ds s \<noteq> None"
proof (induction ds arbitrary: s)
  case (Cons x ds)
  obtain u d where x: "x = (u, d)" by fastforce
  show ?case unfolding x resolve_definitions.simps
  proof (rule fbind_not_None [OF structure_ends [OF Cons.prems]])
    fix s1 assume "resolveStructure rec u (structure_paths d) s = Some (Inr s1)"
    then have "resolver_ok s1" "extends s s1" using structure_sound [OF Cons.prems(1)] by blast+
    with Cons.prems(2) show "resolve_definitions rec ds s1 \<noteq> None" by (intro Cons.IH) (simp_all add: open_nodes_extends)
  qed
qed simp

lemma role_ends: "resolver_ok s \<Longrightarrow> card (open_nodes s) < k \<Longrightarrow> resolveRole rec s u r \<noteq> None"
  unfolding resolveRole_def by (rule fbind_not_None [OF reference_ends]) (auto split: prod.splits)

lemma role_action_ends:
  "resolver_ok s \<Longrightarrow> card (open_nodes s) < k \<Longrightarrow> resolveRoleAction kr rec s node rule raw keys \<noteq> None"
  unfolding resolveRoleAction_def by (rule fbind_not_None [OF role_ends]) (auto split: prod.splits)

lemma actor_action_ends:
  "resolver_ok s \<Longrightarrow> card (open_nodes s) < k \<Longrightarrow> resolveActorAction rec s node rule keys \<noteq> None"
proof -
  assume s: "resolver_ok s" "card (open_nodes s) < k"
  have "fbind (resolveReference rec s (fst (rn_declaring node)) of') f \<noteq> None"
    if "\<And>a. f a \<noteq> None" for of' and f :: "_ \<Rightarrow> (actor_reference option \<times> resolver) result option"
    using that by (rule fbind_not_None [OF reference_ends [OF s]])
  then show ?thesis unfolding resolveActorAction_def Let_def
    by (intro fbind_not_None) (auto split: option.splits prod.splits)
qed

lemma rules_end:
  "resolver_ok s \<Longrightarrow> card (open_nodes s) < k \<Longrightarrow> resolve_rules kr rec node rk ak rules s \<noteq> None"
proof (induction rules arbitrary: s rk ak)
  case (Cons rule rules)
  have rest: "fbind (resolve_rules kr rec node rk' ak' rules s1) (\<lambda>(acts, s2). Some (Inr (act # acts, s2))) \<noteq> None"
    if "resolver_ok s1 \<and> extends s s1" for s1 rk' ak' act
    by (rule fbind_not_None [OF Cons.IH]) (use that Cons.prems(2) in \<open>auto simp: open_nodes_extends\<close>)
  show ?case
  proof (cases "ar_role rule")
    case None
    have "fbind (resolveActorAction rec s node rule ak) (\<lambda>(action, key, s').
        fbind (resolve_rules kr rec node rk (key # ak) rules s') (\<lambda>(actions, s''). Some (Inr (action # actions, s'')))) \<noteq> None"
      by (rule fbind_not_None [OF actor_action_ends [OF Cons.prems]])
        (use rest actor_action_resolved [OF Cons.prems(1) None] in \<open>auto split: prod.splits\<close>)
    then show ?thesis by (simp add: None)
  next
    case (Some raw)
    have "fbind (resolveRoleAction kr rec s node rule raw rk) (\<lambda>(action, key, s').
        fbind (resolve_rules kr rec node (key # rk) ak rules s') (\<lambda>(actions, s''). Some (Inr (action # actions, s'')))) \<noteq> None"
      by (rule fbind_not_None [OF role_action_ends [OF Cons.prems]])
        (use rest role_action_resolved [OF Cons.prems(1) Some] in \<open>auto split: prod.splits\<close>)
    then show ?thesis by (simp add: Some)
  qed
qed simp

lemma all_actions_end:
  "resolver_ok s \<Longrightarrow> distinct (map fst nodes) \<Longrightarrow> \<forall>x \<in> set nodes. map_of (rv_nodes s) (fst x) = Some (snd x)
   \<Longrightarrow> card (open_nodes s) < k \<Longrightarrow> resolve_all_actions kr rec nodes s \<noteq> None"
proof (induction nodes arbitrary: s)
  case (Cons x nodes)
  obtain a node where x: "x = (a, node)" by fastforce
  have a: "map_of (rv_nodes s) a = Some node" using Cons.prems(3) by (simp add: x)
  have "resolveActions kr rec s node \<noteq> None" unfolding resolveActions_def
    by (rule fbind_not_None [OF rules_end [OF Cons.prems(1,4)]]) (auto split: prod.splits)
  then show ?case unfolding x resolve_all_actions.simps
  proof (rule fbind_not_None)
    fix y assume "resolveActions kr rec s node = Some (Inr y)"
    then have r: "resolveActions kr rec s node = Some (Inr (fst y, snd y))" by simp
    note S = actions_step [OF Cons.prems(1) a r]
    have "open_nodes (snd y\<lparr>rv_nodes := AList.update a (fst y) (rv_nodes (snd y))\<rparr>) = open_nodes s"
      using S(2,3) by (simp add: open_nodes_def)
    moreover have "\<forall>z \<in> set nodes. map_of (rv_nodes (snd y\<lparr>rv_nodes := AList.update a (fst y) (rv_nodes (snd y))\<rparr>)) (fst z) = Some (snd z)"
      using Cons.prems(2,3) S(6) by (metis (no_types, lifting) distinct.simps(2) fst_conv image_eqI list.set_intros(2) list.simps(9) set_map x)
    ultimately have "resolve_all_actions kr rec nodes (snd y\<lparr>rv_nodes := AList.update a (fst y) (rv_nodes (snd y))\<rparr>) \<noteq> None"
      using Cons.prems(2,4) by (intro Cons.IH [OF S(1)]) simp_all
    then show "(case y of (node', s') \<Rightarrow> resolve_all_actions kr rec nodes (s'\<lparr>rv_nodes := AList.update a node' (rv_nodes s')\<rparr>)) \<noteq> None"
      by (simp add: split_beta)
  qed
qed simp

end

text \<open>Fuel for one level per installed module and per declared path.\<close>

definition graph_fuel :: "definitions \<Rightarrow> module_definition \<Rightarrow> nat" where
  "graph_fuel ds d = length ds + 2 + length (structure_paths d) + sum_list (map (\<lambda>(u, x). length (structure_paths x)) ds)"

lemma card_declared:
  assumes "\<And>u x. map_of ds' u = Some x \<Longrightarrow> u = md_module d \<and> x = d \<or> map_of ds u = Some x"
  shows "card (declared_nodes ds') < graph_fuel ds d"
proof -
  let ?A = "{md_module d} \<times> set (structure_paths d)" and ?B = "\<Union>(u, x) \<in> set ds. {u} \<times> set (structure_paths x)"
  have "declared_nodes ds' \<subseteq> ?A \<union> ?B"
  proof
    fix a assume "a \<in> declared_nodes ds'"
    then obtain x where x: "map_of ds' (fst a) = Some x" "snd a \<in> set (structure_paths x)" by (auto simp: declared_nodes_def)
    show "a \<in> ?A \<union> ?B"
    proof (cases "fst a = md_module d \<and> x = d")
      case True
      with x(2) show ?thesis by (cases a) simp
    next
      case False
      then have "map_of ds (fst a) = Some x" using assms [OF x(1)] by blast
      then have "(fst a, x) \<in> set ds" by (rule map_of_SomeD)
      with x(2) show ?thesis by (cases a) auto
    qed
  qed
  then have "card (declared_nodes ds') \<le> card (?A \<union> ?B)" by (intro card_mono) auto
  also have "\<dots> \<le> card ?A + card ?B" by (rule card_Un_le)
  also have "card ?A \<le> length (structure_paths d)" by (simp add: card_cartesian_product card_length)
  also have "card ?B \<le> sum_list (map (\<lambda>(u, x). length (structure_paths x)) ds)"
  proof (induction ds)
    case (Cons y ds)
    obtain u x where y: "y = (u, x)" by fastforce
    have "card (\<Union>(u, x) \<in> set (y # ds). {u} \<times> set (structure_paths x))
        \<le> card ({u} \<times> set (structure_paths x)) + card (\<Union>(u, x) \<in> set ds. {u} \<times> set (structure_paths x))"
      using card_Un_le [of "{u} \<times> set (structure_paths x)"] by (simp only: y list.set UN_insert prod.case)
    also have "card ({u} \<times> set (structure_paths x)) \<le> length (structure_paths x)" by (simp add: card_cartesian_product card_length)
    finally show ?case using Cons by (simp add: y)
  qed simp
  finally show ?thesis by (simp add: graph_fuel_def)
qed

lemma resolveModuleGraph_ends:
  assumes "graph_fuel ds d \<le> n"
  shows "resolveModuleGraph n E (map_of ds) kr d \<noteq> None"
proof -
  have "card (insert (md_module d) (fst ` set ds)) \<le> Suc (length ds)"
    using card_image_le [of "set ds" fst] card_length [of ds] by (simp add: card_insert_if)
  then have "card (unloaded (insert (md_module d) (fst ` set ds)) empty_resolver) < n"
    using assms by (simp add: unloaded_def empty_resolver_def graph_fuel_def)
  then have "loadDefinition n E (map_of ds) empty_resolver d \<noteq> None" by (intro installed.ends [where root = "md_module d"]) simp_all
  then show ?thesis unfolding resolveModuleGraph_def
  proof (rule fbind_not_None)
    fix s1 assume 1: "loadDefinition n E (map_of ds) empty_resolver d = Some (Inr s1)"
    note L = installed.loads [OF 1, unfolded loaded_def empty_resolver_def, simplified]
    have ok: "resolver_ok s1" using L by (simp add: resolver_ok_start)
    have "card (open_nodes s1) \<le> card (declared_nodes (rv_definitions s1))" by (simp add: open_nodes_def card_mono)
    also have "\<dots> < graph_fuel ds d" by (rule card_declared) (use L in blast)
    finally have c: "card (open_nodes s1) < n" using assms by simp
    show "fbind (resolve_definitions (resolveNode n) (rv_definitions s1) s1) (\<lambda>s.
        fbind (resolve_all_actions kr (resolveNode n) (rv_nodes s) s) (\<lambda>s. Some (Inr (
          \<lparr>mg_rootModuleUri = md_module d, mg_definitionsByUri = rv_definitions s,
           mg_nodesByDeclaredPath = map (\<lambda>(a, node). (snd a, node)) (filter (\<lambda>(a, node). fst (rn_declaring node) = md_module d) (rv_nodes s)),
           mg_resolver = s\<rparr>)))) \<noteq> None"
    proof (rule fbind_not_None [OF bounded_level.definitions_end [OF ok c]])
      fix s2 assume "resolve_definitions (resolveNode n) (rv_definitions s1) s1 = Some (Inr s2)"
      note D = resolved_definitions_complete [OF ok this]
      have "\<forall>x \<in> set (rv_nodes s2). map_of (rv_nodes s2) (fst x) = Some (snd x)" "distinct (map fst (rv_nodes s2))"
        using D(1) by (auto simp: resolver_ok_def)
      moreover have "card (open_nodes s2) < n" using c open_nodes_extends [OF D(2)] by simp
      ultimately have "resolve_all_actions kr (resolveNode n) (rv_nodes s2) s2 \<noteq> None"
        by (intro bounded_level.all_actions_end [OF D(1)])
      then show "fbind (resolve_all_actions kr (resolveNode n) (rv_nodes s2) s2) (\<lambda>s. Some (Inr (
          \<lparr>mg_rootModuleUri = md_module d, mg_definitionsByUri = rv_definitions s,
           mg_nodesByDeclaredPath = map (\<lambda>(a, node). (snd a, node)) (filter (\<lambda>(a, node). fst (rn_declaring node) = md_module d) (rv_nodes s)),
           mg_resolver = s\<rparr>))) \<noteq> None"
        by (rule fbind_not_None) simp
    qed
  qed
qed

section \<open>Example\<close>

text \<open>A chat module that attaches its messages to the threads of another module and lets the participants
  of a thread create them.\<close>

definition graph_env :: records_env where
  "graph_env = \<lparr>re_cids = example_cids, re_schema = (\<lambda>_. Inr ()), re_payload_schema = (\<lambda>_ _. Inr ()),
     re_base64UrlToBytes = (\<lambda>_. Inr []), re_href = Some, re_grant = (\<lambda>_. Inl (OtherError [])), re_grant_schema = (\<lambda>_. Inr ())\<rparr>"

definition plain_type :: module_type where
  "plain_type = \<lparr>mt_schema = None, mt_dataFormats = None, mt_encryptionRequired = False\<rparr>"

definition threads_module :: module_definition where
  "threads_module = \<lparr>md_module = js ''http://t'', md_published = True, md_uses = None,
     md_types = [(js ''thread'', plain_type), (js ''participant'', plain_type)],
     md_structure = [(js ''thread'', RuleSet None None False None None None None False False
       [(js ''participant'', RuleSet None None True None None None None False False [])])]\<rparr>"

definition chat_module :: module_definition where
  "chat_module = \<lparr>md_module = js ''http://c'', md_published = True, md_uses = Some [(js ''t'', js ''http://t'')],
     md_types = [(js ''message'', plain_type)],
     md_structure = [(js ''thread'', RuleSet None None False (Some (js ''t:thread'')) None None None False False
       [(js ''message'', RuleSet None (Some [\<lparr>ar_who = None, ar_role = Some (js ''t:thread/participant''), ar_of = None, ar_can = [js ''create'']\<rparr>,
            \<lparr>ar_who = Some (js ''author''), ar_role = None, ar_of = Some (js ''thread/message''), ar_can = [js ''update'']\<rparr>])
          False None None None None True False [])])]\<rparr>"

lemma chat_resolved:
  "case resolveModuleGraph 7 graph_env (map_of [(js ''http://t'', threads_module)]) True chat_module of
     Some (Inr g) \<Rightarrow> map_of (mg_nodesByDeclaredPath g) (js ''thread/message'') \<noteq> None | _ \<Rightarrow> False"
  by code_simp

section \<open>Properties\<close>

text \<open>C11: The module graph means what the definitions say.  A path of the root module has a node exactly when it is
  declared; the node stands for the record that following its references leads to, with that record's rule set
  and its physical ancestors in root-to-parent order (at most ten levels); a reference has no squashable record above
  or at its target; and every action rule of the path is bound, a role to the role record it denotes, whose parent is
  the record or one of its ancestors, and an actor to the record or an ancestor that it denotes.\<close>

theorem module_graph_sound:
  assumes "resolveModuleGraph n E (map_of ds) kr d = Some (Inr g)"
  shows "map_of (mg_definitionsByUri g) (md_module d) = Some d \<and>
    (case map_of (mg_nodesByDeclaredPath g) p of
       None \<Rightarrow> declared_at (mg_definitionsByUri g) (md_module d, p) = None
     | Some node \<Rightarrow> node_sound (mg_definitionsByUri g) (md_module d, p) node
         \<and> actions_sound (mg_definitionsByUri g) node \<and> rn_physicalDepth node \<le> maxRecordNestingDepth)"
proof (cases "map_of (mg_nodesByDeclaredPath g) p")
  case None
  note G = resolveModuleGraph_resolver [OF assms]
  have "declared_at (mg_definitionsByUri g) (md_module d, p) = None"
    using G(4) None unfolding complete_def G(5) G(7) by blast
  with None G(1) show ?thesis by simp
next
  case (Some node)
  note G = resolveModuleGraph_resolver [OF assms]
  have "map_of (rv_nodes (mg_resolver g)) (md_module d, p) = Some node" using Some G(7) by simp
  from resolver_okD [OF G(3) this] G(6) [OF this] Some G(1,5) show ?thesis by simp
qed

theorem module_graph_sound_witness:
  "\<exists>g node. resolveModuleGraph 7 graph_env (map_of [(js ''http://t'', threads_module)]) True chat_module = Some (Inr g)
     \<and> map_of (mg_nodesByDeclaredPath g) (js ''thread/message'') = Some node
     \<and> node_sound (mg_definitionsByUri g) (js ''http://c'', js ''thread/message'') node \<and> actions_sound (mg_definitionsByUri g) node"
proof -
  obtain g node where g: "resolveModuleGraph 7 graph_env (map_of [(js ''http://t'', threads_module)]) True chat_module = Some (Inr g)"
    "map_of (mg_nodesByDeclaredPath g) (js ''thread/message'') = Some node"
    using chat_resolved by (auto split: option.splits sum.splits)
  have "md_module chat_module = js ''http://c''" by (simp add: chat_module_def)
  with module_graph_sound [OF g(1), of "js ''thread/message''"] g show ?thesis by (simp del: js_simps)
qed

text \<open>C22: The resolution of a module graph ends, with a graph or an error, also when the definitions refer to each other
  in cycles: fuel for one level per installed module and per declared path is enough.\<close>

theorem module_graph_terminates:
  assumes "graph_fuel ds d \<le> n"
  shows "\<exists>res. resolveModuleGraph n E (map_of ds) kr d = Some res"
  using resolveModuleGraph_ends [OF assms] by blast

theorem module_graph_terminates_witness:
  "graph_fuel [(js ''http://t'', threads_module)] chat_module = 7
   \<and> (\<exists>res. resolveModuleGraph 7 graph_env (map_of [(js ''http://t'', threads_module)]) True chat_module = Some res)"
proof -
  have f: "graph_fuel [(js ''http://t'', threads_module)] chat_module = 7" by code_simp
  show ?thesis using module_graph_terminates [of "[(js ''http://t'', threads_module)]" chat_module 7] f by simp
qed

end
