(* ===== verification/Module_Tags.thy ===== *)
theory Module_Tags
  imports Module_Types Index_Level
begin

text \<open>
  Validation of the tags of a record against the \<open>$tags\<close> rules of its path
  (\<open>utils/module-tags.ts\<close> of \<open>src/packages/dwn-sdk-js/src\<close>).  The validator collects errors; a record
  passes when there are none.
\<close>

type_synonym tag_error = "jstr \<times> jstr"

section \<open>Paths and messages\<close>

definition replace_unit :: "nat \<Rightarrow> jstr \<Rightarrow> jstr \<Rightarrow> jstr" where
  "replace_unit u t s = concat (map (\<lambda>c. if c = u then t else [c]) s)"

definition pathSegment :: "jstr \<Rightarrow> jstr" where
  "pathSegment segment = replace_unit slash (js ''~1'') (replace_unit 126 (js ''~0'') segment)"

definition appendPath :: "jstr \<Rightarrow> jstr \<Rightarrow> jstr" where
  "appendPath path segment = path @ slash # pathSegment segment"

definition formatTagValidationErrors :: "tag_error list \<Rightarrow> jstr \<Rightarrow> jstr option" where
  "formatTagValidationErrors errors dataVar =
     (if errors = [] then None
      else Some (concat (map (\<lambda>(i, (path, message)). (if i = 0 then [] else js '', '') @ dataVar @ path @ 32 # message)
                   (enumerate 0 errors))))"

section \<open>Values\<close>

definition validateType :: "string option \<Rightarrow> key_value \<Rightarrow> jstr \<Rightarrow> tag_error list" where
  "validateType type v dataPath = (case type of
     None \<Rightarrow> []
   | Some t \<Rightarrow>
       if t = ''string'' then (case v of One (SStr _) \<Rightarrow> [] | _ \<Rightarrow> [(dataPath, js ''must be string'')])
       else if t = ''number'' then (case v of One (SNum _) \<Rightarrow> [] | _ \<Rightarrow> [(dataPath, js ''must be number'')])
       else if t = ''integer'' then (case v of One (SNum _) \<Rightarrow> [] | _ \<Rightarrow> [(dataPath, js ''must be integer'')])
       else if t = ''boolean'' then (case v of One (SBool _) \<Rightarrow> [] | _ \<Rightarrow> [(dataPath, js ''must be boolean'')])
       else if t = ''array'' then (case v of Many _ \<Rightarrow> [] | _ \<Rightarrow> [(dataPath, js ''must be array'')])
       else [(dataPath, js ''must match a supported tag schema type'')])"

definition validateEnum :: "scalar list option \<Rightarrow> key_value \<Rightarrow> jstr \<Rightarrow> tag_error list" where
  "validateEnum enum v dataPath = (case enum of
     None \<Rightarrow> []
   | Some allowed \<Rightarrow> if list_ex (\<lambda>a. One a = v) allowed then []
       else [(dataPath, js ''must be equal to one of the allowed values'')])"

text \<open>One error when a bound is given and violated.\<close>

definition bound_error :: "int option \<Rightarrow> (int \<Rightarrow> bool) \<Rightarrow> jstr \<Rightarrow> string \<Rightarrow> string \<Rightarrow> tag_error list" where
  "bound_error bound violated dataPath before after = (case bound of
     None \<Rightarrow> []
   | Some b \<Rightarrow> if violated b then [(dataPath, js before @ int_to_string b @ js after)] else [])"

definition validateNumberConstraints :: "tag_bounds \<Rightarrow> key_value \<Rightarrow> jstr \<Rightarrow> tag_error list" where
  "validateNumberConstraints b v dataPath = (case v of
     One (SNum x) \<Rightarrow>
       bound_error (tb_minimum b) (\<lambda>m. x < m) dataPath ''must be >= '' '''' @
       bound_error (tb_maximum b) (\<lambda>m. x > m) dataPath ''must be <= '' '''' @
       bound_error (tb_exclusiveMinimum b) (\<lambda>m. x \<le> m) dataPath ''must be > '' '''' @
       bound_error (tb_exclusiveMaximum b) (\<lambda>m. x \<ge> m) dataPath ''must be < '' ''''
   | _ \<Rightarrow> [])"

definition validateStringConstraints :: "tag_bounds \<Rightarrow> key_value \<Rightarrow> jstr \<Rightarrow> tag_error list" where
  "validateStringConstraints b v dataPath = (case v of
     One (SStr s) \<Rightarrow>
       bound_error (tb_minLength b) (\<lambda>m. int (length s) < m) dataPath ''must NOT have fewer than '' '' characters'' @
       bound_error (tb_maxLength b) (\<lambda>m. int (length s) > m) dataPath ''must NOT have more than '' '' characters''
   | _ \<Rightarrow> [])"

definition validateArrayConstraints :: "tag_bounds \<Rightarrow> key_value \<Rightarrow> jstr \<Rightarrow> tag_error list" where
  "validateArrayConstraints b v dataPath = (case v of
     Many xs \<Rightarrow>
       bound_error (tb_minItems b) (\<lambda>m. int (length xs) < m) dataPath ''must NOT have fewer than '' '' items'' @
       bound_error (tb_maxItems b) (\<lambda>m. int (length xs) > m) dataPath ''must NOT have more than '' '' items'' @
       (if tb_uniqueItems b = Some True \<and> \<not> distinct xs then [(dataPath, js ''must NOT have duplicate items'')] else [])
   | _ \<Rightarrow> [])"

definition validateContains :: "tag_bounds \<Rightarrow> (scalar \<Rightarrow> bool) \<Rightarrow> scalar list \<Rightarrow> jstr \<Rightarrow> tag_error list" where
  "validateContains b valid xs dataPath =
     (let minimumCount = (case tb_minContains b of Some m \<Rightarrow> m | None \<Rightarrow> 1);
          validItemCount = int (length (filter valid xs))
      in if validItemCount < minimumCount \<or> (case tb_maxContains b of Some m \<Rightarrow> validItemCount > m | None \<Rightarrow> False)
         then [(dataPath, case tb_maxContains b of
                  None \<Rightarrow> js ''must contain at least '' @ int_to_string minimumCount @ js '' valid item(s)''
                | Some m \<Rightarrow> js ''must contain at least '' @ int_to_string minimumCount @ js '' and no more than '' @
                    int_to_string m @ js '' valid item(s)'')]
         else [])"

fun validateTagValue :: "tag_schema \<Rightarrow> key_value \<Rightarrow> jstr \<Rightarrow> tag_error list" where
  "validateTagValue (TagSchema type enum b items has_one) v dataPath =
     (let typeErrors = validateType type v dataPath in
      if typeErrors \<noteq> [] then typeErrors
      else validateEnum enum v dataPath @ validateNumberConstraints b v dataPath @
           validateStringConstraints b v dataPath @ validateArrayConstraints b v dataPath @
           (case v of
              Many xs \<Rightarrow>
                (case items of
                   None \<Rightarrow> []
                 | Some s \<Rightarrow> concat (map (\<lambda>(i, x). validateTagValue s (One x) (appendPath dataPath (int_to_string (int i))))
                                     (enumerate 0 xs))) @
                (case has_one of
                   None \<Rightarrow> []
                 | Some s \<Rightarrow> validateContains b (\<lambda>x. validateTagValue s (One x) dataPath = []) xs dataPath)
            | One _ \<Rightarrow> []))"

section \<open>Tags\<close>

text \<open>Property access on a plain object finds what \<open>Object.prototype\<close> defines.\<close>

definition object_prototype :: "string list" where
  "object_prototype = [''constructor'', ''__defineGetter__'', ''__defineSetter__'', ''hasOwnProperty'', ''__lookupGetter__'',
     ''__lookupSetter__'', ''isPrototypeOf'', ''propertyIsEnumerable'', ''toString'', ''valueOf'', ''__proto__'', ''toLocaleString'']"

definition getTagSchemas :: "tags_definition \<Rightarrow> (string \<times> tag_schema) list" where
  "getTagSchemas d = filter (\<lambda>(tag, _). tag \<noteq> ''$requiredTags'' \<and> tag \<noteq> ''$allowUndefinedTags'') (td_properties d)"

definition validateModuleTags :: "tags_definition \<Rightarrow> key_values \<Rightarrow> jstr \<Rightarrow> jstr option" where
  "validateModuleTags d tags dataVar =
     (let schemas = getTagSchemas d;
          requiredTags = (case td_requiredTags d of Some ts \<Rightarrow> ts | None \<Rightarrow> []);
          missing = concat (map (\<lambda>t. if map_of tags t = None
             then [([], js ''must have required property '' @ 39 # js t @ [39])] else []) requiredTags);
          additional = (if td_allowUndefinedTags d = Some True then []
             else concat (map (\<lambda>(t, _). if map_of schemas t = None \<and> t \<notin> set object_prototype
                    then [([], js ''must NOT have additional properties'')] else []) tags));
          invalid = concat (map (\<lambda>(t, s). case map_of tags t of
             None \<Rightarrow> [] | Some v \<Rightarrow> validateTagValue s v (appendPath [] (js t))) schemas)
      in formatTagValidationErrors (missing @ additional @ invalid) dataVar)"

section \<open>What the validator accepts\<close>

definition bound_ok :: "int option \<Rightarrow> (int \<Rightarrow> bool) \<Rightarrow> bool" where
  "bound_ok bound ok \<longleftrightarrow> (\<forall>b. bound = Some b \<longrightarrow> ok b)"

text \<open>The meaning of a schema: the type, the enumeration and the bounds hold, every item of an array
  conforms to \<open>items\<close>, and the number of items that conform to \<open>contains\<close> is within its bounds.\<close>

fun conforms :: "tag_schema \<Rightarrow> key_value \<Rightarrow> bool" where
  "conforms (TagSchema type enum b items has_one) v \<longleftrightarrow>
     (case type of None \<Rightarrow> True
      | Some t \<Rightarrow> (case v of
          One (SStr _) \<Rightarrow> t = ''string'' | One (SNum _) \<Rightarrow> t \<in> {''number'', ''integer''}
        | One (SBool _) \<Rightarrow> t = ''boolean'' | Many _ \<Rightarrow> t = ''array''))
   \<and> (case enum of None \<Rightarrow> True | Some allowed \<Rightarrow> v \<in> One ` set allowed)
   \<and> (case v of
        One (SNum x) \<Rightarrow> bound_ok (tb_minimum b) (\<lambda>m. m \<le> x) \<and> bound_ok (tb_maximum b) (\<lambda>m. x \<le> m)
          \<and> bound_ok (tb_exclusiveMinimum b) (\<lambda>m. m < x) \<and> bound_ok (tb_exclusiveMaximum b) (\<lambda>m. x < m)
      | One (SStr s) \<Rightarrow> bound_ok (tb_minLength b) (\<lambda>m. m \<le> int (length s)) \<and> bound_ok (tb_maxLength b) (\<lambda>m. int (length s) \<le> m)
      | One (SBool _) \<Rightarrow> True
      | Many xs \<Rightarrow> bound_ok (tb_minItems b) (\<lambda>m. m \<le> int (length xs)) \<and> bound_ok (tb_maxItems b) (\<lambda>m. int (length xs) \<le> m)
          \<and> (tb_uniqueItems b = Some True \<longrightarrow> distinct xs)
          \<and> (case items of None \<Rightarrow> True | Some s \<Rightarrow> \<forall>x \<in> set xs. conforms s (One x))
          \<and> (case has_one of None \<Rightarrow> True
             | Some s \<Rightarrow> (case tb_minContains b of Some m \<Rightarrow> m | None \<Rightarrow> 1) \<le> int (length (filter (\<lambda>x. conforms s (One x)) xs))
                 \<and> bound_ok (tb_maxContains b) (\<lambda>m. int (length (filter (\<lambda>x. conforms s (One x)) xs)) \<le> m)))"

lemma bound_error_Nil: "bound_error bound violated p x y = [] \<longleftrightarrow> bound_ok bound (\<lambda>b. \<not> violated b)"
  by (auto simp: bound_error_def bound_ok_def split: option.splits)

lemma validateType_Nil:
  "validateType type v p = [] \<longleftrightarrow> (case type of None \<Rightarrow> True
     | Some t \<Rightarrow> (case v of
          One (SStr _) \<Rightarrow> t = ''string'' | One (SNum _) \<Rightarrow> t \<in> {''number'', ''integer''}
        | One (SBool _) \<Rightarrow> t = ''boolean'' | Many _ \<Rightarrow> t = ''array''))"
  by (cases type; cases v rule: key_value.exhaust [case_names 1 2]; simp add: validateType_def split: scalar.splits)

lemma enumerate_ball: "(\<forall>ix \<in> set (enumerate n xs). P (snd ix)) \<longleftrightarrow> (\<forall>x \<in> set xs. P x)"
  by (induction xs arbitrary: n) auto

lemma validateContains_Nil:
  "validateContains b valid xs p = [] \<longleftrightarrow>
     (case tb_minContains b of Some m \<Rightarrow> m | None \<Rightarrow> 1) \<le> int (length (filter valid xs))
     \<and> bound_ok (tb_maxContains b) (\<lambda>m. int (length (filter valid xs)) \<le> m)"
  by (cases "tb_maxContains b") (auto simp: validateContains_def Let_def bound_ok_def)

lemma validateTagValue_Nil: "validateTagValue schema v p = [] \<longleftrightarrow> conforms schema v"
proof (induction schema arbitrary: v p)
  case (TagSchema type enum b items has_one)
  have I: "(case items of None \<Rightarrow> [] | Some s \<Rightarrow> concat (map (\<lambda>(i, x). validateTagValue s (One x)
        (appendPath p (int_to_string (int i)))) (enumerate 0 xs))) = []
      \<longleftrightarrow> (case items of None \<Rightarrow> True | Some s \<Rightarrow> \<forall>x \<in> set xs. conforms s (One x))" for xs
  proof (cases items)
    case (Some s)
    have "validateTagValue s v q = [] \<longleftrightarrow> conforms s v" for v q by (rule TagSchema.IH(1)) (simp add: Some)
    then show ?thesis using enumerate_ball [of 0 xs "\<lambda>x. conforms s (One x)"] by (simp add: Some split_beta)
  qed simp
  have C: "(case has_one of None \<Rightarrow> [] | Some s \<Rightarrow> validateContains b (\<lambda>x. validateTagValue s (One x) p = []) xs p) = []
      \<longleftrightarrow> (case has_one of None \<Rightarrow> True
           | Some s \<Rightarrow> (case tb_minContains b of Some m \<Rightarrow> m | None \<Rightarrow> 1) \<le> int (length (filter (\<lambda>x. conforms s (One x)) xs))
               \<and> bound_ok (tb_maxContains b) (\<lambda>m. int (length (filter (\<lambda>x. conforms s (One x)) xs)) \<le> m))" for xs
  proof (cases has_one)
    case (Some s)
    have "validateTagValue s v q = [] \<longleftrightarrow> conforms s v" for v q by (rule TagSchema.IH(2)) (simp add: Some)
    then show ?thesis by (simp add: Some validateContains_Nil)
  qed simp
  have E: "validateEnum enum v p = [] \<longleftrightarrow> (case enum of None \<Rightarrow> True | Some allowed \<Rightarrow> v \<in> One ` set allowed)" for v
    by (auto simp: validateEnum_def list_ex_iff split: option.splits)
  show ?case
  proof (cases v)
    case (One x)
    show ?thesis unfolding One
      by (cases x) (simp_all add: Let_def validateType_Nil validateNumberConstraints_def validateStringConstraints_def
          validateArrayConstraints_def bound_error_Nil not_less not_le E)
  next
    case (Many xs)
    show ?thesis unfolding Many
      by (simp add: Let_def validateType_Nil validateNumberConstraints_def validateStringConstraints_def
          validateArrayConstraints_def bound_error_Nil not_less I C E)
  qed
qed

lemma formatTagValidationErrors_None: "formatTagValidationErrors es p = None \<longleftrightarrow> es = []"
  by (simp add: formatTagValidationErrors_def)

lemma map_of_forall:
  "distinct (map fst xs) \<Longrightarrow> (\<forall>(k, a) \<in> set xs. P k a) \<longleftrightarrow> (\<forall>k a. map_of xs k = Some a \<longrightarrow> P k a)"
  by auto

text \<open>C25: The tags of a record are accepted exactly when every required tag is there, every tag is declared
  unless undefined tags are allowed, and every tag with a schema conforms to it.  An undeclared tag passes also
  when it has the name of a property of \<open>Object.prototype\<close>.\<close>

theorem module_tags_exact:
  assumes "distinct (map fst tags)" and "distinct (map fst (td_properties d))"
  shows "validateModuleTags d tags dataVar = None \<longleftrightarrow>
      (\<forall>t. t \<in> set (case td_requiredTags d of Some ts \<Rightarrow> ts | None \<Rightarrow> []) \<longrightarrow> map_of tags t \<noteq> None)
    \<and> (td_allowUndefinedTags d = Some True
         \<or> (\<forall>t v. map_of tags t = Some v \<longrightarrow> map_of (getTagSchemas d) t \<noteq> None \<or> t \<in> set object_prototype))
    \<and> (\<forall>t v s. map_of tags t = Some v \<and> map_of (getTagSchemas d) t = Some s \<longrightarrow> conforms s v)"
proof -
  have d: "distinct (map fst (getTagSchemas d))" unfolding getTagSchemas_def by (rule distinct_map_filter [OF assms(2)])
  have 1: "concat (map (\<lambda>t. if map_of tags t = None then [e t] else []) ts) = []
      \<longleftrightarrow> (\<forall>t. t \<in> set ts \<longrightarrow> map_of tags t \<noteq> None)" for e :: "string \<Rightarrow> tag_error" and ts
    by (induct ts) auto
  have "concat (map (\<lambda>(t, _). if map_of (getTagSchemas d) t = None \<and> t \<notin> set object_prototype then [e] else []) tags) = []
      \<longleftrightarrow> (\<forall>(t, v) \<in> set tags. map_of (getTagSchemas d) t \<noteq> None \<or> t \<in> set object_prototype)" for e :: tag_error
    by (induct tags) (auto split: if_splits)
  then have 2: "concat (map (\<lambda>(t, _). if map_of (getTagSchemas d) t = None \<and> t \<notin> set object_prototype then [e] else []) tags) = []
      \<longleftrightarrow> (\<forall>t v. map_of tags t = Some v \<longrightarrow> map_of (getTagSchemas d) t \<noteq> None \<or> t \<in> set object_prototype)" for e :: tag_error
    unfolding map_of_forall [OF assms(1)] .
  have "concat (map (\<lambda>(t, s). case map_of tags t of None \<Rightarrow> [] | Some v \<Rightarrow> validateTagValue s v (appendPath [] (js t))) (getTagSchemas d)) = []
      \<longleftrightarrow> (\<forall>(t, s) \<in> set (getTagSchemas d). \<forall>v. map_of tags t = Some v \<longrightarrow> conforms s v)"
    unfolding concat_eq_Nil_conv by (auto simp: validateTagValue_Nil split: option.splits)
  then have 3: "concat (map (\<lambda>(t, s). case map_of tags t of None \<Rightarrow> [] | Some v \<Rightarrow> validateTagValue s v (appendPath [] (js t))) (getTagSchemas d)) = []
      \<longleftrightarrow> (\<forall>t s. map_of (getTagSchemas d) t = Some s \<longrightarrow> (\<forall>v. map_of tags t = Some v \<longrightarrow> conforms s v))"
    unfolding map_of_forall [OF d] .
  show ?thesis
    unfolding validateModuleTags_def Let_def formatTagValidationErrors_None append_is_Nil_conv 1 3
    by (cases "td_allowUndefinedTags d = Some True") (simp_all only: if_True if_False 2 simp_thms, blast+)
qed

text \<open>A path that requires a status and allows no other tag; a record with an undeclared tag passes.\<close>

definition status_tags :: tags_definition where
  "status_tags = \<lparr>td_requiredTags = Some [''status''], td_allowUndefinedTags = None,
     td_properties = [(''status'', TagSchema (Some ''string'') (Some [SStr (js ''open''), SStr (js ''done'')])
       \<lparr>tb_minimum = None, tb_maximum = None, tb_exclusiveMinimum = None, tb_exclusiveMaximum = None, tb_minLength = None,
        tb_maxLength = Some 4, tb_minItems = None, tb_maxItems = None, tb_uniqueItems = None, tb_minContains = None,
        tb_maxContains = None\<rparr> None None)]\<rparr>"

theorem module_tags_exact_witness:
  "validateModuleTags status_tags [(''status'', One (SStr (js ''open''))), (''constructor'', One (SNum 1))] [] = None
   \<and> map_of (getTagSchemas status_tags) ''constructor'' = None \<and> td_allowUndefinedTags status_tags \<noteq> Some True"
proof -
  let ?ts = "[(''status'', One (SStr (js ''open''))), (''constructor'', One (SNum 1))]"
  have d: "distinct (map fst ?ts)" "distinct (map fst (td_properties status_tags))" by (simp_all add: status_tags_def)
  show ?thesis unfolding module_tags_exact [OF d]
    by (simp add: status_tags_def getTagSchemas_def object_prototype_def bound_ok_def)
qed

end
