(* ===== verification/Module_Authorization.thy ===== *)
theory Module_Authorization
  imports Grant_Authorization Module_Graph Module_Tags
begin

text \<open>
  Authorisation and validation by module rules
  (\<open>core/module-authorization.ts\<close>, \<open>core/module-authorization-action.ts\<close>, \<open>core/module-authorization-validation.ts\<close>,
  \<open>core/module-graph-loader.ts\<close>, \<open>core/module-configure-lookup.ts\<close>, \<open>core/module-role-records.ts\<close> of
  \<open>src/packages/dwn-sdk-js/src\<close>): which definition governs a message, whether a write fits its path, its parent and
  the rules of the path, and whether an action rule allows a message to its author.

  \<open>module_env\<close> holds the definitions of the registered core modules, the key id of a public key (a JWK thumbprint), and
  the checks on encryption control records.  Loading, chains of records and the graph run on fuel.
\<close>

record module_env =
  me_core :: "(jstr \<times> module_definition) list"
  me_keyId :: "jstr \<Rightarrow> jstr"
  me_control_referential :: "jstr \<Rightarrow> node \<Rightarrow> records_write \<Rightarrow> unit result"
  me_control_stored :: "jstr \<Rightarrow> node \<Rightarrow> records_write \<Rightarrow> rule_set result"

section \<open>The governing definition\<close>

definition queryModuleConfigure :: "node_env \<Rightarrow> node \<Rightarrow> jstr \<Rightarrow> jstr \<Rightarrow> jstr option \<Rightarrow> message option result" where
  "queryModuleConfigure N s tenant moduleUri timestamp =
     (let f = [(''interface'', EqualF (SStr (js ''Modules''))), (''method'', EqualF (SStr (js ''Configure''))),
               (''module'', EqualF (SStr moduleUri))];
          governing = (case timestamp of
             None \<Rightarrow> (''isLatestBaseState'', EqualF (SBool True))
           | Some t \<Rightarrow> (''messageTimestamp'', ObjF (no_object\<lparr>f_lte := Some (SStr t)\<rparr>)))
      in bind (query_first N s tenant (f @ [governing]) Descending) (\<lambda>found.
         if found = None \<and> timestamp \<noteq> None then query_first N s tenant f Ascending else Inr found))"

definition fetchModuleDefinition ::
  "node_env \<Rightarrow> module_env \<Rightarrow> node \<Rightarrow> jstr \<Rightarrow> jstr \<Rightarrow> jstr option \<Rightarrow> module_definition result" where
  "fetchModuleDefinition N M s tenant moduleUri timestamp = (case map_of (me_core M) moduleUri of
     Some d \<Rightarrow> Inr d
   | None \<Rightarrow> bind (queryModuleConfigure N s tenant moduleUri timestamp) (\<lambda>found. case found of
       None \<Rightarrow> Inl (DwnError ''ModuleAuthorizationModuleNotFound'' [])
     | Some m \<Rightarrow> (case m of
         OtherMsg x \<Rightarrow> (case od_definition (o_descriptor x) of Some d \<Rightarrow> Inr d | None \<Rightarrow> Inl (OtherError (js ''TypeError'')))
       | _ \<Rightarrow> Inl (OtherError (js ''TypeError'')))))"

record preload =
  pl_definitions :: "(jstr \<times> module_definition) list"
  pl_loading :: "jstr list"

type_synonym definition_fetcher = "jstr \<Rightarrow> module_definition option result"

fun preload_uses ::
  "(preload \<Rightarrow> module_definition \<Rightarrow> preload result option) \<Rightarrow> definition_fetcher \<Rightarrow> jstr list \<Rightarrow> preload \<Rightarrow> preload result option" where
  "preload_uses visit fetchDefinition [] p = Some (Inr p)"
| "preload_uses visit fetchDefinition (targetUri # targets) p =
     (if targetUri \<in> set (pl_loading p) then fail ''ModulesConfigureInvalidUsesCycle''
      else if map_of (pl_definitions p) targetUri \<noteq> None then preload_uses visit fetchDefinition targets p
      else case fetchDefinition targetUri of
        Inl e \<Rightarrow> Some (Inl e)
      | Inr None \<Rightarrow> fail ''ModulesConfigureComposedModuleNotInstalled''
      | Inr (Some target) \<Rightarrow>
          if md_module target \<noteq> targetUri then fail ''ModulesConfigureInvalidUsesModuleUrl''
          else fbind (visit p target) (preload_uses visit fetchDefinition targets))"

definition preload_step ::
  "(preload \<Rightarrow> module_definition \<Rightarrow> preload result option) \<Rightarrow> definition_fetcher \<Rightarrow> preload \<Rightarrow> module_definition \<Rightarrow> preload result option" where
  "preload_step visit fetchDefinition p d =
     (let u = md_module d in
      if u \<in> set (pl_loading p) then fail ''ModulesConfigureInvalidUsesCycle''
      else if map_of (pl_definitions p) u \<noteq> None then Some (Inr p)
      else fbind (preload_uses visit fetchDefinition (sort (remdups (map snd (case md_uses d of None \<Rightarrow> [] | Some x \<Rightarrow> x))))
             \<lparr>pl_definitions = pl_definitions p @ [(u, d)], pl_loading = u # pl_loading p\<rparr>)
           (\<lambda>p'. Some (Inr (p'\<lparr>pl_loading := removeAll u (pl_loading p')\<rparr>))))"

primrec preload_visit :: "nat \<Rightarrow> definition_fetcher \<Rightarrow> preload \<Rightarrow> module_definition \<Rightarrow> preload result option" where
  "preload_visit 0 fetchDefinition = (\<lambda>p d. None)"
| "preload_visit (Suc n) fetchDefinition = preload_step (preload_visit n fetchDefinition) fetchDefinition"

definition preloadModuleDefinitions ::
  "nat \<Rightarrow> module_definition \<Rightarrow> definition_fetcher \<Rightarrow> (jstr \<times> module_definition) list result option" where
  "preloadModuleDefinitions n rootDefinition fetchDefinition =
     fbind (preload_visit n fetchDefinition \<lparr>pl_definitions = [], pl_loading = []\<rparr> rootDefinition) (\<lambda>p. Some (Inr (pl_definitions p)))"

definition loadModuleGraph ::
  "nat \<Rightarrow> node_env \<Rightarrow> module_env \<Rightarrow> node \<Rightarrow> jstr \<Rightarrow> jstr \<Rightarrow> jstr option \<Rightarrow> module_graph result option" where
  "loadModuleGraph n N M s tenant moduleUri timestamp =
     (case fetchModuleDefinition N M s tenant moduleUri timestamp of
        Inl e \<Rightarrow> Some (Inl e)
      | Inr rootDefinition \<Rightarrow>
          fbind (preloadModuleDefinitions n rootDefinition (\<lambda>uri. case fetchModuleDefinition N M s tenant uri timestamp of
                   Inr d \<Rightarrow> Inr (Some d)
                 | Inl e \<Rightarrow> (case e of
                     DwnError c _ \<Rightarrow> if c = ''ModuleAuthorizationModuleNotFound'' then Inr None else Inl e | _ \<Rightarrow> Inl e)))
            (\<lambda>definitions. resolveModuleGraph n (ne_records N) (map_of definitions) True rootDefinition))"

text \<open>\<open>getRecordNode\<close>: the node of a local record; the codes differ for writes.\<close>

definition getRecordNode :: "jstr \<Rightarrow> module_graph \<Rightarrow> bool \<Rightarrow> resolved_node result" where
  "getRecordNode modulePath graph forWrite = (case map_of (mg_nodesByDeclaredPath graph) modulePath of
     None \<Rightarrow> Inl (DwnError (if forWrite then ''ModuleAuthorizationInvalidType'' else ''ModuleAuthorizationMissingRuleSet'') [])
   | Some node \<Rightarrow>
       if rn_kind node = RefNode
       then Inl (DwnError (if forWrite then ''ModuleAuthorizationRefNodeWriteNotAllowed'' else ''ModuleAuthorizationMissingRuleSet'') [])
       else Inr node)"

section \<open>Role contexts\<close>

definition getRoleAudienceContextId :: "nat \<Rightarrow> jstr option \<Rightarrow> jstr option" where
  "getRoleAudienceContextId parentPhysicalDepth contextId =
     (if parentPhysicalDepth = 0 then Some []
      else case contextId of
        None \<Rightarrow> None
      | Some c \<Rightarrow>
          let segments = split_on slash c
          in if length segments < parentPhysicalDepth \<or> [] \<in> set segments then None
             else Some (join_with slash (take parentPhysicalDepth segments)))"

definition getRoleContextPrefix :: "nat \<Rightarrow> jstr option \<Rightarrow> jstr option" where
  "getRoleContextPrefix parentPhysicalDepth contextId =
     (case getRoleAudienceContextId parentPhysicalDepth contextId of
        None \<Rightarrow> None | Some c \<Rightarrow> if c = [] then None else Some c)"

section \<open>Messages under authorisation\<close>

datatype authorizable =
  AuthWrite records_write
| AuthDelete delete_message
| AuthRead dwn_method "jstr option" "signature_payload option"

primrec am_method :: "authorizable \<Rightarrow> dwn_method" where
  "am_method (AuthWrite rw) = Write"
| "am_method (AuthDelete d) = Delete"
| "am_method (AuthRead m a p) = m"

primrec am_author :: "authorizable \<Rightarrow> jstr option" where
  "am_author (AuthWrite rw) = rw_author rw"
| "am_author (AuthDelete d) = getAuthor (DeleteMsg d)"
| "am_author (AuthRead m a p) = a"

primrec am_payload :: "authorizable \<Rightarrow> signature_payload option" where
  "am_payload (AuthWrite rw) = rw_signaturePayload rw"
| "am_payload (AuthDelete d) = jws_payload (a_signature (d_authorization d))"
| "am_payload (AuthRead m a p) = p"

section \<open>Invoked roles\<close>

record module_role =
  mr_contextIdPrefix :: "jstr option"
  mr_module :: jstr
  mr_modulePath :: jstr
  mr_roleRecordId :: "jstr option"

definition roleRecordNotFound :: js_error where
  "roleRecordNotFound = DwnError ''ModuleAuthorizationMatchingRoleRecordNotFound'' []"

definition verifyModuleRoleRecord :: "node_env \<Rightarrow> node \<Rightarrow> jstr \<Rightarrow> jstr \<Rightarrow> module_role \<Rightarrow> jstr option result" where
  "verifyModuleRoleRecord N s tenant recipient role =
     (let rest = bind (hasMatchingRoleRecord N s tenant (mr_module role) (mr_modulePath role) recipient (mr_contextIdPrefix role))
            (\<lambda>exists. if exists then Inr (mr_roleRecordId role) else Inl roleRecordNotFound)
      in bind (queryLatestRoleRecords N s tenant (mr_module role) (mr_modulePath role) recipient (mr_contextIdPrefix role)) (\<lambda>latest.
         case mr_roleRecordId role of
           Some expected \<Rightarrow>
             if expected \<in> set (map message_recordId latest) then Inr (Some expected)
             else if latest \<noteq> [] then Inl roleRecordNotFound else rest
         | None \<Rightarrow> (case latest of m # _ \<Rightarrow> Inr (Some (message_recordId m)) | [] \<Rightarrow> rest)))"

definition invalid_role_codes :: "string list" where
  "invalid_role_codes = [''ModulesConfigureInvalidRefAlias'', ''ModulesConfigureInvalidRefModulePath'', ''ModulesConfigureRoleDoesNotExistAtGivenPath'']"

text \<open>The error of a role that the governing configuration does not have, under another code.\<close>

definition role_or :: "string \<Rightarrow> role_reference result \<Rightarrow> role_reference result" where
  "role_or code r = (case r of
     Inl (DwnError c p) \<Rightarrow> if c \<in> set invalid_role_codes then Inl (DwnError code []) else Inl (DwnError c p)
   | _ \<Rightarrow> r)"

definition verifyInvokedRole ::
  "node_env \<Rightarrow> node \<Rightarrow> jstr \<Rightarrow> authorizable \<Rightarrow> jstr option \<Rightarrow> module_graph \<Rightarrow> module_role option result" where
  "verifyInvokedRole N s tenant msg contextId graph =
     (case (case am_payload msg of None \<Rightarrow> None | Some p \<Rightarrow> sp_moduleRole p) of
        None \<Rightarrow> Inr None
      | Some moduleRole \<Rightarrow>
          bind (role_or ''ModuleAuthorizationNotARole'' (resolveInvokedRole graph moduleRole)) (\<lambda>role.
          let contextIdPrefix = getRoleContextPrefix (rr_parentPhysicalDepth role) contextId in
          if rr_parentPhysicalDepth role > 0 \<and> contextIdPrefix = None
          then Inl (DwnError ''ModuleAuthorizationMissingContextId'' [])
          else case am_author msg of
            None \<Rightarrow> Inl (OtherError (js ''TypeError''))
          | Some author \<Rightarrow>
              let r = \<lparr>mr_contextIdPrefix = contextIdPrefix, mr_module = fst (rr_address role), mr_modulePath = snd (rr_address role),
                       mr_roleRecordId = None\<rparr>
              in bind (verifyModuleRoleRecord N s tenant author r) (\<lambda>recordId. Inr (Some (r\<lparr>mr_roleRecordId := recordId\<rparr>)))))"

section \<open>Actions\<close>

definition getInitialWriteActionsSeekingARuleMatch :: "write_message \<Rightarrow> action_rule list \<Rightarrow> module_action list" where
  "getInitialWriteActionsSeekingARuleMatch w rules =
     (if wd_squash (w_descriptor w) \<noteq> Some True then [ActCreate]
      else if list_ex (\<lambda>r. action_name ActSquash \<in> set (ar_can r)) rules then [ActSquash] else [ActSquash, ActCreate])"

abbreviation initial_write_of :: "node_env \<Rightarrow> node \<Rightarrow> jstr \<Rightarrow> jstr \<Rightarrow> records_write option result" where
  "initial_write_of N s tenant recordId \<equiv>
     fetchInitialRecordsWrite (ne_records N) (ne_store N tenant) (n_messages s tenant) recordId"

definition getDeleteActionsSeekingARuleMatch :: "node_env \<Rightarrow> node \<Rightarrow> jstr \<Rightarrow> delete_message \<Rightarrow> module_action list result" where
  "getDeleteActionsSeekingARuleMatch N s tenant d =
     bind (initial_write_of N s tenant (dd_recordId (d_descriptor d))) (\<lambda>initialWrite. Inr (case initialWrite of
       None \<Rightarrow> []
     | Some i \<Rightarrow>
         let own = (getAuthor (DeleteMsg d) = rw_author i)
         in if dd_prune (d_descriptor d) then ActCoPrune # (if own then [ActPrune] else [])
            else ActCoDelete # (if own then [ActDelete] else [])))"

definition getWriteActionsSeekingARuleMatch ::
  "node_env \<Rightarrow> node \<Rightarrow> jstr \<Rightarrow> records_write \<Rightarrow> action_rule list \<Rightarrow> module_action list result" where
  "getWriteActionsSeekingARuleMatch N s tenant rw rules =
     bind (rw_isInitialWrite (re_cids (ne_records N)) rw) (\<lambda>initial.
     if initial then Inr (getInitialWriteActionsSeekingARuleMatch (rw_message rw) rules)
     else bind (initial_write_of N s tenant (w_recordId (rw_message rw))) (\<lambda>initialWrite. Inr (case initialWrite of
       None \<Rightarrow> []
     | Some i \<Rightarrow> if rw_author rw = rw_author i then [ActCoUpdate, ActUpdate] else [ActCoUpdate])))"

definition getActionsSeekingARuleMatch ::
  "node_env \<Rightarrow> node \<Rightarrow> jstr \<Rightarrow> authorizable \<Rightarrow> action_rule list \<Rightarrow> module_action list result" where
  "getActionsSeekingARuleMatch N s tenant msg rules = (case msg of
     AuthDelete d \<Rightarrow> getDeleteActionsSeekingARuleMatch N s tenant d
   | AuthWrite rw \<Rightarrow> getWriteActionsSeekingARuleMatch N s tenant rw rules
   | AuthRead m _ _ \<Rightarrow> Inr (if m \<in> {Count, Query, Read, Subscribe} then [ActRead] else []))"

definition message_address :: "message \<Rightarrow> address option" where
  "message_address m = (case m of WriteMsg w \<Rightarrow> Some (wd_module (w_descriptor w), wd_modulePath (w_descriptor w)) | _ \<Rightarrow> None)"

definition message_recipient :: "message \<Rightarrow> jstr option" where
  "message_recipient m = (case m of WriteMsg w \<Rightarrow> wd_recipient (w_descriptor w) | _ \<Rightarrow> None)"

definition checkActor :: "records_env \<Rightarrow> jstr \<Rightarrow> resolved_action \<Rightarrow> message list \<Rightarrow> bool result" where
  "checkActor R author action recordChain = (case ra_actor action of
     None \<Rightarrow> Inr False
   | Some target \<Rightarrow> (case find (\<lambda>m. message_address m = Some (ac_address target)) recordChain of
       None \<Rightarrow> Inr False
     | Some ancestor \<Rightarrow>
         if ac_who target = Some (actor_name Recipient) then Inr (message_recipient ancestor = Some author)
         else (case ancestor of
             WriteMsg w \<Rightarrow> bind (parse_write R w) (\<lambda>rw. Inr (rw_author rw = Some author))
           | _ \<Rightarrow> Inl (OtherError (js ''TypeError'')))))"

definition actionRuleAuthorizesMessage ::
  "records_env \<Rightarrow> resolved_action \<Rightarrow> module_action list \<Rightarrow> module_role option \<Rightarrow> authorizable \<Rightarrow> message list \<Rightarrow> bool result" where
  "actionRuleAuthorizesMessage R action seeking invokedRole msg recordChain =
     (let rule = ra_rule action in
      if \<not> list_ex (\<lambda>allowed. allowed \<in> action_name ` set seeking) (ar_can rule) then Inr False
      else if ar_who rule = Some (actor_name Anyone) then Inr True
      else case am_author msg of
        None \<Rightarrow> Inr False
      | Some author \<Rightarrow> (case invokedRole of
          Some r \<Rightarrow> Inr (case ra_role action of None \<Rightarrow> False | Some expected \<Rightarrow> rr_address expected = (mr_module r, mr_modulePath r))
        | None \<Rightarrow>
            if ar_who rule = Some (actor_name Recipient) \<and> ar_of rule = None
            then (case msg of
                AuthWrite rw \<Rightarrow> Inr (wd_recipient (w_descriptor (rw_message rw)) = Some author)
              | _ \<Rightarrow> if recordChain = [] then Inl (OtherError (js ''TypeError''))
                     else Inr (message_recipient (last recordChain) = Some author))
            else checkActor R author action recordChain))"

fun some_rule_authorizes ::
  "records_env \<Rightarrow> resolved_action list \<Rightarrow> module_action list \<Rightarrow> module_role option \<Rightarrow> authorizable \<Rightarrow> message list \<Rightarrow> bool result" where
  "some_rule_authorizes R [] seeking invokedRole msg recordChain = Inr False"
| "some_rule_authorizes R (action # actions) seeking invokedRole msg recordChain =
     bind (actionRuleAuthorizesMessage R action seeking invokedRole msg recordChain) (\<lambda>authorizes.
     if authorizes then Inr True else some_rule_authorizes R actions seeking invokedRole msg recordChain)"

definition authorizeAgainstAllowedActions ::
  "node_env \<Rightarrow> node \<Rightarrow> jstr \<Rightarrow> authorizable \<Rightarrow> resolved_node \<Rightarrow> message list \<Rightarrow> module_role option \<Rightarrow> unit result" where
  "authorizeAgainstAllowedActions N s tenant msg node recordChain invokedRole = (case rs_actions (rn_declaredRuleSet node) of
     None \<Rightarrow> Inl (DwnError ''ModuleAuthorizationActionRulesNotFound'' [])
   | Some rules \<Rightarrow>
       bind (getActionsSeekingARuleMatch N s tenant msg rules) (\<lambda>seeking.
       bind (some_rule_authorizes (ne_records N) (rn_actions node) seeking invokedRole msg recordChain) (\<lambda>authorizes.
       guard authorizes (DwnError ''ModuleAuthorizationActionNotAllowed'' []))))"

section \<open>Authorisation\<close>

text \<open>The common tail: the graph at the time of the message, the node, the invoked role, the rules.\<close>

definition authorize_by_rules ::
  "nat \<Rightarrow> node_env \<Rightarrow> module_env \<Rightarrow> node \<Rightarrow> jstr \<Rightarrow> authorizable \<Rightarrow> jstr \<Rightarrow> jstr \<Rightarrow> jstr option \<Rightarrow> jstr \<Rightarrow> bool \<Rightarrow> message list
    \<Rightarrow> module_role option result option" where
  "authorize_by_rules n N M s tenant msg moduleUri modulePath contextId timestamp forWrite recordChain =
     fbind (loadModuleGraph n N M s tenant moduleUri (Some timestamp)) (\<lambda>graph.
     Some (bind (getRecordNode modulePath graph forWrite) (\<lambda>node.
           bind (verifyInvokedRole N s tenant msg contextId graph) (\<lambda>role.
           bind (authorizeAgainstAllowedActions N s tenant msg node recordChain role) (\<lambda>_. Inr role)))))"

definition ma_authorizeWrite :: "nat \<Rightarrow> node_env \<Rightarrow> module_env \<Rightarrow> node \<Rightarrow> jstr \<Rightarrow> records_write \<Rightarrow> unit result option" where
  "ma_authorizeWrite n N M s tenant rw =
     (let w = rw_message rw; d = w_descriptor w in
      case fetchInitialWrite N s tenant (w_recordId w) of
        Inl e \<Rightarrow> Some (Inl e)
      | Inr existing \<Rightarrow>
          fbind (constructRecordChain n N s tenant (if existing = None then wd_parentId d else Some (w_recordId w))) (\<lambda>recordChain.
          fbind (authorize_by_rules n N M s tenant (AuthWrite rw) (wd_module d) (wd_modulePath d) (Some (w_contextId w))
                   (wd_messageTimestamp d) True recordChain) (\<lambda>_. Some (Inr ()))))"

definition ma_authorizeRead ::
  "nat \<Rightarrow> node_env \<Rightarrow> module_env \<Rightarrow> node \<Rightarrow> jstr \<Rightarrow> authorizable \<Rightarrow> jstr \<Rightarrow> write_message \<Rightarrow> module_role option result option" where
  "ma_authorizeRead n N M s tenant msg timestamp newestWrite =
     fbind (constructRecordChain n N s tenant (Some (w_recordId newestWrite))) (\<lambda>recordChain.
     authorize_by_rules n N M s tenant msg (wd_module (w_descriptor newestWrite)) (wd_modulePath (w_descriptor newestWrite))
       (Some (w_contextId newestWrite)) timestamp False recordChain)"

definition ma_authorizeQueryOrSubscribe ::
  "nat \<Rightarrow> node_env \<Rightarrow> module_env \<Rightarrow> node \<Rightarrow> jstr \<Rightarrow> authorizable \<Rightarrow> jstr \<Rightarrow> jstr \<Rightarrow> jstr \<Rightarrow> jstr option \<Rightarrow> module_role option result option" where
  "ma_authorizeQueryOrSubscribe n N M s tenant msg timestamp moduleUri modulePath contextId =
     authorize_by_rules n N M s tenant msg moduleUri modulePath contextId timestamp False []"

definition ma_authorizeDelete ::
  "nat \<Rightarrow> node_env \<Rightarrow> module_env \<Rightarrow> node \<Rightarrow> jstr \<Rightarrow> delete_message \<Rightarrow> records_write \<Rightarrow> unit result option" where
  "ma_authorizeDelete n N M s tenant d rw =
     (let w = rw_message rw in
      fbind (constructRecordChain n N s tenant (Some (dd_recordId (d_descriptor d)))) (\<lambda>recordChain.
      fbind (authorize_by_rules n N M s tenant (AuthDelete d) (wd_module (w_descriptor w)) (wd_modulePath (w_descriptor w))
               (Some (w_contextId w)) (dd_messageTimestamp (d_descriptor d)) False recordChain) (\<lambda>_. Some (Inr ()))))"

end
