(* ===== verification/Module_Validation.thy ===== *)
theory Module_Validation
  imports Module_Authorization
begin

text \<open>
  The rules of a module for a write (\<open>core/module-authorization-validation.ts\<close> and
  \<open>ModuleAuthorization.validateReferentialIntegrity\<close>, \<open>validateStoredInitialWrite\<close> of
  \<open>core/module-authorization.ts\<close> in \<open>src/packages/dwn-sdk-js/src\<close>): the parent and the context of the record,
  its type, its encryption, its size and tags, role records, immutable records and squashes.
\<close>

section \<open>Parent and context\<close>

definition verifyModulePathAndContextId ::
  "node_env \<Rightarrow> node \<Rightarrow> jstr \<Rightarrow> records_write \<Rightarrow> resolved_node \<Rightarrow> unit result" where
  "verifyModulePathAndContextId N s tenant rw node =
     (let w = rw_message rw in
      case wd_parentId (w_descriptor w) of
        None \<Rightarrow> guard (rn_expectedParent node = None) (DwnError ''ModuleAuthorizationParentlessIncorrectModulePath'' [])
      | Some parentId \<Rightarrow> (case rn_expectedParent node of
          None \<Rightarrow> Inl (DwnError ''ModuleAuthorizationIncorrectModulePath'' [])
        | Some expectedParent \<Rightarrow>
            bind (fetchParentRecord N s tenant (fst expectedParent) parentId) (\<lambda>parentMessage.
            case parentMessage of
              None \<Rightarrow> Inl (DwnError ''ModuleAuthorizationParentRecordNotFound'' [])
            | Some (WriteMsg p) \<Rightarrow>
                if (wd_module (w_descriptor p), wd_modulePath (w_descriptor p)) \<noteq> expectedParent
                then Inl (DwnError ''ModuleAuthorizationIncorrectModulePath'' [])
                else guard (w_contextId w = w_contextId p @ slash # w_recordId w)
                       (DwnError ''ModuleAuthorizationIncorrectContextId'' [])
            | Some _ \<Rightarrow> Inl (DwnError ''ModuleAuthorizationIncorrectModulePath'' []))))"

section \<open>Type\<close>

definition getTypeName :: "jstr \<Rightarrow> jstr" where
  "getTypeName modulePath = last (split_on slash modulePath)"

definition verifyType :: "write_message \<Rightarrow> (jstr \<times> module_type) list \<Rightarrow> module_type result" where
  "verifyType w types = (case map_of types (getTypeName (wd_modulePath (w_descriptor w))) of
     None \<Rightarrow> Inl (DwnError ''ModuleAuthorizationInvalidType'' [])
   | Some t \<Rightarrow>
       if mt_schema t \<noteq> None \<and> mt_schema t \<noteq> wd_schema (w_descriptor w)
       then Inl (DwnError ''ModuleAuthorizationInvalidSchema'' [])
       else if (case mt_dataFormats t of None \<Rightarrow> False | Some fs \<Rightarrow> wd_dataFormat (w_descriptor w) \<notin> set fs)
       then Inl (DwnError ''ModuleAuthorizationIncorrectDataFormat'' [])
       else if mt_encryptionRequired t \<and> w_encryption w = None
       then Inl (DwnError ''ModuleAuthorizationEncryptionRequired'' [])
       else if \<not> mt_encryptionRequired t \<and> w_encryption w \<noteq> None
       then Inl (DwnError ''ModuleAuthorizationEncryptionNotAllowed'' [])
       else Inr t)"

section \<open>Encryption\<close>

definition ENCRYPTION_MODULE_GRANT_KEY_PATH :: jstr where
  "ENCRYPTION_MODULE_GRANT_KEY_PATH = js ''grantKey''"

fun some_audience :: "node_env \<Rightarrow> node \<Rightarrow> jstr \<Rightarrow> address \<Rightarrow> jstr \<Rightarrow> key_encryption list \<Rightarrow> bool result" where
  "some_audience N s tenant role contextId [] = Inr False"
| "some_audience N s tenant role contextId (entry # entries) =
     bind (queryAudienceRecords N s tenant (fst role) (snd role) contextId (ke_keyId entry)) (\<lambda>records.
     if records \<noteq> [] then Inr True else some_audience N s tenant role contextId entries)"

text \<open>\<open>validateSourceRoleAudienceEntry\<close>: (\<open>hasAudience\<close>, \<open>hasEntry\<close>).\<close>

definition validateSourceRoleAudienceEntry ::
  "node_env \<Rightarrow> node \<Rightarrow> jstr \<Rightarrow> address \<Rightarrow> jstr \<Rightarrow> key_encryption list \<Rightarrow> (bool \<times> bool) result" where
  "validateSourceRoleAudienceEntry N s tenant role contextId keyEncryption =
     (let matchingEntries = filter (\<lambda>e. ke_derivationScheme e = ROLE_AUDIENCE_DERIVATION_SCHEME
            \<and> ke_module e = Some (fst role) \<and> ke_rolePath e = Some (snd role)) keyEncryption
      in if matchingEntries = [] then Inr (False, False)
         else bind (some_audience N s tenant role contextId matchingEntries) (\<lambda>found. Inr (found, True)))"

definition verifyResolvedRoleAudienceEncryption ::
  "node_env \<Rightarrow> node \<Rightarrow> jstr \<Rightarrow> address \<Rightarrow> jstr \<Rightarrow> key_encryption list \<Rightarrow> unit result" where
  "verifyResolvedRoleAudienceEncryption N s tenant role contextId keyEncryption =
     bind (validateSourceRoleAudienceEntry N s tenant role contextId keyEncryption) (\<lambda>(hasAudience, hasEntry).
     if hasAudience then Inr ()
     else if \<not> hasEntry then Inl (DwnError ''ModuleAuthorizationEncryptionRoleAudienceEntryMissing'' [])
     else Inl (DwnError ''ModuleAuthorizationEncryptionRoleAudienceMissing'' []))"

fun verifyRoleAudienceEncryptionIfNeeded ::
  "node_env \<Rightarrow> node \<Rightarrow> jstr \<Rightarrow> jstr \<Rightarrow> key_encryption list \<Rightarrow> resolved_action list \<Rightarrow> unit result" where
  "verifyRoleAudienceEncryptionIfNeeded N s tenant contextId keyEncryption [] = Inr ()"
| "verifyRoleAudienceEncryptionIfNeeded N s tenant contextId keyEncryption (action # actions) =
     bind (case ra_role action of
             None \<Rightarrow> Inr ()
           | Some role \<Rightarrow>
               if action_name ActRead \<notin> set (ar_can (ra_rule action)) then Inr ()
               else case getRoleAudienceContextId (rr_parentPhysicalDepth role) (Some contextId) of
                 None \<Rightarrow> Inl (DwnError ''ModuleAuthorizationMissingContextId'' [])
               | Some c \<Rightarrow> verifyResolvedRoleAudienceEncryption N s tenant (rr_address role) c keyEncryption)
       (\<lambda>_. verifyRoleAudienceEncryptionIfNeeded N s tenant contextId keyEncryption actions)"

definition verifyModulePathEncryptionIfNeeded ::
  "node_env \<Rightarrow> module_env \<Rightarrow> node \<Rightarrow> jstr \<Rightarrow> write_message \<Rightarrow> module_definition \<Rightarrow> resolved_node \<Rightarrow> module_type \<Rightarrow> unit result" where
  "verifyModulePathEncryptionIfNeeded N M s tenant w d node t =
     (if \<not> mt_encryptionRequired t then Inr ()
      else case rs_keyAgreement (rn_ruleSet node) of
        None \<Rightarrow>
          guard (md_module d = ENCRYPTION_MODULE_URI \<and> wd_modulePath (w_descriptor w) = ENCRYPTION_MODULE_GRANT_KEY_PATH)
            (DwnError ''ModuleAuthorizationEncryptionKeyAgreementMissing'' [])
      | Some publicKeyJwk \<Rightarrow> (case w_encryption w of
          None \<Rightarrow> Inl (OtherError (js ''TypeError''))
        | Some encryption \<Rightarrow> let keyEncryption = en_keyEncryption encryption in
            if \<not> list_ex (\<lambda>e. ke_derivationScheme e = modulePathScheme \<and> ke_keyId e = Some (me_keyId M publicKeyJwk)) keyEncryption
            then Inl (DwnError ''ModuleAuthorizationEncryptionModulePathEntryMissing'' [])
            else verifyRoleAudienceEncryptionIfNeeded N s tenant (w_contextId w) keyEncryption (rn_actions node)))"

section \<open>Size, tags, roles, immutability and squash\<close>

definition verifySizeLimit :: "write_message \<Rightarrow> rule_set \<Rightarrow> unit result" where
  "verifySizeLimit w rs =
     (let mn = (case rs_size rs of None \<Rightarrow> 0 | Some z \<Rightarrow> (case sz_min z of None \<Rightarrow> 0 | Some m \<Rightarrow> m));
          mx = (case rs_size rs of None \<Rightarrow> None | Some z \<Rightarrow> sz_max z);
          dataSize = wd_dataSize (w_descriptor w)
      in if dataSize < mn then Inl (DwnError ''ModuleAuthorizationMinSizeInvalid'' [])
         else case mx of
           None \<Rightarrow> Inr ()
         | Some m \<Rightarrow> guard (dataSize \<le> m) (DwnError ''ModuleAuthorizationMaxSizeInvalid'' []))"

definition verifyTagsIfNeeded :: "write_message \<Rightarrow> rule_set \<Rightarrow> unit result" where
  "verifyTagsIfNeeded w rs = (case rs_tags rs of
     None \<Rightarrow> Inr ()
   | Some d \<Rightarrow> (case validateModuleTags d (case wd_tags (w_descriptor w) of None \<Rightarrow> [] | Some ts \<Rightarrow> ts)
         (wd_module (w_descriptor w) @ slash # wd_modulePath (w_descriptor w) @ js ''/$tags'') of
       None \<Rightarrow> Inr ()
     | Some schemaError \<Rightarrow>
         Inl (DwnError ''ModuleAuthorizationTagsInvalidSchema'' (js ''tags schema validation error: '' @ schemaError))))"

definition verifyAsRoleRecordIfNeeded :: "node_env \<Rightarrow> node \<Rightarrow> jstr \<Rightarrow> write_message \<Rightarrow> resolved_node \<Rightarrow> unit result" where
  "verifyAsRoleRecordIfNeeded N s tenant w node =
     (if \<not> rs_role (rn_ruleSet node) then Inr ()
      else case wd_recipient (w_descriptor w) of
        None \<Rightarrow> Inl (DwnError ''ModuleAuthorizationRoleMissingRecipient'' [])
      | Some recipient \<Rightarrow>
          let parentContextId = getParentContextFromOfContextId (Some (w_contextId w))
          in bind (queryLatestRoleRecords N s tenant (wd_module (w_descriptor w)) (wd_modulePath (w_descriptor w)) recipient
                     (if parentContextId = Some [] then None else parentContextId)) (\<lambda>matchingRecords.
             guard (filter (\<lambda>m. message_recordId m \<noteq> w_recordId w) matchingRecords = [])
               (DwnError ''ModuleAuthorizationDuplicateRoleRecipient'' [])))"

definition verifySquashEligibility :: "cids \<Rightarrow> records_write \<Rightarrow> rule_set \<Rightarrow> unit result" where
  "verifySquashEligibility C rw rs =
     (if wd_squash (w_descriptor (rw_message rw)) \<noteq> Some True then Inr ()
      else if \<not> rs_squash rs then Inl (DwnError ''ModuleAuthorizationSquashNotEnabled'' [])
      else bind (rw_isInitialWrite C rw) (\<lambda>initial. guard initial (DwnError ''ModuleAuthorizationSquashNotInitialWrite'' [])))"

definition verifyImmutability :: "cids \<Rightarrow> records_write \<Rightarrow> rule_set \<Rightarrow> unit result" where
  "verifyImmutability C rw rs =
     (if \<not> rs_immutable rs then Inr ()
      else bind (rw_isInitialWrite C rw) (\<lambda>initial. guard initial (DwnError ''ModuleAuthorizationImmutableRecord'' [])))"

section \<open>Referential integrity\<close>

text \<open>The checks behind the graph, in the order of the code.\<close>

definition governed_write ::
  "node_env \<Rightarrow> module_env \<Rightarrow> node \<Rightarrow> jstr \<Rightarrow> records_write \<Rightarrow> module_graph \<Rightarrow> rule_set result" where
  "governed_write N M s tenant rw graph =
     (let w = rw_message rw; C = re_cids (ne_records N) in
      case map_of (mg_definitionsByUri graph) (mg_rootModuleUri graph) of
        None \<Rightarrow> Inl (OtherError (js ''TypeError''))
      | Some d \<Rightarrow>
          bind (getRecordNode (wd_modulePath (w_descriptor w)) graph True) (\<lambda>node.
          bind (verifyType w (md_types d)) (\<lambda>t.
          bind (verifyModulePathEncryptionIfNeeded N M s tenant w d node t) (\<lambda>_.
          bind (verifyModulePathAndContextId N s tenant rw node) (\<lambda>_.
          bind (verifyAsRoleRecordIfNeeded N s tenant w node) (\<lambda>_.
          bind (verifySizeLimit w (rn_ruleSet node)) (\<lambda>_.
          bind (verifyTagsIfNeeded w (rn_ruleSet node)) (\<lambda>_.
          bind (verifyImmutability C rw (rn_ruleSet node)) (\<lambda>_.
          bind (verifySquashEligibility C rw (rn_ruleSet node)) (\<lambda>_.
          Inr (rn_ruleSet node)))))))))))"

definition validateReferentialIntegrity ::
  "nat \<Rightarrow> node_env \<Rightarrow> module_env \<Rightarrow> node \<Rightarrow> jstr \<Rightarrow> records_write \<Rightarrow> rule_set result option" where
  "validateReferentialIntegrity n N M s tenant rw =
     (let w = rw_message rw; d = w_descriptor w in
      if isEncryptionControlPath (Some (wd_modulePath d))
      then Some (bind (me_control_referential M tenant s rw) (\<lambda>_. Inr no_rules))
      else fbind (loadModuleGraph n N M s tenant (wd_module d) (Some (wd_messageTimestamp d)))
             (\<lambda>graph. Some (governed_write N M s tenant rw graph)))"

section \<open>Stored initial writes\<close>

definition verifyStoredInitialWrite :: "cids \<Rightarrow> records_write \<Rightarrow> unit result" where
  "verifyStoredInitialWrite C rw =
     bind (rw_isInitialWrite C rw) (\<lambda>initial. guard initial (DwnError ''ModuleAuthorizationInitialWriteRevalidationNotInitial'' []))"

definition verifyStoredInitialWriteRoleRecipientIfNeeded :: "write_message \<Rightarrow> rule_set \<Rightarrow> unit result" where
  "verifyStoredInitialWriteRoleRecipientIfNeeded w rs =
     guard (\<not> rs_role rs \<or> wd_recipient (w_descriptor w) \<noteq> None)
       (DwnError ''ModuleAuthorizationStoredInitialWriteRoleMissingRecipient'' [])"

definition isStoredInitialWriteDirectlyAuthorized :: "jstr \<Rightarrow> records_write \<Rightarrow> bool" where
  "isStoredInitialWriteDirectlyAuthorized tenant rw =
     (rw_owner rw \<noteq> None \<or> rw_author rw = Some tenant \<or> isSignedByAuthorDelegate (WriteMsg (rw_message rw))
      \<or> isSignedByOwnerDelegate (WriteMsg (rw_message rw))
      \<or> (case rw_signaturePayload rw of None \<Rightarrow> False | Some p \<Rightarrow> sp_permissionGrantId p \<noteq> None))"

definition resolveStoredInitialWriteRole :: "records_write \<Rightarrow> module_graph \<Rightarrow> role_reference option result" where
  "resolveStoredInitialWriteRole rw graph =
     (case (case rw_signaturePayload rw of None \<Rightarrow> None | Some p \<Rightarrow> sp_moduleRole p) of
        None \<Rightarrow> Inr None
      | Some r \<Rightarrow> bind (role_or ''ModuleAuthorizationStoredInitialWriteActionNotAllowed'' (resolveInvokedRole graph r))
                    (\<lambda>role. Inr (Some role)))"

definition storedCreateRuleAllowsRecord ::
  "action_rule \<Rightarrow> module_action list \<Rightarrow> role_reference option \<Rightarrow> module_graph \<Rightarrow> bool result" where
  "storedCreateRuleAllowsRecord rule actions invokedRole graph =
     (if \<not> list_ex (\<lambda>allowed. allowed \<in> action_name ` set actions) (ar_can rule) then Inr False
      else case invokedRole of
        Some r \<Rightarrow> (case ar_role rule of
            None \<Rightarrow> Inr False
          | Some raw \<Rightarrow> bind (resolveInvokedRole graph raw) (\<lambda>expected. Inr (rr_address expected = rr_address r)))
      | None \<Rightarrow> Inr (ar_who rule = Some (actor_name Anyone) \<or> ar_who rule = Some (actor_name Author)
                     \<or> ar_who rule = Some (actor_name Recipient)))"

fun some_stored_rule ::
  "action_rule list \<Rightarrow> module_action list \<Rightarrow> role_reference option \<Rightarrow> module_graph \<Rightarrow> bool result" where
  "some_stored_rule [] actions invokedRole graph = Inr False"
| "some_stored_rule (rule # rules) actions invokedRole graph =
     bind (storedCreateRuleAllowsRecord rule actions invokedRole graph) (\<lambda>allows.
     if allows then Inr True else some_stored_rule rules actions invokedRole graph)"

definition verifyStoredInitialWriteCreateAction :: "jstr \<Rightarrow> records_write \<Rightarrow> rule_set \<Rightarrow> module_graph \<Rightarrow> unit result" where
  "verifyStoredInitialWriteCreateAction tenant rw rs graph =
     (if isStoredInitialWriteDirectlyAuthorized tenant rw then Inr ()
      else case rs_actions rs of
        None \<Rightarrow> Inl (DwnError ''ModuleAuthorizationStoredInitialWriteActionRulesNotFound'' [])
      | Some rules \<Rightarrow>
          bind (resolveStoredInitialWriteRole rw graph) (\<lambda>invokedRole.
          bind (some_stored_rule rules (getInitialWriteActionsSeekingARuleMatch (rw_message rw) rules) invokedRole graph) (\<lambda>allowed.
          guard allowed (DwnError ''ModuleAuthorizationStoredInitialWriteActionNotAllowed'' []))))"

definition governed_stored_write ::
  "node_env \<Rightarrow> module_env \<Rightarrow> node \<Rightarrow> jstr \<Rightarrow> records_write \<Rightarrow> module_graph \<Rightarrow> unit result" where
  "governed_stored_write N M s tenant rw graph =
     (let w = rw_message rw in
      case map_of (mg_definitionsByUri graph) (mg_rootModuleUri graph) of
        None \<Rightarrow> Inl (OtherError (js ''TypeError''))
      | Some d \<Rightarrow>
          bind (getRecordNode (wd_modulePath (w_descriptor w)) graph True) (\<lambda>node.
          bind (verifyType w (md_types d)) (\<lambda>t.
          bind (verifyModulePathEncryptionIfNeeded N M s tenant w d node t) (\<lambda>_.
          bind (verifyStoredInitialWriteRoleRecipientIfNeeded w (rn_ruleSet node)) (\<lambda>_.
          bind (verifySizeLimit w (rn_ruleSet node)) (\<lambda>_.
          bind (verifyTagsIfNeeded w (rn_ruleSet node)) (\<lambda>_.
          bind (verifySquashEligibility (re_cids (ne_records N)) rw (rn_ruleSet node)) (\<lambda>_.
          verifyStoredInitialWriteCreateAction tenant rw (rn_ruleSet node) graph))))))))"

definition validateStoredInitialWrite ::
  "nat \<Rightarrow> node_env \<Rightarrow> module_env \<Rightarrow> node \<Rightarrow> jstr \<Rightarrow> records_write \<Rightarrow> unit result option" where
  "validateStoredInitialWrite n N M s tenant rw =
     (let d = w_descriptor (rw_message rw);
          graph = loadModuleGraph n N M s tenant (wd_module d) (Some (wd_messageTimestamp d)) in
      fbind (Some (verifyStoredInitialWrite (re_cids (ne_records N)) rw)) (\<lambda>_.
      if isEncryptionControlPath (Some (wd_modulePath d))
      then fbind (Some (me_control_stored M tenant s rw)) (\<lambda>governingRuleSet.
           fbind graph (\<lambda>g. Some (verifyStoredInitialWriteCreateAction tenant rw governingRuleSet g)))
      else fbind graph (\<lambda>g. Some (governed_stored_write N M s tenant rw g))))"

end
