(* ===== verification/Module_Rules.thy ===== *)
theory Module_Rules
  imports Module_Resolution Module_Validation Records_Handlers
begin

text \<open>
  What the module rules decide, over the definitions that govern a message at its timestamp: which
  rules grant a message to its author, and what a write that passes the rules looks like.
\<close>

section \<open>Governing definitions\<close>

text \<open>Every definition of a list is the one that governs at the time of the message.\<close>

definition all_govern :: "node_env \<Rightarrow> module_env \<Rightarrow> node \<Rightarrow> jstr \<Rightarrow> jstr option \<Rightarrow> module_definition \<Rightarrow> definitions \<Rightarrow> bool" where
  "all_govern N M s tenant t d ds \<longleftrightarrow> map_of ds (md_module d) = Some d
     \<and> (\<forall>u x. map_of ds u = Some x \<longrightarrow> u = md_module d \<and> x = d \<or> md_module x = u \<and> fetchModuleDefinition N M s tenant u t = Inr x)"

definition preloaded :: "definition_fetcher \<Rightarrow> preload \<Rightarrow> preload \<Rightarrow> bool" where
  "preloaded f p p' \<longleftrightarrow> (\<forall>u x. map_of (pl_definitions p') u = Some x \<longrightarrow>
     map_of (pl_definitions p) u = Some x \<or> md_module x = u \<and> f u = Inr (Some x))"

lemma preloaded_trans: "preloaded f p q \<Longrightarrow> preloaded f q r \<Longrightarrow> preloaded f p r"
  unfolding preloaded_def by blast

text \<open>A visitor of a dependency that it was handed by the fetcher adds fetched definitions only.\<close>

locale preload_visitor =
  fixes visit :: "preload \<Rightarrow> module_definition \<Rightarrow> preload result option" and f :: definition_fetcher
  assumes visits: "visit p d = Some (Inr p') \<Longrightarrow> f (md_module d) = Inr (Some d) \<Longrightarrow> preloaded f p p'"
begin

lemma uses_preloaded: "preload_uses visit f us p = Some (Inr p') \<Longrightarrow> preloaded f p p'"
proof (induction us arbitrary: p)
  case (Cons u us)
  from Cons.prems consider "preload_uses visit f us p = Some (Inr p')"
    | d q where "f u = Inr (Some d)" "md_module d = u" "visit p d = Some (Inr q)" "preload_uses visit f us q = Some (Inr p')"
    by (auto simp: fbind_eq_Inr split: if_splits sum.splits option.splits)
  then show ?case
  proof cases
    case 2
    have "preloaded f p q" by (rule visits [OF 2(3) 2(1) [folded 2(2)]])
    then show ?thesis using Cons.IH [OF 2(4)] by (rule preloaded_trans)
  qed (rule Cons.IH)
qed (simp add: preloaded_def)

lemma step_adds:
  assumes "preload_step visit f p d = Some (Inr p')" and "map_of (pl_definitions p') u = Some x"
  shows "map_of (pl_definitions p) u = Some x \<or> u = md_module d \<and> x = d \<or> md_module x = u \<and> f u = Inr (Some x)"
proof (cases "map_of (pl_definitions p) (md_module d)")
  case None
  let ?q = "\<lparr>pl_definitions = pl_definitions p @ [(md_module d, d)], pl_loading = md_module d # pl_loading p\<rparr>"
  from assms(1) None obtain us q where "preload_uses visit f us ?q = Some (Inr q)" "pl_definitions p' = pl_definitions q"
    by (auto simp: preload_step_def Let_def fbind_eq_Inr split: if_splits)
  note q = this
  have "map_of (pl_definitions ?q) u = Some x \<or> md_module x = u \<and> f u = Inr (Some x)"
    using uses_preloaded [OF q(1)] assms(2) unfolding preloaded_def q(2) by blast
  then show ?thesis using None by (auto simp: map_add_def split: option.splits if_splits)
next
  case (Some y)
  then have "p' = p" using assms(1) by (auto simp: preload_step_def Let_def split: if_splits)
  with assms(2) show ?thesis by simp
qed

lemma step_visits: "preload_visitor (preload_step visit f) f"
  by unfold_locales (auto simp: preloaded_def dest: step_adds)

end

lemma preload_visit_visitor: "preload_visitor (preload_visit n f) f"
proof (induction n)
  case (Suc n)
  then show ?case using preload_visitor.step_visits [OF Suc] by simp
qed (simp add: preload_visitor_def)

interpretation visited: preload_visitor "preload_visit n f" f for n f
  by (rule preload_visit_visitor)

lemma preloadModuleDefinitions_governing:
  assumes "preloadModuleDefinitions n d f = Some (Inr ds)" and "map_of ds u = Some x"
  shows "u = md_module d \<and> x = d \<or> md_module x = u \<and> f u = Inr (Some x)"
proof (cases n)
  case (Suc m)
  from assms obtain p where "preload_step (preload_visit m f) f \<lparr>pl_definitions = [], pl_loading = []\<rparr> d = Some (Inr p)"
    "map_of (pl_definitions p) u = Some x" by (auto simp: preloadModuleDefinitions_def fbind_eq_Inr Suc)
  from visited.step_adds [OF this] show ?thesis by simp
qed (use assms in \<open>simp add: preloadModuleDefinitions_def\<close>)

lemma resolveModuleGraph_definitions:
  assumes "resolveModuleGraph n E (map_of ds) kr d = Some (Inr g)" and "map_of (mg_definitionsByUri g) u = Some x"
  shows "u = md_module d \<and> x = d \<or> map_of ds u = Some x"
proof -
  from assms(1) obtain s1 s2 s3 where 1: "loadDefinition n E (map_of ds) empty_resolver d = Some (Inr s1)"
    and 2: "resolve_definitions (resolveNode n) (rv_definitions s1) s1 = Some (Inr s2)"
    and 3: "resolve_all_actions kr (resolveNode n) (rv_nodes s2) s2 = Some (Inr s3)" and g: "mg_definitionsByUri g = rv_definitions s3"
    by (auto simp: resolveModuleGraph_def fbind_eq_Inr)
  note L = installed.loads [OF 1, unfolded loaded_def empty_resolver_def, simplified]
  have "resolver_ok s1" using L by (simp add: resolver_ok_start)
  note D = resolved_definitions_complete [OF this 2]
  have "\<forall>x \<in> set (rv_nodes s2). map_of (rv_nodes s2) (fst x) = Some (snd x)" "distinct (map fst (rv_nodes s2))"
    using D(1) by (auto simp: resolver_ok_def)
  then have "rv_definitions s3 = rv_definitions s2" using level.all_actions_resolved [OF D(1) _ _ 3] by blast
  with assms(2) g extendsD(1) [OF D(2)] have "map_of (rv_definitions s1) u = Some x" by simp
  with L show ?thesis by blast
qed

text \<open>Preloading ends when finitely many modules can be fetched: a level for each, and one for the root.\<close>

definition unfetched :: "jstr set \<Rightarrow> preload \<Rightarrow> jstr set" where
  "unfetched U p = U - dom (map_of (pl_definitions p))"

definition keeps_definitions :: "preload \<Rightarrow> preload \<Rightarrow> bool" where
  "keeps_definitions p p' \<longleftrightarrow> dom (map_of (pl_definitions p)) \<subseteq> dom (map_of (pl_definitions p'))"

locale bounded_visitor =
  fixes visit :: "preload \<Rightarrow> module_definition \<Rightarrow> preload result option" and f :: definition_fetcher
    and U :: "jstr set" and k :: nat
  assumes keeps: "visit p d = Some (Inr p') \<Longrightarrow> keeps_definitions p p'"
    and finite: "finite U" and fetched: "f u = Inr (Some x) \<Longrightarrow> u \<in> U"
    and ends: "md_module d \<in> U \<Longrightarrow> card (unfetched U p) < k \<Longrightarrow> visit p d \<noteq> None"
begin

lemma uses_keep: "preload_uses visit f us p = Some (Inr p') \<Longrightarrow> keeps_definitions p p'"
proof (induction us arbitrary: p)
  case (Cons u us)
  from Cons.prems consider "preload_uses visit f us p = Some (Inr p')"
    | d q where "visit p d = Some (Inr q)" "preload_uses visit f us q = Some (Inr p')"
    by (auto simp: fbind_eq_Inr split: if_splits sum.splits option.splits)
  then show ?case
  proof cases
    case 2
    show ?thesis using keeps [OF 2(1)] Cons.IH [OF 2(2)] unfolding keeps_definitions_def by (rule subset_trans)
  qed (rule Cons.IH)
qed (simp add: keeps_definitions_def)

lemma uses_end: "card (unfetched U p) < k \<Longrightarrow> preload_uses visit f us p \<noteq> None"
proof (induction us arbitrary: p)
  case (Cons u us)
  have "fbind (visit p d) (preload_uses visit f us) \<noteq> None" if d: "f u = Inr (Some d)" "md_module d = u" for d
  proof (rule fbind_not_None)
    show "visit p d \<noteq> None" by (rule ends [OF _ Cons.prems]) (use fetched [OF d(1)] d(2) in simp)
    fix q assume "visit p d = Some (Inr q)"
    from keeps [OF this] have "unfetched U q \<subseteq> unfetched U p" unfolding keeps_definitions_def unfetched_def by blast
    then have "card (unfetched U q) \<le> card (unfetched U p)" by (rule card_mono [rotated]) (simp add: unfetched_def finite)
    with Cons.prems show "preload_uses visit f us q \<noteq> None" by (intro Cons.IH) simp
  qed
  with Cons show ?case by (auto split: sum.splits option.splits)
qed simp

lemma step_bounded: "bounded_visitor (preload_step visit f) f U (Suc k)"
proof unfold_locales
  fix p d p' assume "preload_step visit f p d = Some (Inr p')"
  then consider "p' = p" | us q where "preload_uses visit f us \<lparr>pl_definitions = pl_definitions p @ [(md_module d, d)],
      pl_loading = md_module d # pl_loading p\<rparr> = Some (Inr q)" "pl_definitions p' = pl_definitions q"
    by (auto simp: preload_step_def Let_def fbind_eq_Inr split: if_splits)
  then show "keeps_definitions p p'"
  proof cases
    case 2
    from uses_keep [OF 2(1)] show ?thesis unfolding keeps_definitions_def 2(2) by (simp add: dom_map_of_conv_image_fst)
  qed (simp add: keeps_definitions_def)
next
  fix d :: module_definition and p :: preload assume d: "md_module d \<in> U" "card (unfetched U p) < Suc k"
  show "preload_step visit f p d \<noteq> None"
  proof (cases "map_of (pl_definitions p) (md_module d)")
    case None
    let ?q = "\<lparr>pl_definitions = pl_definitions p @ [(md_module d, d)], pl_loading = md_module d # pl_loading p\<rparr>"
    have "unfetched U ?q \<subset> unfetched U p" using d(1) None by (auto simp: unfetched_def dom_map_of_conv_image_fst map_of_eq_None_iff)
    then have "card (unfetched U ?q) < card (unfetched U p)" by (rule psubset_card_mono [rotated]) (simp add: unfetched_def finite)
    with d(2) have "card (unfetched U ?q) < k" by simp
    then have u: "preload_uses visit f us ?q \<noteq> None" for us by (rule uses_end)
    have "fbind (preload_uses visit f us ?q) (\<lambda>p'. Some (Inr (p'\<lparr>pl_loading := removeAll (md_module d) (pl_loading p')\<rparr>))) \<noteq> None" for us
      by (rule fbind_not_None [OF u]) simp
    with None show ?thesis by (simp add: preload_step_def Let_def)
  qed (simp add: preload_step_def Let_def)
qed (use finite fetched in blast)+

end

lemma preload_visit_bounded:
  "finite U \<Longrightarrow> (\<And>u x. f u = Inr (Some x) \<Longrightarrow> u \<in> U) \<Longrightarrow> bounded_visitor (preload_visit n f) f U n"
proof (induction n)
  case (Suc n)
  have "bounded_visitor (preload_visit n f) f U n" by (rule Suc.IH [OF Suc.prems])
  from bounded_visitor.step_bounded [OF this] show ?case by simp
qed (unfold_locales, simp_all)

definition installed_uris :: "(jstr \<times> module_definition) list \<Rightarrow> jstr set" where
  "installed_uris ds = fst ` set ds"

interpretation installed_visitor: bounded_visitor "preload_visit n (\<lambda>u. Inr (map_of ds u))" "\<lambda>u. Inr (map_of ds u)"
    "insert r (installed_uris ds)" n for n ds r
  by (rule preload_visit_bounded) (auto simp: installed_uris_def dest: map_of_SomeD intro: rev_image_eqI)

lemma preloadModuleDefinitions_ends:
  assumes "finite U" and "\<And>u x. f u = Inr (Some x) \<Longrightarrow> u \<in> U" and "card U + 2 \<le> n"
  shows "preloadModuleDefinitions n d f \<noteq> None"
proof -
  have "bounded_visitor (preload_visit n f) f (insert (md_module d) U) n"
    by (rule preload_visit_bounded) (use assms(1,2) in auto)
  moreover have "card (unfetched (insert (md_module d) U) \<lparr>pl_definitions = [], pl_loading = []\<rparr>) < n"
    using assms(1,3) by (simp add: unfetched_def card_insert_if)
  ultimately have "preload_visit n f \<lparr>pl_definitions = [], pl_loading = []\<rparr> d \<noteq> None"
    by (intro bounded_visitor.ends) simp_all
  then show ?thesis unfolding preloadModuleDefinitions_def by (rule fbind_not_None) simp
qed

text \<open>The graph of a message: the governing definition of its module and of every module it composes.\<close>

lemma loadModuleGraph_resolved:
  assumes "loadModuleGraph n N M s tenant u t = Some (Inr g)"
  obtains d ds where "fetchModuleDefinition N M s tenant u t = Inr d"
    and "resolveModuleGraph n (ne_records N) (map_of ds) True d = Some (Inr g)"
    and "all_govern N M s tenant t d (mg_definitionsByUri g)"
proof -
  define f :: definition_fetcher where "f = (\<lambda>uri. case fetchModuleDefinition N M s tenant uri t of
                   Inr d \<Rightarrow> Inr (Some d)
                 | Inl e \<Rightarrow> (case e of
                     DwnError c _ \<Rightarrow> if c = ''ModuleAuthorizationModuleNotFound'' then Inr None else Inl e | _ \<Rightarrow> Inl e))"
  from assms obtain d ds where d: "fetchModuleDefinition N M s tenant u t = Inr d"
    and p: "preloadModuleDefinitions n d f = Some (Inr ds)"
    and g: "resolveModuleGraph n (ne_records N) (map_of ds) True d = Some (Inr g)"
    by (auto simp: loadModuleGraph_def f_def fbind_eq_Inr split: sum.splits)
  have f: "f v = Inr (Some x) \<Longrightarrow> fetchModuleDefinition N M s tenant v t = Inr x" for v x
    by (auto simp: f_def split: sum.splits js_error.splits if_splits)
  have "v = md_module d \<and> x = d \<or> md_module x = v \<and> fetchModuleDefinition N M s tenant v t = Inr x"
    if "map_of (mg_definitionsByUri g) v = Some x" for v x
    using resolveModuleGraph_definitions [OF g that] preloadModuleDefinitions_governing [OF p, of v x] f [of v x] by blast
  then have "all_govern N M s tenant t d (mg_definitionsByUri g)"
    using resolveModuleGraph_resolver(1) [OF g] unfolding all_govern_def by blast
  with d g that show thesis by blast
qed

section \<open>What a rule grants\<close>

lemma denotes_unique: "denotes ds u r a \<Longrightarrow> denotes ds u r b \<Longrightarrow> a = b"
  unfolding denotes_def using points_unique resolves_unique by blast

definition am_role :: "authorizable \<Rightarrow> jstr option" where
  "am_role msg = (case am_payload msg of None \<Rightarrow> None | Some p \<Rightarrow> sp_moduleRole p)"

text \<open>The author of the message holds the role that it invokes: a role record of the path with the author as its
  recipient, in the context of the message up to the depth of the role's parent.\<close>

definition role_held ::
  "definitions \<Rightarrow> node_env \<Rightarrow> node \<Rightarrow> jstr \<Rightarrow> jstr \<Rightarrow> authorizable \<Rightarrow> jstr option \<Rightarrow> jstr \<Rightarrow> bool" where
  "role_held ds N s tenant u msg contextId raw \<longleftrightarrow>
     (\<exists>b rs as author. denotes ds u raw b \<and> declared_at ds b = Some rs \<and> rs_role rs \<and> ancestry ds b as
        \<and> am_author msg = Some author
        \<and> (as = [] \<or> getRoleContextPrefix (length as) contextId \<noteq> None)
        \<and> hasMatchingRoleRecord N s tenant (fst b) (snd b) author (getRoleContextPrefix (length as) contextId) = Inr True)"

text \<open>The author or the recipient of a record.\<close>

definition is_actor :: "records_env \<Rightarrow> bool \<Rightarrow> jstr \<Rightarrow> message \<Rightarrow> bool" where
  "is_actor R recipient author m \<longleftrightarrow>
     (if recipient then message_recipient m = Some author
      else \<exists>w rw. m = WriteMsg w \<and> parse_write R w = Inr rw \<and> rw_author rw = Some author)"

text \<open>A rule grants a message when it names one of the actions and is met by anyone, by the invoked role, by the
  recipient of the record itself, or by the author or recipient of the record that its \<open>of\<close> denotes in the chain.\<close>

definition rule_grants ::
  "definitions \<Rightarrow> records_env \<Rightarrow> jstr \<Rightarrow> authorizable \<Rightarrow> module_action list \<Rightarrow> message list \<Rightarrow> action_rule \<Rightarrow> bool" where
  "rule_grants ds R u msg seeking chain rule \<longleftrightarrow>
     (\<exists>a \<in> set seeking. action_name a \<in> set (ar_can rule))
   \<and> (ar_who rule = Some (actor_name Anyone)
      \<or> (\<exists>author. am_author msg = Some author \<and> (case am_role msg of
          Some raw \<Rightarrow> \<exists>r b. ar_role rule = Some r \<and> denotes ds u r b \<and> denotes ds u raw b
        | None \<Rightarrow>
            if ar_who rule = Some (actor_name Recipient) \<and> ar_of rule = None
            then is_actor R True author (case msg of AuthWrite rw \<Rightarrow> WriteMsg (rw_message rw) | _ \<Rightarrow> last chain)
            else \<exists>r b m. ar_role rule = None \<and> ar_of rule = Some r \<and> denotes ds u r b
              \<and> find (\<lambda>m. message_address m = Some b) chain = Some m
              \<and> is_actor R (ar_who rule = Some (actor_name Recipient)) author m)))"

text \<open>Every record of the chain is a readable write, and there is one where a rule asks for its recipient.\<close>

definition chain_readable :: "records_env \<Rightarrow> authorizable \<Rightarrow> message list \<Rightarrow> action_rule list \<Rightarrow> bool" where
  "chain_readable R msg chain rules \<longleftrightarrow>
     (\<forall>m \<in> set chain. \<exists>w rw. m = WriteMsg w \<and> parse_write R w = Inr rw)
   \<and> (chain = [] \<longrightarrow> (\<exists>rw. msg = AuthWrite rw) \<or> (\<forall>rule \<in> set rules. ar_who rule = Some (actor_name Recipient) \<longrightarrow> ar_of rule \<noteq> None))"

lemma verifyModuleRoleRecord_held:
  assumes "mr_roleRecordId role = None"
  shows "(\<exists>r. verifyModuleRoleRecord N s tenant recipient role = Inr r) \<longleftrightarrow>
    hasMatchingRoleRecord N s tenant (mr_module role) (mr_modulePath role) recipient (mr_contextIdPrefix role) = Inr True"
proof (cases "query_all N s tenant (constructRoleRecordFilter (mr_module role) (mr_modulePath role) recipient (mr_contextIdPrefix role) True)")
  case (Inr ms)
  with assms show ?thesis
    by (cases ms) (auto simp: verifyModuleRoleRecord_def Let_def queryLatestRoleRecords_def hasMatchingRoleRecord_def bind_eq_Inr)
qed (simp add: verifyModuleRoleRecord_def queryLatestRoleRecords_def hasMatchingRoleRecord_def)

text \<open>In a resolved graph, a role resolves exactly to the role record it denotes.\<close>

lemma role_or_Inr [simp]: "role_or code r = Inr x \<longleftrightarrow> r = Inr x"
  by (auto simp: role_or_def split: sum.splits js_error.splits)

lemma resolveInvokedRole_complete:
  assumes "resolveModuleGraph n E (map_of ds) kr d = Some (Inr g)"
    and "denotes (mg_definitionsByUri g) (md_module d) raw b"
    and "declared_at (mg_definitionsByUri g) b = Some rs" and "rs_role rs"
  shows "\<exists>role. resolveInvokedRole g raw = Inr role \<and> rr_address role = b"
proof -
  note G = resolveModuleGraph_resolver [OF assms(1)]
  from assms(2) obtain a where a: "points (mg_definitionsByUri g) (md_module d) raw a" "resolves (mg_definitionsByUri g) a b"
    by (auto simp: denotes_def)
  have "declared_at (mg_definitionsByUri g) a \<noteq> None" using a(2) by (cases rule: resolves.cases) simp_all
  then obtain node where node: "map_of (rv_nodes (mg_resolver g)) a = Some node"
    using G(4) unfolding complete_def G(5) by blast
  have ns: "node_sound (mg_definitionsByUri g) a node" using resolver_okD(1) [OF G(3) node] by (simp add: G(5))
  have b: "rn_owning node = b" using resolves_unique [OF node_soundD(1) [OF ns] a(2)] .
  have rs: "rn_ruleSet node = rs" using node_soundD(3) [OF ns] assms(3) b by simp
  have "resolveReference (resolveNode 1) (mg_resolver g) (md_module d) raw = Some (Inr (node, mg_resolver g))"
    using a(1) node by (auto simp: resolveReference_def points_def resolve_node_step_def Let_def G(5) split: if_splits)
  then show ?thesis using b rs assms(4) by (auto simp: resolveInvokedRole_def resolveRole_def G(2))
qed

lemma role_reference_held:
  assumes "role_sound ds u raw role"
  shows "role_held ds N s tenant u msg contextId raw \<longleftrightarrow>
    (\<exists>author. am_author msg = Some author
       \<and> (rr_parentPhysicalDepth role = 0 \<or> getRoleContextPrefix (rr_parentPhysicalDepth role) contextId \<noteq> None)
       \<and> hasMatchingRoleRecord N s tenant (fst (rr_address role)) (snd (rr_address role)) author
           (getRoleContextPrefix (rr_parentPhysicalDepth role) contextId) = Inr True)"
proof -
  let ?b = "rr_address role" and ?as = "map as_owning (rr_physicalAncestors role)"
  have r: "denotes ds u raw ?b" "declared_at ds ?b = Some (rr_ruleSet role)" "rs_role (rr_ruleSet role)" "ancestry ds ?b ?as"
    "rr_parentPhysicalDepth role = length ?as"
    using assms by (simp_all add: role_sound_def ancestors_sound_def)
  have u: "b = ?b \<and> as = ?as" if "denotes ds u raw b" "ancestry ds b as" for b as
    using denotes_unique [OF that(1) r(1)] ancestry_unique [OF that(2)] r(4) by simp
  show ?thesis unfolding r(5) length_0_conv
  proof
    assume "role_held ds N s tenant u msg contextId raw"
    then obtain b as author where h: "denotes ds u raw b" "ancestry ds b as" "am_author msg = Some author"
      "as = [] \<or> getRoleContextPrefix (length as) contextId \<noteq> None"
      "hasMatchingRoleRecord N s tenant (fst b) (snd b) author (getRoleContextPrefix (length as) contextId) = Inr True"
      unfolding role_held_def by blast
    from u [OF h(1,2)] h(3-5) show "\<exists>author. am_author msg = Some author
        \<and> (?as = [] \<or> getRoleContextPrefix (length ?as) contextId \<noteq> None)
        \<and> hasMatchingRoleRecord N s tenant (fst ?b) (snd ?b) author (getRoleContextPrefix (length ?as) contextId) = Inr True"
      by blast
  next
    assume "\<exists>author. am_author msg = Some author
        \<and> (?as = [] \<or> getRoleContextPrefix (length ?as) contextId \<noteq> None)
        \<and> hasMatchingRoleRecord N s tenant (fst ?b) (snd ?b) author (getRoleContextPrefix (length ?as) contextId) = Inr True"
    with r(1-4) show "role_held ds N s tenant u msg contextId raw" unfolding role_held_def by blast
  qed
qed

lemma verifyInvokedRole_held:
  assumes "resolveModuleGraph n E (map_of ds) kr d = Some (Inr g)"
  shows "(\<exists>role. verifyInvokedRole N s tenant msg contextId g = Inr role) \<longleftrightarrow>
    (case am_role msg of None \<Rightarrow> True | Some raw \<Rightarrow> role_held (mg_definitionsByUri g) N s tenant (md_module d) msg contextId raw)"
proof (cases "am_role msg")
  case None
  then show ?thesis by (simp add: verifyInvokedRole_def am_role_def)
next
  case (Some raw)
  show ?thesis
  proof (cases "\<exists>role. resolveInvokedRole g raw = Inr role")
    case True
    then obtain role where r: "resolveInvokedRole g raw = Inr role" by blast
    let ?p = "getRoleContextPrefix (rr_parentPhysicalDepth role) contextId"
    let ?r = "\<lparr>mr_contextIdPrefix = ?p, mr_module = fst (rr_address role), mr_modulePath = snd (rr_address role), mr_roleRecordId = None\<rparr>"
    have v: "verifyInvokedRole N s tenant msg contextId g =
       (if rr_parentPhysicalDepth role > 0 \<and> ?p = None then Inl (DwnError ''ModuleAuthorizationMissingContextId'' [])
        else case am_author msg of None \<Rightarrow> Inl (OtherError (js ''TypeError''))
          | Some author \<Rightarrow> bind (verifyModuleRoleRecord N s tenant author ?r) (\<lambda>recordId. Inr (Some (?r\<lparr>mr_roleRecordId := recordId\<rparr>))))"
      using Some r unfolding verifyInvokedRole_def Let_def by (simp add: am_role_def role_or_def)
    have "(\<exists>role. verifyInvokedRole N s tenant msg contextId g = Inr role) \<longleftrightarrow> (\<exists>author. am_author msg = Some author \<and> (rr_parentPhysicalDepth role = 0 \<or> ?p \<noteq> None)
         \<and> (\<exists>x. verifyModuleRoleRecord N s tenant author ?r = Inr x))"
      unfolding v by (cases "am_author msg") (auto simp: bind_eq_Inr)
    also have "\<dots> \<longleftrightarrow> role_held (mg_definitionsByUri g) N s tenant (md_module d) msg contextId raw"
      unfolding role_reference_held [OF resolveInvokedRole_sound [OF assms r]] by (subst verifyModuleRoleRecord_held) simp_all
    finally show ?thesis by (simp add: Some)
  next
    case False
    then have "\<not> role_held (mg_definitionsByUri g) N s tenant (md_module d) msg contextId raw"
      using resolveInvokedRole_complete [OF assms] unfolding role_held_def by metis
    moreover have "\<not> (\<exists>role. verifyInvokedRole N s tenant msg contextId g = Inr role)"
      using Some False by (auto simp: verifyInvokedRole_def am_role_def bind_eq_Inr)
    ultimately show ?thesis by (simp add: Some)
  qed
qed

text \<open>The invoked role as the rules see it.\<close>

lemma verifyInvokedRole_address:
  assumes "resolveModuleGraph n E (map_of ds) kr d = Some (Inr g)" and "verifyInvokedRole N s tenant msg contextId g = Inr role"
  shows "case am_role msg of None \<Rightarrow> role = None
     | Some raw \<Rightarrow> \<exists>r. role = Some r \<and> denotes (mg_definitionsByUri g) (md_module d) raw (mr_module r, mr_modulePath r)"
proof (cases "am_role msg")
  case None
  with assms(2) show ?thesis by (simp add: verifyInvokedRole_def am_role_def)
next
  case (Some raw)
  with assms(2) obtain r rr where "resolveInvokedRole g raw = Inr rr" "role = Some r" "mr_module r = fst (rr_address rr)"
    "mr_modulePath r = snd (rr_address rr)"
    by (auto simp: verifyInvokedRole_def am_role_def bind_eq_Inr Let_def split: if_splits option.splits)
  with resolveInvokedRole_sound [OF assms(1), of raw rr] Some show ?thesis by (simp add: role_sound_def)
qed

section \<open>Rules decide\<close>

lemma matching_action:
  "list_ex (\<lambda>allowed. allowed \<in> action_name ` set seeking) can \<longleftrightarrow> (\<exists>a \<in> set seeking. action_name a \<in> set can)"
  by (auto simp: list_ex_iff)

lemma find_in_set: "find P xs = Some x \<Longrightarrow> x \<in> set xs"
  by (induction xs) (auto split: if_splits)

lemma actor_names_distinct [simp]: "actor_name Recipient \<noteq> actor_name Anyone" "actor_name Anyone \<noteq> actor_name Recipient"
  by simp_all

lemma checkActor_granted:
  assumes "action_sound ds node act" and "checkActor R author act chain = Inr x"
  shows "x \<longleftrightarrow> (\<exists>r b m. ar_role (ra_rule act) = None \<and> ar_of (ra_rule act) = Some r
      \<and> denotes ds (fst (rn_declaring node)) r b
      \<and> find (\<lambda>m. message_address m = Some b) chain = Some m
      \<and> is_actor R (ar_who (ra_rule act) = Some (actor_name Recipient)) author m)"
proof (cases "ra_actor act")
  case None
  then have "\<not> (ar_role (ra_rule act) = None \<and> (\<exists>r. ar_of (ra_rule act) = Some r))"
    using assms(1) by (auto simp: action_sound_def split: option.splits)
  with None assms(2) show ?thesis by (auto simp: checkActor_def)
next
  case (Some t)
  then obtain r where r: "ar_role (ra_rule act) = None" "ar_of (ra_rule act) = Some r" "ac_who t = ar_who (ra_rule act)"
    "denotes ds (fst (rn_declaring node)) r (ac_address t)"
    using assms(1) by (auto simp: action_sound_def split: option.splits)
  have u: "denotes ds (fst (rn_declaring node)) r b \<longleftrightarrow> b = ac_address t" for b using denotes_unique [OF r(4)] r(4) by blast
  show ?thesis
  proof (cases "find (\<lambda>m. message_address m = Some (ac_address t)) chain")
    case None
    then show ?thesis using Some r u assms(2) by (simp add: checkActor_def del: split_paired_Ex actor_name.simps)
  next
    case (Some m)
    then show ?thesis using \<open>ra_actor act = Some t\<close> r u assms(2)
      by (auto simp: checkActor_def is_actor_def bind_eq_Inr simp del: split_paired_Ex actor_name.simps split: if_splits message.splits)
  qed
qed

lemma checkActor_readable:
  assumes "\<forall>m \<in> set chain. \<exists>w rw. m = WriteMsg w \<and> parse_write R w = Inr rw"
  shows "\<exists>x. checkActor R author act chain = Inr x"
proof (cases "ra_actor act")
  case (Some t)
  show ?thesis
  proof (cases "find (\<lambda>m. message_address m = Some (ac_address t)) chain")
    case (Some m)
    then obtain w rw where "m = WriteMsg w" "parse_write R w = Inr rw" using assms find_in_set by metis
    then show ?thesis using \<open>ra_actor act = Some t\<close> Some by (simp add: checkActor_def)
  qed (rule exI [of _ False], simp add: checkActor_def Some)
qed (rule exI [of _ False], simp add: checkActor_def)

lemma rule_unmet:
  "\<not> (\<exists>a \<in> set seeking. action_name a \<in> set (ar_can (ra_rule act)))
     \<Longrightarrow> actionRuleAuthorizesMessage R act seeking role msg chain = Inr (rule_grants ds R u msg seeking chain (ra_rule act))"
  by (simp only: actionRuleAuthorizesMessage_def rule_grants_def matching_action Let_def if_True simp_thms)

lemma rule_anyone:
  "\<exists>a \<in> set seeking. action_name a \<in> set (ar_can (ra_rule act)) \<Longrightarrow> ar_who (ra_rule act) = Some (actor_name Anyone)
     \<Longrightarrow> actionRuleAuthorizesMessage R act seeking role msg chain = Inr (rule_grants ds R u msg seeking chain (ra_rule act))"
  by (simp only: actionRuleAuthorizesMessage_def rule_grants_def matching_action Let_def if_True if_False simp_thms)

lemma rule_other:
  assumes "\<exists>a \<in> set seeking. action_name a \<in> set (ar_can (ra_rule act))" and "ar_who (ra_rule act) \<noteq> Some (actor_name Anyone)"
  shows "actionRuleAuthorizesMessage R act seeking role msg chain = (case am_author msg of
        None \<Rightarrow> Inr False
      | Some author \<Rightarrow> (case role of
          Some r \<Rightarrow> Inr (case ra_role act of None \<Rightarrow> False | Some expected \<Rightarrow> rr_address expected = (mr_module r, mr_modulePath r))
        | None \<Rightarrow>
            if ar_who (ra_rule act) = Some (actor_name Recipient) \<and> ar_of (ra_rule act) = None
            then (case msg of
                AuthWrite rw \<Rightarrow> Inr (wd_recipient (w_descriptor (rw_message rw)) = Some author)
              | _ \<Rightarrow> if chain = [] then Inl (OtherError (js ''TypeError''))
                     else Inr (message_recipient (last chain) = Some author))
            else checkActor R author act chain))"
  and "rule_grants ds R u msg seeking chain (ra_rule act) \<longleftrightarrow> (\<exists>author. am_author msg = Some author \<and> (case am_role msg of
          Some raw \<Rightarrow> \<exists>r b. ar_role (ra_rule act) = Some r \<and> denotes ds u r b \<and> denotes ds u raw b
        | None \<Rightarrow>
            if ar_who (ra_rule act) = Some (actor_name Recipient) \<and> ar_of (ra_rule act) = None
            then is_actor R True author (case msg of AuthWrite rw \<Rightarrow> WriteMsg (rw_message rw) | _ \<Rightarrow> last chain)
            else \<exists>r b m. ar_role (ra_rule act) = None \<and> ar_of (ra_rule act) = Some r \<and> denotes ds u r b
              \<and> find (\<lambda>m. message_address m = Some b) chain = Some m
              \<and> is_actor R (ar_who (ra_rule act) = Some (actor_name Recipient)) author m))"
  using assms by (simp_all only: actionRuleAuthorizesMessage_def rule_grants_def matching_action Let_def if_True if_False simp_thms)

lemma rule_role:
  assumes "action_sound ds node act" and "denotes ds (fst (rn_declaring node)) raw b"
  shows "(case ra_role act of None \<Rightarrow> False | Some expected \<Rightarrow> rr_address expected = b)
    \<longleftrightarrow> (\<exists>r b. ar_role (ra_rule act) = Some r \<and> denotes ds (fst (rn_declaring node)) r b \<and> denotes ds (fst (rn_declaring node)) raw b)"
proof (cases "ra_role act")
  case None
  then have "ar_role (ra_rule act) = None" using assms(1) by (auto simp: action_sound_def split: option.splits)
  with None show ?thesis by simp
next
  case (Some expected)
  then obtain q where q: "ar_role (ra_rule act) = Some q" "denotes ds (fst (rn_declaring node)) q (rr_address expected)"
    using assms(1) by (auto simp: action_sound_def role_sound_def split: option.splits)
  have "denotes ds (fst (rn_declaring node)) q c \<longleftrightarrow> c = rr_address expected" for c using denotes_unique [OF q(2)] q(2) by blast
  moreover have "denotes ds (fst (rn_declaring node)) raw c \<longleftrightarrow> c = b" for c using denotes_unique [OF assms(2)] assms(2) by blast
  ultimately show ?thesis using q(1) Some by (auto simp del: split_paired_Ex)
qed

lemma rule_decides:
  assumes "action_sound ds node act" and "actionRuleAuthorizesMessage R act seeking role msg chain = Inr x"
    and "case am_role msg of None \<Rightarrow> role = None
      | Some raw \<Rightarrow> \<exists>r. role = Some r \<and> denotes ds (fst (rn_declaring node)) raw (mr_module r, mr_modulePath r)"
  shows "x \<longleftrightarrow> rule_grants ds R (fst (rn_declaring node)) msg seeking chain (ra_rule act)"
proof -
  consider "\<not> (\<exists>a \<in> set seeking. action_name a \<in> set (ar_can (ra_rule act)))"
    | "\<exists>a \<in> set seeking. action_name a \<in> set (ar_can (ra_rule act))" "ar_who (ra_rule act) = Some (actor_name Anyone)"
    | "\<exists>a \<in> set seeking. action_name a \<in> set (ar_can (ra_rule act))" "ar_who (ra_rule act) \<noteq> Some (actor_name Anyone)"
    by blast
  then show ?thesis
  proof cases
    case 1
    with rule_unmet assms(2) show ?thesis by (metis sum.inject(2))
  next
    case 2
    with rule_anyone assms(2) show ?thesis by (metis sum.inject(2))
  next
    case 3
    show ?thesis
    proof (cases "am_author msg")
      case None
      then show ?thesis using assms(2) unfolding rule_other [OF 3] by simp
    next
      case (Some author)
      note A = this
      show ?thesis
      proof (cases "am_role msg")
        case None
        with assms(3) have role: "role = None" by simp
        note E = rule_other [OF 3] A None role option.case
        show ?thesis
        proof (cases "ar_who (ra_rule act) = Some (actor_name Recipient) \<and> ar_of (ra_rule act) = None")
          case True
          with A assms(2) show ?thesis unfolding E
            by (cases msg) (auto simp: is_actor_def message_recipient_def simp del: actor_name.simps split: if_splits)
        next
          case False
          then have "checkActor R author act chain = Inr x" using assms(2) unfolding E by (simp only: if_False)
          from checkActor_granted [OF assms(1) this] False show ?thesis unfolding E
            by (simp only: if_False simp_thms option.inject ex_simps)
        qed
      next
        case (Some raw)
        then obtain r where r: "role = Some r" "denotes ds (fst (rn_declaring node)) raw (mr_module r, mr_modulePath r)"
          using assms(3) by auto
        from rule_role [OF assms(1) r(2)] A Some r(1) assms(2) show ?thesis unfolding rule_other [OF 3] by simp
      qed
    qed
  qed
qed

lemma rule_readable:
  assumes "chain_readable R msg chain rules" and "ra_rule act \<in> set rules"
  shows "\<exists>x. actionRuleAuthorizesMessage R act seeking role msg chain = Inr x"
proof -
  have "\<exists>x. checkActor R author act chain = Inr x" for author
    by (rule checkActor_readable) (use assms(1) in \<open>simp add: chain_readable_def\<close>)
  moreover have "chain \<noteq> [] \<or> (\<exists>rw. msg = AuthWrite rw)" if "ar_who (ra_rule act) = Some (actor_name Recipient)" "ar_of (ra_rule act) = None"
    using that assms unfolding chain_readable_def by blast
  ultimately show ?thesis
    by (cases msg) (auto simp: actionRuleAuthorizesMessage_def Let_def simp del: actor_name.simps split: option.splits)
qed

lemma some_rule_decides:
  assumes "\<forall>act \<in> set acts. actionRuleAuthorizesMessage R act seeking role msg chain = Inr (P (ra_rule act))"
  shows "some_rule_authorizes R acts seeking role msg chain = Inr (\<exists>rule \<in> ra_rule ` set acts. P rule)"
  using assms by (induction acts) simp_all

lemma some_rule_sound:
  "some_rule_authorizes R acts seeking role msg chain = Inr True
     \<Longrightarrow> \<exists>act \<in> set acts. actionRuleAuthorizesMessage R act seeking role msg chain = Inr True"
  by (induction acts) (auto simp: bind_eq_Inr split: if_splits)

lemma getRecordNode_Inr:
  assumes "resolveModuleGraph n E (map_of ds) kr d = Some (Inr g)"
  shows "getRecordNode p g forWrite = Inr node \<longleftrightarrow> map_of (mg_nodesByDeclaredPath g) p = Some node \<and> rs_ref (rn_declaredRuleSet node) = None"
proof (cases "map_of (mg_nodesByDeclaredPath g) p")
  case (Some x)
  note G = resolveModuleGraph_resolver [OF assms]
  have "map_of (rv_nodes (mg_resolver g)) (md_module d, p) = Some x" using Some G(7) by simp
  from resolver_okD(1) [OF G(3) this] have "rn_kind x = RefNode \<longleftrightarrow> rs_ref (rn_declaredRuleSet x) \<noteq> None" by (simp add: node_sound_def)
  with Some show ?thesis by (auto simp: getRecordNode_def)
qed (simp add: getRecordNode_def)

text \<open>The node of a declared path of the root module.\<close>

lemma declared_node:
  assumes "resolveModuleGraph n E (map_of ds) kr d = Some (Inr g)"
  shows "declared_at (mg_definitionsByUri g) (md_module d, p) = Some rs \<longleftrightarrow>
    (\<exists>node. map_of (mg_nodesByDeclaredPath g) p = Some node \<and> rn_declaredRuleSet node = rs)"
    and "map_of (mg_nodesByDeclaredPath g) p = Some node \<Longrightarrow> node_sound (mg_definitionsByUri g) (md_module d, p) node"
    and "map_of (mg_nodesByDeclaredPath g) p = Some node \<Longrightarrow> actions_sound (mg_definitionsByUri g) node"
proof -
  note G = resolveModuleGraph_resolver [OF assms]
  have n: "node_sound (mg_definitionsByUri g) (md_module d, p) node" "actions_sound (mg_definitionsByUri g) node"
    if "map_of (mg_nodesByDeclaredPath g) p = Some node" for node
  proof -
    have m: "map_of (rv_nodes (mg_resolver g)) (md_module d, p) = Some node" using that G(7) by simp
    show "node_sound (mg_definitionsByUri g) (md_module d, p) node" using resolver_okD(1) [OF G(3) m] by (simp add: G(5))
    show "actions_sound (mg_definitionsByUri g) node" by (rule G(6) [OF m])
  qed
  show "declared_at (mg_definitionsByUri g) (md_module d, p) = Some rs \<longleftrightarrow>
    (\<exists>node. map_of (mg_nodesByDeclaredPath g) p = Some node \<and> rn_declaredRuleSet node = rs)"
  proof
    assume d: "declared_at (mg_definitionsByUri g) (md_module d, p) = Some rs"
    then have "map_of (mg_nodesByDeclaredPath g) p \<noteq> None" using G(4,7) unfolding complete_def G(5) by simp
    then obtain node where "map_of (mg_nodesByDeclaredPath g) p = Some node" by blast
    with node_soundD(2) [OF n(1) [OF this]] d show "\<exists>node. map_of (mg_nodesByDeclaredPath g) p = Some node \<and> rn_declaredRuleSet node = rs"
      by simp
  qed (use node_soundD(2) [OF n(1)] in blast)
  show "map_of (mg_nodesByDeclaredPath g) p = Some node \<Longrightarrow> node_sound (mg_definitionsByUri g) (md_module d, p) node"
    and "map_of (mg_nodesByDeclaredPath g) p = Some node \<Longrightarrow> actions_sound (mg_definitionsByUri g) node"
    by (rule n; assumption)+
qed

lemma rules_decide:
  assumes "resolveModuleGraph n E (map_of ds) kr d = Some (Inr g)" and "map_of (mg_nodesByDeclaredPath g) p = Some node"
    and "rs_actions (rn_declaredRuleSet node) = Some rules" and "chain_readable (ne_records N) msg chain rules"
    and "verifyInvokedRole N s tenant msg contextId g = Inr role"
  shows "authorizeAgainstAllowedActions N s tenant msg node chain role = Inr () \<longleftrightarrow>
    (\<exists>seeking. getActionsSeekingARuleMatch N s tenant msg rules = Inr seeking
       \<and> (\<exists>rule \<in> set rules. rule_grants (mg_definitionsByUri g) (ne_records N) (md_module d) msg seeking chain rule))"
proof -
  have decl: "fst (rn_declaring node) = md_module d" using node_soundD(5) [OF declared_node(2) [OF assms(1,2)]] by simp
  have acts: "map ra_rule (rn_actions node) = rules" "\<forall>act \<in> set (rn_actions node). action_sound (mg_definitionsByUri g) node act"
    using declared_node(3) [OF assms(1,2)] assms(3) by (simp_all add: actions_sound_def declared_rules_def)
  have rules: "ra_rule ` set (rn_actions node) = set rules" unfolding acts(1) [symmetric] by simp
  have "some_rule_authorizes (ne_records N) (rn_actions node) seeking role msg chain
      = Inr (\<exists>rule \<in> set rules. rule_grants (mg_definitionsByUri g) (ne_records N) (md_module d) msg seeking chain rule)" for seeking
    unfolding rules [symmetric] decl [symmetric]
  proof (rule some_rule_decides, rule ballI)
    fix act assume act: "act \<in> set (rn_actions node)"
    then have "ra_rule act \<in> set rules" using rules by blast
    then obtain x where x: "actionRuleAuthorizesMessage (ne_records N) act seeking role msg chain = Inr x"
      using rule_readable [OF assms(4)] by blast
    have "action_sound (mg_definitionsByUri g) node act" using acts(2) act by blast
    from rule_decides [OF this x verifyInvokedRole_address [OF assms(1,5), folded decl]] x
    show "actionRuleAuthorizesMessage (ne_records N) act seeking role msg chain
        = Inr (rule_grants (mg_definitionsByUri g) (ne_records N) (fst (rn_declaring node)) msg seeking chain (ra_rule act))" by simp
  qed
  with assms(3) show ?thesis by (auto simp: authorizeAgainstAllowedActions_def bind_eq_Inr)
qed

text \<open>What an authorisation shows, also when a record of the chain cannot be read.\<close>

definition rule_authorised ::
  "definitions \<Rightarrow> node_env \<Rightarrow> node \<Rightarrow> jstr \<Rightarrow> jstr \<Rightarrow> rule_set \<Rightarrow> authorizable \<Rightarrow> jstr option \<Rightarrow> message list \<Rightarrow> bool" where
  "rule_authorised ds N s tenant u rs msg contextId chain \<longleftrightarrow>
     (case am_role msg of None \<Rightarrow> True | Some raw \<Rightarrow> role_held ds N s tenant u msg contextId raw)
   \<and> (\<exists>rules seeking. rs_actions rs = Some rules \<and> getActionsSeekingARuleMatch N s tenant msg rules = Inr seeking
        \<and> (\<exists>rule \<in> set rules. rule_grants ds (ne_records N) u msg seeking chain rule))"

lemma authorize_by_rules_sound:
  assumes "authorize_by_rules n N M s tenant msg u p contextId t forWrite chain = Some (Inr role)"
    and "loadModuleGraph n N M s tenant u (Some t) = Some (Inr g)" and "fetchModuleDefinition N M s tenant u (Some t) = Inr d"
    and "declared_at (mg_definitionsByUri g) (md_module d, p) = Some rs"
  shows "rule_authorised (mg_definitionsByUri g) N s tenant (md_module d) rs msg contextId chain"
proof -
  obtain ds where g: "resolveModuleGraph n (ne_records N) (map_of ds) True d = Some (Inr g)"
    using loadModuleGraph_resolved [OF assms(2)] assms(3) by auto
  from assms(1,2) obtain node where n: "getRecordNode p g forWrite = Inr node"
    and v: "verifyInvokedRole N s tenant msg contextId g = Inr role"
    and a: "authorizeAgainstAllowedActions N s tenant msg node chain role = Inr ()"
    by (auto simp: authorize_by_rules_def bind_eq_Inr)
  have m: "map_of (mg_nodesByDeclaredPath g) p = Some node" using n by (simp add: getRecordNode_Inr [OF g])
  have rs: "rn_declaredRuleSet node = rs" using node_soundD(2) [OF declared_node(2) [OF g m]] assms(4) by simp
  have decl: "fst (rn_declaring node) = md_module d" using node_soundD(5) [OF declared_node(2) [OF g m]] by simp
  from a obtain rules seeking where r: "rs_actions rs = Some rules" "getActionsSeekingARuleMatch N s tenant msg rules = Inr seeking"
    "some_rule_authorizes (ne_records N) (rn_actions node) seeking role msg chain = Inr True"
    by (auto simp: authorizeAgainstAllowedActions_def rs bind_eq_Inr split: option.splits)
  from some_rule_sound [OF r(3)] obtain act where act: "act \<in> set (rn_actions node)"
    "actionRuleAuthorizesMessage (ne_records N) act seeking role msg chain = Inr True" by blast
  have as: "map ra_rule (rn_actions node) = rules" "action_sound (mg_definitionsByUri g) node act"
    using declared_node(3) [OF g m] act(1) r(1) rs by (simp_all add: actions_sound_def declared_rules_def)
  have "rule_grants (mg_definitionsByUri g) (ne_records N) (md_module d) msg seeking chain (ra_rule act)"
    using rule_decides [OF as(2) act(2) verifyInvokedRole_address [OF g v, folded decl]] decl by simp
  moreover have "ra_rule act \<in> set rules" using as(1) act(1) by auto
  moreover have "case am_role msg of None \<Rightarrow> True | Some raw \<Rightarrow> role_held (mg_definitionsByUri g) N s tenant (md_module d) msg contextId raw"
    using verifyInvokedRole_held [OF g, of N s tenant msg contextId] v by blast
  ultimately show ?thesis using r(1,2) unfolding rule_authorised_def by blast
qed

end
