(* ===== verification/Module_Writes.thy ===== *)
theory Module_Writes
  imports Module_Rules Handler_Properties
begin

text \<open>
  What a write that passes the rules of its module looks like, and the handlers of records with the
  module rules in place of their parameters: a new write is accepted only when it fits its path and
  is authorised by the tenant, a grant or a rule.
\<close>

section \<open>Writes that fit their path\<close>

text \<open>The type of the path allows the schema, the data format and the encryption of the write.\<close>

definition type_allows :: "module_definition \<Rightarrow> write_message \<Rightarrow> bool" where
  "type_allows d w \<longleftrightarrow> (\<exists>t. map_of (md_types d) (getTypeName (wd_modulePath (w_descriptor w))) = Some t
     \<and> (mt_schema t = None \<or> mt_schema t = wd_schema (w_descriptor w))
     \<and> (\<forall>fs. mt_dataFormats t = Some fs \<longrightarrow> wd_dataFormat (w_descriptor w) \<in> set fs)
     \<and> (mt_encryptionRequired t \<longleftrightarrow> w_encryption w \<noteq> None))"

text \<open>A root record has no parent.  Otherwise the parent is a stored record at the path above that is not pruned,
  and the context of the record extends the context of the parent.\<close>

definition below_parent :: "definitions \<Rightarrow> node_env \<Rightarrow> node \<Rightarrow> jstr \<Rightarrow> address \<Rightarrow> write_message \<Rightarrow> bool" where
  "below_parent ds N s tenant a w \<longleftrightarrow> (case wd_parentId (w_descriptor w) of
     None \<Rightarrow> ancestry ds a []
   | Some parentId \<Rightarrow> \<exists>as b p. ancestry ds a (as @ [b])
       \<and> fetchParentRecord N s tenant (fst b) parentId = Inr (Some (WriteMsg p))
       \<and> (wd_module (w_descriptor p), wd_modulePath (w_descriptor p)) = b
       \<and> w_contextId w = w_contextId p @ slash # w_recordId w)"

text \<open>A role record has a recipient that no other record gives the role in the same context.\<close>

definition role_unique :: "node_env \<Rightarrow> node \<Rightarrow> jstr \<Rightarrow> write_message \<Rightarrow> bool" where
  "role_unique N s tenant w \<longleftrightarrow> (\<exists>recipient ms. wd_recipient (w_descriptor w) = Some recipient
     \<and> queryLatestRoleRecords N s tenant (wd_module (w_descriptor w)) (wd_modulePath (w_descriptor w)) recipient
         (let c = getParentContextFromOfContextId (Some (w_contextId w)) in if c = Some [] then None else c) = Inr ms
     \<and> (\<forall>m \<in> set ms. message_recordId m = w_recordId w))"

definition within_size :: "rule_set \<Rightarrow> int \<Rightarrow> bool" where
  "within_size rs dataSize \<longleftrightarrow> (case rs_size rs of
     None \<Rightarrow> 0 \<le> dataSize
   | Some z \<Rightarrow> (case sz_min z of None \<Rightarrow> 0 | Some m \<Rightarrow> m) \<le> dataSize \<and> (\<forall>m. sz_max z = Some m \<longrightarrow> dataSize \<le> m))"

definition write_fits :: "definitions \<Rightarrow> node_env \<Rightarrow> node \<Rightarrow> jstr \<Rightarrow> module_definition \<Rightarrow> rule_set \<Rightarrow> records_write \<Rightarrow> bool" where
  "write_fits ds N s tenant d rs rw \<longleftrightarrow> (let w = rw_message rw in
     type_allows d w
   \<and> below_parent ds N s tenant (md_module d, wd_modulePath (w_descriptor w)) w
   \<and> (rs_role rs \<longrightarrow> role_unique N s tenant w)
   \<and> within_size rs (wd_dataSize (w_descriptor w))
   \<and> verifyTagsIfNeeded w rs = Inr ()
   \<and> (rs_immutable rs \<longrightarrow> rw_isInitialWrite (re_cids (ne_records N)) rw = Inr True)
   \<and> (wd_squash (w_descriptor w) = Some True \<longrightarrow> rs_squash rs \<and> rw_isInitialWrite (re_cids (ne_records N)) rw = Inr True))"

lemma verifyType_Inr:
  "(\<exists>t. verifyType w (md_types d) = Inr t) \<longleftrightarrow> type_allows d w"
  "verifyType w (md_types d) = Inr t \<Longrightarrow> map_of (md_types d) (getTypeName (wd_modulePath (w_descriptor w))) = Some t"
proof -
  show "(\<exists>t. verifyType w (md_types d) = Inr t) \<longleftrightarrow> type_allows d w"
  proof (cases "map_of (md_types d) (getTypeName (wd_modulePath (w_descriptor w)))")
    case (Some t)
    then show ?thesis by (cases "mt_dataFormats t") (auto simp: verifyType_def type_allows_def)
  qed (simp add: verifyType_def type_allows_def)
qed (auto simp: verifyType_def split: option.splits if_splits)

lemma fetchParentRecord_write: "fetchParentRecord N s tenant u pid = Inr (Some m) \<Longrightarrow> \<exists>w. m = WriteMsg w"
  by (auto simp: fetchParentRecord_def bind_eq_Inr split: if_splits option.splits message.splits)

lemma verifyModulePathAndContextId_Inr:
  assumes "node_sound ds a node" and "rn_owning node = a"
  shows "verifyModulePathAndContextId N s tenant rw node = Inr () \<longleftrightarrow> below_parent ds N s tenant a (rw_message rw)"
proof -
  let ?as = "map as_owning (rn_physicalAncestors node)" and ?w = "rw_message rw"
  have an: "ancestry ds a ?as" using assms by (simp add: node_sound_def ancestors_sound_def)
  have ep: "rn_expectedParent node = (if ?as = [] then None else Some (last ?as))" using assms(1) by (simp add: node_sound_def last_map)
  show ?thesis
  proof (cases "wd_parentId (w_descriptor ?w)")
    case None
    have "ancestry ds a [] \<longleftrightarrow> ?as = []" using ancestry_unique [OF an, of "[]"] an by auto
    with None ep show ?thesis by (simp add: verifyModulePathAndContextId_def below_parent_def)
  next
    case (Some pid)
    show ?thesis
    proof (cases "rn_physicalAncestors node = []")
      case True
      then have "\<not> ancestry ds a (xs @ [b])" for xs b using ancestry_unique [OF an, of "xs @ [b]"] by auto
      with Some True ep show ?thesis by (simp add: verifyModulePathAndContextId_def below_parent_def)
    next
      case False
      have e: "rn_expectedParent node = Some (last ?as)" using ep False by simp
      have l: "ancestry ds a (xs @ [b]) \<longleftrightarrow> xs = butlast ?as \<and> b = last ?as" for xs b
      proof
        assume "ancestry ds a (xs @ [b])"
        from ancestry_unique [OF an this] show "xs = butlast ?as \<and> b = last ?as" by simp
      next
        assume x: "xs = butlast ?as \<and> b = last ?as"
        then have "xs @ [b] = ?as" using False by (simp only: append_butlast_last_id map_is_Nil_conv not_False_eq_True)
        with an show "ancestry ds a (xs @ [b])" by simp
      qed
      have "verifyModulePathAndContextId N s tenant rw node = Inr () \<longleftrightarrow>
          (\<exists>p. fetchParentRecord N s tenant (fst (last ?as)) pid = Inr (Some (WriteMsg p))
             \<and> (wd_module (w_descriptor p), wd_modulePath (w_descriptor p)) = last ?as \<and> w_contextId ?w = w_contextId p @ slash # w_recordId ?w)"
      proof (cases "fetchParentRecord N s tenant (fst (last ?as)) pid")
        case (Inr found)
        then show ?thesis using fetchParentRecord_write [of N s tenant "fst (last ?as)" pid]
          by (cases found) (auto simp: verifyModulePathAndContextId_def Some e Let_def split: if_splits)
      qed (simp add: verifyModulePathAndContextId_def Some e)
      with Some l show ?thesis unfolding below_parent_def by simp
    qed
  qed
qed

lemma verifyAsRoleRecordIfNeeded_Inr:
  "verifyAsRoleRecordIfNeeded N s tenant w node = Inr () \<longleftrightarrow> (rs_role (rn_ruleSet node) \<longrightarrow> role_unique N s tenant w)"
  by (cases "wd_recipient (w_descriptor w)")
    (auto simp: verifyAsRoleRecordIfNeeded_def role_unique_def Let_def bind_eq_Inr filter_empty_conv)

lemma verifySizeLimit_Inr: "verifySizeLimit w rs = Inr () \<longleftrightarrow> within_size rs (wd_dataSize (w_descriptor w))"
  by (auto simp: verifySizeLimit_def within_size_def Let_def split: option.splits)

lemma verifyImmutability_Inr: "verifyImmutability C rw rs = Inr () \<longleftrightarrow> (rs_immutable rs \<longrightarrow> rw_isInitialWrite C rw = Inr True)"
  by (auto simp: verifyImmutability_def bind_eq_Inr)

lemma verifySquashEligibility_Inr:
  "verifySquashEligibility C rw rs = Inr () \<longleftrightarrow>
     (wd_squash (w_descriptor (rw_message rw)) = Some True \<longrightarrow> rs_squash rs \<and> rw_isInitialWrite C rw = Inr True)"
  by (auto simp: verifySquashEligibility_def bind_eq_Inr)

lemmas validation_exact = verifyAsRoleRecordIfNeeded_Inr verifySizeLimit_Inr verifyImmutability_Inr verifySquashEligibility_Inr

section \<open>Exactness\<close>

lemma record_node:
  assumes "node_sound ds a node" and "rs_ref (rn_declaredRuleSet node) = None"
  shows "rn_owning node = a" and "rn_ruleSet node = rn_declaredRuleSet node"
proof -
  have "resolves ds a a" by (rule resolves.itself [OF node_soundD(2) [OF assms(1)] assms(2)])
  from resolves_unique [OF node_soundD(1) [OF assms(1)] this] show a: "rn_owning node = a" .
  show "rn_ruleSet node = rn_declaredRuleSet node" using node_soundD(2,3) [OF assms(1)] a by simp
qed

lemma governed_write_Inr:
  assumes "resolveModuleGraph n E (map_of ds) kr d = Some (Inr g)"
  shows "governed_write N M s tenant rw g = Inr rs \<longleftrightarrow>
    (\<exists>node t. map_of (mg_nodesByDeclaredPath g) (wd_modulePath (w_descriptor (rw_message rw))) = Some node
       \<and> rn_declaredRuleSet node = rs \<and> rs_ref rs = None
       \<and> verifyType (rw_message rw) (md_types d) = Inr t
       \<and> verifyModulePathEncryptionIfNeeded N M s tenant (rw_message rw) d node t = Inr ()
       \<and> write_fits (mg_definitionsByUri g) N s tenant d rs rw)"
proof -
  note G = resolveModuleGraph_resolver [OF assms]
  let ?p = "wd_modulePath (w_descriptor (rw_message rw))"
  show ?thesis
  proof (cases "map_of (mg_nodesByDeclaredPath g) ?p")
    case None
    then have "getRecordNode ?p g True = Inl (DwnError ''ModuleAuthorizationInvalidType'' [])" by (simp add: getRecordNode_def)
    with None G(1,2) show ?thesis by (simp add: governed_write_def)
  next
    case (Some node)
    show ?thesis
    proof (cases "rs_ref (rn_declaredRuleSet node) = None")
      case True
      note S = declared_node(2) [OF assms Some] and R = record_node [OF declared_node(2) [OF assms Some] True]
      have "getRecordNode ?p g True = Inr node" using Some True by (simp add: getRecordNode_Inr [OF assms])
      then have "governed_write N M s tenant rw g = Inr rs \<longleftrightarrow> rn_declaredRuleSet node = rs
          \<and> (\<exists>t. verifyType (rw_message rw) (md_types d) = Inr t \<and> verifyModulePathEncryptionIfNeeded N M s tenant (rw_message rw) d node t = Inr ())
          \<and> verifyModulePathAndContextId N s tenant rw node = Inr () \<and> verifyAsRoleRecordIfNeeded N s tenant (rw_message rw) node = Inr ()
          \<and> verifySizeLimit (rw_message rw) rs = Inr () \<and> verifyTagsIfNeeded (rw_message rw) rs = Inr ()
          \<and> verifyImmutability (re_cids (ne_records N)) rw rs = Inr () \<and> verifySquashEligibility (re_cids (ne_records N)) rw rs = Inr ()"
        using G(1,2) R(2) by (auto simp: governed_write_def Let_def bind_eq_Inr)
      with Some True R(2) verifyType_Inr(1) [of "rw_message rw" d] show ?thesis
        unfolding verifyModulePathAndContextId_Inr [OF S R(1)] validation_exact by (auto simp: write_fits_def Let_def)
    next
      case False
      then have "\<not> (getRecordNode ?p g True = Inr x)" for x using Some by (auto simp: getRecordNode_Inr [OF assms])
      with Some False G(1,2) show ?thesis by (auto simp: governed_write_def Let_def bind_eq_Inr)
    qed
  qed
qed

section \<open>The handlers with module rules\<close>

text \<open>Running out of fuel is an error of its own.\<close>

definition settle :: "'a result option \<Rightarrow> 'a result" where
  "settle r = (case r of None \<Rightarrow> Inl (OtherError (js ''RangeError'')) | Some x \<Rightarrow> x)"

lemma settle_Inr [simp]: "settle r = Inr x \<longleftrightarrow> r = Some (Inr x)"
  by (auto simp: settle_def split: option.splits)

definition with_modules :: "nat \<Rightarrow> module_env \<Rightarrow> handler_env \<Rightarrow> handler_env" where
  "with_modules n M H = H\<lparr>
     he_referential := \<lambda>tenant s rw. settle (validateReferentialIntegrity n (he_node H) M s tenant rw),
     he_module_write := \<lambda>tenant s rw. settle (ma_authorizeWrite n (he_node H) M s tenant rw),
     he_module_delete := \<lambda>tenant s d rw. settle (ma_authorizeDelete n (he_node H) M s tenant d rw)\<rparr>"

lemma with_modules_simps [simp]:
  "he_node (with_modules n M H) = he_node H"
  "he_referential (with_modules n M H) tenant s rw = settle (validateReferentialIntegrity n (he_node H) M s tenant rw)"
  "he_module_write (with_modules n M H) tenant s rw = settle (ma_authorizeWrite n (he_node H) M s tenant rw)"
  "he_module_delete (with_modules n M H) tenant s d rw = settle (ma_authorizeDelete n (he_node H) M s tenant d rw)"
  by (simp_all add: with_modules_def)

text \<open>A grant of the tenant to the author covers the write.\<close>

definition grant_authorised :: "node_env \<Rightarrow> node \<Rightarrow> jstr \<Rightarrow> records_write \<Rightarrow> bool" where
  "grant_authorised N s tenant rw \<longleftrightarrow> (\<exists>author p i g. rw_author rw = Some author \<and> rw_signaturePayload rw = Some p
     \<and> sp_permissionGrantId p = Some i \<and> fetchGrant N s tenant i = Inr g \<and> rga_authorizeWrite N s (rw_message rw) tenant author g = Inr ())"

lemma authorizeRecordsWrite_cases:
  assumes "authorizeRecordsWrite H tenant s rw = Inr ()" and "\<not> isControlMessage (rw_message rw)"
  obtains "rw_owner rw = Some tenant" | "rw_author rw = Some tenant" | "grant_authorised (he_node H) s tenant rw"
    | "he_module_write H tenant s rw = Inr ()"
  using assms that unfolding grant_authorised_def
  by (auto simp: authorizeRecordsWrite_def Let_def bind_eq_Inr split: if_splits option.splits)

section \<open>Example\<close>

text \<open>A module whose one path anyone may create records at, and a write of a stranger to it.\<close>

definition open_module :: module_definition where
  "open_module = \<lparr>md_module = js ''a:b'', md_published = True, md_uses = None, md_types = [(js ''p'', plain_type)],
     md_structure = [(js ''p'', RuleSet None (Some [\<lparr>ar_who = Some (js ''anyone''), ar_role = None, ar_of = None, ar_can = [js ''create'']\<rparr>])
       False None (Some \<lparr>sz_min = None, sz_max = Some 10\<rparr>) None None True False [])]\<rparr>"

definition open_env :: module_env where
  "open_env = \<lparr>me_core = [(js ''a:b'', open_module)], me_keyId = id,
     me_control_referential = (\<lambda>_ _ _. Inr ()), me_control_stored = (\<lambda>_ _ _. Inr no_rules)\<rparr>"

definition open_write :: write_message where
  "open_write = live_write (day 1) (day 1) None"

definition open_records_write :: records_write where
  "open_records_write = projr (parse_write (ne_records live_node_env) open_write)"

abbreviation host :: jstr where
  "host \<equiv> js ''did:t''"

lemma open_accepted:
  "(case handle_write (with_modules 5 open_env live_env) host empty_node open_write (Some [1]) of
     Inl _ \<Rightarrow> False | Inr (rp, s) \<Rightarrow> rp_code rp = 202)"
  by code_simp

lemma open_validated:
  "(case validateReferentialIntegrity 5 live_node_env open_env empty_node host open_records_write of Some (Inr rs) \<Rightarrow> rs_immutable rs | _ \<Rightarrow> False)"
  by code_simp

lemma open_ruled:
  "(case authorize_by_rules 5 live_node_env open_env empty_node host (AuthWrite open_records_write) (js ''a:b'') (js ''p'') None (day 1) True [] of
     Some (Inr None) \<Rightarrow> True | _ \<Rightarrow> False)"
  by code_simp

section \<open>Properties\<close>

text \<open>C7: Module rules decide as declared.  When the definitions that govern a message at its timestamp resolve,
  the message is authorised at a path exactly when the path is declared as a record of its own (not as a
  reference) with action rules, the author holds the role it invokes, and some declared rule names an action that
  the message performs and is met: by anyone, by the invoked role (both references denote the same role
  record), by the recipient of the record, or by the author or recipient of the ancestor that its \<open>of\<close> denotes.\<close>

theorem module_rules_exact:
  assumes "loadModuleGraph n N M s tenant u (Some t) = Some (Inr g)"
    and "fetchModuleDefinition N M s tenant u (Some t) = Inr d"
    and "\<forall>rs rules. declared_at (mg_definitionsByUri g) (md_module d, p) = Some rs \<longrightarrow> rs_actions rs = Some rules
           \<longrightarrow> chain_readable (ne_records N) msg chain rules"
  shows "all_govern N M s tenant (Some t) d (mg_definitionsByUri g) \<and>
    ((\<exists>role. authorize_by_rules n N M s tenant msg u p contextId t forWrite chain = Some (Inr role)) \<longleftrightarrow>
      (\<exists>rs rules seeking. declared_at (mg_definitionsByUri g) (md_module d, p) = Some rs \<and> rs_ref rs = None \<and> rs_actions rs = Some rules
         \<and> (case am_role msg of None \<Rightarrow> True | Some raw \<Rightarrow> role_held (mg_definitionsByUri g) N s tenant (md_module d) msg contextId raw)
         \<and> getActionsSeekingARuleMatch N s tenant msg rules = Inr seeking
         \<and> (\<exists>rule \<in> set rules. rule_grants (mg_definitionsByUri g) (ne_records N) (md_module d) msg seeking chain rule)))"
proof -
  obtain d' ds where "fetchModuleDefinition N M s tenant u (Some t) = Inr d'"
    and g: "resolveModuleGraph n (ne_records N) (map_of ds) True d' = Some (Inr g)"
    and gov: "all_govern N M s tenant (Some t) d' (mg_definitionsByUri g)" by (rule loadModuleGraph_resolved [OF assms(1)])
  then have d: "d' = d" using assms(2) by simp
  note R = g [unfolded d]
  have "(\<exists>role. authorize_by_rules n N M s tenant msg u p contextId t forWrite chain = Some (Inr role)) \<longleftrightarrow>
     (\<exists>node role. map_of (mg_nodesByDeclaredPath g) p = Some node \<and> rs_ref (rn_declaredRuleSet node) = None
        \<and> verifyInvokedRole N s tenant msg contextId g = Inr role
        \<and> authorizeAgainstAllowedActions N s tenant msg node chain role = Inr ())"
    by (auto simp: authorize_by_rules_def assms(1) bind_eq_Inr getRecordNode_Inr [OF R])
  also have "\<dots> \<longleftrightarrow> (\<exists>node rules. map_of (mg_nodesByDeclaredPath g) p = Some node \<and> rs_ref (rn_declaredRuleSet node) = None
      \<and> rs_actions (rn_declaredRuleSet node) = Some rules
      \<and> (\<exists>role. verifyInvokedRole N s tenant msg contextId g = Inr role)
      \<and> (\<exists>seeking. getActionsSeekingARuleMatch N s tenant msg rules = Inr seeking
         \<and> (\<exists>rule \<in> set rules. rule_grants (mg_definitionsByUri g) (ne_records N) (md_module d) msg seeking chain rule)))"
  proof -
    have "authorizeAgainstAllowedActions N s tenant msg node chain role = Inr () \<longleftrightarrow>
        (\<exists>rules. rs_actions (rn_declaredRuleSet node) = Some rules
          \<and> (\<exists>seeking. getActionsSeekingARuleMatch N s tenant msg rules = Inr seeking
         \<and> (\<exists>rule \<in> set rules. rule_grants (mg_definitionsByUri g) (ne_records N) (md_module d) msg seeking chain rule)))"
      if n: "map_of (mg_nodesByDeclaredPath g) p = Some node" and r: "verifyInvokedRole N s tenant msg contextId g = Inr role" for node role
    proof (cases "rs_actions (rn_declaredRuleSet node)")
      case (Some rules)
      have "chain_readable (ne_records N) msg chain rules"
        using assms(3) node_soundD(2) [OF declared_node(2) [OF R n]] Some by blast
      from rules_decide [OF R n Some this r] show ?thesis by (simp add: Some)
    qed (simp add: authorizeAgainstAllowedActions_def)
    then show ?thesis by blast
  qed
  also have "\<dots> \<longleftrightarrow> (\<exists>rs rules seeking. declared_at (mg_definitionsByUri g) (md_module d, p) = Some rs \<and> rs_ref rs = None \<and> rs_actions rs = Some rules
         \<and> (case am_role msg of None \<Rightarrow> True | Some raw \<Rightarrow> role_held (mg_definitionsByUri g) N s tenant (md_module d) msg contextId raw)
         \<and> getActionsSeekingARuleMatch N s tenant msg rules = Inr seeking
         \<and> (\<exists>rule \<in> set rules. rule_grants (mg_definitionsByUri g) (ne_records N) (md_module d) msg seeking chain rule))"
    unfolding verifyInvokedRole_held [OF R] declared_node(1) [OF R] by blast
  finally show ?thesis using gov d by blast
qed

theorem module_rules_exact_witness:
  "\<exists>g rs rules seeking rule. loadModuleGraph 5 live_node_env open_env empty_node host (js ''a:b'') (Some (day 1)) = Some (Inr g)
     \<and> declared_at (mg_definitionsByUri g) (js ''a:b'', js ''p'') = Some rs \<and> rs_actions rs = Some rules \<and> rule \<in> set rules
     \<and> rule_grants (mg_definitionsByUri g) (ne_records live_node_env) (js ''a:b'') (AuthWrite open_records_write) seeking [] rule"
proof -
  let ?m = "AuthWrite open_records_write" and ?d = "Some (day 1)"
  have a: "\<exists>role. authorize_by_rules 5 live_node_env open_env empty_node host ?m (js ''a:b'') (js ''p'') None (day 1) True [] = Some (Inr role)"
    using open_ruled by (auto split: option.splits sum.splits)
  then obtain g where g: "loadModuleGraph 5 live_node_env open_env empty_node host (js ''a:b'') ?d = Some (Inr g)"
    unfolding authorize_by_rules_def fbind_eq_Inr by blast
  have d: "fetchModuleDefinition live_node_env open_env empty_node host (js ''a:b'') ?d = Inr open_module"
    by (simp add: fetchModuleDefinition_def open_env_def)
  have "chain_readable (ne_records live_node_env) ?m [] rules" for rules by (simp add: chain_readable_def)
  then have r: "\<forall>rs rules. declared_at (mg_definitionsByUri g) (md_module open_module, js ''p'') = Some rs \<longrightarrow> rs_actions rs = Some rules
     \<longrightarrow> chain_readable (ne_records live_node_env) ?m [] rules" by blast
  have u: "md_module open_module = js ''a:b''" by (simp add: open_module_def)
  from conjunct2 [OF module_rules_exact [OF g d r, of None True]] a g show ?thesis unfolding u by blast
qed

text \<open>C9: Module rules admit exactly the writes that fit their path.  For a path outside the encryption control
  records whose type is not encrypted, a write passes under the governing definitions exactly when its path is
  declared as a record of its own and the write has the schema and a data format of the type, no
  encryption, the parent that the path and its references require with the context it implies, a size within the
  bounds, tags that conform, for a role record a recipient without the role in that context, no update of an
  immutable record and no squash except as the initial write of a squashable path; the result is the rule set of the path.\<close>

theorem module_write_exact:
  assumes "loadModuleGraph n N M s tenant (wd_module (w_descriptor (rw_message rw))) (Some (wd_messageTimestamp (w_descriptor (rw_message rw)))) = Some (Inr g)"
    and "fetchModuleDefinition N M s tenant (wd_module (w_descriptor (rw_message rw))) (Some (wd_messageTimestamp (w_descriptor (rw_message rw)))) = Inr d"
    and "\<not> isEncryptionControlPath (Some (wd_modulePath (w_descriptor (rw_message rw))))"
    and "\<forall>t. map_of (md_types d) (getTypeName (wd_modulePath (w_descriptor (rw_message rw)))) = Some t \<longrightarrow> \<not> mt_encryptionRequired t"
  shows "validateReferentialIntegrity n N M s tenant rw = Some (Inr rs) \<longleftrightarrow>
     declared_at (mg_definitionsByUri g) (md_module d, wd_modulePath (w_descriptor (rw_message rw))) = Some rs \<and> rs_ref rs = None
     \<and> write_fits (mg_definitionsByUri g) N s tenant d rs rw"
proof -
  obtain ds where g: "resolveModuleGraph n (ne_records N) (map_of ds) True d = Some (Inr g)"
    using loadModuleGraph_resolved [OF assms(1)] assms(2) by auto
  have e: "verifyModulePathEncryptionIfNeeded N M s tenant (rw_message rw) d node t = Inr ()"
    if "verifyType (rw_message rw) (md_types d) = Inr t" for node t
    using verifyType_Inr(2) [OF that] assms(4) by (simp add: verifyModulePathEncryptionIfNeeded_def)
  have t: "\<exists>t. verifyType (rw_message rw) (md_types d) = Inr t" if "write_fits (mg_definitionsByUri g) N s tenant d rs rw"
    using that verifyType_Inr(1) by (simp add: write_fits_def Let_def)
  have "validateReferentialIntegrity n N M s tenant rw = Some (Inr rs) \<longleftrightarrow> governed_write N M s tenant rw g = Inr rs"
    using assms(1,3) by (simp add: validateReferentialIntegrity_def Let_def)
  also have "\<dots> \<longleftrightarrow> declared_at (mg_definitionsByUri g) (md_module d, wd_modulePath (w_descriptor (rw_message rw))) = Some rs \<and> rs_ref rs = None
     \<and> write_fits (mg_definitionsByUri g) N s tenant d rs rw"
    unfolding governed_write_Inr [OF g] declared_node(1) [OF g] using e t by blast
  finally show ?thesis .
qed

theorem module_write_exact_witness:
  "\<exists>g rs. loadModuleGraph 5 live_node_env open_env empty_node host (js ''a:b'') (Some (day 1)) = Some (Inr g)
     \<and> declared_at (mg_definitionsByUri g) (js ''a:b'', js ''p'') = Some rs \<and> rs_immutable rs
     \<and> write_fits (mg_definitionsByUri g) live_node_env empty_node host open_module rs open_records_write"
proof -
  have w: "rw_message open_records_write = open_write" "wd_module (w_descriptor open_write) = js ''a:b''"
    "wd_modulePath (w_descriptor open_write) = js ''p''" "wd_messageTimestamp (w_descriptor open_write) = day 1"
    "\<not> isEncryptionControlPath (Some (js ''p''))"
    by code_simp+
  obtain rs where v: "validateReferentialIntegrity 5 live_node_env open_env empty_node host open_records_write = Some (Inr rs)" "rs_immutable rs"
    using open_validated by (auto split: option.splits sum.splits)
  then obtain g where g: "loadModuleGraph 5 live_node_env open_env empty_node host (js ''a:b'') (Some (day 1)) = Some (Inr g)"
    unfolding validateReferentialIntegrity_def Let_def using w by (auto simp: fbind_eq_Inr simp del: js_simps)
  have d: "fetchModuleDefinition live_node_env open_env empty_node host (js ''a:b'') (Some (day 1)) = Inr open_module"
    by (simp add: fetchModuleDefinition_def open_env_def)
  have t: "\<forall>t. map_of (md_types open_module) (getTypeName (js ''p'')) = Some t \<longrightarrow> \<not> mt_encryptionRequired t"
    by (simp add: open_module_def getTypeName_def plain_type_def)
  have u: "md_module open_module = js ''a:b''" by (simp add: open_module_def)
  from module_write_exact [of 5 live_node_env open_env empty_node host open_records_write, unfolded w(1-4), OF g d w(5) t] v g u show ?thesis
    by (metis (no_types))
qed

text \<open>C2: Every accepted write is authorised.  With the module rules in place, a new write outside the encryption
  control records gets status 202 or 204 only when its path is declared as a record by the definition that governs
  at its timestamp, the write fits the path, and it is authorised: it is owned by the tenant (delegated
  owners included), its author is the tenant, a grant of the tenant to its author covers it, or a declared action rule
  grants it on the chain of its parents (for an update, of the record itself).\<close>

theorem accepted_write_authorised:
  assumes "node_ok (he_node H) s"
    and "handle_write (with_modules n M H) tenant s w stream = Inr (rp, s')" and "rp_code rp \<in> {202, 204}"
    and "row_of (n_messages s tenant) (getCid (he_cids H) (WriteMsg w)) = None" and "\<not> isControlMessage w"
  shows "\<exists>rw g d rs. parse_write (ne_records (he_node H)) w = Inr rw
     \<and> loadModuleGraph n (he_node H) M s tenant (wd_module (w_descriptor w)) (Some (wd_messageTimestamp (w_descriptor w))) = Some (Inr g)
     \<and> fetchModuleDefinition (he_node H) M s tenant (wd_module (w_descriptor w)) (Some (wd_messageTimestamp (w_descriptor w))) = Inr d
     \<and> all_govern (he_node H) M s tenant (Some (wd_messageTimestamp (w_descriptor w))) d (mg_definitionsByUri g)
     \<and> declared_at (mg_definitionsByUri g) (md_module d, wd_modulePath (w_descriptor w)) = Some rs \<and> rs_ref rs = None
     \<and> write_fits (mg_definitionsByUri g) (he_node H) s tenant d rs rw
     \<and> (rw_owner rw = Some tenant \<or> rw_author rw = Some tenant \<or> grant_authorised (he_node H) s tenant rw
        \<or> (\<exists>existing chain. fetchInitialWrite (he_node H) s tenant (w_recordId w) = Inr existing
             \<and> constructRecordChain n (he_node H) s tenant (if existing = None then wd_parentId (w_descriptor w) else Some (w_recordId w)) = Some (Inr chain)
             \<and> rule_authorised (mg_definitionsByUri g) (he_node H) s tenant (md_module d) rs (AuthWrite rw) (Some (w_contextId w)) chain))"
proof -
  let ?N = "he_node H" and ?u = "wd_module (w_descriptor w)" and ?t = "wd_messageTimestamp (w_descriptor w)" and ?p = "wd_modulePath (w_descriptor w)"
  have "node_ok (he_node (with_modules n M H)) s" using assms(1) by simp
  then obtain rw ex initial where rw: "parse_write (ne_records ?N) w = Inr rw" "rw_message rw = w"
    and a: "admit_write (with_modules n M H) tenant s rw ex initial = None"
    by (rule handle_write_new [OF _ assms(2,3)]) (use assms(4) in simp_all)
  from a rw(2) obtain rs where v: "validateReferentialIntegrity n ?N M s tenant rw = Some (Inr rs)"
    and az: "authorizeRecordsWrite (with_modules n M H) tenant s rw = Inr ()"
    unfolding admit_write_def Let_def by (auto simp: bind_eq_Inr split: sum.splits option.splits)
  from v rw(2) assms(5) obtain g where g: "loadModuleGraph n ?N M s tenant ?u (Some ?t) = Some (Inr g)" and gw: "governed_write ?N M s tenant rw g = Inr rs"
    unfolding validateReferentialIntegrity_def Let_def by (auto simp: fbind_eq_Inr isControlMessage_def)
  obtain d ds where d: "fetchModuleDefinition ?N M s tenant ?u (Some ?t) = Inr d"
    and R: "resolveModuleGraph n (ne_records ?N) (map_of ds) True d = Some (Inr g)"
    and gov: "all_govern ?N M s tenant (Some ?t) d (mg_definitionsByUri g)" by (rule loadModuleGraph_resolved [OF g])
  from gw have fits: "declared_at (mg_definitionsByUri g) (md_module d, ?p) = Some rs" "rs_ref rs = None" "write_fits (mg_definitionsByUri g) ?N s tenant d rs rw"
    unfolding governed_write_Inr [OF R] declared_node(1) [OF R] rw(2) by blast+
  have "rw_owner rw = Some tenant \<or> rw_author rw = Some tenant \<or> grant_authorised ?N s tenant rw
        \<or> (\<exists>existing chain. fetchInitialWrite ?N s tenant (w_recordId w) = Inr existing
             \<and> constructRecordChain n ?N s tenant (if existing = None then wd_parentId (w_descriptor w) else Some (w_recordId w)) = Some (Inr chain)
             \<and> rule_authorised (mg_definitionsByUri g) ?N s tenant (md_module d) rs (AuthWrite rw) (Some (w_contextId w)) chain)"
    using az assms(5) [folded rw(2)]
  proof (cases rule: authorizeRecordsWrite_cases)
    case 4
    then have "ma_authorizeWrite n ?N M s tenant rw = Some (Inr ())" by simp
    then obtain existing chain role where c: "fetchInitialWrite ?N s tenant (w_recordId w) = Inr existing"
      "constructRecordChain n ?N s tenant (if existing = None then wd_parentId (w_descriptor w) else Some (w_recordId w)) = Some (Inr chain)"
      "authorize_by_rules n ?N M s tenant (AuthWrite rw) ?u ?p (Some (w_contextId w)) ?t True chain = Some (Inr role)"
      unfolding ma_authorizeWrite_def Let_def rw(2) by (auto simp: fbind_eq_Inr split: sum.splits)
    from authorize_by_rules_sound [OF c(3) g d fits(1)] c(1,2) show ?thesis by blast
  qed (simp_all add: rw(2))
  with rw(1) g d gov fits show ?thesis by blast
qed

theorem accepted_write_authorised_witness:
  "\<exists>rw g. parse_write (ne_records live_node_env) open_write = Inr rw
     \<and> loadModuleGraph 5 live_node_env open_env empty_node host (js ''a:b'') (Some (day 1)) = Some (Inr g)
     \<and> (\<exists>rs. declared_at (mg_definitionsByUri g) (js ''a:b'', js ''p'') = Some rs
          \<and> write_fits (mg_definitionsByUri g) live_node_env empty_node host open_module rs rw)"
proof -
  have w: "wd_module (w_descriptor open_write) = js ''a:b''" "wd_modulePath (w_descriptor open_write) = js ''p''"
    "wd_messageTimestamp (w_descriptor open_write) = day 1" "\<not> isControlMessage open_write"
    by code_simp+
  obtain rp s' where r: "handle_write (with_modules 5 open_env live_env) host empty_node open_write (Some [1]) = Inr (rp, s')" "rp_code rp \<in> {202, 204}"
    using open_accepted by (auto split: sum.splits prod.splits)
  have e: "row_of (n_messages empty_node host) c = None" for c by (simp add: empty_node_def empty_store_def row_of_def)
  have N: "he_node live_env = live_node_env" by (simp add: live_env_def)
  have d: "fetchModuleDefinition live_node_env open_env empty_node host (js ''a:b'') (Some (day 1)) = Inr open_module"
    by (simp add: fetchModuleDefinition_def open_env_def)
  have u: "md_module open_module = js ''a:b''" by (simp add: open_module_def)
  from accepted_write_authorised [OF empty_node_ok r e w(4), unfolded w N d] u show ?thesis by auto
qed

end
