(* ===== verification/Grant_Keys.thy ===== *)
theory Grant_Keys
  imports Module_Authorization
begin

text \<open>
  Which role keys a grant covers (\<open>utils/grant-key-coverage.ts\<close> and \<open>getRuleSetAtPath\<close>, \<open>parseCrossModuleRef\<close> of
  \<open>utils/modules.ts\<close> in \<open>src/packages/dwn-sdk-js/src\<close>): a key is delivered for the module path of a read grant and
  the roles that may read below it, and for the roles below the path of a write grant.

  The own keys of a rule set that start with \<open>$\<close> are its fields, so that a path only walks through children.
\<close>

section \<open>Rule sets at a path\<close>

fun walk_children :: "(jstr \<times> rule_set) list \<Rightarrow> jstr list \<Rightarrow> rule_set option" where
  "walk_children level [] = None"
| "walk_children level (segment # segments) = (case map_of level segment of
     None \<Rightarrow> None
   | Some current \<Rightarrow> if segments = [] then Some current else walk_children (rs_children current) segments)"

definition getRuleSetAtPath :: "jstr \<Rightarrow> (jstr \<times> rule_set) list \<Rightarrow> rule_set option" where
  "getRuleSetAtPath modulePath structure = walk_children structure (split_on slash modulePath)"

abbreviation colon :: nat where "colon \<equiv> 58"

definition parseCrossModuleRef :: "jstr \<Rightarrow> (jstr \<times> jstr) option" where
  "parseCrossModuleRef ref = (case dropWhile (\<lambda>c. c \<noteq> colon) ref of
     [] \<Rightarrow> None | _ # modulePath \<Rightarrow> Some (takeWhile (\<lambda>c. c \<noteq> colon) ref, modulePath))"

section \<open>Eligible scopes\<close>

definition isGrantKeyRecordsScope :: "permission_scope \<Rightarrow> bool" where
  "isGrantKeyRecordsScope sc = (ps_interface sc = Records \<and> ps_method sc \<in> {Read, Write} \<and> ps_module sc \<noteq> None)"

definition isGrantKeyEligibleRecordsScope :: "permission_scope \<Rightarrow> bool" where
  "isGrantKeyEligibleRecordsScope sc = (isGrantKeyRecordsScope sc \<and> ps_contextId sc = None)"

record grant_key_scope =
  gk_module :: jstr
  gk_modulePath :: "jstr option"

section \<open>Role paths\<close>

definition isGrantKeyLocalRolePath :: "module_definition \<Rightarrow> jstr \<Rightarrow> bool" where
  "isGrantKeyLocalRolePath d modulePath = (case getRuleSetAtPath modulePath (md_structure d) of
     None \<Rightarrow> False | Some rs \<Rightarrow> rs_role rs \<and> rs_keyAgreement rs \<noteq> None)"

definition own_read_roles :: "module_definition \<Rightarrow> action_rule list \<Rightarrow> jstr list" where
  "own_read_roles d rules = List.map_filter (\<lambda>rule. case ar_role rule of
     None \<Rightarrow> None
   | Some role \<Rightarrow> if action_name ActRead \<notin> set (ar_can rule) \<or> parseCrossModuleRef role \<noteq> None then None
                  else if isGrantKeyLocalRolePath d role then Some role else None) rules"

primrec collectReadRolePaths :: "rule_set \<Rightarrow> module_definition \<Rightarrow> jstr list" where
  "collectReadRolePaths (RuleSet ka actions role ref sz tg limit im sq children) = (\<lambda>d.
     remdups_first (own_read_roles d (case actions of None \<Rightarrow> [] | Some rules \<Rightarrow> rules)
       @ concat (map (\<lambda>(_, paths). paths d) (map (map_prod id collectReadRolePaths) children))))"

definition getGrantKeyReadRolePathsForScope :: "module_definition \<Rightarrow> jstr \<Rightarrow> jstr list" where
  "getGrantKeyReadRolePathsForScope d scopeModulePath = (case getRuleSetAtPath scopeModulePath (md_structure d) of
     None \<Rightarrow> [] | Some rs \<Rightarrow> collectReadRolePaths rs d)"

primrec collectRolePaths :: "rule_set \<Rightarrow> module_definition \<Rightarrow> jstr list \<Rightarrow> jstr list" where
  "collectRolePaths (RuleSet ka actions role ref sz tg limit im sq children) = (\<lambda>d parentPath.
     concat (map (\<lambda>(key, below). let path = parentPath @ [key]; modulePath = join_with slash path
                  in (if isGrantKeyLocalRolePath d modulePath then [modulePath] else []) @ below d path)
       (map (map_prod id collectRolePaths) children)))"

definition structure_rules :: "module_definition \<Rightarrow> rule_set" where
  "structure_rules d = RuleSet None None False None None None None False False (md_structure d)"

definition getGrantKeyRolePathsCoveredByScope :: "module_definition \<Rightarrow> jstr option \<Rightarrow> jstr list" where
  "getGrantKeyRolePathsCoveredByScope d scopeModulePath =
     filter (\<lambda>rolePath. case scopeModulePath of None \<Rightarrow> True | Some p \<Rightarrow> matchesSubtree p (SStr rolePath))
       (collectRolePaths (structure_rules d) d [])"

section \<open>Coverage\<close>

definition grantKeyReadScopeReferencesRolePath :: "module_definition \<Rightarrow> jstr \<Rightarrow> jstr \<Rightarrow> bool" where
  "grantKeyReadScopeReferencesRolePath d scopeModulePath rolePath =
     (isGrantKeyLocalRolePath d rolePath \<and> rolePath \<in> set (getGrantKeyReadRolePathsForScope d scopeModulePath))"

definition readGrantKeyScopeCoversDeliveredScope :: "permission_scope \<Rightarrow> grant_key_scope \<Rightarrow> module_definition option \<Rightarrow> bool" where
  "readGrantKeyScopeCoversDeliveredScope grantScope deliveredScope moduleDefinition = (case ps_modulePath grantScope of
     None \<Rightarrow> True
   | Some grantModulePath \<Rightarrow> (case gk_modulePath deliveredScope of
       None \<Rightarrow> False
     | Some deliveredModulePath \<Rightarrow>
         matchesSubtree grantModulePath (SStr deliveredModulePath)
         \<or> (case moduleDefinition of None \<Rightarrow> False
            | Some d \<Rightarrow> grantKeyReadScopeReferencesRolePath d grantModulePath deliveredModulePath)))"

definition writeGrantKeyScopeCoversDeliveredScope :: "permission_scope \<Rightarrow> grant_key_scope \<Rightarrow> module_definition option \<Rightarrow> bool" where
  "writeGrantKeyScopeCoversDeliveredScope grantScope deliveredScope moduleDefinition = (case (gk_modulePath deliveredScope, moduleDefinition) of
     (Some deliveredModulePath, Some d) \<Rightarrow>
       isGrantKeyLocalRolePath d deliveredModulePath
       \<and> (case ps_modulePath grantScope of None \<Rightarrow> True | Some p \<Rightarrow> matchesSubtree p (SStr deliveredModulePath))
   | _ \<Rightarrow> False)"

definition grantKeyScopeCoversDeliveredScope :: "permission_scope \<Rightarrow> grant_key_scope \<Rightarrow> module_definition option \<Rightarrow> bool" where
  "grantKeyScopeCoversDeliveredScope grantScope deliveredScope moduleDefinition =
     (ps_module grantScope = Some (gk_module deliveredScope)
      \<and> (if ps_method grantScope = Read then readGrantKeyScopeCoversDeliveredScope grantScope deliveredScope moduleDefinition
         else writeGrantKeyScopeCoversDeliveredScope grantScope deliveredScope moduleDefinition))"

section \<open>Delivery\<close>

definition getReadGrantKeyDeliveryScopes :: "jstr \<Rightarrow> permission_scope \<Rightarrow> module_definition option \<Rightarrow> grant_key_scope list" where
  "getReadGrantKeyDeliveryScopes moduleUri grantScope moduleDefinition = (case ps_modulePath grantScope of
     None \<Rightarrow> [\<lparr>gk_module = moduleUri, gk_modulePath = None\<rparr>]
   | Some p \<Rightarrow> \<lparr>gk_module = moduleUri, gk_modulePath = Some p\<rparr> # (case moduleDefinition of
       None \<Rightarrow> []
     | Some d \<Rightarrow> map (\<lambda>rolePath. \<lparr>gk_module = moduleUri, gk_modulePath = Some rolePath\<rparr>) (getGrantKeyReadRolePathsForScope d p)))"

definition getWriteGrantKeyDeliveryScopes :: "jstr \<Rightarrow> permission_scope \<Rightarrow> module_definition option \<Rightarrow> grant_key_scope list result" where
  "getWriteGrantKeyDeliveryScopes moduleUri grantScope moduleDefinition = (case moduleDefinition of
     None \<Rightarrow> Inl (OtherError (js ''getGrantKeyDeliveryScopes: write grants require a module definition.''))
   | Some d \<Rightarrow> Inr (map (\<lambda>rolePath. \<lparr>gk_module = moduleUri, gk_modulePath = Some rolePath\<rparr>)
       (getGrantKeyRolePathsCoveredByScope d (ps_modulePath grantScope))))"

text \<open>The map of \<open>uniqueGrantKeyScopes\<close> keeps a scope at its first place.\<close>

definition getGrantKeyDeliveryScopes :: "permission_scope \<Rightarrow> module_definition option \<Rightarrow> grant_key_scope list result" where
  "getGrantKeyDeliveryScopes grantScope moduleDefinition = (case ps_module grantScope of
     None \<Rightarrow> Inl (OtherError (js ''TypeError''))
   | Some moduleUri \<Rightarrow> bind (if ps_method grantScope = Read then Inr (getReadGrantKeyDeliveryScopes moduleUri grantScope moduleDefinition)
                            else getWriteGrantKeyDeliveryScopes moduleUri grantScope moduleDefinition)
                       (\<lambda>scopes. Inr (remdups_first scopes)))"

section \<open>Paths of a definition\<close>

lemma set_remdups_first [simp]: "set (remdups_first xs) = set xs"
  by (simp add: remdups_first_def)

text \<open>Names without slashes: a path walks through them one by one.\<close>

inductive path_below :: "(jstr \<times> rule_set) list \<Rightarrow> jstr list \<Rightarrow> rule_set \<Rightarrow> bool" where
  here: "map_of level key = Some rs \<Longrightarrow> path_below level [key] rs"
| deeper: "map_of level key = Some rs \<Longrightarrow> path_below (rs_children rs) path below \<Longrightarrow> path_below level (key # path) below"

inductive_cases path_below_Nil [elim!]: "path_below level [] rs"

lemma path_below_walk: "walk_children level path = Some rs \<longleftrightarrow> path_below level path rs"
proof (induction level path rule: walk_children.induct)
  case (2 level segment segments)
  show ?case
  proof (cases "map_of level segment")
    case None
    then show ?thesis by (auto elim: path_below.cases)
  next
    case (Some current)
    show ?thesis
    proof (cases "segments = []")
      case True
      then show ?thesis using Some by (auto intro: path_below.here elim: path_below.cases)
    next
      case False
      then show ?thesis using Some 2 by (auto intro: path_below.deeper elim: path_below.cases)
    qed
  qed
qed (auto elim: path_below.cases)

text \<open>
  What the coverage promises, said of the definition itself: a role with a key at a path, the rule sets at or below one,
  and the roles that a rule at or below a path lets read.
\<close>

definition keyed_role :: "module_definition \<Rightarrow> jstr \<Rightarrow> bool" where
  "keyed_role d p \<longleftrightarrow> (\<exists>rs. path_below (md_structure d) (split_on slash p) rs \<and> rs_role rs \<and> rs_keyAgreement rs \<noteq> None)"

inductive inside :: "rule_set \<Rightarrow> rule_set \<Rightarrow> bool" where
  self: "inside rs rs"
| child: "(key, c) \<in> set (rs_children rs) \<Longrightarrow> inside c x \<Longrightarrow> inside rs x"

definition lets_read :: "rule_set \<Rightarrow> jstr \<Rightarrow> bool" where
  "lets_read rs role \<longleftrightarrow> (\<exists>rules rule. rs_actions rs = Some rules \<and> rule \<in> set rules
     \<and> js ''read'' \<in> set (ar_can rule) \<and> ar_role rule = Some role)"

definition reader_below :: "module_definition \<Rightarrow> jstr \<Rightarrow> jstr \<Rightarrow> bool" where
  "reader_below d p role \<longleftrightarrow> keyed_role d role \<and> colon \<notin> set role
     \<and> (\<exists>top rs. path_below (md_structure d) (split_on slash p) top \<and> inside top rs \<and> lets_read rs role)"

definition at_or_below :: "jstr \<Rightarrow> jstr \<Rightarrow> bool" where
  "at_or_below p q \<longleftrightarrow> q = p \<or> (\<exists>r. q = p @ slash # r)"

lemma at_or_below_subtree: "matchesSubtree p (SStr q) \<longleftrightarrow> at_or_below p q"
  by (auto simp: matchesSubtree_def at_or_below_def prefix_def)

lemma keyed_role_iff: "isGrantKeyLocalRolePath d p \<longleftrightarrow> keyed_role d p"
  by (auto simp: isGrantKeyLocalRolePath_def keyed_role_def getRuleSetAtPath_def path_below_walk [symmetric] split: option.splits)

lemma parseCrossModuleRef_None: "parseCrossModuleRef ref = None \<longleftrightarrow> colon \<notin> set ref"
proof -
  have "dropWhile (\<lambda>c. c \<noteq> colon) ref = [] \<longleftrightarrow> colon \<notin> set ref" by (auto simp: dropWhile_eq_Nil_conv)
  then show ?thesis unfolding parseCrossModuleRef_def
    by (cases "dropWhile (\<lambda>c. c \<noteq> colon) ref") (simp_all only: list.case option.distinct list.distinct simp_thms)
qed

lemma own_read_roles_set:
  "r \<in> set (own_read_roles d rules) \<longleftrightarrow> keyed_role d r \<and> colon \<notin> set r
     \<and> (\<exists>rule \<in> set rules. js ''read'' \<in> set (ar_can rule) \<and> ar_role rule = Some r)"
proof (induction rules)
  case (Cons rule rules)
  then show ?case
    by (cases "ar_role rule")
      (auto simp: own_read_roles_def map_filter_simps keyed_role_iff parseCrossModuleRef_None simp del: js_simps)
qed (simp add: own_read_roles_def map_filter_simps)

lemma within_cases: "inside rs x \<longleftrightarrow> x = rs \<or> (\<exists>(key, c) \<in> set (rs_children rs). inside c x)"
  by (subst inside.simps) auto

lemma read_roles_exact:
  "r \<in> set (collectReadRolePaths rs d) \<longleftrightarrow> keyed_role d r \<and> colon \<notin> set r \<and> (\<exists>x. inside rs x \<and> lets_read x r)"
proof (induction rs)
  case (RuleSet ka actions role ref sz tg limit im sq children)
  let ?rs = "RuleSet ka actions role ref sz tg limit im sq children"
  let ?ok = "keyed_role d r \<and> colon \<notin> set r"
  have own: "r \<in> set (own_read_roles d (case actions of None \<Rightarrow> [] | Some rules \<Rightarrow> rules)) \<longleftrightarrow> ?ok \<and> lets_read ?rs r"
    by (auto simp: own_read_roles_set lets_read_def split: option.splits)
  have below: "r \<in> set (collectReadRolePaths c d) \<longleftrightarrow> ?ok \<and> (\<exists>x. inside c x \<and> lets_read x r)"
    if "(k, c) \<in> set children" for k c
    using RuleSet.IH [of "(k, c)" c] that by simp
  have "r \<in> set (collectReadRolePaths ?rs d) \<longleftrightarrow>
      r \<in> set (own_read_roles d (case actions of None \<Rightarrow> [] | Some rules \<Rightarrow> rules))
      \<or> (\<exists>(k, c) \<in> set children. r \<in> set (collectReadRolePaths c d))"
    by (simp add: case_prod_beta)
  also have "\<dots> \<longleftrightarrow> ?ok \<and> (lets_read ?rs r \<or> (\<exists>(k, c) \<in> set children. \<exists>x. inside c x \<and> lets_read x r))"
    unfolding own using below by blast
  also have "(lets_read ?rs r \<or> (\<exists>(k, c) \<in> set children. \<exists>x. inside c x \<and> lets_read x r))
      \<longleftrightarrow> (\<exists>x. inside ?rs x \<and> lets_read x r)"
    unfolding within_cases [of ?rs] by auto
  finally show ?case by blast
qed

lemma scope_read_roles: "r \<in> set (getGrantKeyReadRolePathsForScope d p) \<longleftrightarrow> reader_below d p r"
  by (cases "walk_children (md_structure d) (split_on slash p)")
    (auto simp: getGrantKeyReadRolePathsForScope_def getRuleSetAtPath_def reader_below_def read_roles_exact path_below_walk [symmetric])

lemma role_paths_local: "p \<in> set (collectRolePaths rs d path) \<Longrightarrow> isGrantKeyLocalRolePath d p"
proof (induction rs arbitrary: path)
  case (RuleSet ka actions role ref sz tg limit im sq children)
  from RuleSet.prems consider "isGrantKeyLocalRolePath d p"
    | k c where "(k, c) \<in> set children" "p \<in> set (collectRolePaths c d (path @ [k]))"
    by (auto simp: Let_def split: if_splits)
  then show ?case
  proof cases
    case 2
    then show ?thesis using RuleSet.IH [of "(k, c)" c] by simp
  qed blast
qed

lemma collectRolePaths_set:
  "set (collectRolePaths rs d path) = (\<Union>(k, c) \<in> set (rs_children rs).
     (if isGrantKeyLocalRolePath d (join_with slash (path @ [k])) then {join_with slash (path @ [k])} else {})
     \<union> set (collectRolePaths c d (path @ [k])))"
  by (cases rs) (auto simp: Let_def split: if_splits)

lemma role_paths_complete:
  assumes "path_below level segments below"
  shows "level = rs_children rs \<Longrightarrow> isGrantKeyLocalRolePath d (join_with slash (path @ segments))
    \<Longrightarrow> join_with slash (path @ segments) \<in> set (collectRolePaths rs d path)"
  using assms
proof (induction arbitrary: rs path rule: path_below.induct)
  case (here level key c)
  then have "(key, c) \<in> set (rs_children rs)" by (simp add: map_of_SomeD)
  with here.prems(2) show ?case unfolding collectRolePaths_set [of rs] by force
next
  case (deeper level key c segments below)
  have "join_with slash ((path @ [key]) @ segments) \<in> set (collectRolePaths c d (path @ [key]))"
    using deeper.IH [OF refl, of "path @ [key]"] deeper.prems by simp
  moreover have "(key, c) \<in> set (rs_children rs)" using deeper.hyps(1) deeper.prems(1) by (simp add: map_of_SomeD)
  ultimately show ?case unfolding collectRolePaths_set [of rs] by force
qed

lemma role_paths_exact: "p \<in> set (collectRolePaths (structure_rules d) d []) \<longleftrightarrow> isGrantKeyLocalRolePath d p"
proof
  assume local: "isGrantKeyLocalRolePath d p"
  then obtain rs where "path_below (md_structure d) (split_on slash p) rs"
    by (auto simp: isGrantKeyLocalRolePath_def getRuleSetAtPath_def path_below_walk split: option.splits)
  from role_paths_complete [OF this, of "structure_rules d" d "[]"] local show "p \<in> set (collectRolePaths (structure_rules d) d [])"
    by (simp add: structure_rules_def)
qed (rule role_paths_local)

section \<open>Example\<close>

text \<open>A module of threads whose participants may read its messages.\<close>

definition rooms_module :: module_definition where
  "rooms_module = \<lparr>md_module = js ''a:b'', md_published = True, md_uses = None, md_types = [],
     md_structure = [(js ''t'', RuleSet None None False None None None None False False
       [(js ''p'', RuleSet (Some (js ''k'')) None True None None None None False False []),
        (js ''m'', RuleSet None (Some [\<lparr>ar_who = None, ar_role = Some (js ''t/p''), ar_of = None, ar_can = [js ''read'']\<rparr>])
           False None None None None False False [])])]\<rparr>"

definition messages_scope :: "dwn_method \<Rightarrow> permission_scope" where
  "messages_scope method = \<lparr>ps_interface = Records, ps_method = method, ps_module = Some (js ''a:b''), ps_contextId = None,
     ps_modulePath = Some (if method = Read then js ''t/m'' else js ''t'')\<rparr>"

section \<open>Properties\<close>

text \<open>C21: Keys are delivered exactly for what a grant covers.  With the governing definition at hand, a grant to write gets the
  keys of the roles that have a key agreement and lie at or below its path, all of them and no other, and covers just these.
  A grant to read without a path gets the key of the module and covers everything in it; with a path, it gets
  the key of that path and of each local keyed role that some rule at or below the path lets read, and it covers these roles
  and everything at or below the path.  Nothing of another module is delivered or covered.\<close>

theorem grant_keys_exact:
  assumes "isGrantKeyEligibleRecordsScope sc"
  shows "\<exists>u scopes. ps_module sc = Some u \<and> getGrantKeyDeliveryScopes sc (Some d) = Inr scopes
    \<and> set scopes = {\<lparr>gk_module = u, gk_modulePath = path\<rparr> | path.
        if ps_method sc = Write
        then \<exists>role. path = Some role \<and> keyed_role d role \<and> (\<forall>p. ps_modulePath sc = Some p \<longrightarrow> at_or_below p role)
        else case ps_modulePath sc of None \<Rightarrow> path = None
             | Some p \<Rightarrow> path = Some p \<or> (\<exists>role. path = Some role \<and> reader_below d p role)}
    \<and> (\<forall>target. grantKeyScopeCoversDeliveredScope sc target (Some d) \<longleftrightarrow> gk_module target = u
        \<and> (if ps_method sc = Write then target \<in> set scopes
           else case ps_modulePath sc of None \<Rightarrow> True
                | Some p \<Rightarrow> \<exists>q. gk_modulePath target = Some q \<and> (at_or_below p q \<or> reader_below d p q)))"
proof -
  obtain u where u: "ps_module sc = Some u" and m: "ps_method sc = Read \<or> ps_method sc = Write"
    using assms by (auto simp: isGrantKeyEligibleRecordsScope_def isGrantKeyRecordsScope_def)
  show ?thesis
  proof (cases "ps_method sc = Write")
    case True
    let ?scopes = "remdups_first (map (\<lambda>r. \<lparr>gk_module = u, gk_modulePath = Some r\<rparr>) (getGrantKeyRolePathsCoveredByScope d (ps_modulePath sc)))"
    have r: "r \<in> set (getGrantKeyRolePathsCoveredByScope d (ps_modulePath sc))
        \<longleftrightarrow> keyed_role d r \<and> (\<forall>p. ps_modulePath sc = Some p \<longrightarrow> at_or_below p r)" for r
      by (auto simp: getGrantKeyRolePathsCoveredByScope_def role_paths_exact keyed_role_iff at_or_below_subtree split: option.splits)
    have d: "getGrantKeyDeliveryScopes sc (Some d) = Inr ?scopes"
      using True u by (simp add: getGrantKeyDeliveryScopes_def getWriteGrantKeyDeliveryScopes_def)
    have "grantKeyScopeCoversDeliveredScope sc target (Some d) \<longleftrightarrow> gk_module target = u \<and> target \<in> set ?scopes" for target
      using True u r by (cases target) (auto simp: grantKeyScopeCoversDeliveredScope_def writeGrantKeyScopeCoversDeliveredScope_def
          keyed_role_iff at_or_below_subtree split: option.splits)
    with True u d r show ?thesis by (intro exI [of _ u] exI [of _ ?scopes]) auto
  next
    case False
    let ?scopes = "remdups_first (getReadGrantKeyDeliveryScopes u sc (Some d))"
    have d: "getGrantKeyDeliveryScopes sc (Some d) = Inr ?scopes"
      using False m u by (simp add: getGrantKeyDeliveryScopes_def)
    have "set ?scopes = {\<lparr>gk_module = u, gk_modulePath = path\<rparr> | path. case ps_modulePath sc of None \<Rightarrow> path = None
        | Some p \<Rightarrow> path = Some p \<or> (\<exists>role. path = Some role \<and> reader_below d p role)}"
      by (auto simp: getReadGrantKeyDeliveryScopes_def scope_read_roles split: option.splits)
    moreover have "grantKeyScopeCoversDeliveredScope sc target (Some d) \<longleftrightarrow> gk_module target = u
        \<and> (case ps_modulePath sc of None \<Rightarrow> True | Some p \<Rightarrow> \<exists>q. gk_modulePath target = Some q \<and> (at_or_below p q \<or> reader_below d p q))"
      for target using False m u
      by (auto simp: grantKeyScopeCoversDeliveredScope_def readGrantKeyScopeCoversDeliveredScope_def at_or_below_subtree
          grantKeyReadScopeReferencesRolePath_def scope_read_roles keyed_role_iff reader_below_def split: option.splits)
    ultimately show ?thesis using False u d by (intro exI [of _ u] exI [of _ ?scopes]) simp
  qed
qed

theorem grant_keys_exact_witness:
  "keyed_role rooms_module (js ''t/p'') \<and> reader_below rooms_module (js ''t/m'') (js ''t/p'')
   \<and> \<not> keyed_role rooms_module (js ''t/m'')"
proof -
  have e: "isGrantKeyEligibleRecordsScope (messages_scope Write)" "isGrantKeyEligibleRecordsScope (messages_scope Read)" by code_simp+
  have w: "getGrantKeyDeliveryScopes (messages_scope Write) (Some rooms_module) = Inr [\<lparr>gk_module = js ''a:b'', gk_modulePath = Some (js ''t/p'')\<rparr>]"
    by code_simp
  have r: "getGrantKeyDeliveryScopes (messages_scope Read) (Some rooms_module) = Inr [\<lparr>gk_module = js ''a:b'', gk_modulePath = Some (js ''t/m'')\<rparr>,
     \<lparr>gk_module = js ''a:b'', gk_modulePath = Some (js ''t/p'')\<rparr>]"
    by code_simp
  have s: "ps_method (messages_scope Write) = Write" "ps_method (messages_scope Read) \<noteq> Write"
    "ps_modulePath (messages_scope Write) = Some (js ''t'')" "ps_modulePath (messages_scope Read) = Some (js ''t/m'')"
    by (simp_all add: messages_scope_def)
  have below: "at_or_below (js ''t'') (js ''t/m'')" "js ''t/p'' \<noteq> js ''t/m''" by (simp_all add: at_or_below_def)
  have *: "\<lparr>gk_module = u, gk_modulePath = path\<rparr> \<in> {\<lparr>gk_module = u, gk_modulePath = path\<rparr> | path. P path} \<longleftrightarrow> P path" for u path P
    by auto
  from grant_keys_exact [OF e(1), of rooms_module, unfolded w] obtain u where u: "ps_module (messages_scope Write) = Some u"
    "set [\<lparr>gk_module = js ''a:b'', gk_modulePath = Some (js ''t/p'')\<rparr>] = {\<lparr>gk_module = u, gk_modulePath = path\<rparr> | path.
       \<exists>role. path = Some role \<and> keyed_role rooms_module role \<and> at_or_below (js ''t'') role}"
    by (auto simp: s simp del: js_simps)
  have "u = js ''a:b''" using u(1) by (simp add: messages_scope_def)
  with u(2) * [of u _ "\<lambda>path. \<exists>role. path = Some role \<and> keyed_role rooms_module role \<and> at_or_below (js ''t'') role"]
  have A: "Some p = Some (js ''t/p'') \<longleftrightarrow> keyed_role rooms_module p \<and> at_or_below (js ''t'') p" for p
    unfolding u(2) [symmetric] by (simp del: js_simps)
  from grant_keys_exact [OF e(2), of rooms_module, unfolded r] obtain v where v: "ps_module (messages_scope Read) = Some v"
    "set [\<lparr>gk_module = js ''a:b'', gk_modulePath = Some (js ''t/m'')\<rparr>, \<lparr>gk_module = js ''a:b'', gk_modulePath = Some (js ''t/p'')\<rparr>]
       = {\<lparr>gk_module = v, gk_modulePath = path\<rparr> | path. path = Some (js ''t/m'')
            \<or> (\<exists>role. path = Some role \<and> reader_below rooms_module (js ''t/m'') role)}"
    by (auto simp: s simp del: js_simps)
  have "v = js ''a:b''" using v(1) by (simp add: messages_scope_def)
  with v(2) * [of v "Some _" "\<lambda>path. path = Some (js ''t/m'') \<or> (\<exists>role. path = Some role \<and> reader_below rooms_module (js ''t/m'') role)"]
  have B: "p = js ''t/m'' \<or> p = js ''t/p'' \<longleftrightarrow> p = js ''t/m'' \<or> reader_below rooms_module (js ''t/m'') p" for p
    unfolding v(2) [symmetric] by (simp del: js_simps)
  from A [of "js ''t/p''"] A [of "js ''t/m''"] B [of "js ''t/p''"] below show ?thesis by simp
qed

end
