(* ===== verification/Encryption_Control.thy ===== *)
theory Encryption_Control
  imports Grant_Keys Module_Validation Records_Handlers
begin

text \<open>
  The control records of encryption (\<open>core/encryption-control.ts\<close> and \<open>selectOccupantRecordIds\<close> of
  \<open>utils/record-limit-occupancy.ts\<close> in \<open>src/packages/dwn-sdk-js/src\<close>): audience records publish the key of a
  role in a context, delivery records hand it to a role holder.  The file says who may write and read them, what they must
  look like, and which audience record of a role and context is the current one.

  The decoding of an audience payload (JSON and its schema), the Base64URL decoder and the key id of a public key are
  parameters.  A tuple stands for its serialisation as a key.
\<close>

section \<open>Tags\<close>

record audience_key =
  ak_module :: jstr
  ak_rolePath :: jstr
  ak_contextId :: jstr
  ak_keyId :: jstr

type_synonym audience_tuple = "jstr \<times> jstr \<times> jstr"

definition tuple_of :: "audience_key \<Rightarrow> audience_tuple" where
  "tuple_of k = (ak_module k, ak_rolePath k, ak_contextId k)"

record audience_payload =
  ap_key :: audience_key
  ap_publicKeyJwk :: jstr
  ap_sealKeyId :: jstr

record control_env =
  ce_payload :: "bytes \<Rightarrow> audience_payload result"
  ce_decode :: "jstr \<Rightarrow> bytes"

datatype control_type = AudienceRecord | DeliveryRecord

definition getRecordType :: "write_message \<Rightarrow> control_type" where
  "getRecordType w = (if wd_modulePath (w_descriptor w) = ENCRYPTION_CONTROL_DELIVERY_PATH then DeliveryRecord else AudienceRecord)"

definition isAudienceControlMessage :: "write_message \<Rightarrow> bool" where
  "isAudienceControlMessage w = (wd_modulePath (w_descriptor w) = ENCRYPTION_CONTROL_AUDIENCE_PATH)"

definition getRequiredStringTag :: "write_message \<Rightarrow> string \<Rightarrow> control_type \<Rightarrow> jstr result" where
  "getRequiredStringTag w tag recordType =
     (case (case wd_tags (w_descriptor w) of None \<Rightarrow> None | Some ts \<Rightarrow> map_of ts tag) of
        Some (One (SStr v)) \<Rightarrow> Inr v
      | _ \<Rightarrow> Inl (DwnError (case recordType of
          AudienceRecord \<Rightarrow> ''EncryptionControlValidateAudienceMissingRequiredTag''
        | DeliveryRecord \<Rightarrow> ''EncryptionControlValidateDeliveryMissingRequiredTag'') []))"

definition getRoleAudienceKeyId :: "write_message \<Rightarrow> control_type \<Rightarrow> audience_key result" where
  "getRoleAudienceKeyId w recordType =
     bind (getRequiredStringTag w ''module'' recordType) (\<lambda>m.
     bind (getRequiredStringTag w ''rolePath'' recordType) (\<lambda>r.
     bind (getRequiredStringTag w ''contextId'' recordType) (\<lambda>c.
     bind (getRequiredStringTag w ''keyId'' recordType) (\<lambda>k.
     Inr \<lparr>ak_module = m, ak_rolePath = r, ak_contextId = c, ak_keyId = k\<rparr>))))"

definition getDeliveryTags :: "write_message \<Rightarrow> (audience_key \<times> jstr) result" where
  "getDeliveryTags w =
     bind (getRoleAudienceKeyId w DeliveryRecord) (\<lambda>tags.
     bind (getRequiredStringTag w ''recipientAuthority'' DeliveryRecord) (\<lambda>a. Inr (tags, a)))"

section \<open>The role of an audience\<close>

definition verifyRoleAudienceContext :: "nat \<Rightarrow> jstr \<Rightarrow> unit result" where
  "verifyRoleAudienceContext parentPhysicalDepth contextId =
     guard (getRoleAudienceContextId parentPhysicalDepth (Some contextId) = Some contextId)
       (DwnError ''EncryptionControlValidateAudienceContextIdInvalid'' [])"

definition role_audience_node :: "module_graph \<Rightarrow> audience_key \<Rightarrow> resolved_node result" where
  "role_audience_node graph tags =
     (let invalid = Inl (DwnError ''EncryptionControlValidateAudienceRolePathInvalid'' []) in
      case map_of (mg_nodesByDeclaredPath graph) (ak_rolePath tags) of
        None \<Rightarrow> invalid
      | Some node \<Rightarrow>
          if rn_kind node \<noteq> RecordNode \<or> \<not> rs_role (rn_ruleSet node) \<or> rs_keyAgreement (rn_ruleSet node) = None then invalid
          else bind (verifyRoleAudienceContext (rn_parentPhysicalDepth node) (ak_contextId tags)) (\<lambda>_. Inr node))"

definition resolveRoleAudienceDefinition ::
  "nat \<Rightarrow> node_env \<Rightarrow> module_env \<Rightarrow> node \<Rightarrow> jstr \<Rightarrow> audience_key \<Rightarrow> jstr \<Rightarrow> (module_graph \<times> resolved_node) result option" where
  "resolveRoleAudienceDefinition n N M s tenant tags timestamp =
     fbind (loadModuleGraph n N M s tenant (ak_module tags) (Some timestamp)) (\<lambda>graph.
     Some (bind (role_audience_node graph tags) (\<lambda>node. Inr (graph, node))))"

definition verifyRoleAudienceDefinition ::
  "nat \<Rightarrow> node_env \<Rightarrow> module_env \<Rightarrow> node \<Rightarrow> jstr \<Rightarrow> audience_key \<Rightarrow> write_message \<Rightarrow> control_type
    \<Rightarrow> (module_graph \<times> resolved_node) result option" where
  "verifyRoleAudienceDefinition n N M s tenant tags w recordType =
     (if ak_module tags \<noteq> wd_module (w_descriptor w)
      then fail (case recordType of
          AudienceRecord \<Rightarrow> ''EncryptionControlValidateAudienceTagsMismatch''
        | DeliveryRecord \<Rightarrow> ''EncryptionControlValidateDeliveryTagsMismatch'')
      else resolveRoleAudienceDefinition n N M s tenant tags (wd_messageTimestamp (w_descriptor w)))"

section \<open>Who may write\<close>

record control_actor =
  ca_did :: "jstr option"
  ca_grant :: "permission_grant option"

definition verifyGrantConditions :: "write_message \<Rightarrow> permission_grant \<Rightarrow> unit result" where
  "verifyGrantConditions w g = verifyConditions w (pg_publication g)"

definition granted_actor :: "node_env \<Rightarrow> node \<Rightarrow> write_message \<Rightarrow> jstr option \<Rightarrow> jstr \<Rightarrow> permission_grant \<Rightarrow> control_actor result" where
  "granted_actor N s w expectedGrantor expectedGrantee g = (case expectedGrantor of
     None \<Rightarrow> Inl (OtherError (js ''TypeError''))
   | Some grantor \<Rightarrow>
       bind (performBaseValidation N s (WriteMsg w) grantor expectedGrantee g None) (\<lambda>_.
       bind (verifyGrantConditions w g) (\<lambda>_. Inr \<lparr>ca_did = Some expectedGrantee, ca_grant = Some g\<rparr>)))"

definition resolveEffectiveControlActor :: "node_env \<Rightarrow> node \<Rightarrow> jstr \<Rightarrow> records_write \<Rightarrow> control_actor result" where
  "resolveEffectiveControlActor N s tenant rw =
     (let w = rw_message rw; a = w_authorization w in
      if isSignedByAuthorDelegate (WriteMsg w)
      then bind (author_delegate_grant (ne_records N) (a_authorDelegatedGrant a)) (\<lambda>g.
             granted_actor N s w (rw_author rw) (getSignerDid (a_signature a)) g)
      else if isSignedByOwnerDelegate (WriteMsg w)
      then bind (author_delegate_grant (ne_records N) (a_ownerDelegatedGrant a)) (\<lambda>g. case a_ownerSignature a of
             None \<Rightarrow> Inl (OtherError (js ''TypeError''))
           | Some j \<Rightarrow> granted_actor N s w (rw_owner rw) (getSignerDid j) g)
      else if rw_owner rw \<noteq> None then Inr \<lparr>ca_did = rw_owner rw, ca_grant = None\<rparr>
      else case (case rw_signaturePayload rw of None \<Rightarrow> None | Some p \<Rightarrow> sp_permissionGrantId p) of
        None \<Rightarrow> Inr \<lparr>ca_did = rw_author rw, ca_grant = None\<rparr>
      | Some directGrantId \<Rightarrow>
          bind (fetchGrant N s tenant directGrantId) (\<lambda>g. case rw_author rw of
            None \<Rightarrow> Inl (OtherError (js ''TypeError''))
          | Some author \<Rightarrow> granted_actor N s w (Some tenant) author g))"

definition grant_covers_role :: "dwn_method \<Rightarrow> permission_grant \<Rightarrow> audience_key \<Rightarrow> bool" where
  "grant_covers_role method g tags =
     (ps_interface (pg_scope g) = Records \<and> ps_method (pg_scope g) = method
      \<and> scope_matches (grant_module_scope (pg_scope g))
          \<lparr>mo_module = Some (ak_module tags), mo_modulePath = Some (ak_rolePath tags), mo_contextId = None\<rparr>)"

definition grantCoversRoleCreate :: "permission_grant \<Rightarrow> audience_key \<Rightarrow> bool" where
  "grantCoversRoleCreate g tags = grant_covers_role Write g tags"

definition grantCoversAudienceEnumeration :: "permission_grant \<Rightarrow> audience_key \<Rightarrow> bool" where
  "grantCoversAudienceEnumeration g tags = grant_covers_role Read g tags"

definition constructRoleParentChain :: "nat \<Rightarrow> node_env \<Rightarrow> node \<Rightarrow> jstr \<Rightarrow> audience_key \<Rightarrow> message list result option" where
  "constructRoleParentChain n N s tenant tags =
     (let parentRecordId = last (split_on slash (ak_contextId tags)) in
      if ak_contextId tags = [] \<or> parentRecordId = [] then Some (Inr [])
      else constructRecordChain n N s tenant (Some parentRecordId))"

definition hasRoleRecord :: "node_env \<Rightarrow> node \<Rightarrow> jstr \<Rightarrow> jstr \<Rightarrow> role_reference \<Rightarrow> jstr \<Rightarrow> bool result" where
  "hasRoleRecord N s tenant actor role contextId =
     (let contextIdPrefix = getRoleContextPrefix (rr_parentPhysicalDepth role) (Some contextId) in
      if rr_parentPhysicalDepth role > 0 \<and> contextIdPrefix = None then Inr False
      else hasMatchingRoleRecord N s tenant (fst (rr_address role)) (snd (rr_address role)) actor contextIdPrefix)"

definition roleRuleAllowsActor ::
  "node_env \<Rightarrow> node \<Rightarrow> jstr \<Rightarrow> jstr \<Rightarrow> resolved_action \<Rightarrow> jstr \<Rightarrow> module_graph \<Rightarrow> jstr option \<Rightarrow> bool result" where
  "roleRuleAllowsActor N s tenant actor action contextId graph invokedRole = (case (ra_role action, invokedRole) of
     (Some expected, Some raw) \<Rightarrow> (case resolveInvokedRole graph raw of
         Inl (DwnError c p) \<Rightarrow> if c \<in> set invalid_role_codes then Inr False else Inl (DwnError c p)
       | Inl e \<Rightarrow> Inl e
       | Inr invoked \<Rightarrow>
           if rr_address expected \<noteq> rr_address invoked then Inr False
           else hasRoleRecord N s tenant actor invoked contextId)
   | _ \<Rightarrow> Inr False)"

fun some_rule_creates ::
  "node_env \<Rightarrow> node \<Rightarrow> jstr \<Rightarrow> jstr \<Rightarrow> jstr \<Rightarrow> module_graph \<Rightarrow> jstr option \<Rightarrow> message list \<Rightarrow> resolved_action list \<Rightarrow> bool result" where
  "some_rule_creates N s tenant actor contextId graph invokedRole recordChain [] = Inr False"
| "some_rule_creates N s tenant actor contextId graph invokedRole recordChain (action # actions) =
     (if action_name ActCreate \<notin> set (ar_can (ra_rule action))
      then some_rule_creates N s tenant actor contextId graph invokedRole recordChain actions
      else if ar_who (ra_rule action) = Some (actor_name Anyone) then Inr True
      else bind (roleRuleAllowsActor N s tenant actor action contextId graph invokedRole) (\<lambda>byRole.
        if byRole then Inr True
        else bind (checkActor (ne_records N) actor action recordChain) (\<lambda>byActor.
          if byActor then Inr True
          else some_rule_creates N s tenant actor contextId graph invokedRole recordChain actions)))"

definition actorCanCreateRole ::
  "nat \<Rightarrow> node_env \<Rightarrow> node \<Rightarrow> jstr \<Rightarrow> control_actor \<Rightarrow> audience_key \<Rightarrow> module_graph \<Rightarrow> resolved_node \<Rightarrow> jstr option \<Rightarrow> bool result option" where
  "actorCanCreateRole n N s tenant actor tags graph node invokedRole = (case ca_did actor of
     None \<Rightarrow> Some (Inr False)
   | Some did \<Rightarrow>
       if did = tenant then Some (Inr True)
       else if (case ca_grant actor of None \<Rightarrow> False | Some g \<Rightarrow> grantCoversRoleCreate g tags) then Some (Inr True)
       else fbind (constructRoleParentChain n N s tenant tags) (\<lambda>recordChain.
         Some (some_rule_creates N s tenant did (ak_contextId tags) graph invokedRole recordChain (rn_actions node))))"

definition invoked_role :: "jws \<Rightarrow> jstr option result" where
  "invoked_role j = (case jws_payload j of None \<Rightarrow> Inl (OtherError (js ''TypeError'')) | Some p \<Rightarrow> Inr (sp_moduleRole p))"

definition verifyActorCanCreateRole ::
  "nat \<Rightarrow> node_env \<Rightarrow> node \<Rightarrow> jstr \<Rightarrow> control_actor \<Rightarrow> audience_key \<Rightarrow> module_graph \<Rightarrow> resolved_node \<Rightarrow> write_message \<Rightarrow> unit result option" where
  "verifyActorCanCreateRole n N s tenant actor tags graph node w =
     fbind (Some (invoked_role (a_signature (w_authorization w)))) (\<lambda>invokedRole.
     fbind (actorCanCreateRole n N s tenant actor tags graph node invokedRole) (\<lambda>can.
     if can then Some (Inr ()) else fail ''EncryptionControlValidateAudienceWriterUnauthorized''))"

definition control_authorizeWrite :: "nat \<Rightarrow> node_env \<Rightarrow> module_env \<Rightarrow> node \<Rightarrow> jstr \<Rightarrow> records_write \<Rightarrow> unit result option" where
  "control_authorizeWrite n N M s tenant rw =
     (let w = rw_message rw; recordType = getRecordType w in
      fbind (Some (getRoleAudienceKeyId w recordType)) (\<lambda>tags.
      fbind (verifyRoleAudienceDefinition n N M s tenant tags w recordType) (\<lambda>(graph, node).
      fbind (Some (resolveEffectiveControlActor N s tenant rw)) (\<lambda>actor.
      verifyActorCanCreateRole n N s tenant actor tags graph node w))))"

section \<open>Validation of a write\<close>

definition verifyInlineControlRecord :: "write_message \<Rightarrow> unit result" where
  "verifyInlineControlRecord w =
     (let unexpected = Inl (DwnError ''EncryptionControlValidateUnexpectedRecord'' []) in
      if wd_published (w_descriptor w) = Some True then unexpected
      else if wd_dataSize (w_descriptor w) > maxDataSizeAllowedToBeEncoded then unexpected
      else Inr ())"

definition verifyEncryptedDelivery :: "write_message \<Rightarrow> unit result" where
  "verifyEncryptedDelivery w = guard (w_encryption w \<noteq> None) (DwnError ''EncryptionControlValidateUnexpectedRecord'' [])"

definition verify_delivery_audience :: "node_env \<Rightarrow> node \<Rightarrow> jstr \<Rightarrow> audience_key \<Rightarrow> unit result" where
  "verify_delivery_audience N s tenant tags =
     bind (queryAudienceRecords N s tenant (ak_module tags) (ak_rolePath tags) (ak_contextId tags) (Some (ak_keyId tags))) (\<lambda>audiences.
     guard (audiences \<noteq> []) (DwnError ''EncryptionControlValidateDeliveryAudienceMissing'' []))"

definition control_validateReferentialIntegrity ::
  "nat \<Rightarrow> node_env \<Rightarrow> module_env \<Rightarrow> node \<Rightarrow> jstr \<Rightarrow> records_write \<Rightarrow> unit result option" where
  "control_validateReferentialIntegrity n N M s tenant rw =
     (let w = rw_message rw in
      fbind (Some (bind (rw_isInitialWrite (re_cids (ne_records N)) rw) (\<lambda>initial.
               guard initial (DwnError ''EncryptionControlValidateUnexpectedRecord'' [])))) (\<lambda>_.
      fbind (Some (verifyInlineControlRecord w)) (\<lambda>_.
      case getRecordType w of
        AudienceRecord \<Rightarrow>
          fbind (Some (getRoleAudienceKeyId w AudienceRecord)) (\<lambda>tags.
          fbind (verifyRoleAudienceDefinition n N M s tenant tags w AudienceRecord) (\<lambda>_. Some (Inr ())))
      | DeliveryRecord \<Rightarrow>
          fbind (Some (getDeliveryTags w)) (\<lambda>(tags, _).
          fbind (verifyRoleAudienceDefinition n N M s tenant tags w DeliveryRecord) (\<lambda>_.
          Some (verify_delivery_audience N s tenant tags))))))"

definition preProcessAudience :: "nat \<Rightarrow> node_env \<Rightarrow> module_env \<Rightarrow> node \<Rightarrow> jstr \<Rightarrow> write_message \<Rightarrow> unit result option" where
  "preProcessAudience n N M s tenant w =
     (if w_encryption w \<noteq> None then fail ''EncryptionControlValidateUnexpectedRecord''
      else fbind (Some (getRoleAudienceKeyId w AudienceRecord)) (\<lambda>tags.
           fbind (verifyRoleAudienceDefinition n N M s tenant tags w AudienceRecord) (\<lambda>_. Some (Inr ()))))"

definition deliveryRecipientIsRoleHolder ::
  "nat \<Rightarrow> node_env \<Rightarrow> module_env \<Rightarrow> node \<Rightarrow> jstr \<Rightarrow> write_message \<Rightarrow> audience_key \<Rightarrow> bool result option" where
  "deliveryRecipientIsRoleHolder n N M s tenant w tags =
     fbind (loadModuleGraph n N M s tenant (ak_module tags) (Some (wd_messageTimestamp (w_descriptor w)))) (\<lambda>graph.
     Some (bind (resolveInvokedRole graph (ak_rolePath tags)) (\<lambda>role. case wd_recipient (w_descriptor w) of
       None \<Rightarrow> Inl (OtherError (js ''TypeError''))
     | Some recipient \<Rightarrow> hasRoleRecord N s tenant recipient role (ak_contextId tags))))"

definition verifyDeliveryRecipientAuthority ::
  "nat \<Rightarrow> node_env \<Rightarrow> module_env \<Rightarrow> node \<Rightarrow> jstr \<Rightarrow> write_message \<Rightarrow> audience_key \<Rightarrow> jstr \<Rightarrow> unit result option" where
  "verifyDeliveryRecipientAuthority n N M s tenant w tags recipientAuthority =
     (if recipientAuthority \<noteq> js ''roleHolder'' then fail ''EncryptionControlValidateDeliveryRecipientAuthorityInvalid''
      else fbind (deliveryRecipientIsRoleHolder n N M s tenant w tags) (\<lambda>holder.
        if holder then Some (Inr ()) else fail ''EncryptionControlValidateDeliveryRecipientRoleRecordMissing''))"

definition preProcessDelivery :: "nat \<Rightarrow> node_env \<Rightarrow> module_env \<Rightarrow> node \<Rightarrow> jstr \<Rightarrow> write_message \<Rightarrow> unit result option" where
  "preProcessDelivery n N M s tenant w =
     fbind (Some (verifyEncryptedDelivery w)) (\<lambda>_.
     if wd_recipient (w_descriptor w) = None then fail ''EncryptionControlValidateDeliveryRecipientMissing''
     else fbind (Some (getDeliveryTags w)) (\<lambda>(tags, recipientAuthority).
          fbind (verifyRoleAudienceDefinition n N M s tenant tags w DeliveryRecord) (\<lambda>_.
          fbind (Some (verify_delivery_audience N s tenant tags)) (\<lambda>_.
          verifyDeliveryRecipientAuthority n N M s tenant w tags recipientAuthority))))"

definition control_preProcessWrite :: "nat \<Rightarrow> node_env \<Rightarrow> module_env \<Rightarrow> node \<Rightarrow> jstr \<Rightarrow> write_message \<Rightarrow> unit result option" where
  "control_preProcessWrite n N M s tenant w =
     fbind (Some (verifyInlineControlRecord w)) (\<lambda>_.
     if wd_modulePath (w_descriptor w) = ENCRYPTION_CONTROL_AUDIENCE_PATH then preProcessAudience n N M s tenant w
     else if wd_modulePath (w_descriptor w) = ENCRYPTION_CONTROL_DELIVERY_PATH then preProcessDelivery n N M s tenant w
     else fail ''EncryptionControlValidateUnexpectedRecord'')"

section \<open>Audience payloads\<close>

definition verifyAudiencePayloadMatchesTags :: "audience_key \<Rightarrow> audience_key \<Rightarrow> unit result" where
  "verifyAudiencePayloadMatchesTags payload tags =
     guard (ak_module payload = ak_module tags \<and> ak_rolePath payload = ak_rolePath tags
          \<and> ak_contextId payload = ak_contextId tags \<and> ak_keyId payload = ak_keyId tags)
       (DwnError ''EncryptionControlValidateAudienceTagsMismatch'' [])"

definition validateAudiencePayload ::
  "module_env \<Rightarrow> control_env \<Rightarrow> write_message \<Rightarrow> bytes \<Rightarrow> (audience_payload \<times> audience_key) result" where
  "validateAudiencePayload M K w dataBytes =
     (if w_encryption w \<noteq> None then Inl (DwnError ''EncryptionControlValidateUnexpectedRecord'' [])
      else bind (ce_payload K dataBytes) (\<lambda>payload.
           bind (getRoleAudienceKeyId w AudienceRecord) (\<lambda>tags.
           bind (verifyAudiencePayloadMatchesTags (ap_key payload) tags) (\<lambda>_.
           if me_keyId M (ap_publicKeyJwk payload) \<noteq> ak_keyId (ap_key payload)
           then Inl (DwnError ''EncryptionControlValidateAudienceKeyIdMismatch'' [])
           else Inr (payload, tags)))))"

definition verifyAudienceSealKey :: "module_env \<Rightarrow> audience_payload \<Rightarrow> rule_set \<Rightarrow> unit result" where
  "verifyAudienceSealKey M payload rs = (case rs_keyAgreement rs of
     None \<Rightarrow> Inl (OtherError (js ''TypeError''))
   | Some publicKeyJwk \<Rightarrow> guard (me_keyId M publicKeyJwk = ap_sealKeyId payload)
       (DwnError ''EncryptionControlValidateAudienceSealKeyIdMismatch'' []))"

definition validateAudience ::
  "nat \<Rightarrow> node_env \<Rightarrow> module_env \<Rightarrow> control_env \<Rightarrow> node \<Rightarrow> jstr \<Rightarrow> write_message \<Rightarrow> bytes \<Rightarrow> unit result option" where
  "validateAudience n N M K s tenant w dataBytes =
     fbind (Some (validateAudiencePayload M K w dataBytes)) (\<lambda>(payload, tags).
     fbind (verifyRoleAudienceDefinition n N M s tenant tags w AudienceRecord) (\<lambda>(_, node).
     Some (verifyAudienceSealKey M payload (rn_ruleSet node))))"

definition control_validateRecord ::
  "nat \<Rightarrow> node_env \<Rightarrow> module_env \<Rightarrow> control_env \<Rightarrow> node \<Rightarrow> jstr \<Rightarrow> write_message \<Rightarrow> bytes \<Rightarrow> unit result option" where
  "control_validateRecord n N M K s tenant w dataBytes =
     (if wd_modulePath (w_descriptor w) = ENCRYPTION_CONTROL_AUDIENCE_PATH then validateAudience n N M K s tenant w dataBytes
      else if wd_modulePath (w_descriptor w) = ENCRYPTION_CONTROL_DELIVERY_PATH then Some (verifyEncryptedDelivery w)
      else fail ''EncryptionControlValidateUnexpectedRecord'')"

text \<open>The record under the definition of its timestamp, and whether the newest definition still has the role.\<close>

definition newest_role :: "nat \<Rightarrow> node_env \<Rightarrow> module_env \<Rightarrow> node \<Rightarrow> jstr \<Rightarrow> audience_key \<Rightarrow> unit result option" where
  "newest_role n N M s tenant tags =
     (case fetchModuleDefinition N M s tenant (ak_module tags) None of
        Inl e \<Rightarrow> Some (Inl e)
      | Inr newestDefinition \<Rightarrow>
          fbind (preloadModuleDefinitions n newestDefinition
                   (\<lambda>uri. bind (fetchModuleDefinition N M s tenant uri None) (\<lambda>d. Inr (Some d)))) (\<lambda>definitions.
          fbind (resolveModuleGraph n (ne_records N) (map_of definitions) False newestDefinition) (\<lambda>graph.
          case map_of (mg_nodesByDeclaredPath graph) (ak_rolePath tags) of
            Some node \<Rightarrow> if rn_kind node = RecordNode \<and> rs_role (rn_ruleSet node) then Some (Inr ())
                         else fail ''EncryptionControlValidateAudienceRolePathInvalid''
          | None \<Rightarrow> fail ''EncryptionControlValidateAudienceRolePathInvalid'')))"

definition validateStoredControlRecord ::
  "nat \<Rightarrow> node_env \<Rightarrow> module_env \<Rightarrow> control_env \<Rightarrow> node \<Rightarrow> jstr \<Rightarrow> records_write \<Rightarrow> rule_set result option" where
  "validateStoredControlRecord n N M K s tenant rw =
     (let w = rw_message rw; recordType = getRecordType w in
      fbind (Some (getRoleAudienceKeyId w recordType)) (\<lambda>tags.
      fbind (verifyRoleAudienceDefinition n N M s tenant tags w recordType) (\<lambda>(_, node).
      fbind (Some (case (recordType, w_encodedData w) of
               (AudienceRecord, Some encodedData) \<Rightarrow>
                 bind (validateAudiencePayload M K w (ce_decode K encodedData)) (\<lambda>(payload, _).
                 verifyAudienceSealKey M payload (rn_ruleSet node))
             | _ \<Rightarrow> Inr ())) (\<lambda>_.
      fbind (newest_role n N M s tenant tags) (\<lambda>_.
      Some (Inr (rn_ruleSet node)))))))"

section \<open>Who may read\<close>

text \<open>A read request is its envelope and its filter.\<close>

definition filterTargetsOnlyControlRecords :: "records_filter \<Rightarrow> bool" where
  "filterTargetsOnlyControlRecords f = isEncryptionControlPath (rf_modulePath f)"

definition getInvokedReadGrants :: "node_env \<Rightarrow> node \<Rightarrow> jstr \<Rightarrow> jstr \<Rightarrow> other_message \<Rightarrow> permission_grant list result" where
  "getInvokedReadGrants N s tenant actorDid e =
     (if isSignedByAuthorDelegate (OtherMsg e)
      then bind (author_delegate_grant (ne_records N) (case o_authorization e of None \<Rightarrow> None | Some a \<Rightarrow> a_authorDelegatedGrant a)) (\<lambda>g.
           bind (performBaseValidation N s (OtherMsg e) (pg_grantor g) actorDid g None) (\<lambda>_. Inr [g]))
      else case od_permissionGrantId (o_descriptor e) of
        None \<Rightarrow> Inr []
      | Some grantId \<Rightarrow> bind (fetchGrant N s tenant grantId) (\<lambda>g.
          bind (performBaseValidation N s (OtherMsg e) tenant actorDid g None) (\<lambda>_. Inr [g])))"

definition authorizeControlReadRequest :: "node_env \<Rightarrow> node \<Rightarrow> jstr \<Rightarrow> jstr option \<Rightarrow> other_message \<Rightarrow> unit result" where
  "authorizeControlReadRequest N s tenant requester e = (case requester of
     None \<Rightarrow> Inr ()
   | Some r \<Rightarrow> if r = tenant then Inr () else bind (getInvokedReadGrants N s tenant r e) (\<lambda>_. Inr ()))"

definition getExactFilterTag :: "records_filter \<Rightarrow> string \<Rightarrow> jstr option" where
  "getExactFilterTag f tag = (case (case rf_tags f of None \<Rightarrow> None | Some ts \<Rightarrow> map_of ts tag) of
     Some (TEqual (SStr v)) \<Rightarrow> Some v | _ \<Rightarrow> None)"

definition getExactAudienceFilterTuple :: "records_filter \<Rightarrow> (audience_tuple \<times> jstr option) option" where
  "getExactAudienceFilterTuple f =
     (if rf_module f = None \<or> rf_modulePath f \<noteq> Some ENCRYPTION_CONTROL_AUDIENCE_PATH then None
      else case (getExactFilterTag f ''module'', getExactFilterTag f ''rolePath'', getExactFilterTag f ''contextId'') of
        (Some m, Some rolePath, Some contextId) \<Rightarrow>
          if rf_module f \<noteq> Some m then None
          else Some ((m, rolePath, contextId), getExactFilterTag f ''keyId'')
      | _ \<Rightarrow> None)"

definition isExactAudienceFilter :: "records_filter \<Rightarrow> bool" where
  "isExactAudienceFilter f = (getExactAudienceFilterTuple f \<noteq> None)"

definition exactAudienceFilterMatchesRecord :: "records_filter \<Rightarrow> audience_key \<Rightarrow> jstr \<Rightarrow> bool" where
  "exactAudienceFilterMatchesRecord f tags recordId =
     (rf_recordId f = Some recordId
      \<or> (case getExactAudienceFilterTuple f of
           None \<Rightarrow> False
         | Some (tuple, keyId) \<Rightarrow> tuple = tuple_of tags \<and> (keyId = None \<or> keyId = Some (ak_keyId tags))))"

definition canEnumerateAudience ::
  "nat \<Rightarrow> node_env \<Rightarrow> module_env \<Rightarrow> node \<Rightarrow> jstr \<Rightarrow> jstr \<Rightarrow> other_message \<Rightarrow> audience_key \<Rightarrow> bool result option" where
  "canEnumerateAudience n N M s tenant actorDid e tags =
     fbind (Some (getInvokedReadGrants N s tenant actorDid e)) (\<lambda>grants.
     if list_ex (\<lambda>g. grantCoversAudienceEnumeration g tags) grants then Some (Inr True)
     else fbind (resolveRoleAudienceDefinition n N M s tenant tags (od_messageTimestamp (o_descriptor e))) (\<lambda>(graph, node).
          fbind (Some (case o_authorization e of None \<Rightarrow> Inr None | Some a \<Rightarrow> invoked_role (a_signature a))) (\<lambda>invokedRole.
          actorCanCreateRole n N s tenant \<lparr>ca_did = Some actorDid, ca_grant = None\<rparr> tags graph node invokedRole)))"

fun some_grant_delivers ::
  "node_env \<Rightarrow> module_env \<Rightarrow> node \<Rightarrow> jstr \<Rightarrow> jstr \<Rightarrow> jstr option \<Rightarrow> audience_key \<Rightarrow> permission_grant list \<Rightarrow> bool result" where
  "some_grant_delivers N M s tenant timestamp recipient tags [] = Inr False"
| "some_grant_delivers N M s tenant timestamp recipient tags (g # gs) =
     (let deliveredScope = \<lparr>gk_module = ak_module tags, gk_modulePath = Some (ak_rolePath tags)\<rparr> in
      if recipient \<noteq> Some (pg_grantor g) \<and> recipient \<noteq> Some (pg_grantee g)
      then some_grant_delivers N M s tenant timestamp recipient tags gs
      else if \<not> isGrantKeyEligibleRecordsScope (pg_scope g) \<or> ps_method (pg_scope g) \<noteq> Read
      then some_grant_delivers N M s tenant timestamp recipient tags gs
      else if grantKeyScopeCoversDeliveredScope (pg_scope g) deliveredScope None then Inr True
      else bind (fetchModuleDefinition N M s tenant (ak_module tags) (Some timestamp)) (\<lambda>d.
        if grantKeyScopeCoversDeliveredScope (pg_scope g) deliveredScope (Some d) then Inr True
        else some_grant_delivers N M s tenant timestamp recipient tags gs))"

definition canReadDeliveryByDelegatedGrant ::
  "node_env \<Rightarrow> module_env \<Rightarrow> node \<Rightarrow> jstr \<Rightarrow> jstr \<Rightarrow> other_message \<Rightarrow> write_message \<Rightarrow> audience_key \<Rightarrow> bool result" where
  "canReadDeliveryByDelegatedGrant N M s tenant requester e w tags =
     bind (getInvokedReadGrants N s tenant requester e) (\<lambda>grants.
     some_grant_delivers N M s tenant (od_messageTimestamp (o_descriptor e)) (wd_recipient (w_descriptor w)) tags grants)"

definition canRead ::
  "nat \<Rightarrow> node_env \<Rightarrow> module_env \<Rightarrow> node \<Rightarrow> jstr \<Rightarrow> other_message \<Rightarrow> records_filter \<Rightarrow> jstr option \<Rightarrow> write_message \<Rightarrow> bool result option" where
  "canRead n N M s tenant e f requester w =
     (if \<not> isControlMessage w then Some (Inr True)
      else if requester = Some tenant then Some (Inr True)
      else case requester of
        None \<Rightarrow> Some (Inr False)
      | Some r \<Rightarrow> (case getRecordType w of
          DeliveryRecord \<Rightarrow>
            if wd_recipient (w_descriptor w) = Some r \<or> getAuthor (WriteMsg w) = Some r then Some (Inr True)
            else Some (bind (getDeliveryTags w) (\<lambda>(tags, _). canReadDeliveryByDelegatedGrant N M s tenant r e w tags))
        | AudienceRecord \<Rightarrow>
            fbind (Some (getRoleAudienceKeyId w AudienceRecord)) (\<lambda>tags.
            if exactAudienceFilterMatchesRecord f tags (w_recordId w) then Some (Inr True)
            else canEnumerateAudience n N M s tenant r e tags)))"

definition control_authorizeRead ::
  "nat \<Rightarrow> node_env \<Rightarrow> module_env \<Rightarrow> node \<Rightarrow> jstr \<Rightarrow> other_message \<Rightarrow> records_filter \<Rightarrow> jstr option \<Rightarrow> write_message \<Rightarrow> unit result option" where
  "control_authorizeRead n N M s tenant e f requester w =
     fbind (canRead n N M s tenant e f requester w) (\<lambda>can.
     if can then Some (Inr ()) else fail ''EncryptionControlReadUnauthorized'')"

definition isVisibleControlRecord ::
  "nat \<Rightarrow> node_env \<Rightarrow> module_env \<Rightarrow> node \<Rightarrow> jstr \<Rightarrow> other_message \<Rightarrow> records_filter \<Rightarrow> jstr option \<Rightarrow> write_message \<Rightarrow> bool result option" where
  "isVisibleControlRecord n N M s tenant e f requester w =
     (if \<not> isControlMessage w then Some (Inr True)
      else case canRead n N M s tenant e f requester w of
        Some (Inl (DwnError _ _)) \<Rightarrow> Some (Inr False)
      | r \<Rightarrow> r)"

fun filterVisibleControlRecords ::
  "nat \<Rightarrow> node_env \<Rightarrow> module_env \<Rightarrow> node \<Rightarrow> jstr \<Rightarrow> other_message \<Rightarrow> records_filter \<Rightarrow> jstr option \<Rightarrow> write_message list
    \<Rightarrow> write_message list result option" where
  "filterVisibleControlRecords n N M s tenant e f requester [] = Some (Inr [])"
| "filterVisibleControlRecords n N M s tenant e f requester (w # ws) =
     fbind (isVisibleControlRecord n N M s tenant e f requester w) (\<lambda>visible.
     fbind (filterVisibleControlRecords n N M s tenant e f requester ws) (\<lambda>rest.
     Some (Inr (if visible then w # rest else rest))))"

section \<open>The current audience\<close>

text \<open>The candidates of a tuple are ranked: signed by the tenant first, then the oldest, then by record id.\<close>

definition compareAudienceProjectionCandidates :: "jstr \<Rightarrow> write_message \<Rightarrow> write_message \<Rightarrow> int" where
  "compareAudienceProjectionCandidates tenant l r =
     (let leftIsTenantSigned = getSigner (WriteMsg l) = Some tenant; rightIsTenantSigned = getSigner (WriteMsg r) = Some tenant;
          dateComparison = lexicographicalCompare (wd_dateCreated (w_descriptor l)) (wd_dateCreated (w_descriptor r))
      in if leftIsTenantSigned \<noteq> rightIsTenantSigned then (if leftIsTenantSigned then - 1 else 1)
         else if dateComparison \<noteq> 0 then dateComparison
         else lexicographicalCompare (w_recordId l) (w_recordId r))"

text \<open>A stable sort by a comparison.\<close>

fun insert_by :: "('a \<Rightarrow> 'a \<Rightarrow> int) \<Rightarrow> 'a \<Rightarrow> 'a list \<Rightarrow> 'a list" where
  "insert_by cmp x [] = [x]"
| "insert_by cmp x (y # ys) = (if cmp x y \<le> 0 then x # y # ys else y # insert_by cmp x ys)"

definition sort_by :: "('a \<Rightarrow> 'a \<Rightarrow> int) \<Rightarrow> 'a list \<Rightarrow> 'a list" where
  "sort_by cmp xs = foldr (insert_by cmp) xs []"

text \<open>The groups in the order of their first record; of each, the first \<open>max\<close> records.\<close>

definition selectOccupantRecordIds ::
  "('a \<Rightarrow> 'k) \<Rightarrow> ('a \<Rightarrow> 'a \<Rightarrow> int) \<Rightarrow> ('a \<Rightarrow> jstr) \<Rightarrow> nat \<Rightarrow> 'a list \<Rightarrow> jstr list" where
  "selectOccupantRecordIds getScopeKey compareRecords recordId maximum records =
     remdups_first (concat (map (\<lambda>key. map recordId (take maximum (sort_by compareRecords (filter (\<lambda>r. getScopeKey r = key) records))))
       (remdups_first (map getScopeKey records))))"

definition writes_of :: "message list \<Rightarrow> write_message list" where
  "writes_of ms = List.map_filter (\<lambda>m. case m of WriteMsg w \<Rightarrow> Some w | _ \<Rightarrow> None) ms"

definition queryStoredAudienceRecordsForTuple :: "node_env \<Rightarrow> node \<Rightarrow> jstr \<Rightarrow> audience_tuple \<Rightarrow> write_message list result" where
  "queryStoredAudienceRecordsForTuple N s tenant tuple = (case tuple of (moduleUri, rolePath, contextId) \<Rightarrow>
     bind (ms_query (ne_store N tenant) (n_messages s tenant)
       [[(''interface'', EqualF (SStr (js ''Records''))), (''method'', EqualF (SStr (js ''Write''))),
         (''isLatestBaseState'', EqualF (SBool True)), (''module'', EqualF (SStr moduleUri)),
         (''modulePath'', EqualF (SStr ENCRYPTION_CONTROL_AUDIENCE_PATH)), (''tag.module'', EqualF (SStr moduleUri)),
         (''tag.rolePath'', EqualF (SStr rolePath)), (''tag.contextId'', EqualF (SStr contextId))]]
       (no_sort\<lparr>ms_dateCreated := Some Ascending\<rparr>) no_pagination) (\<lambda>(messages, _).
     Inr (writes_of messages)))"

fun audience_tuples :: "write_message list \<Rightarrow> (write_message \<times> audience_tuple) list result" where
  "audience_tuples [] = Inr []"
| "audience_tuples (w # ws) =
     bind (getRoleAudienceKeyId w AudienceRecord) (\<lambda>tags.
     bind (audience_tuples ws) (\<lambda>rest. Inr ((w, tuple_of tags) # rest)))"

definition resolveCurrentAudienceRecord :: "node_env \<Rightarrow> node \<Rightarrow> jstr \<Rightarrow> audience_tuple \<Rightarrow> write_message option result" where
  "resolveCurrentAudienceRecord N s tenant tuple =
     bind (queryStoredAudienceRecordsForTuple N s tenant tuple) (\<lambda>records.
     bind (audience_tuples records) (\<lambda>keyed.
     Inr (case selectOccupantRecordIds snd (\<lambda>l r. compareAudienceProjectionCandidates tenant (fst l) (fst r)) (\<lambda>x. w_recordId (fst x)) 1 keyed of
        [] \<Rightarrow> None
      | currentRecordId # _ \<Rightarrow> find (\<lambda>w. w_recordId w = currentRecordId) records)))"

type_synonym audience_cache = "(audience_tuple \<times> jstr option) list"

definition resolveCurrentAudienceRecordId ::
  "node_env \<Rightarrow> node \<Rightarrow> jstr \<Rightarrow> audience_tuple \<Rightarrow> audience_cache \<Rightarrow> (jstr option \<times> audience_cache) result" where
  "resolveCurrentAudienceRecordId N s tenant tuple cache = (case map_of cache tuple of
     Some currentRecordId \<Rightarrow> Inr (currentRecordId, cache)
   | None \<Rightarrow> bind (resolveCurrentAudienceRecord N s tenant tuple) (\<lambda>current.
       Inr (map_option w_recordId current, AList.update tuple (map_option w_recordId current) cache)))"

definition audienceProjectionBypassFilterMatchesRecord :: "filter_t \<Rightarrow> write_message \<Rightarrow> bool result" where
  "audienceProjectionBypassFilterMatchesRecord f w =
     (if map_of f ''recordId'' = Some (EqualF (SStr (w_recordId w))) then Inr True
      else bind (getRoleAudienceKeyId w AudienceRecord) (\<lambda>tags. Inr
        (map_of f ''module'' = Some (EqualF (SStr (ak_module tags)))
       \<and> map_of f ''modulePath'' = Some (EqualF (SStr ENCRYPTION_CONTROL_AUDIENCE_PATH))
       \<and> map_of f ''tag.module'' = Some (EqualF (SStr (ak_module tags)))
       \<and> map_of f ''tag.rolePath'' = Some (EqualF (SStr (ak_rolePath tags)))
       \<and> map_of f ''tag.contextId'' = Some (EqualF (SStr (ak_contextId tags)))
       \<and> map_of f ''tag.keyId'' = Some (EqualF (SStr (ak_keyId tags))))))"

fun some_bypass :: "filter_t list \<Rightarrow> write_message \<Rightarrow> bool result" where
  "some_bypass [] w = Inr False"
| "some_bypass (f # fs) w =
     bind (audienceProjectionBypassFilterMatchesRecord f w) (\<lambda>b. if b then Inr True else some_bypass fs w)"

definition shouldProjectAudienceRecord :: "write_message \<Rightarrow> filter_t list \<Rightarrow> bool result" where
  "shouldProjectAudienceRecord w bypassFilters =
     (if \<not> isAudienceControlMessage w then Inr False else bind (some_bypass bypassFilters w) (\<lambda>b. Inr (\<not> b)))"

text \<open>The tuples to project, the current record of each, and the records that stay.\<close>

fun projected_tuples :: "filter_t list \<Rightarrow> write_message list \<Rightarrow> audience_tuple list result" where
  "projected_tuples fs [] = Inr []"
| "projected_tuples fs (w # ws) =
     bind (shouldProjectAudienceRecord w fs) (\<lambda>project.
     if \<not> project then projected_tuples fs ws
     else bind (getRoleAudienceKeyId w AudienceRecord) (\<lambda>tags.
          bind (projected_tuples fs ws) (\<lambda>rest. Inr (tuple_of tags # rest))))"

fun current_record_ids ::
  "node_env \<Rightarrow> node \<Rightarrow> jstr \<Rightarrow> audience_tuple list \<Rightarrow> audience_cache \<Rightarrow> (jstr list \<times> audience_cache) result" where
  "current_record_ids N s tenant [] cache = Inr ([], cache)"
| "current_record_ids N s tenant (tuple # tuples) cache =
     bind (resolveCurrentAudienceRecordId N s tenant tuple cache) (\<lambda>(current, cache').
     bind (current_record_ids N s tenant tuples cache') (\<lambda>(ids, cache'').
     Inr ((case current of None \<Rightarrow> ids | Some i \<Rightarrow> i # ids), cache'')))"

fun projected_records :: "filter_t list \<Rightarrow> jstr list \<Rightarrow> write_message list \<Rightarrow> write_message list result" where
  "projected_records fs ids [] = Inr []"
| "projected_records fs ids (w # ws) =
     bind (shouldProjectAudienceRecord w fs) (\<lambda>project.
     bind (projected_records fs ids ws) (\<lambda>rest.
     Inr (if \<not> project \<or> w_recordId w \<in> set ids then w # rest else rest)))"

definition projectCurrentAudienceRecords ::
  "node_env \<Rightarrow> node \<Rightarrow> jstr \<Rightarrow> filter_t list \<Rightarrow> audience_cache \<Rightarrow> write_message list \<Rightarrow> (write_message list \<times> audience_cache) result" where
  "projectCurrentAudienceRecords N s tenant bypassFilters cache ws =
     bind (projected_tuples bypassFilters ws) (\<lambda>tuples.
     bind (current_record_ids N s tenant (remdups_first tuples) cache) (\<lambda>(ids, cache').
     bind (projected_records bypassFilters ids ws) (\<lambda>records. Inr (records, cache'))))"

definition buildAudienceRecordFilters :: "filter_t list \<Rightarrow> filter_t list" where
  "buildAudienceRecordFilters filters = List.map_filter (\<lambda>f. case map_of f ''modulePath'' of
     None \<Rightarrow> Some (AList.update ''modulePath'' (EqualF (SStr ENCRYPTION_CONTROL_AUDIENCE_PATH)) f)
   | Some (EqualF (SStr p)) \<Rightarrow> if p = ENCRYPTION_CONTROL_AUDIENCE_PATH then Some f else None
   | Some (OneOfF ps) \<Rightarrow> if SStr ENCRYPTION_CONTROL_AUDIENCE_PATH \<in> set ps
       then Some (AList.update ''modulePath'' (EqualF (SStr ENCRYPTION_CONTROL_AUDIENCE_PATH)) f) else None
   | _ \<Rightarrow> None) filters"

end
