(* ===== verification/Records_Read.thy ===== *)
theory Records_Read
  imports Encryption_Control
begin

text \<open>
  The handler of \<open>RecordsRead\<close> (\<open>handlers/records-read.ts\<close>, \<open>interfaces/records-read.ts\<close> and the record limit of
  a single record in \<open>utils/record-limit-occupancy.ts\<close> of \<open>src/packages/dwn-sdk-js/src\<close>): the request, who may
  read a record, the walk over the ordered candidates, and the reply.

  The closure of dependencies for a replica, the Base64URL decoder and the CID of the request descriptor are
  parameters.  The walk and the module graph run on fuel.
\<close>

section \<open>Requests and replies\<close>

text \<open>The envelope holds the authorization and the descriptor fields that every message has.\<close>

record read_message =
  rm_envelope :: other_message
  rm_filter :: records_filter
  rm_dateSort :: "date_sort option"
  rm_includeReplicationSupport :: bool

record records_read =
  rd_message :: read_message
  rd_author :: "jstr option"
  rd_signaturePayload :: "signature_payload option"

record read_entry =
  en_recordsWrite :: "write_message option"
  en_recordsDelete :: "delete_message option"
  en_initialWrite :: "write_message option"
  en_data :: "bytes option"

record read_reply =
  rq_reply :: reply
  rq_entry :: "read_entry option"
  rq_roleRecordId :: "jstr option"
  rq_support :: "(bool \<times> message \<times> jstr option) list option"

record read_env =
  rh_handlers :: handler_env
  rh_modules :: module_env
  rh_descriptorCid :: "read_message \<Rightarrow> jstr"
  rh_support :: "jstr \<Rightarrow> node \<Rightarrow> write_message \<Rightarrow> delete_message option \<Rightarrow> jstr \<Rightarrow> module_role
    \<Rightarrow> (bool \<times> message \<times> jstr option) list result"
  rh_decode :: "jstr \<Rightarrow> bytes"

abbreviation rh_node :: "read_env \<Rightarrow> node_env" where
  "rh_node R \<equiv> he_node (rh_handlers R)"

abbreviation rm_timestamp :: "read_message \<Rightarrow> jstr" where
  "rm_timestamp m \<equiv> od_messageTimestamp (o_descriptor (rm_envelope m))"

definition plain_reply :: "reply \<Rightarrow> read_reply" where
  "plain_reply r = \<lparr>rq_reply = r, rq_entry = None, rq_roleRecordId = None, rq_support = None\<rparr>"

definition not_found :: read_reply where
  "not_found = plain_reply (status_reply 404 ''Not Found'')"

text \<open>\<open>RecordsRead.parse\<close>: the signed descriptor is the whole request, its CID is the parameter.\<close>

definition parse_read :: "read_env \<Rightarrow> read_message \<Rightarrow> records_read result" where
  "parse_read R m =
     (let E = ne_records (rh_node R); e = rm_envelope m in
      if rf_published (rm_filter m) = Some False \<and> (rm_dateSort m = Some PublishedAscending \<or> rm_dateSort m = Some PublishedDescending)
      then Inl (DwnError ''RecordsReadParseFilterPublishedSortInvalid'' [])
      else
      bind (case o_authorization e of
              None \<Rightarrow> Inr None
            | Some a \<Rightarrow> bind (validateSignatureStructure ((re_cids E)\<lparr>cid_descriptor := (\<lambda>_. rh_descriptorCid R m)\<rparr>) (re_payload_schema E)
                (a_signature a) (OtherD (o_descriptor e)) ''GenericSignaturePayload'' True) (\<lambda>p. Inr (Some p))) (\<lambda>signaturePayload.
      bind (validateDelegatedGrantReferentialIntegrity E (OtherMsg e) signaturePayload None) (\<lambda>_.
      bind (validateTimestamp (rm_timestamp m)) (\<lambda>_.
      Inr \<lparr>rd_message = m, rd_author = getAuthor (OtherMsg e), rd_signaturePayload = signaturePayload\<rparr>))))"

section \<open>Record limits\<close>

text \<open>The limit of a path and its physical depth.\<close>

definition getRecordLimit ::
  "nat \<Rightarrow> node_env \<Rightarrow> module_env \<Rightarrow> node \<Rightarrow> jstr \<Rightarrow> jstr \<Rightarrow> jstr \<Rightarrow> jstr \<Rightarrow> (int \<times> nat) option result option" where
  "getRecordLimit n N M s tenant moduleUri modulePath timestamp =
     (case fetchModuleDefinition N M s tenant moduleUri (Some timestamp) of
        Inl (DwnError c p) \<Rightarrow> if c = ''ModuleAuthorizationModuleNotFound'' then Some (Inr None) else Some (Inl (DwnError c p))
      | Inl e \<Rightarrow> Some (Inl e)
      | Inr d \<Rightarrow> (case (case getRuleSetAtPath modulePath (md_structure d) of None \<Rightarrow> None | Some rs \<Rightarrow> rs_recordLimit rs) of
          None \<Rightarrow> Some (Inr None)
        | Some maximum \<Rightarrow>
            fbind (preloadModuleDefinitions n d (\<lambda>uri. bind (fetchModuleDefinition N M s tenant uri (Some timestamp)) (\<lambda>x. Inr (Some x))))
              (\<lambda>definitions. fbind (resolveModuleGraph n (ne_records N) (map_of definitions) True d) (\<lambda>graph.
                Some (case map_of (mg_nodesByDeclaredPath graph) modulePath of
                  None \<Rightarrow> Inl (OtherError (js ''TypeError'')) | Some node \<Rightarrow> Inr (Some (maximum, rn_physicalDepth node)))))))"

definition getRecordLimitForMessage ::
  "nat \<Rightarrow> node_env \<Rightarrow> module_env \<Rightarrow> node \<Rightarrow> jstr \<Rightarrow> write_message \<Rightarrow> jstr \<Rightarrow> int option result option" where
  "getRecordLimitForMessage n N M s tenant w timestamp =
     fbind (getRecordLimit n N M s tenant (wd_module (w_descriptor w)) (wd_modulePath (w_descriptor w)) timestamp)
       (\<lambda>policy. Some (Inr (map_option fst policy)))"

definition isRecordLimitOccupant ::
  "nat \<Rightarrow> node_env \<Rightarrow> module_env \<Rightarrow> node \<Rightarrow> jstr \<Rightarrow> write_message \<Rightarrow> jstr \<Rightarrow> bool result option" where
  "isRecordLimitOccupant n N M s tenant w timestamp =
     fbind (getRecordLimitForMessage n N M s tenant w timestamp) (\<lambda>limit. case limit of
       None \<Rightarrow> Some (Inr True)
     | Some maximum \<Rightarrow>
         (let d = w_descriptor w; parentContextId = getParentContextFromOfContextId (Some (w_contextId w)) in
          fbind (ms_count_limited n (ne_store N tenant) (n_messages s tenant)
              [[(''interface'', EqualF (SStr (js ''Records''))), (''method'', EqualF (SStr (js ''Write''))),
                (''isLatestBaseState'', EqualF (SBool True)), (''module'', EqualF (SStr (wd_module d))),
                (''modulePath'', EqualF (SStr (wd_modulePath d))), (''recordId'', EqualF (SStr (w_recordId w)))]]
              no_sort
              \<lparr>rl_module = wd_module d, rl_modulePath = wd_modulePath d,
               rl_contextId = (if parentContextId = Some [] then None else parentContextId), rl_parentId = None, rl_max = maximum\<rparr>)
            (\<lambda>count. Some (Inr (count > 0)))))"

section \<open>Who may read\<close>

definition read_authorizeDelegate :: "read_env \<Rightarrow> node \<Rightarrow> records_read \<Rightarrow> write_message \<Rightarrow> unit result" where
  "read_authorizeDelegate R s rd w = (case o_authorization (rm_envelope (rd_message rd)) of
     None \<Rightarrow> Inl (OtherError (js ''TypeError''))
   | Some a \<Rightarrow> bind (author_delegate_grant (ne_records (rh_node R)) (a_authorDelegatedGrant a)) (\<lambda>g.
       rga_authorizeRead (rh_node R) s (OtherMsg (rm_envelope (rd_message rd))) w (author_of_authorization a)
         (getSignerDid (a_signature a)) g))"

definition read_by_rules :: "nat \<Rightarrow> read_env \<Rightarrow> jstr \<Rightarrow> node \<Rightarrow> records_read \<Rightarrow> records_write \<Rightarrow> module_role option result option" where
  "read_by_rules n R tenant s rd rw = ma_authorizeRead n (rh_node R) (rh_modules R) s tenant
     (AuthRead Read (rd_author rd) (rd_signaturePayload rd)) (rm_timestamp (rd_message rd)) (rw_message rw)"

definition authorizeRecordsRead ::
  "nat \<Rightarrow> read_env \<Rightarrow> jstr \<Rightarrow> node \<Rightarrow> records_read \<Rightarrow> records_write \<Rightarrow> module_role option result option" where
  "authorizeRecordsRead n R tenant s rd rw =
     (let m = rd_message rd; N = rh_node R; w = rw_message rw; d = w_descriptor w; author = rd_author rd in
      if isControlMessage w
      then (let requester = getRequester (OtherMsg (rm_envelope m)) in
        fbind (Some (authorizeControlReadRequest N s tenant requester (rm_envelope m))) (\<lambda>_.
        fbind (control_authorizeRead n N (rh_modules R) s tenant (rm_envelope m) (rm_filter m) requester w) (\<lambda>_. Some (Inr None))))
      else fbind (Some (if isSignedByAuthorDelegate (OtherMsg (rm_envelope m)) then read_authorizeDelegate R s rd w else Inr ())) (\<lambda>_.
        if \<not> rm_includeReplicationSupport m \<and> (author = Some tenant \<or> wd_published d = Some True) then Some (Inr None)
        else if (case rd_signaturePayload rd of None \<Rightarrow> None | Some p \<Rightarrow> sp_moduleRole p) \<noteq> None then read_by_rules n R tenant s rd rw
        else if author = Some tenant then Some (Inr None)
        else if wd_published d = Some True then Some (Inr None)
        else case author of
          None \<Rightarrow> read_by_rules n R tenant s rd rw
        | Some a \<Rightarrow>
            if wd_recipient d = Some a \<or> rw_author rw = Some a then Some (Inr None)
            else case (case rd_signaturePayload rd of None \<Rightarrow> None | Some p \<Rightarrow> sp_permissionGrantId p) of
              Some permissionGrantId \<Rightarrow>
                Some (bind (fetchGrant N s tenant permissionGrantId) (\<lambda>g.
                      bind (rga_authorizeRead N s (OtherMsg (rm_envelope m)) w tenant a g) (\<lambda>_. Inr None)))
            | None \<Rightarrow> read_by_rules n R tenant s rd rw))"

definition authorizationDenialCodes :: "string list" where
  "authorizationDenialCodes = [''EncryptionControlReadUnauthorized'', ''GrantAuthorizationGrantExpired'', ''GrantAuthorizationGrantMissing'',
     ''GrantAuthorizationGrantNotYetActive'', ''GrantAuthorizationGrantRevoked'', ''GrantAuthorizationInterfaceMismatch'',
     ''GrantAuthorizationMethodMismatch'', ''GrantAuthorizationNotGrantedForTenant'', ''GrantAuthorizationNotGrantedToAuthor'',
     ''ModuleAuthorizationActionNotAllowed'', ''ModuleAuthorizationActionRulesNotFound'', ''ModuleAuthorizationMatchingRoleRecordNotFound'',
     ''ModuleAuthorizationMissingContextId'', ''ModuleAuthorizationNotARole'', ''RecordsGrantAuthorizationConditionPublicationProhibited'',
     ''RecordsGrantAuthorizationConditionPublicationRequired'', ''RecordsGrantAuthorizationScopeContextIdMismatch'',
     ''RecordsGrantAuthorizationScopeMismatch'', ''RecordsGrantAuthorizationScopeModuleMismatch'',
     ''RecordsGrantAuthorizationScopeModulePathMismatch'']"

definition isAuthorizationDenial :: "js_error \<Rightarrow> bool" where
  "isAuthorizationDenial e = (case e of DwnError c _ \<Rightarrow> c \<in> set authorizationDenialCodes | OtherError _ \<Rightarrow> False)"

section \<open>Replies to a candidate\<close>

definition attachReplicationSupport ::
  "read_env \<Rightarrow> jstr \<Rightarrow> node \<Rightarrow> records_read \<Rightarrow> write_message \<Rightarrow> module_role option \<Rightarrow> delete_message option
    \<Rightarrow> (bool \<times> message \<times> jstr option) list result" where
  "attachReplicationSupport R tenant s rd w role recordsDelete = (case (rd_author rd, role) of
     (Some author, Some r) \<Rightarrow> rh_support R tenant s w recordsDelete author r
   | _ \<Rightarrow> Inl (DwnError ''RecordsReadReplicationSupportUnsupported'' []))"

definition detachEncodedData :: "write_message \<Rightarrow> write_message" where
  "detachEncodedData w = w\<lparr>w_encodedData := None\<rparr>"

definition attached_initial_write :: "read_env \<Rightarrow> jstr \<Rightarrow> node \<Rightarrow> write_message \<Rightarrow> write_message option result" where
  "attached_initial_write R tenant s w =
     bind (isInitialWrite (re_cids (ne_records (rh_node R))) (WriteMsg w)) (\<lambda>initial.
     if initial then Inr None
     else bind (fetchInitialRecordsWriteMessage (ne_store (rh_node R) tenant) (n_messages s tenant) (w_recordId w)) (\<lambda>found.
       case found of
         None \<Rightarrow> Inl (DwnError ''RecordsWriteGetInitialWriteNotFound'' [])
       | Some (WriteMsg i) \<Rightarrow> Inr (Some (detachEncodedData i))
       | Some _ \<Rightarrow> Inl (OtherError (js ''TypeError''))))"

definition buildActiveRecordReply ::
  "read_env \<Rightarrow> jstr \<Rightarrow> node \<Rightarrow> records_read \<Rightarrow> write_message \<Rightarrow> module_role option \<Rightarrow> read_reply" where
  "buildActiveRecordReply R tenant s rd w role =
     (let ok = status_reply 200 ''OK''; roleRecordId = (case role of None \<Rightarrow> None | Some r \<Rightarrow> mr_roleRecordId r) in
      case attached_initial_write R tenant s w of
        Inl e \<Rightarrow> plain_reply (messageReplyFromError e 500)
      | Inr initialWrite \<Rightarrow>
          if rm_includeReplicationSupport (rd_message rd)
          then (case attachReplicationSupport R tenant s rd w role None of
              Inl e \<Rightarrow> plain_reply (messageReplyFromError e 400)
            | Inr support \<Rightarrow> \<lparr>rq_reply = ok,
                rq_entry = Some \<lparr>en_recordsWrite = Some (detachEncodedData w), en_recordsDelete = None,
                                 en_initialWrite = initialWrite, en_data = None\<rparr>,
                rq_roleRecordId = roleRecordId, rq_support = Some support\<rparr>)
          else (case w_encodedData w of
              None \<Rightarrow> (case data_get (n_data s) tenant (w_recordId w) (wd_dataCid (w_descriptor w)) of
                  None \<Rightarrow> \<lparr>rq_reply = status_reply 410 ''Record data not available'',
                    rq_entry = Some \<lparr>en_recordsWrite = Some w, en_recordsDelete = None, en_initialWrite = None, en_data = None\<rparr>,
                    rq_roleRecordId = None, rq_support = None\<rparr>
                | Some (_, content) \<Rightarrow> \<lparr>rq_reply = ok,
                    rq_entry = Some \<lparr>en_recordsWrite = Some w, en_recordsDelete = None, en_initialWrite = initialWrite, en_data = Some content\<rparr>,
                    rq_roleRecordId = roleRecordId, rq_support = None\<rparr>)
            | Some encodedData \<Rightarrow> \<lparr>rq_reply = ok,
                rq_entry = Some \<lparr>en_recordsWrite = Some (detachEncodedData w), en_recordsDelete = None, en_initialWrite = initialWrite,
                                 en_data = Some (rh_decode R encodedData)\<rparr>,
                rq_roleRecordId = roleRecordId, rq_support = None\<rparr>))"

text \<open>What a denied candidate leads to: the next one, a denial or nothing to be found.\<close>

definition denied_candidate :: "bool \<Rightarrow> bool \<Rightarrow> js_error \<Rightarrow> read_reply option result" where
  "denied_candidate isPointRead hasMoreCandidates e =
     (if \<not> isPointRead \<and> \<not> isAuthorizationDenial e then Inl e
      else if \<not> isPointRead \<and> hasMoreCandidates then Inr None
      else if isPointRead then Inr (Some (plain_reply (messageReplyFromError e 401)))
      else Inr (Some not_found))"

definition replyForWriteCandidate ::
  "nat \<Rightarrow> read_env \<Rightarrow> jstr \<Rightarrow> node \<Rightarrow> records_read \<Rightarrow> write_message \<Rightarrow> bool \<Rightarrow> bool \<Rightarrow> read_reply option result option" where
  "replyForWriteCandidate n R tenant s rd w isPointRead hasMoreCandidates =
     fbind (isRecordLimitOccupant n (rh_node R) (rh_modules R) s tenant w (rm_timestamp (rd_message rd))) (\<lambda>occupant.
     if \<not> occupant
     then Some (Inr (if \<not> isPointRead \<and> hasMoreCandidates then None else Some not_found))
     else case parse_write (ne_records (rh_node R)) w of
       Inl e \<Rightarrow> Some (if isPointRead then Inr (Some (plain_reply (messageReplyFromError e 401))) else Inl e)
     | Inr parsedWrite \<Rightarrow> (case authorizeRecordsRead n R tenant s rd parsedWrite of
         None \<Rightarrow> None
       | Some (Inl e) \<Rightarrow> Some (denied_candidate isPointRead hasMoreCandidates e)
       | Some (Inr role) \<Rightarrow> Some (Inr (Some (buildActiveRecordReply R tenant s rd w role)))))"

definition fetchDeleteAuthorizationBasis ::
  "read_env \<Rightarrow> jstr \<Rightarrow> node \<Rightarrow> delete_message \<Rightarrow> (write_message \<times> records_write) result" where
  "fetchDeleteAuthorizationBasis R tenant s d =
     (let N = rh_node R; recordId = dd_recordId (d_descriptor d) in
      bind (fetchInitialRecordsWriteMessage (ne_store N tenant) (n_messages s tenant) recordId) (\<lambda>found. case found of
        None \<Rightarrow> Inl (DwnError ''RecordsReadInitialWriteNotFound'' [])
      | Some (WriteMsg i) \<Rightarrow>
          (case (case fetchNewestRecordsWrite (ne_store N tenant) (n_messages s tenant) recordId of Inr m \<Rightarrow> m | Inl _ \<Rightarrow> WriteMsg i) of
             WriteMsg newest \<Rightarrow> bind (parse_write (ne_records N) newest) (\<lambda>rw. Inr (i, rw))
           | _ \<Rightarrow> Inl (OtherError (js ''TypeError'')))
      | Some _ \<Rightarrow> Inl (OtherError (js ''TypeError''))))"

definition buildDeletedRecordReply ::
  "read_env \<Rightarrow> jstr \<Rightarrow> node \<Rightarrow> records_read \<Rightarrow> delete_message \<Rightarrow> write_message \<Rightarrow> module_role option \<Rightarrow> read_reply" where
  "buildDeletedRecordReply R tenant s rd d initialWrite role =
     (let reply = \<lambda>i support. \<lparr>rq_reply = status_reply 404 ''Not Found'',
            rq_entry = Some \<lparr>en_recordsWrite = None, en_recordsDelete = Some d, en_initialWrite = Some i, en_data = None\<rparr>,
            rq_roleRecordId = (case role of None \<Rightarrow> None | Some r \<Rightarrow> mr_roleRecordId r), rq_support = support\<rparr>
      in if rm_includeReplicationSupport (rd_message rd)
         then (case attachReplicationSupport R tenant s rd initialWrite role (Some d) of
             Inl e \<Rightarrow> plain_reply (messageReplyFromError e 400)
           | Inr support \<Rightarrow> reply (detachEncodedData initialWrite) (Some support))
         else reply initialWrite None)"

definition replyForTombstoneCandidate ::
  "nat \<Rightarrow> read_env \<Rightarrow> jstr \<Rightarrow> node \<Rightarrow> records_read \<Rightarrow> delete_message \<Rightarrow> bool \<Rightarrow> bool \<Rightarrow> read_reply option result option" where
  "replyForTombstoneCandidate n R tenant s rd d isPointRead hasMoreCandidates =
     (case fetchDeleteAuthorizationBasis R tenant s d of
        Inl e \<Rightarrow> Some (if (case e of DwnError c _ \<Rightarrow> c = ''RecordsReadInitialWriteNotFound'' | _ \<Rightarrow> False)
                      then Inr (Some (plain_reply (messageReplyFromError e 400))) else Inl e)
      | Inr (initialWrite, parsedNewestWrite) \<Rightarrow> (case authorizeRecordsRead n R tenant s rd parsedNewestWrite of
          None \<Rightarrow> None
        | Some (Inl e) \<Rightarrow> Some (denied_candidate isPointRead hasMoreCandidates e)
        | Some (Inr role) \<Rightarrow> Some (Inr (Some (buildDeletedRecordReply R tenant s rd d initialWrite role)))))"

section \<open>The walk\<close>

definition recordsReadPageSize :: nat where "recordsReadPageSize = 25"

definition reply_for_candidate ::
  "nat \<Rightarrow> read_env \<Rightarrow> jstr \<Rightarrow> node \<Rightarrow> records_read \<Rightarrow> bool \<Rightarrow> message \<Rightarrow> bool \<Rightarrow> read_reply option result option" where
  "reply_for_candidate n R tenant s rd isPointRead candidate hasMoreCandidates = (case candidate of
     DeleteMsg d \<Rightarrow> replyForTombstoneCandidate n R tenant s rd d isPointRead hasMoreCandidates
   | WriteMsg w \<Rightarrow> replyForWriteCandidate n R tenant s rd w isPointRead hasMoreCandidates
   | OtherMsg _ \<Rightarrow> Some (Inl (OtherError (js ''TypeError''))))"

text \<open>The candidates of a page; \<open>further\<close> tells whether there is a further page.\<close>

fun read_page ::
  "(message \<Rightarrow> bool \<Rightarrow> read_reply option result option) \<Rightarrow> bool \<Rightarrow> message list \<Rightarrow> read_reply option result option" where
  "read_page reply further [] = Some (Inr None)"
| "read_page reply further (candidate # candidates) =
     fbind (reply candidate (candidates \<noteq> [] \<or> further)) (\<lambda>r. case r of
       None \<Rightarrow> read_page reply further candidates
     | Some x \<Rightarrow> Some (Inr (Some x)))"

definition read_query :: "read_message \<Rightarrow> filter_t" where
  "read_query m = spread [(''interface'', EqualF (SStr (js ''Records''))), (''isLatestBaseState'', EqualF (SBool True))]
     (convertFilter (rm_filter m) None)"

definition read_sort :: "read_message \<Rightarrow> message_sort" where
  "read_sort m = (let (p, dir) = convertDateSort (rm_dateSort m) in
     \<lparr>ms_dateCreated = (if p = ''dateCreated'' then Some dir else None),
      ms_datePublished = (if p = ''datePublished'' then Some dir else None),
      ms_messageTimestamp = (if p = ''messageTimestamp'' then Some dir else None)\<rparr>)"

fun read_loop ::
  "nat \<Rightarrow> (pagination_cursor option \<Rightarrow> (message list \<times> pagination_cursor option) result)
    \<Rightarrow> (message \<Rightarrow> bool \<Rightarrow> read_reply option result option) \<Rightarrow> pagination_cursor option \<Rightarrow> read_reply result option" where
  "read_loop 0 query reply cursor = None"
| "read_loop (Suc k) query reply cursor = (case query cursor of
     Inl e \<Rightarrow> Some (Inl e)
   | Inr (candidates, nextCursor) \<Rightarrow>
       if candidates = [] then Some (Inr not_found)
       else fbind (read_page reply (nextCursor \<noteq> None) candidates) (\<lambda>r. case r of
         Some x \<Rightarrow> Some (Inr x)
       | None \<Rightarrow> if nextCursor = None then Some (Inr not_found) else read_loop k query reply nextCursor))"

definition handle_read :: "nat \<Rightarrow> read_env \<Rightarrow> jstr \<Rightarrow> node \<Rightarrow> read_message \<Rightarrow> read_reply result option" where
  "handle_read n R tenant s m = (case parse_read R m of
     Inl e \<Rightarrow> Some (Inr (plain_reply (messageReplyFromError e 400)))
   | Inr rd \<Rightarrow>
       (case (case (rd_author rd, o_authorization (rm_envelope m)) of
                (Some _, Some a) \<Rightarrow> he_authenticate (rh_handlers R) a None | _ \<Rightarrow> Inr ()) of
          Inl e \<Rightarrow> Some (Inr (plain_reply (messageReplyFromError e 401)))
        | Inr _ \<Rightarrow>
            read_loop n
              (\<lambda>cursor. ms_query (ne_store (rh_node R) tenant) (n_messages s tenant) [read_query m] (read_sort m)
                 \<lparr>pn_limit = Some recordsReadPageSize, pn_cursor = cursor\<rparr>)
              (reply_for_candidate n R tenant s rd (rf_recordId (rm_filter m) \<noteq> None)) None))"

end
