(* ===== verification/Read_Properties.thy ===== *)
theory Read_Properties
  imports Records_Read Record_Limit Module_Writes
begin

text \<open>
  What a read returns: the first candidate, in the order of the request, that its requester may see,
  whatever the paging; and nothing that the requester may not read.
\<close>

section \<open>Queries see their matches only\<close>

lemma partition_filter:
  "index_partition (filter M items) p = filter (\<lambda>e. M (snd e)) (index_partition items p)"
proof -
  have "concat (map (item_entries p) (filter M items)) = filter (\<lambda>e. M (snd e)) (concat (map (item_entries p) items))"
    by (induction items) (auto simp: item_entries_def filter_map comp_def)
  then show ?thesis by (simp add: index_partition_def filter_sort)
qed

lemma iterator_filter: "getIndexIterator (filter M items) q = filter M (getIndexIterator items q)"
  by (cases "qo_sortDirection q"; cases "qo_cursor q")
     (simp_all add: getIndexIterator_def partition_filter Let_def filter_map comp_def rev_filter [symmetric] conj_commute)

lemma index_query_matching:
  "index_query tn items fs q = index_query tn (filter (\<lambda>it. matchAnyFilter tn (snd it) fs) items) fs q"
proof -
  let ?M = "\<lambda>it. matchAnyFilter tn (snd it) fs"
  have "queryWithIteratorPaging tn items fs q = queryWithIteratorPaging tn (filter ?M items) fs q"
    by (cases "qo_limit q") (simp_all add: queryWithIteratorPaging_def iterator_loop_all iterator_loop_limit iterator_filter)
  moreover have "queryWithInMemoryPaging tn items fs q = queryWithInMemoryPaging tn (filter ?M items) fs q"
  proof -
    have "(\<exists>it \<in> set items. map_of (snd it) p = None \<and> list_ex (\<lambda>f. f \<noteq> [] \<and> matchFilter tn (snd it) f) fs) \<longleftrightarrow>
        (\<exists>it \<in> set (filter ?M items). map_of (snd it) p = None \<and> list_ex (\<lambda>f. f \<noteq> [] \<and> matchFilter tn (snd it) f) fs)" for p
      by (simp only: list_ex_iff matchAnyFilter_iff set_filter) blast
    then show ?thesis by (simp only: queryWithInMemoryPaging_def Let_def filter_filter conj_assoc conj_absorb conj_left_absorb)
  qed
  ultimately show ?thesis by (simp add: index_query_def)
qed

lemma iterator_paging_sound: "set (queryWithIteratorPaging tn items fs q) \<subseteq> {it \<in> set items. matchAnyFilter tn (snd it) fs}"
proof -
  have "set (getIndexIterator items q) \<subseteq> set items"
    by (cases "qo_sortDirection q"; cases "qo_cursor q") (auto simp: getIndexIterator_def index_partition_def item_entries_def Let_def)
  then show ?thesis
    by (cases "qo_limit q") (auto simp: queryWithIteratorPaging_def iterator_loop_all iterator_loop_limit dest!: in_set_takeD)
qed

lemma index_query_sound:
  assumes "index_query tn items fs q = Inr results" and "it \<in> set results"
  shows "it \<in> set items \<and> matchAnyFilter tn (snd it) fs"
proof -
  have "set (queryWithInMemoryPaging tn items fs q) \<subseteq> {it \<in> set items. matchAnyFilter tn (snd it) fs}"
    by (auto simp: queryWithInMemoryPaging_def Let_def set_sortItems dest!: in_set_takeD in_set_dropD split: if_splits option.splits)
  with iterator_paging_sound [of tn items fs q] assms show ?thesis by (auto simp: index_query_def bind_eq_Inr split: if_splits)
qed

section \<open>Pages\<close>

definition messages_of :: "tenant_store \<Rightarrow> indexed_item list \<Rightarrow> message list" where
  "messages_of s its = List.map_filter (\<lambda>it. ms_get s (fst it)) its"

lemma messages_of_append: "messages_of s (xs @ ys) = messages_of s xs @ messages_of s ys"
  by (simp add: messages_of_def)

lemma messages_of_empty:
  "\<forall>it \<in> set its. ms_get s (fst it) \<noteq> None \<Longrightarrow> messages_of s its = [] \<longleftrightarrow> its = []"
  by (cases its) (auto simp: messages_of_def map_filter_Cons)

lemma paged_query:
  fixes E s f q
  defines "items \<equiv> filter (\<lambda>it. matchAnyFilter (se_tn E) (snd it) [f]) (ts_index s)"
  assumes s: "sortable_items (qo_sortProperty (buildQueryOptions so no_pagination)) items" and d: "distinct (map fst items)"
    and v: "assertValidSubtreeFilters [f] = Inr ()" and L: "0 < L"
    and rest: "raw_items (se_tn E) items [f] ((buildQueryOptions so no_pagination)\<lparr>qo_cursor := cur\<rparr>) = its"
  shows "if L < length its
    then \<exists>c. ms_query E s [f] so \<lparr>pn_limit = Some L, pn_cursor = cur\<rparr> = Inr (messages_of s (take L its), Some c)
        \<and> raw_items (se_tn E) items [f] ((buildQueryOptions so no_pagination)\<lparr>qo_cursor := Some c\<rparr>) = drop L its
    else ms_query E s [f] so \<lparr>pn_limit = Some L, pn_cursor = cur\<rparr> = Inr (messages_of s its, None)"
proof -
  let ?q = "(buildQueryOptions so no_pagination)\<lparr>qo_cursor := cur\<rparr>"
  have q: "buildQueryOptions so \<lparr>pn_limit = Some L, pn_cursor = cur\<rparr> = ?q\<lparr>qo_limit := Some (L + 1)\<rparr>"
    using L by (simp add: buildQueryOptions_def no_pagination_def Let_def split_beta)
  have s': "\<forall>it \<in> set items. \<exists>v. map_of (snd it) (qo_sortProperty (?q\<lparr>qo_limit := Some (L + 1)\<rparr>)) = Some (One v) \<and> sortable v"
    using s by (simp add: sortable_items_def)
  have "index_query (se_tn E) (ts_index s) [f] (?q\<lparr>qo_limit := Some (L + 1)\<rparr>) = Inr (take (L + 1) its)"
    using index_query_in_memory [OF d s', of "se_tn E" "[f]"] iterator_pages [of ?q items "se_tn E" "[f]" "L + 1"] s d v rest
    by (subst index_query_matching) (simp add: items_def [symmetric])
  then have ms: "ms_query E s [f] so \<lparr>pn_limit = Some L, pn_cursor = cur\<rparr>
      = page_of_results s (qo_sortProperty ?q) (Some L) (take (L + 1) its)"
    by (simp add: ms_query_def q)
  show ?thesis
  proof (cases "L < length its")
    case True
    let ?k = "take L its"
    have k: "butlast (take (L + 1) its) = ?k" "?k \<noteq> []" using True L by (auto simp: butlast_take)
    have "its = butlast ?k @ last ?k # drop L its"
      using append_butlast_last_id [OF k(2)] append_take_drop_id [of L its] by (metis append.assoc append_Cons append_Nil)
    with raw_items_resume [of ?q items "se_tn E" "[f]" "butlast ?k" "last ?k" "drop L its"] s d rest
    obtain c where "createCursorFromItem (last ?k) (qo_sortProperty ?q) = Inr c"
      "raw_items (se_tn E) items [f] (?q\<lparr>qo_cursor := Some c\<rparr>) = drop L its" by auto
    with True k ms show ?thesis by (simp add: page_of_results_def createCursorFromLastArrayItem_def messages_of_def Let_def)
  next
    case False
    then show ?thesis using ms by (simp add: page_of_results_def messages_of_def)
  qed
qed

section \<open>The walk\<close>

text \<open>The first candidate that is not skipped decides; no candidate is nothing found.\<close>

fun first_visible ::
  "(message \<Rightarrow> bool \<Rightarrow> read_reply option result option) \<Rightarrow> message list \<Rightarrow> read_reply result option" where
  "first_visible reply [] = Some (Inr not_found)"
| "first_visible reply (candidate # candidates) =
     fbind (reply candidate True) (\<lambda>r. case r of
       None \<Rightarrow> first_visible reply candidates
     | Some x \<Rightarrow> Some (Inr x))"

lemma read_page_further:
  "fbind (read_page reply True cs) (\<lambda>r. case r of Some x \<Rightarrow> Some (Inr x) | None \<Rightarrow> first_visible reply ds)
     = first_visible reply (cs @ ds)"
proof (induction cs)
  case (Cons c cs)
  show ?case
  proof (cases "reply c True")
    case (Some r)
    then show ?thesis using Cons by (cases r) (auto split: option.splits)
  qed simp
qed simp

text \<open>A reply function skips a candidate only when there is a further one; the last one is then not found.\<close>

definition skips :: "(message \<Rightarrow> bool \<Rightarrow> read_reply option result option) \<Rightarrow> bool" where
  "skips reply \<longleftrightarrow> (\<forall>c. reply c False = (case reply c True of
     Some (Inr None) \<Rightarrow> Some (Inr (Some not_found)) | r \<Rightarrow> r))"

lemma read_page_last:
  assumes "skips reply"
  shows "fbind (read_page reply False cs) (\<lambda>r. case r of Some x \<Rightarrow> Some (Inr x) | None \<Rightarrow> Some (Inr not_found))
     = first_visible reply cs"
proof (induction cs)
  case (Cons c cs)
  have f: "reply c False = (case reply c True of Some (Inr None) \<Rightarrow> Some (Inr (Some not_found)) | r \<Rightarrow> r)"
    using assms by (simp add: skips_def)
  show ?case
  proof (cases "reply c True")
    case (Some r)
    then show ?thesis using Cons f by (cases r; cases "cs = []") (auto split: option.splits)
  qed (use f in \<open>cases "cs = []"; simp\<close>)
qed simp

lemma denied_skips:
  "denied_candidate p False e = (case denied_candidate p True e of Inr None \<Rightarrow> Inr (Some not_found) | r \<Rightarrow> r)"
  by (simp add: denied_candidate_def)

lemma reply_skips: "skips (reply_for_candidate n R tenant s rd p)"
proof -
  have "reply_for_candidate n R tenant s rd p c False = (case reply_for_candidate n R tenant s rd p c True of
     Some (Inr None) \<Rightarrow> Some (Inr (Some not_found)) | r \<Rightarrow> r)" for c
  proof (cases c)
    case (WriteMsg w)
    show ?thesis unfolding WriteMsg reply_for_candidate_def message.case replyForWriteCandidate_def
      by (auto simp: fbind_def denied_skips split: option.splits sum.splits)
  next
    case (DeleteMsg d)
    show ?thesis unfolding DeleteMsg reply_for_candidate_def message.case replyForTombstoneCandidate_def
      by (auto simp: denied_skips split: option.splits sum.splits)
  qed (simp add: reply_for_candidate_def)
  then show ?thesis by (simp add: skips_def)
qed

lemma read_loop_first:
  fixes E s f
  defines "items \<equiv> filter (\<lambda>it. matchAnyFilter (se_tn E) (snd it) [f]) (ts_index s)"
  assumes s: "sortable_items (qo_sortProperty (buildQueryOptions so no_pagination)) items" and d: "distinct (map fst items)"
    and v: "assertValidSubtreeFilters [f] = Inr ()" and L: "0 < L" and sk: "skips reply"
    and get: "\<forall>it \<in> set items. ms_get s (fst it) \<noteq> None"
  shows "raw_items (se_tn E) items [f] ((buildQueryOptions so no_pagination)\<lparr>qo_cursor := cur\<rparr>) = its \<Longrightarrow> set its \<subseteq> set items \<Longrightarrow> length its < n \<Longrightarrow>
    read_loop n (\<lambda>cursor. ms_query E s [f] so \<lparr>pn_limit = Some L, pn_cursor = cursor\<rparr>) reply cur = first_visible reply (messages_of s its)"
proof (induction n arbitrary: cur its)
  case (Suc n)
  note page = paged_query [OF s [unfolded items_def] d [unfolded items_def] v L Suc.prems(1) [unfolded items_def], folded items_def]
  have nonempty: "messages_of s xs = [] \<longleftrightarrow> xs = []" if "set xs \<subseteq> set its" for xs
    using messages_of_empty [of xs s] get Suc.prems(2) that by blast
  show ?case
  proof (cases "L < length its")
    case True
    with page obtain c where c: "ms_query E s [f] so \<lparr>pn_limit = Some L, pn_cursor = cur\<rparr> = Inr (messages_of s (take L its), Some c)"
      and r: "raw_items (se_tn E) items [f] ((buildQueryOptions so no_pagination)\<lparr>qo_cursor := Some c\<rparr>) = drop L its" by auto
    have "set (drop L its) \<subseteq> set items" using Suc.prems(2) set_drop_subset by fastforce
    moreover have "length (drop L its) < n" using Suc.prems(3) L True by simp
    ultimately have ih: "read_loop n (\<lambda>cursor. ms_query E s [f] so \<lparr>pn_limit = Some L, pn_cursor = cursor\<rparr>) reply (Some c)
        = first_visible reply (messages_of s (drop L its))" using Suc.IH [OF r] by simp
    have "messages_of s (take L its) \<noteq> []" using nonempty [OF set_take_subset] True L by auto
    then show ?thesis using read_page_further [of reply "messages_of s (take L its)" "messages_of s (drop L its)"]
      by (simp add: c ih messages_of_append [symmetric])
  next
    case False
    with page have c: "ms_query E s [f] so \<lparr>pn_limit = Some L, pn_cursor = cur\<rparr> = Inr (messages_of s its, None)" by simp
    show ?thesis using read_page_last [OF sk, of "messages_of s its"] by (cases "messages_of s its = []") (simp_all add: c)
  qed
qed simp

text \<open>The candidates of a request: the matching latest messages in the order it asks for.\<close>

definition read_candidates :: "store_env \<Rightarrow> tenant_store \<Rightarrow> read_message \<Rightarrow> message list" where
  "read_candidates E s m = messages_of s (sortItems (fst (convertDateSort (rm_dateSort m))) (snd (convertDateSort (rm_dateSort m)))
     (filter (\<lambda>it. matchFilter (se_tn E) (snd it) (read_query m)) (ts_index s)))"

lemma read_options:
  "qo_sortProperty (buildQueryOptions (read_sort m) pg) = fst (convertDateSort (rm_dateSort m))"
  "qo_sortDirection (buildQueryOptions (read_sort m) pg) = snd (convertDateSort (rm_dateSort m))"
  "qo_cursor (buildQueryOptions (read_sort m) pg) = pn_cursor pg"
  by (auto simp: buildQueryOptions_def read_sort_def convertDateSort_def split: option.splits date_sort.splits)

text \<open>A match with the date the request sorts by.\<close>

definition dated_matches :: "store_env \<Rightarrow> tenant_store \<Rightarrow> read_message \<Rightarrow> bool" where
  "dated_matches E s m \<longleftrightarrow> (\<forall>it \<in> set (ts_index s). matchFilter (se_tn E) (snd it) (read_query m) \<longrightarrow>
     (\<exists>t. map_of (snd it) (fst (convertDateSort (rm_dateSort m))) = Some (One (SStr t))))"

lemma read_walk:
  assumes ok: "core_ok E s" and dated: "dated_matches E s m" and v: "assertValidSubtreeFilters [read_query m] = Inr ()"
    and sk: "skips reply" and n: "length (ts_index s) < n"
  shows "read_loop n (\<lambda>cursor. ms_query E s [read_query m] (read_sort m) \<lparr>pn_limit = Some recordsReadPageSize, pn_cursor = cursor\<rparr>) reply None
     = first_visible reply (read_candidates E s m)"
proof -
  let ?M = "\<lambda>it. matchAnyFilter (se_tn E) (snd it) [read_query m]"
  let ?items = "filter ?M (ts_index s)" and ?p = "fst (convertDateSort (rm_dateSort m))" and ?d = "snd (convertDateSort (rm_dateSort m))"
  have M: "?M it \<longleftrightarrow> matchFilter (se_tn E) (snd it) (read_query m)" for it by (simp add: filter_simps)
  have so: "sortable_items (qo_sortProperty (buildQueryOptions (read_sort m) no_pagination)) ?items"
    using dated M by (fastforce simp: sortable_items_def read_options dated_matches_def)
  have di: "distinct (map fst ?items)" using level.distinct_keys [OF core_okD(2) [OF ok]] by (rule distinct_map_filter)
  have get: "\<forall>it \<in> set ?items. ms_get s (fst it) \<noteq> None"
  proof
    fix it assume "it \<in> set ?items"
    then obtain r where "row_of s (fst it) = Some r" using index_rows(1) [OF ok, of "fst it" "snd it"] by auto
    from index_rows(2) [OF ok this] show "ms_get s (fst it) \<noteq> None" by simp
  qed
  have raw: "raw_items (se_tn E) ?items [read_query m] ((buildQueryOptions (read_sort m) no_pagination)\<lparr>qo_cursor := None\<rparr>)
      = sortItems ?p ?d ?items"
  proof -
    have "filter ?M (sortItems ?p ?d ?items) = sortItems ?p ?d ?items"
      by (rule filter_True) (simp add: set_sortItems)
    then show ?thesis by (simp add: raw_items_def after_filter_def read_options)
  qed
  have "length (sortItems ?p ?d ?items) = length ?items" by (cases ?d) (simp_all add: sortItems_def)
  then have "length (sortItems ?p ?d ?items) < n" using n le_less_trans [OF length_filter_le] by metis
  moreover have "set (sortItems ?p ?d ?items) \<subseteq> set ?items" by (simp add: set_sortItems)
  moreover have "0 < recordsReadPageSize" by (simp add: recordsReadPageSize_def)
  ultimately show ?thesis
    using read_loop_first [OF so di v _ sk get raw] unfolding read_candidates_def M by blast
qed

text \<open>Parsed and authenticated: what precedes the walk.\<close>

definition read_admitted :: "read_env \<Rightarrow> read_message \<Rightarrow> records_read \<Rightarrow> bool" where
  "read_admitted R m rd \<longleftrightarrow> parse_read R m = Inr rd
     \<and> (\<forall>a. rd_author rd \<noteq> None \<longrightarrow> o_authorization (rm_envelope m) = Some a \<longrightarrow> he_authenticate (rh_handlers R) a None = Inr ())"

lemma handle_read_admitted:
  assumes "read_admitted R m rd"
  shows "handle_read n R tenant s m = read_loop n
     (\<lambda>cursor. ms_query (ne_store (rh_node R) tenant) (n_messages s tenant) [read_query m] (read_sort m)
        \<lparr>pn_limit = Some recordsReadPageSize, pn_cursor = cursor\<rparr>)
     (reply_for_candidate n R tenant s rd (rf_recordId (rm_filter m) \<noteq> None)) None"
proof -
  have "(case (rd_author rd, o_authorization (rm_envelope m)) of
     (Some _, Some a) \<Rightarrow> he_authenticate (rh_handlers R) a None | _ \<Rightarrow> Inr ()) = Inr ()"
    using assms by (auto simp: read_admitted_def split: option.splits)
  then show ?thesis using assms by (simp add: handle_read_def read_admitted_def)
qed

section \<open>Who may read\<close>

text \<open>The rules of the governing definitions let the requester read the record.\<close>

definition rules_allow_read :: "nat \<Rightarrow> read_env \<Rightarrow> jstr \<Rightarrow> node \<Rightarrow> records_read \<Rightarrow> write_message \<Rightarrow> bool" where
  "rules_allow_read n R tenant s rd w \<longleftrightarrow> (\<exists>g d rs chain.
     loadModuleGraph n (rh_node R) (rh_modules R) s tenant (wd_module (w_descriptor w)) (Some (rm_timestamp (rd_message rd))) = Some (Inr g)
   \<and> fetchModuleDefinition (rh_node R) (rh_modules R) s tenant (wd_module (w_descriptor w)) (Some (rm_timestamp (rd_message rd))) = Inr d
   \<and> all_govern (rh_node R) (rh_modules R) s tenant (Some (rm_timestamp (rd_message rd))) d (mg_definitionsByUri g)
   \<and> declared_at (mg_definitionsByUri g) (md_module d, wd_modulePath (w_descriptor w)) = Some rs \<and> rs_ref rs = None
   \<and> constructRecordChain n (rh_node R) s tenant (Some (w_recordId w)) = Some (Inr chain)
   \<and> rule_authorised (mg_definitionsByUri g) (rh_node R) s tenant (md_module d) rs
       (AuthRead Read (rd_author rd) (rd_signaturePayload rd)) (Some (w_contextId w)) chain)"

definition grant_allows_read :: "read_env \<Rightarrow> jstr \<Rightarrow> node \<Rightarrow> records_read \<Rightarrow> write_message \<Rightarrow> bool" where
  "grant_allows_read R tenant s rd w \<longleftrightarrow> (\<exists>author p i g. rd_author rd = Some author \<and> rd_signaturePayload rd = Some p
     \<and> sp_permissionGrantId p = Some i \<and> fetchGrant (rh_node R) s tenant i = Inr g
     \<and> rga_authorizeRead (rh_node R) s (OtherMsg (rm_envelope (rd_message rd))) w tenant author g = Inr ())"

definition may_read :: "nat \<Rightarrow> read_env \<Rightarrow> jstr \<Rightarrow> node \<Rightarrow> records_read \<Rightarrow> records_write \<Rightarrow> bool" where
  "may_read n R tenant s rd rw \<longleftrightarrow> (let w = rw_message rw in
     if isControlMessage w
     then canRead n (rh_node R) (rh_modules R) s tenant (rm_envelope (rd_message rd)) (rm_filter (rd_message rd))
       (getRequester (OtherMsg (rm_envelope (rd_message rd)))) w = Some (Inr True)
     else (isSignedByAuthorDelegate (OtherMsg (rm_envelope (rd_message rd))) \<longrightarrow> read_authorizeDelegate R s rd w = Inr ())
       \<and> (rd_author rd = Some tenant \<or> wd_published (w_descriptor w) = Some True
          \<or> (\<exists>author. rd_author rd = Some author \<and> (wd_recipient (w_descriptor w) = Some author \<or> rw_author rw = Some author))
          \<or> grant_allows_read R tenant s rd w \<or> rules_allow_read n R tenant s rd w))"

lemma read_by_rules_allowed:
  assumes "read_by_rules n R tenant s rd rw = Some (Inr role)"
  shows "rules_allow_read n R tenant s rd (rw_message rw)"
proof -
  let ?N = "rh_node R" and ?M = "rh_modules R" and ?w = "rw_message rw" and ?t = "rm_timestamp (rd_message rd)"
  let ?u = "wd_module (w_descriptor ?w)" and ?p = "wd_modulePath (w_descriptor ?w)"
  from assms obtain chain where chain: "constructRecordChain n ?N s tenant (Some (w_recordId ?w)) = Some (Inr chain)"
    and a: "authorize_by_rules n ?N ?M s tenant (AuthRead Read (rd_author rd) (rd_signaturePayload rd)) ?u ?p (Some (w_contextId ?w)) ?t False chain
      = Some (Inr role)"
    by (auto simp: read_by_rules_def ma_authorizeRead_def fbind_eq_Inr)
  from a obtain g node where g: "loadModuleGraph n ?N ?M s tenant ?u (Some ?t) = Some (Inr g)" and node: "getRecordNode ?p g False = Inr node"
    by (auto simp: authorize_by_rules_def fbind_eq_Inr bind_eq_Inr)
  obtain d ds where d: "fetchModuleDefinition ?N ?M s tenant ?u (Some ?t) = Inr d"
    and G: "resolveModuleGraph n (ne_records ?N) (map_of ds) True d = Some (Inr g)"
    and gov: "all_govern ?N ?M s tenant (Some ?t) d (mg_definitionsByUri g)" by (rule loadModuleGraph_resolved [OF g])
  have "map_of (mg_nodesByDeclaredPath g) ?p = Some node \<and> rs_ref (rn_declaredRuleSet node) = None"
    using node by (simp add: getRecordNode_Inr [OF G])
  moreover from this have rs: "declared_at (mg_definitionsByUri g) (md_module d, ?p) = Some (rn_declaredRuleSet node)"
    unfolding declared_node(1) [OF G] by blast
  ultimately show ?thesis unfolding rules_allow_read_def
    using g d gov chain authorize_by_rules_sound [OF a g d rs] by blast
qed

lemma authorizeRecordsRead_allowed:
  assumes "authorizeRecordsRead n R tenant s rd rw = Some (Inr role)"
  shows "may_read n R tenant s rd rw"
proof (cases "isControlMessage (rw_message rw)")
  case True
  then show ?thesis using assms
    by (auto simp: authorizeRecordsRead_def may_read_def control_authorizeRead_def Let_def fbind_eq_Inr split: if_splits)
next
  case False
  have "rules_allow_read n R tenant s rd (rw_message rw)" if "read_by_rules n R tenant s rd rw = Some (Inr x)" for x
    using read_by_rules_allowed [OF that] .
  with False assms show ?thesis unfolding authorizeRecordsRead_def may_read_def grant_allows_read_def Let_def
    by (auto simp: fbind_eq_Inr bind_eq_Inr split: if_splits option.splits)
qed

section \<open>What a reply discloses\<close>

text \<open>An entry shows the candidate it is made from: of a write the message and its data, of a deleted record
  the tombstone and the initial write.  The last argument is the write that was authorised.\<close>

definition entry_shows :: "read_env \<Rightarrow> jstr \<Rightarrow> node \<Rightarrow> message \<Rightarrow> read_entry \<Rightarrow> records_write \<Rightarrow> bool" where
  "entry_shows R tenant s c en rw \<longleftrightarrow> (case c of
     WriteMsg w \<Rightarrow> parse_write (ne_records (rh_node R)) w = Inr rw
       \<and> (en_recordsWrite en = Some w \<or> en_recordsWrite en = Some (detachEncodedData w)) \<and> en_recordsDelete en = None
       \<and> (\<forall>content. en_data en = Some content \<longrightarrow> (case w_encodedData w of
            Some e \<Rightarrow> content = rh_decode R e
          | None \<Rightarrow> \<exists>k. data_get (n_data s) tenant (w_recordId w) (wd_dataCid (w_descriptor w)) = Some (k, content)))
   | DeleteMsg d \<Rightarrow> (\<exists>i. fetchDeleteAuthorizationBasis R tenant s d = Inr (i, rw)
       \<and> (en_initialWrite en = Some i \<or> en_initialWrite en = Some (detachEncodedData i)))
       \<and> en_recordsWrite en = None \<and> en_recordsDelete en = Some d \<and> en_data en = None
   | OtherMsg _ \<Rightarrow> False)"

lemma no_entry [simp]: "rq_entry (plain_reply r) = None" "rq_entry not_found = None"
  by (simp_all add: plain_reply_def not_found_def)

lemma denied_no_entry: "denied_candidate p b e = Inr (Some r) \<Longrightarrow> rq_entry r = None"
  by (auto simp: denied_candidate_def split: if_splits)

lemma active_reply_shows:
  assumes "rq_entry (buildActiveRecordReply R tenant s rd w role) = Some en" and "parse_write (ne_records (rh_node R)) w = Inr rw"
  shows "entry_shows R tenant s (WriteMsg w) en rw"
  using assms by (auto simp: buildActiveRecordReply_def entry_shows_def Let_def split: sum.splits option.splits if_splits)

lemma deleted_reply_shows:
  assumes "rq_entry (buildDeletedRecordReply R tenant s rd d i role) = Some en" and "fetchDeleteAuthorizationBasis R tenant s d = Inr (i, rw)"
  shows "entry_shows R tenant s (DeleteMsg d) en rw"
  using assms by (auto simp: buildDeletedRecordReply_def entry_shows_def Let_def split: sum.splits if_splits)

lemma reply_discloses:
  assumes r: "reply_for_candidate n R tenant s rd p c b = Some (Inr (Some r))" and en: "rq_entry r = Some en"
  shows "\<exists>rw. entry_shows R tenant s c en rw \<and> may_read n R tenant s rd rw"
proof (cases c)
  case (WriteMsg w)
  from r en obtain rw role where "parse_write (ne_records (rh_node R)) w = Inr rw" "authorizeRecordsRead n R tenant s rd rw = Some (Inr role)"
    "r = buildActiveRecordReply R tenant s rd w role"
    by (auto simp: WriteMsg reply_for_candidate_def replyForWriteCandidate_def fbind_eq_Inr dest!: denied_no_entry
        split: if_splits sum.splits option.splits)
  with en WriteMsg show ?thesis using active_reply_shows authorizeRecordsRead_allowed by blast
next
  case (DeleteMsg d)
  from r en obtain i rw role where "fetchDeleteAuthorizationBasis R tenant s d = Inr (i, rw)" "authorizeRecordsRead n R tenant s rd rw = Some (Inr role)"
    "r = buildDeletedRecordReply R tenant s rd d i role"
    by (auto simp: DeleteMsg reply_for_candidate_def replyForTombstoneCandidate_def dest!: denied_no_entry
        split: if_splits sum.splits option.splits)
  with en DeleteMsg show ?thesis using deleted_reply_shows authorizeRecordsRead_allowed by blast
next
  case (OtherMsg x3)
  with r show ?thesis by (simp add: reply_for_candidate_def)
qed

lemma read_page_reply:
  "read_page reply b cs = Some (Inr (Some r)) \<Longrightarrow> \<exists>c \<in> set cs. \<exists>b'. reply c b' = Some (Inr (Some r))"
  by (induction cs) (auto simp: fbind_eq_Inr split: option.splits)

lemma read_loop_reply:
  "read_loop k query reply cur = Some (Inr r) \<Longrightarrow> r = not_found \<or>
     (\<exists>cursor cs more c b. query cursor = Inr (cs, more) \<and> c \<in> set cs \<and> reply c b = Some (Inr (Some r)))"
proof (induction k arbitrary: cur)
  case (Suc k)
  then obtain cs more where q: "query cur = Inr (cs, more)" by (auto split: sum.splits)
  show ?case
  proof (cases "cs = []")
    case False
    with Suc.prems q obtain x where x: "read_page reply (more \<noteq> None) cs = Some (Inr x)"
      "(case x of Some y \<Rightarrow> Some (Inr y) | None \<Rightarrow> if more = None then Some (Inr not_found) else read_loop k query reply more) = Some (Inr r)"
      by (auto simp: fbind_eq_Inr)
    show ?thesis
    proof (cases x)
      case None
      then show ?thesis using x(2) Suc.IH [of more] by (simp split: if_splits)
    next
      case (Some y)
      then have "y = r" using x(2) by simp
      with read_page_reply x(1) Some q show ?thesis by blast
    qed
  qed (use Suc.prems q in simp)
qed simp

lemma page_sound:
  assumes "core_ok E s" and "page_of_results s p l results = Inr (cs, nextCursor)" and "c \<in> set cs"
    and "\<And>it. it \<in> set results \<Longrightarrow> it \<in> set (ts_index s) \<and> matchAnyFilter (se_tn E) (snd it) fs"
  shows "\<exists>cid r. row_of s cid = Some r \<and> r_message r = c \<and> matchAnyFilter (se_tn E) (r_indexes r) fs"
proof -
  from assms(2) obtain its where its: "set its \<subseteq> set results" "cs = messages_of s its"
    by (auto simp: page_of_results_def bind_eq_Inr Let_def messages_of_def split: if_splits dest: in_set_butlastD)
  then obtain it where it: "it \<in> set results" "ms_get s (fst it) = Some c"
    using assms(3) by (auto simp: messages_of_def List.map_filter_def)
  from assms(4) [OF it(1)] have "(fst it, snd it) \<in> set (ts_index s)" "matchAnyFilter (se_tn E) (snd it) fs" by simp_all
  then obtain r where r: "row_of s (fst it) = Some r" "r_indexes r = snd it" "matchAnyFilter (se_tn E) (r_indexes r) fs"
    using index_rows(1) [OF assms(1), of "fst it" "snd it"] by auto
  moreover have "r_message r = c" using index_rows(2) [OF assms(1) r(1)] it(2) by simp
  ultimately show ?thesis by blast
qed

lemma ms_query_any_sound:
  assumes "core_ok E s" and "ms_query E s fs so pg = Inr (cs, nextCursor)" and "c \<in> set cs"
  shows "\<exists>cid r. row_of s cid = Some r \<and> r_message r = c \<and> matchAnyFilter (se_tn E) (r_indexes r) fs"
proof -
  from assms(2) obtain results where q: "index_query (se_tn E) (ts_index s) fs (buildQueryOptions so pg) = Inr results"
    "page_of_results s (qo_sortProperty (buildQueryOptions so pg)) (pn_limit pg) results = Inr (cs, nextCursor)"
    by (auto simp: ms_query_def bind_eq_Inr Let_def)
  from page_sound [OF assms(1) q(2) assms(3) index_query_sound [OF q(1)]] show ?thesis .
qed

lemma ms_query_sound:
  assumes "core_ok E s" and "ms_query E s [f] so pg = Inr (cs, nextCursor)" and "c \<in> set cs"
  shows "\<exists>cid r. row_of s cid = Some r \<and> r_message r = c \<and> matchFilter (se_tn E) (r_indexes r) f"
  using ms_query_any_sound [OF assms] by (auto simp: matchAnyFilter_iff)

lemma concise_modulePath:
  assumes "rf_modulePath (rm_filter m) \<noteq> None"
  shows "isFilterConcise (read_query m) q \<or> qo_cursor q \<noteq> None"
proof -
  let ?f = "rm_filter m"
  have keep: "map_of g ''modulePath'' \<noteq> None \<Longrightarrow> k \<noteq> ''modulePath'' \<Longrightarrow> map_of (drop_empty k g) ''modulePath'' \<noteq> None"
    "map_of g ''modulePath'' \<noteq> None \<Longrightarrow> map_of (convert_contextId ?f g) ''modulePath'' \<noteq> None"
    "map_of g ''modulePath'' \<noteq> None \<Longrightarrow> map_of (convert_dateUpdated ?f g) ''modulePath'' \<noteq> None"
    "map_of g ''modulePath'' \<noteq> None \<Longrightarrow> map_of (convert_datePublished ?f g) ''modulePath'' \<noteq> None"
    "map_of g ''modulePath'' \<noteq> None \<Longrightarrow> map_of (convert_dateCreated ?f g) ''modulePath'' \<noteq> None"
    "map_of g ''modulePath'' \<noteq> None \<Longrightarrow> map_of (convert_published_sort ds g) ''modulePath'' \<noteq> None" for g k ds
    by (simp_all add: drop_empty_def convert_contextId_def convert_dateUpdated_def convert_datePublished_def convert_dateCreated_def
        convert_published_sort_def update_conv' delete_conv' split: option.splits)
  obtain p where p: "rf_modulePath ?f = Some p" using assms by blast
  have "(''modulePath'', EqualF (SStr p)) \<in> set (remaining_filter ?f)" unfolding remaining_filter_def set_append
    by (rule UnI2, rule UnI2, rule UnI2, rule UnI2, rule UnI1) (simp add: opt_prop_def p)
  then have "''modulePath'' \<in> fst ` set (remaining_filter ?f)" by force
  then have "''modulePath'' \<in> fst ` set (spread (remaining_filter ?f) ts)" for ts by (simp add: spread_keys)
  then have "map_of (spread (remaining_filter ?f) ts) ''modulePath'' \<noteq> None" for ts by (simp add: map_of_eq_None_iff)
  then have "map_of (convertFilter ?f None) ''modulePath'' \<noteq> None" unfolding convertFilter_def
    by (intro keep) (simp_all only: not_False_eq_True list.inject char.inject simp_thms list.distinct)
  then have "''modulePath'' \<in> fst ` set (read_query m)" by (auto simp: read_query_def spread_keys map_of_eq_None_iff)
  then show ?thesis by (auto simp: isFilterConcise_def map_of_eq_None_iff)
qed

lemma timed_matches:
  assumes "core_ok E s" and "timed s" and "fst (convertDateSort (rm_dateSort m)) = ''messageTimestamp''"
  shows "dated_matches E s m"
  unfolding dated_matches_def assms(3)
proof (intro ballI impI)
  fix it assume "it \<in> set (ts_index s)"
  then obtain r where "row_of s (fst it) = Some r" "r_indexes r = snd it"
    using index_rows(1) [OF assms(1), of "fst it" "snd it"] by auto
  with assms(2) show "\<exists>t. map_of (snd it) ''messageTimestamp'' = Some (One (SStr t))" unfolding timed_def by metis
qed

lemma node_store_ok: "node_ok N s \<Longrightarrow> core_ok (ne_store N tenant) (n_messages s tenant) \<and> timed (n_messages s tenant)"
  using tenant_okD(2,5) by (simp add: node_ok_def) blast

section \<open>Example\<close>

text \<open>The tenant reads the record that was written, by module and path.\<close>

definition live_read_env :: read_env where
  "live_read_env = \<lparr>rh_handlers = live_env, rh_modules = open_env, rh_descriptorCid = (\<lambda>m. rm_timestamp m),
     rh_support = (\<lambda>_ _ _ _ _ _. Inr []), rh_decode = map of_nat\<rparr>"

definition path_filter :: records_filter where
  "path_filter = \<lparr>rf_author = None, rf_attester = None, rf_recipient = None, rf_module = Some (js ''a:b''), rf_modulePath = Some (js ''p''),
     rf_published = None, rf_contextId = None, rf_schema = None, rf_tags = None, rf_recordId = None, rf_parentId = None,
     rf_dataFormat = None, rf_dataSize = None, rf_dataCid = None, rf_dateCreated = None, rf_datePublished = None, rf_dateUpdated = None\<rparr>"

definition live_read :: "date_sort option \<Rightarrow> read_message" where
  "live_read so = \<lparr>rm_envelope = \<lparr>o_authorization = Some (live_signature \<lparr>sp_descriptorCid = day 2,
       sp_permissionGrantId = None, sp_permissionGrantIds = None, sp_delegatedGrantId = None, sp_moduleRole = None,
       sp_recordId = None, sp_contextId = None, sp_attestationCid = None, sp_encryptionCid = None\<rparr>),
     o_descriptor = \<lparr>od_interface = Records, od_method = Read, od_messageTimestamp = day 2, od_module = None, od_filterModule = Some (js ''a:b''),
       od_filterContextId = None, od_permissionGrantId = None, od_permissionGrantIds = None, od_definition = None\<rparr>\<rparr>,
     rm_filter = path_filter, rm_dateSort = so, rm_includeReplicationSupport = False\<rparr>"

lemma live_read_ok:
  "(case handle_read 5 live_read_env did live_state (live_read None) of
      Some (Inr r) \<Rightarrow> rp_code (rq_reply r) = 200 \<and> (case rq_entry r of Some en \<Rightarrow> en_data en = Some [1] | None \<Rightarrow> False) | _ \<Rightarrow> False)"
  by code_simp

lemma live_read_admitted:
  "(case parse_read live_read_env (live_read so) of Inr rd \<Rightarrow> rd_author rd = Some did | _ \<Rightarrow> False)"
  by code_simp

lemma live_state_ok: "node_ok (rh_node live_read_env) live_state"
proof -
  obtain rp s where r: "live_result = Inr (rp, s)" using live_accepted by (auto split: sum.splits prod.splits)
  have "live_state = s" unfolding live_state_def r by simp
  with r have "node_reachable live_env empty_node live_state"
    unfolding live_result_def by (auto intro: node_reachable.further [OF node_reachable.here node_step.written])
  from node_reachable_ok [OF this live_hash_ok live_hooks_ok empty_node_ok] show ?thesis by (simp add: live_read_env_def)
qed

section \<open>Properties\<close>

text \<open>C14: A read returns the first visible record.  For an admitted request on a consistent node, with fuel for one
  page more than the tenant has messages, the walk over pages of 25 candidates ends and its reply is that of the first
  candidate that is not skipped among all matching latest messages in the order of the request; nothing is found when
  all of them are skipped.  So neither the paging nor hidden records change which record is returned.  For requests
  ordered by publication or creation every match must have that date.\<close>

theorem read_first_visible:
  assumes "node_ok (rh_node R) s" and "read_admitted R m rd" and "assertValidSubtreeFilters [read_query m] = Inr ()"
    and "fst (convertDateSort (rm_dateSort m)) = ''messageTimestamp'' \<or> dated_matches (ne_store (rh_node R) tenant) (n_messages s tenant) m"
    and "length (ts_index (n_messages s tenant)) < n"
  shows "handle_read n R tenant s m = first_visible (reply_for_candidate n R tenant s rd (rf_recordId (rm_filter m) \<noteq> None))
     (read_candidates (ne_store (rh_node R) tenant) (n_messages s tenant) m)"
proof -
  have ok: "core_ok (ne_store (rh_node R) tenant) (n_messages s tenant)" "timed (n_messages s tenant)"
    using node_store_ok [OF assms(1)] by blast+
  then have "dated_matches (ne_store (rh_node R) tenant) (n_messages s tenant) m" using assms(4) timed_matches by blast
  from read_walk [OF ok(1) this assms(3) reply_skips assms(5)] show ?thesis
    unfolding handle_read_admitted [OF assms(2)] .
qed

theorem read_first_visible_witness:
  "\<exists>rd r. first_visible (reply_for_candidate 5 live_read_env did live_state rd False)
     (read_candidates (ne_store live_node_env did) (n_messages live_state did) (live_read None)) = Some (Inr r) \<and> rp_code (rq_reply r) = 200"
proof -
  obtain rd where p: "parse_read live_read_env (live_read None) = Inr rd"
    using live_read_admitted [of None] by (auto split: sum.splits)
  then have a: "read_admitted live_read_env (live_read None) rd"
    by (simp add: read_admitted_def live_read_env_def live_env_def)
  have v: "assertValidSubtreeFilters [read_query (live_read None)] = Inr ()" by code_simp
  have p: "fst (convertDateSort (rm_dateSort (live_read None))) = ''messageTimestamp''" by (simp add: live_read_def convertDateSort_def)
  have l: "length (ts_index (n_messages live_state did)) < 5" by code_simp
  have "rf_recordId (rm_filter (live_read None)) = None" "rh_node live_read_env = live_node_env"
    by (simp_all add: live_read_def path_filter_def live_read_env_def live_env_def)
  with read_first_visible [OF live_state_ok a v disjI1 [OF p] l] live_read_ok show ?thesis
    by (auto split: option.splits sum.splits)
qed

text \<open>C3: Nothing is disclosed to a reader without a right.  Every entry of a reply, on a consistent node, shows a stored
  message of the tenant that matches the request, made from its own data, and the requester may read the record
  (for a tombstone, judged by the newest retained write): as the tenant, since the record is published, as its
  recipient or author, by a grant of the tenant, or by a rule of the governing module definitions; a
  delegate needs the delegated grant as well.  A control record of encryption must be readable by its own rules.\<close>

theorem read_discloses_permitted:
  assumes "node_ok (rh_node R) s" and "handle_read n R tenant s m = Some (Inr r)" and "rq_entry r = Some en"
  shows "\<exists>rd rw cid row. read_admitted R m rd \<and> row_of (n_messages s tenant) cid = Some row
     \<and> matchFilter (se_tn (ne_store (rh_node R) tenant)) (r_indexes row) (read_query m)
     \<and> entry_shows R tenant s (r_message row) en rw \<and> may_read n R tenant s rd rw"
proof -
  obtain rd where a: "read_admitted R m rd"
    using assms(2,3) by (auto simp: handle_read_def read_admitted_def split: sum.splits option.splits prod.splits)
  have nf: "r \<noteq> not_found" using assms(3) by auto
  from read_loop_reply [OF assms(2) [unfolded handle_read_admitted [OF a]]] nf
  obtain cursor cs more c b where q: "ms_query (ne_store (rh_node R) tenant) (n_messages s tenant) [read_query m] (read_sort m)
      \<lparr>pn_limit = Some recordsReadPageSize, pn_cursor = cursor\<rparr> = Inr (cs, more)" "c \<in> set cs"
    and r: "reply_for_candidate n R tenant s rd (rf_recordId (rm_filter m) \<noteq> None) c b = Some (Inr (Some r))" by blast
  have "core_ok (ne_store (rh_node R) tenant) (n_messages s tenant)" using node_store_ok [OF assms(1)] by blast
  from ms_query_sound [OF this q] reply_discloses [OF r assms(3)] a show ?thesis by blast
qed

theorem read_discloses_permitted_witness:
  "\<exists>rd rw cid row en. row_of (n_messages live_state did) cid = Some row \<and> entry_shows live_read_env did live_state (r_message row) en rw
     \<and> may_read 5 live_read_env did live_state rd rw"
proof -
  obtain r en where "handle_read 5 live_read_env did live_state (live_read None) = Some (Inr r)" "rq_entry r = Some en"
    using live_read_ok by (auto split: option.splits sum.splits)
  from read_discloses_permitted [OF live_state_ok this] show ?thesis by blast
qed

text \<open>C30: A read by module path ordered by publication finds nothing as soon as one matching latest message
  has no publication date, though published records match: the handler does not restrict such a request to
  published records.\<close>

theorem published_order_shadowed:
  assumes "read_admitted R m rd" and "fst (convertDateSort (rm_dateSort m)) = ''datePublished''"
    and "rf_modulePath (rm_filter m) \<noteq> None" and "assertValidSubtreeFilters [read_query m] = Inr ()"
    and "it \<in> set (ts_index (n_messages s tenant))" and "map_of (snd it) ''datePublished'' = None"
    and "matchFilter (se_tn (ne_store (rh_node R) tenant)) (snd it) (read_query m)"
  shows "handle_read (Suc n) R tenant s m = Some (Inr not_found)"
proof -
  let ?q = "buildQueryOptions (read_sort m) \<lparr>pn_limit = Some recordsReadPageSize, pn_cursor = None\<rparr>"
  have "shouldQueryWithInMemoryPaging [read_query m] ?q"
    using concise_modulePath [OF assms(3), of ?q] by (simp add: shouldQueryWithInMemoryPaging_def read_options)
  moreover have "queryWithInMemoryPaging tn (ts_index (n_messages s tenant)) [read_query m] ?q = []"
    if "tn = se_tn (ne_store (rh_node R) tenant)" for tn
  proof -
    have "read_query m \<noteq> []"
    proof -
      have "''interface'' \<in> fst ` set (read_query m)" by (simp add: read_query_def spread_keys)
      then show ?thesis by auto
    qed
    then have "\<exists>x \<in> set (ts_index (n_messages s tenant)). map_of (snd x) (qo_sortProperty ?q) = None
        \<and> list_ex (\<lambda>f. f \<noteq> [] \<and> matchFilter tn (snd x) f) [read_query m]"
      using assms(2,5-7) that by (intro bexI [of _ it]) (simp_all add: read_options)
    then show ?thesis unfolding queryWithInMemoryPaging_def Let_def by (simp only: if_True)
  qed
  ultimately have "ms_query (ne_store (rh_node R) tenant) (n_messages s tenant) [read_query m] (read_sort m)
      \<lparr>pn_limit = Some recordsReadPageSize, pn_cursor = None\<rparr> = Inr ([], None)"
    using assms(4) by (simp add: ms_query_def index_query_def page_of_results_def List.map_filter_simps)
  then show ?thesis unfolding handle_read_admitted [OF assms(1)] by simp
qed

theorem published_order_shadowed_witness:
  "handle_read 5 live_read_env did live_state (live_read (Some PublishedAscending)) = Some (Inr not_found)"
proof -
  let ?m = "live_read (Some PublishedAscending)" and ?I = "ts_index (n_messages live_state did)"
  obtain rd where "parse_read live_read_env ?m = Inr rd"
    using live_read_admitted [of "Some PublishedAscending"] by (auto split: sum.splits)
  then have a: "read_admitted live_read_env ?m rd" by (simp add: read_admitted_def live_read_env_def live_env_def)
  have p: "fst (convertDateSort (rm_dateSort ?m)) = ''datePublished''" "rf_modulePath (rm_filter ?m) \<noteq> None"
    by (simp_all add: live_read_def convertDateSort_def path_filter_def)
  have v: "assertValidSubtreeFilters [read_query ?m] = Inr ()" by code_simp
  have "list_ex (\<lambda>it. map_of (snd it) ''datePublished'' = None \<and> matchFilter (se_tn (ne_store (rh_node live_read_env) did)) (snd it) (read_query ?m)) ?I"
    by code_simp
  then obtain it where it: "it \<in> set ?I" "map_of (snd it) ''datePublished'' = None"
    "matchFilter (se_tn (ne_store (rh_node live_read_env) did)) (snd it) (read_query ?m)" by (auto simp: list_ex_iff)
  have "handle_read (Suc 4) live_read_env did live_state ?m = Some (Inr not_found)"
    by (rule published_order_shadowed [OF a p v it])
  then show ?thesis by (simp add: eval_nat_numeral)
qed

end
