(* ===== verification/Control_Properties.thy ===== *)
theory Control_Properties
  imports Read_Properties Grant_Properties
begin

text \<open>
  What holds of the control records of encryption: the current audience record of a role is the same
  on every node that stores the same records, a control record is accepted only when its writer may create the role
  and the record fits it, and delivered keys are only read by those they are meant for.
\<close>

section \<open>The current audience\<close>

definition audience_rank :: "jstr \<Rightarrow> write_message \<Rightarrow> bool \<times> jstr \<times> jstr" where
  "audience_rank tenant w = (getSigner (WriteMsg w) \<noteq> Some tenant, wd_dateCreated (w_descriptor w), w_recordId w)"

lemma compare_rank: "compareAudienceProjectionCandidates tenant l r \<le> 0 \<longleftrightarrow> audience_rank tenant l \<le> audience_rank tenant r"
  by (auto simp: compareAudienceProjectionCandidates_def audience_rank_def lexicographicalCompare_def Let_def)

lemma sort_by_key:
  assumes "\<And>x y. cmp x y \<le> 0 \<longleftrightarrow> f x \<le> (f y :: 'k :: linorder)"
  shows "sort_by cmp xs = sort_key f xs"
proof -
  have "insert_by cmp x ys = insort_key f x ys" for x ys by (induction ys) (simp_all add: assms)
  then have "insert_by cmp = insort_key f" by (intro ext)
  then show ?thesis by (simp add: sort_by_def sort_key_def)
qed

lemma audience_tuples_all:
  assumes "\<forall>w \<in> set ws. \<exists>k. getRoleAudienceKeyId w AudienceRecord = Inr k \<and> tuple_of k = tuple"
  shows "audience_tuples ws = Inr (map (\<lambda>w. (w, tuple)) ws)"
  using assms by (induction ws) auto

lemma remdups_const: "set xs = {t} \<Longrightarrow> remdups xs = [t]"
proof (induction xs)
  case (Cons x xs)
  then show ?case by (cases "xs = []") (auto simp: subset_singleton_iff)
qed simp

lemma one_group:
  assumes "xs \<noteq> []" and "\<And>x y. cmp x y \<le> 0 \<longleftrightarrow> f x \<le> (f y :: 'k :: linorder)"
  shows "selectOccupantRecordIds snd (\<lambda>l r. cmp (fst l) (fst r)) (\<lambda>x. rid (fst x)) 1 (map (\<lambda>w. (w, t)) xs) = [rid (hd (sort_key f xs))]"
proof -
  have "remdups_first (map snd (map (\<lambda>w. (w, t)) xs)) = [t]"
  proof -
    have "set (rev (map snd (map (\<lambda>w. (w, t)) xs))) = {t}" using assms(1) by (cases xs) auto
    from remdups_const [OF this] show ?thesis by (simp add: remdups_first_def)
  qed
  moreover have "sort_by (\<lambda>l r. cmp (fst l) (fst r)) (map (\<lambda>w. (w, t)) ys) = map (\<lambda>w. (w, t)) (sort_key f ys)" for ys
  proof (induction ys)
    case (Cons y ys)
    have "insert_by (\<lambda>l r. cmp (fst l) (fst r)) (y, t) (map (\<lambda>w. (w, t)) zs) = map (\<lambda>w. (w, t)) (insort_key f y zs)" for zs
      by (induction zs) (simp_all add: assms(2))
    with Cons show ?case by (simp add: sort_by_def)
  qed (simp add: sort_by_def)
  moreover have "sort_key f xs \<noteq> []" using assms(1) by (metis set_empty set_sort)
  ultimately show ?thesis
    by (simp add: selectOccupantRecordIds_def filter_map comp_def take_map take_Suc remdups_first_def)
qed

lemma resolveCurrentAudienceRecord_least:
  assumes q: "queryStoredAudienceRecordsForTuple N s tenant tuple = Inr ws" and d: "distinct (map w_recordId ws)"
    and t: "\<forall>w \<in> set ws. \<exists>k. getRoleAudienceKeyId w AudienceRecord = Inr k \<and> tuple_of k = tuple"
  shows "\<exists>r. resolveCurrentAudienceRecord N s tenant tuple = Inr r \<and> (case r of
     None \<Rightarrow> ws = []
   | Some w \<Rightarrow> w \<in> set ws \<and> (\<forall>v \<in> set ws. v \<noteq> w \<longrightarrow> audience_rank tenant w < audience_rank tenant v))"
proof (cases "ws = []")
  case True
  then show ?thesis using q by (simp add: resolveCurrentAudienceRecord_def selectOccupantRecordIds_def remdups_first_def)
next
  case False
  let ?f = "audience_rank tenant" and ?w = "hd (sort_key (audience_rank tenant) ws)"
  have ne: "sort_key ?f ws \<noteq> []" using False by (metis set_empty set_sort)
  then have mem: "?w \<in> set ws" using hd_in_set set_sort by metis
  have le: "?f ?w \<le> ?f v" if "v \<in> set ws" for v
  proof -
    have "sorted (map ?f (sort_key ?f ws))" by simp
    with ne have "\<forall>x \<in> set (sort_key ?f ws). ?f ?w \<le> ?f x" by (cases "sort_key ?f ws") auto
    with that show ?thesis by simp
  qed
  have inj: "v = ?w" if "v \<in> set ws" "w_recordId v = w_recordId ?w" for v
    using d that mem by (auto simp: distinct_map inj_on_def)
  have "find (\<lambda>w. w_recordId w = w_recordId ?w) ws = Some ?w"
  proof (cases "find (\<lambda>w. w_recordId w = w_recordId ?w) ws")
    case None
    then show ?thesis using mem by (auto simp: find_None_iff)
  next
    case (Some v)
    then have "v \<in> set ws" "w_recordId v = w_recordId ?w" by (auto simp: find_Some_iff)
    with inj Some show ?thesis by simp
  qed
  moreover have "?f ?w < ?f v" if "v \<in> set ws" "v \<noteq> ?w" for v
    using le [OF that(1)] inj [OF that(1)] that(2) by (auto simp: audience_rank_def order_le_less)
  moreover have g: "selectOccupantRecordIds snd (\<lambda>l r. compareAudienceProjectionCandidates tenant (fst l) (fst r)) (\<lambda>x. w_recordId (fst x)) 1
      (map (\<lambda>w. (w, tuple)) ws) = [w_recordId ?w]" by (rule one_group [OF False compare_rank])
  ultimately show ?thesis
    using q audience_tuples_all [OF t] g mem
    by (simp add: resolveCurrentAudienceRecord_def)
qed

text \<open>A query by path returns each record once.\<close>

lemma concise_query:
  assumes ok: "core_ok E s" and c: "map_of f ''modulePath'' \<noteq> None"
    and q: "ms_query E s [f] so no_pagination = Inr (ms, cursor)"
  shows "distinct (map (getCid (se_cids E)) ms)"
proof -
  let ?q = "buildQueryOptions so no_pagination"
  let ?M = "\<lambda>it. matchAnyFilter (se_tn E) (snd it) [f] \<and> map_of (snd it) (qo_sortProperty ?q) \<noteq> None"
  have o: "qo_cursor ?q = None" "qo_limit ?q = None" by (simp_all add: buildQueryOptions_def no_pagination_def Let_def split_beta)
  then have "shouldQueryWithInMemoryPaging [f] ?q" using c by (simp add: shouldQueryWithInMemoryPaging_def isFilterConcise_def)
  with q obtain items where items: "items = queryWithInMemoryPaging (se_tn E) (ts_index s) [f] ?q" "ms = messages_of s items"
    by (auto simp: ms_query_def index_query_def page_of_results_def bind_eq_Inr messages_of_def no_pagination_def)
  have it: "items = [] \<or> items = sortItems (qo_sortProperty ?q) (qo_sortDirection ?q) (filter ?M (ts_index s))"
    unfolding items(1) queryWithInMemoryPaging_def Let_def o by simp
  have "distinct (map fst (filter ?M (ts_index s)))" using level.distinct_keys [OF core_okD(2) [OF ok]] by (rule distinct_map_filter)
  then have d: "distinct (map fst items)" using it by (cases "qo_sortDirection ?q") (auto simp: sortItems_def distinct_map)
  have "set items \<subseteq> set (ts_index s)" using it by (auto simp: set_sortItems)
  then have "map (getCid (se_cids E)) (messages_of s items) = map fst items"
  proof (induction items)
    case (Cons x xs)
    then have "(fst x, snd x) \<in> set (ts_index s)" by simp
    then obtain r where "row_of s (fst x) = Some r" using index_rows(1) [OF ok, of "fst x" "snd x"] by blast
    from index_rows(2) [OF ok this] Cons show ?case by (simp add: messages_of_def map_filter_Cons)
  qed (simp add: messages_of_def)
  with d items(2) show ?thesis by simp
qed

lemma latest_records_distinct:
  assumes ok: "tenant_ok E s" and d: "distinct (map (getCid (se_cids E)) ms)"
    and l: "\<And>w. WriteMsg w \<in> set ms \<Longrightarrow> \<exists>c r. row_of s c = Some r \<and> r_message r = WriteMsg w \<and> latest_row r"
  shows "distinct (map w_recordId (writes_of ms))"
  using d l
proof (induction ms)
  case (Cons m ms)
  show ?case
  proof (cases m)
    case (WriteMsg w)
    have "w_recordId v \<noteq> w_recordId w" if "WriteMsg v \<in> set ms" for v
    proof
      assume eq: "w_recordId v = w_recordId w"
      have mem: "WriteMsg w \<in> set (m # ms)" "WriteMsg v \<in> set (m # ms)" using WriteMsg that by simp_all
      obtain c r c' r' where r: "row_of s c = Some r" "r_message r = WriteMsg w" "latest_row r"
        "row_of s c' = Some r'" "r_message r' = WriteMsg v" "latest_row r'"
        using Cons.prems(2) [OF mem(1)] Cons.prems(2) [OF mem(2)] by blast
      then have "of_record (w_recordId w) r" "of_record (w_recordId w) r'" using eq by (simp_all add: of_record_def)
      with r have "c = c'" using tenant_okD(4) [OF ok] unfolding single_latest_def by blast
      then have "getCid (se_cids E) (WriteMsg w) = getCid (se_cids E) (WriteMsg v)" using r by simp
      with Cons.prems(1) WriteMsg that show False by (auto simp: image_iff)
    qed
    moreover have "v \<in> set (writes_of ms) \<longleftrightarrow> WriteMsg v \<in> set ms" for v
      by (force simp: writes_of_def List.map_filter_def split: message.splits)
    ultimately have "w_recordId w \<notin> w_recordId ` set (writes_of ms)" by force
    with Cons WriteMsg show ?thesis by (simp add: writes_of_def map_filter_Cons)
  qed (use Cons in \<open>auto simp: writes_of_def map_filter_Cons\<close>)
qed (simp add: writes_of_def)

lemma stored_audience_distinct:
  assumes ok: "node_ok N s" and q: "queryStoredAudienceRecordsForTuple N s tenant tuple = Inr ws"
  shows "distinct (map w_recordId ws)"
proof -
  let ?E = "ne_store N tenant" and ?s = "n_messages s tenant"
  obtain u p c where t: "tuple = (u, p, c)" by (cases tuple)
  define f where "f = [(''interface'', EqualF (SStr (js ''Records''))), (''method'', EqualF (SStr (js ''Write''))),
         (''isLatestBaseState'', EqualF (SBool True)), (''module'', EqualF (SStr u)),
         (''modulePath'', EqualF (SStr ENCRYPTION_CONTROL_AUDIENCE_PATH)), (''tag.module'', EqualF (SStr u)),
         (''tag.rolePath'', EqualF (SStr p)), (''tag.contextId'', EqualF (SStr c))]"
  have f: "map_of f ''modulePath'' \<noteq> None" "map_of f ''isLatestBaseState'' = Some (EqualF (SBool True))"
    by (simp_all add: f_def)
  from q obtain ms cursor where
    ms: "ms_query ?E ?s [f] (no_sort\<lparr>ms_dateCreated := Some Ascending\<rparr>) no_pagination = Inr (ms, cursor)" "ws = writes_of ms"
    unfolding queryStoredAudienceRecordsForTuple_def t f_def by (auto simp: bind_eq_Inr)
  have T: "tenant_ok ?E ?s" using ok by (simp add: node_ok_def)
  note co = tenant_okD(2) [OF T]
  have l: "\<exists>cid r. row_of ?s cid = Some r \<and> r_message r = WriteMsg w \<and> latest_row r" if "WriteMsg w \<in> set ms" for w
  proof -
    from ms_query_sound [OF co ms(1) that] obtain cid r where r: "row_of ?s cid = Some r" "r_message r = WriteMsg w"
      "matchFilter (se_tn ?E) (r_indexes r) f" by blast
    then obtain b where "map_of (r_indexes r) ''isLatestBaseState'' = Some (One (SBool b))"
      using tenant_okD(3) [OF T r(1)] by (auto simp: row_ok_def record_values_def)
    with matchFilter_equal [OF r(3) f(2)] r(1,2) show ?thesis by (auto simp: latest_row_def)
  qed
  from latest_records_distinct [OF T concise_query [OF co f(1) ms(1)] l] ms(2) show ?thesis by blast
qed

section \<open>Who may create a role\<close>














section \<open>Accepted control records\<close>

text \<open>The handlers with the checks on control records in place of their parameters.\<close>

definition control_modules :: "nat \<Rightarrow> node_env \<Rightarrow> control_env \<Rightarrow> module_env \<Rightarrow> module_env" where
  "control_modules n N K M = M\<lparr>
     me_control_referential := \<lambda>tenant s rw. settle (control_validateReferentialIntegrity n N M s tenant rw),
     me_control_stored := \<lambda>tenant s rw. settle (validateStoredControlRecord n N M K s tenant rw)\<rparr>"

definition with_control :: "nat \<Rightarrow> control_env \<Rightarrow> module_env \<Rightarrow> handler_env \<Rightarrow> handler_env" where
  "with_control n K M H = (with_modules n (control_modules n (he_node H) K M) H)\<lparr>
     he_control_authorize := \<lambda>tenant s rw. settle (control_authorizeWrite n (he_node H) M s tenant rw),
     he_control_pre := \<lambda>tenant s w. settle (control_preProcessWrite n (he_node H) M s tenant w),
     he_control_validate := \<lambda>tenant s w content. settle (control_validateRecord n (he_node H) M K s tenant w content)\<rparr>"

lemma with_control_simps [simp]:
  "he_node (with_control n K M H) = he_node H" "he_authenticate (with_control n K M H) = he_authenticate H"
  "he_referential (with_control n K M H) tenant s rw = settle (validateReferentialIntegrity n (he_node H) (control_modules n (he_node H) K M) s tenant rw)"
  "he_control_authorize (with_control n K M H) tenant s rw = settle (control_authorizeWrite n (he_node H) M s tenant rw)"
  "he_control_pre (with_control n K M H) tenant s w = settle (control_preProcessWrite n (he_node H) M s tenant w)"
  "he_control_validate (with_control n K M H) tenant s w content = settle (control_validateRecord n (he_node H) M K s tenant w content)"
  "me_control_referential (control_modules n N K M) tenant s rw = settle (control_validateReferentialIntegrity n N M s tenant rw)"
  by (simp_all add: with_control_def control_modules_def with_modules_def)














section \<open>Example\<close>

text \<open>A module with a role that has a key, its audience record, and a reader of audience payloads.\<close>

definition club_module :: module_definition where
  "club_module = \<lparr>md_module = js ''a:b'', md_published = True, md_uses = None, md_types = [(js ''r'', plain_type)],
     md_structure = [(js ''r'', RuleSet (Some [5]) None True None None None None False False [])]\<rparr>"

definition club_env :: module_env where
  "club_env = open_env\<lparr>me_core := [(js ''a:b'', club_module)]\<rparr>"

definition club_key :: audience_key where
  "club_key = \<lparr>ak_module = js ''a:b'', ak_rolePath = js ''r'', ak_contextId = [], ak_keyId = [6]\<rparr>"

definition club_control :: control_env where
  "club_control = \<lparr>ce_payload = (\<lambda>_. Inr \<lparr>ap_key = club_key, ap_publicKeyJwk = [6], ap_sealKeyId = [5]\<rparr>), ce_decode = map of_nat\<rparr>"

definition club_audience :: "jstr \<Rightarrow> write_message" where
  "club_audience r = (let w = live_write r r None in w\<lparr>w_descriptor := (w_descriptor w)\<lparr>
     wd_modulePath := ENCRYPTION_CONTROL_AUDIENCE_PATH,
     wd_tags := Some [(''module'', One (SStr (js ''a:b''))), (''rolePath'', One (SStr (js ''r''))),
       (''contextId'', One (SStr [])), (''keyId'', One (SStr [6]))]\<rparr>\<rparr>)"

definition club_result :: "(reply \<times> node) result" where
  "club_result = handle_write (with_control 5 club_control club_env live_env) did empty_node (club_audience (day 1)) (Some [1])"

lemma club_accepted: "(case club_result of Inl _ \<Rightarrow> False | Inr (rp, s) \<Rightarrow> rp_code rp = 202)"
  by code_simp

definition club_node :: node where
  "club_node = snd (projr club_result)"

lemma club_reachable: "node_reachable (with_control 5 club_control club_env live_env) empty_node club_node"
proof -
  obtain rp s where r: "club_result = Inr (rp, s)" using club_accepted by (auto split: sum.splits prod.splits)
  have "club_node = s" unfolding club_node_def r by simp
  with r show ?thesis unfolding club_result_def by (auto intro: node_reachable.further [OF node_reachable.here node_step.written])
qed

lemma club_hooks: "hooks_ok (with_control 5 club_control club_env live_env)"
  using live_hooks_ok by (simp add: hooks_ok_def with_control_def with_modules_def)

lemma club_node_ok: "node_ok live_node_env club_node"
  using node_reachable_ok [OF club_reachable _ club_hooks] live_hash_ok empty_node_ok by (simp add: live_env_def)

lemma club_stored:
  "queryStoredAudienceRecordsForTuple live_node_env club_node did (tuple_of club_key) = Inr [(club_audience (day 1))\<lparr>w_encodedData := Some [1]\<rparr>]"
  by code_simp

text \<open>A delegate of a stranger: the signer holds a delegated grant that the stranger issued.\<close>

definition stranger_node_env :: node_env where
  "stranger_node_env = live_node_env\<lparr>ne_records := (ne_records live_node_env)\<lparr>re_grant := \<lambda>_. Inr \<lparr>gd_dateExpires = Some (day 9),
     gd_delegated = Some True, gd_scope = Some \<lparr>ps_interface = Records, ps_method = Write, ps_module = Some (js ''a:b''),
       ps_contextId = None, ps_modulePath = None\<rparr>, gd_publication = None\<rparr>\<rparr>\<rparr>"

definition stranger_env :: handler_env where
  "stranger_env = live_env\<lparr>he_node := stranger_node_env, he_core := []\<rparr>"

definition stranger_grant :: delegated_grant where
  "stranger_grant = \<lparr>dg_signature = a_signature (w_authorization (live_write (day 1) (day 1) None)), dg_recordId = [7], dg_contextId = [7],
     dg_descriptor = (w_descriptor (live_write (day 1) (day 1) None))\<lparr>wd_recipient := Some (js ''did:b'')\<rparr>, dg_encodedData = []\<rparr>"

definition stranger_audience :: write_message where
  "stranger_audience = (let w = club_audience (day 2); a = w_authorization w; j = a_signature a in
     w\<lparr>w_authorization := a\<lparr>a_signature := j\<lparr>jws_kid := js ''did:b#k'',
          jws_payload := map_option (\<lambda>p. p\<lparr>sp_delegatedGrantId := Some (cid_grant live_cids stranger_grant)\<rparr>) (jws_payload j)\<rparr>,
        a_authorDelegatedGrant := Some stranger_grant\<rparr>\<rparr>)"

definition stranger_write :: records_write where
  "stranger_write = projr (parse_write (ne_records stranger_node_env) stranger_audience)"

lemma stranger_checks:
  "(case author_delegate_grant (ne_records stranger_node_env) (a_authorDelegatedGrant (w_authorization (rw_message stranger_write))) of
      Inl _ \<Rightarrow> False
    | Inr g \<Rightarrow> performBaseValidation stranger_node_env empty_node (WriteMsg (rw_message stranger_write)) did
          (getSignerDid (a_signature (w_authorization (rw_message stranger_write)))) g None = Inr ()
        \<and> verifyGrantConditions (rw_message stranger_write) g = Inr () \<and> grantCoversRoleCreate g club_key)"
  by code_simp

lemma stranger_role:
  "(case verifyRoleAudienceDefinition 5 stranger_node_env club_env empty_node host club_key (rw_message stranger_write)
        (getRecordType (rw_message stranger_write)) of Some (Inr _) \<Rightarrow> True | _ \<Rightarrow> False)"
  by code_simp

lemma stranger_values:
  "isControlMessage (rw_message stranger_write)" "isSignedByAuthorDelegate (WriteMsg (rw_message stranger_write))"
  "rw_author stranger_write = Some did" "rw_owner stranger_write = None"
  "getRoleAudienceKeyId (rw_message stranger_write) (getRecordType (rw_message stranger_write)) = Inr club_key"
  "invoked_role (a_signature (w_authorization (rw_message stranger_write))) = Inr None"
  by code_simp+

lemma stranger_accepted:
  "(case handle_write (with_control 5 club_control club_env stranger_env) host empty_node stranger_audience (Some [1]) of
     Inl _ \<Rightarrow> False | Inr (rp, s) \<Rightarrow> rp_code rp = 202)"
  by code_simp

section \<open>Properties\<close>



text \<open>C20: Nodes agree on the current audience record.  On two consistent nodes that store the same audience records of a role
  and context, the current record is the same: there is one unless none is stored, and it is the first by tenant
  signature, then date of creation, then record id, whatever the order in which the records arrived.\<close>

theorem current_audience_converges:
  assumes "node_ok N s" and "node_ok N' s'"
    and "queryStoredAudienceRecordsForTuple N s tenant tuple = Inr ws" and "queryStoredAudienceRecordsForTuple N' s' tenant tuple = Inr ws'"
    and "set ws' = set ws" and "\<forall>w \<in> set ws. \<exists>k. getRoleAudienceKeyId w AudienceRecord = Inr k \<and> tuple_of k = tuple"
  shows "\<exists>r. resolveCurrentAudienceRecord N s tenant tuple = Inr r \<and> resolveCurrentAudienceRecord N' s' tenant tuple = Inr r
     \<and> (case r of None \<Rightarrow> ws = []
        | Some w \<Rightarrow> w \<in> set ws \<and> (\<forall>v \<in> set ws. v \<noteq> w \<longrightarrow> audience_rank tenant w < audience_rank tenant v))"
proof -
  obtain r where r: "resolveCurrentAudienceRecord N s tenant tuple = Inr r" "case r of None \<Rightarrow> ws = []
      | Some w \<Rightarrow> w \<in> set ws \<and> (\<forall>v \<in> set ws. v \<noteq> w \<longrightarrow> audience_rank tenant w < audience_rank tenant v)"
    using resolveCurrentAudienceRecord_least [OF assms(3) stored_audience_distinct [OF assms(1,3)] assms(6)] by blast
  have "\<forall>w \<in> set ws'. \<exists>k. getRoleAudienceKeyId w AudienceRecord = Inr k \<and> tuple_of k = tuple" using assms(5,6) by simp
  from resolveCurrentAudienceRecord_least [OF assms(4) stored_audience_distinct [OF assms(2,4)] this]
  obtain r' where r': "resolveCurrentAudienceRecord N' s' tenant tuple = Inr r'" "case r' of None \<Rightarrow> ws' = []
      | Some w \<Rightarrow> w \<in> set ws' \<and> (\<forall>v \<in> set ws'. v \<noteq> w \<longrightarrow> audience_rank tenant w < audience_rank tenant v)" by blast
  have "r' = r"
  proof (cases "ws = []")
    case True
    then have "ws' = []" using assms(5) by simp
    with True r(2) r'(2) show ?thesis by (auto split: option.splits)
  next
    case False
    then have "ws' \<noteq> []" using assms(5) by auto
    with False r(2) r'(2) obtain v w where vw: "r = Some v" "r' = Some w" by (auto split: option.splits)
    show ?thesis
    proof (rule ccontr)
      assume "r' \<noteq> r"
      then have "v \<noteq> w" using vw by simp
      then have "audience_rank tenant v < audience_rank tenant w" "audience_rank tenant w < audience_rank tenant v"
        using r(2) r'(2) vw assms(5) by auto
      then show False by simp
    qed
  qed
  with r r'(1) show ?thesis by blast
qed

theorem current_audience_converges_witness:
  "resolveCurrentAudienceRecord live_node_env club_node did (tuple_of club_key) = Inr (Some ((club_audience (day 1))\<lparr>w_encodedData := Some [1]\<rparr>))"
proof -
  let ?w = "(club_audience (day 1))\<lparr>w_encodedData := Some [1]\<rparr>"
  have t: "\<forall>w \<in> set [?w]. \<exists>k. getRoleAudienceKeyId w AudienceRecord = Inr k \<and> tuple_of k = tuple_of club_key"
  proof -
    have "getRoleAudienceKeyId ?w AudienceRecord = Inr club_key" by code_simp
    then show ?thesis by auto
  qed
  from current_audience_converges [OF club_node_ok club_node_ok club_stored club_stored refl t] show ?thesis
    by (auto split: option.splits)
qed

text \<open>C28: The delegate of any author may write control records.  A control record signed by the holder of a delegated grant for
  writes that covers its role is authorised on every tenant, whoever issued the grant: neither the author
  nor the grantor is compared with the tenant, and no rule of the role is needed.\<close>

theorem self_issued_grant_suffices:
  assumes "isControlMessage (rw_message rw)" and "isSignedByAuthorDelegate (WriteMsg (rw_message rw))"
    and "rw_author rw = Some author" and "rw_owner rw = None"
    and "getRoleAudienceKeyId (rw_message rw) (getRecordType (rw_message rw)) = Inr tags"
    and "invoked_role (a_signature (w_authorization (rw_message rw))) = Inr role"
    and "author_delegate_grant (ne_records (he_node H)) (a_authorDelegatedGrant (w_authorization (rw_message rw))) = Inr g"
    and "performBaseValidation (he_node H) s (WriteMsg (rw_message rw)) author (getSignerDid (a_signature (w_authorization (rw_message rw)))) g None = Inr ()"
    and "verifyGrantConditions (rw_message rw) g = Inr ()" and "grantCoversRoleCreate g tags"
    and "verifyRoleAudienceDefinition n (he_node H) M s tenant tags (rw_message rw) (getRecordType (rw_message rw)) = Some (Inr x)"
  shows "authorizeRecordsWrite (with_control n K M H) tenant s rw = Inr ()"
proof -
  have "resolveEffectiveControlActor (he_node H) s tenant rw
      = Inr \<lparr>ca_did = Some (getSignerDid (a_signature (w_authorization (rw_message rw)))), ca_grant = Some g\<rparr>"
    using assms(2,3,7-9) by (simp add: resolveEffectiveControlActor_def granted_actor_def Let_def)
  then have "control_authorizeWrite n (he_node H) M s tenant rw = Some (Inr ())"
    using assms(5,6,10,11) by (cases x) (simp add: control_authorizeWrite_def verifyActorCanCreateRole_def actorCanCreateRole_def Let_def)
  with assms(1,4) show ?thesis by (simp add: authorizeRecordsWrite_def Let_def)
qed

theorem self_issued_grant_suffices_witness:
  "rw_author stranger_write = Some did \<and> did \<noteq> host
   \<and> authorizeRecordsWrite (with_control 5 club_control club_env stranger_env) host empty_node stranger_write = Inr ()"
proof -
  have n: "he_node stranger_env = stranger_node_env" by (simp add: stranger_env_def)
  obtain g where g: "author_delegate_grant (ne_records stranger_node_env) (a_authorDelegatedGrant (w_authorization (rw_message stranger_write))) = Inr g"
    "performBaseValidation stranger_node_env empty_node (WriteMsg (rw_message stranger_write)) did
       (getSignerDid (a_signature (w_authorization (rw_message stranger_write)))) g None = Inr ()"
    "verifyGrantConditions (rw_message stranger_write) g = Inr ()" "grantCoversRoleCreate g club_key"
    using stranger_checks by (auto split: sum.splits)
  obtain x where x: "verifyRoleAudienceDefinition 5 stranger_node_env club_env empty_node host club_key (rw_message stranger_write)
      (getRecordType (rw_message stranger_write)) = Some (Inr x)"
    using stranger_role by (auto split: option.splits sum.splits)
  have d: "did \<noteq> host" by simp
  from self_issued_grant_suffices [of stranger_write did club_key None stranger_env g empty_node 5 club_env host x club_control, unfolded n,
      OF stranger_values g x] stranger_values(3) d show ?thesis by blast
qed

end
