(* ===== verification/Records_Collection.thy ===== *)
theory Records_Collection
  imports Records_Read
begin

text \<open>
  The collection requests on records (\<open>handlers/records-collection.ts\<close>, \<open>handlers/records-query.ts\<close>, \<open>handlers/records-count.ts\<close>,
  their interfaces, \<open>utils/initial-write-attachment.ts\<close> and the occupancy of a filter in \<open>utils/record-limit-occupancy.ts\<close> of
  \<open>src/packages/dwn-sdk-js/src\<close>): who may ask, the filters that select what the requester may see, the pages
  of a query with the control records removed that the requester may not read, and the count of the same population.

  One record stands for the messages of queries and counts; a count has no sort and no pagination.  The CID of the request
  descriptor is a parameter.  The pages of a query run on fuel.  A request that invokes a role without naming
  a module is outside the model and ends in an error here.
\<close>

section \<open>Requests\<close>

record collection_message =
  qm_envelope :: other_message
  qm_filter :: records_filter
  qm_dateSort :: "date_sort option"
  qm_pagination :: "pagination option"

record records_collection =
  rc_message :: collection_message
  rc_author :: "jstr option"
  rc_signaturePayload :: "signature_payload option"

record collection_env =
  co_handlers :: handler_env
  co_modules :: module_env
  co_descriptorCid :: "collection_message \<Rightarrow> jstr"

abbreviation co_node :: "collection_env \<Rightarrow> node_env" where
  "co_node R \<equiv> he_node (co_handlers R)"

abbreviation qm_timestamp :: "collection_message \<Rightarrow> jstr" where
  "qm_timestamp m \<equiv> od_messageTimestamp (o_descriptor (qm_envelope m))"

text \<open>The part of the two \<open>parse\<close> methods that differs in the error codes only.\<close>

definition parse_collection :: "collection_env \<Rightarrow> string \<Rightarrow> string \<Rightarrow> jstr \<Rightarrow> collection_message \<Rightarrow> records_collection result" where
  "parse_collection R nestedCode missingCode operationName m =
     (let E = ne_records (co_node R); e = qm_envelope m; f = qm_filter m in
      bind (case o_authorization e of
              None \<Rightarrow> Inr None
            | Some a \<Rightarrow> bind (validateSignatureStructure ((re_cids E)\<lparr>cid_descriptor := (\<lambda>_. co_descriptorCid R m)\<rparr>) (re_payload_schema E)
                (a_signature a) (OtherD (o_descriptor e)) ''GenericSignaturePayload'' True) (\<lambda>p. Inr (Some p))) (\<lambda>signaturePayload.
      bind (validateDelegatedGrantReferentialIntegrity E (OtherMsg e) signaturePayload None) (\<lambda>_.
      bind (validateNestedModulePathScope f nestedCode operationName False) (\<lambda>_.
      if if_some (\<lambda>p. sp_moduleRole p \<noteq> None) signaturePayload \<and> rf_modulePath f = None then Inl (DwnError missingCode [])
      else bind (case rf_module f of None \<Rightarrow> Inr () | Some u \<Rightarrow> validateModuleUrlNormalized E u) (\<lambda>_.
           bind (case rf_schema f of None \<Rightarrow> Inr () | Some u \<Rightarrow> validateSchemaUrlNormalized E u) (\<lambda>_.
           bind (validateTimestamp (qm_timestamp m)) (\<lambda>_.
           Inr \<lparr>rc_message = m, rc_author = getAuthor (OtherMsg e), rc_signaturePayload = signaturePayload\<rparr>)))))))"

definition parse_query :: "collection_env \<Rightarrow> collection_message \<Rightarrow> records_collection result" where
  "parse_query R m =
     (if rf_published (qm_filter m) = Some False \<and> (qm_dateSort m = Some PublishedAscending \<or> qm_dateSort m = Some PublishedDescending)
      then Inl (DwnError ''RecordsQueryParseFilterPublishedSortInvalid'' [])
      else parse_collection R ''RecordsQueryNestedModulePathContextIdInvalid'' ''RecordsQueryFilterMissingRequiredProperties'' (js ''RecordsQuery'') m)"

definition parse_count :: "collection_env \<Rightarrow> collection_message \<Rightarrow> records_collection result" where
  "parse_count R m =
     parse_collection R ''RecordsCountNestedModulePathContextIdInvalid'' ''RecordsCountFilterMissingRequiredProperties'' (js ''RecordsCount'') m"

section \<open>Who may ask\<close>

datatype visibility = NonOwner | Owner | PublishedOnly

record collection_authorization =
  cz_permissionGrantId :: "jstr option"
  cz_resolvedRole :: "module_role option"
  cz_visibility :: visibility

definition collection_authorizeDelegate :: "collection_env \<Rightarrow> node \<Rightarrow> records_collection \<Rightarrow> unit result" where
  "collection_authorizeDelegate R s rc =
     (let e = qm_envelope (rc_message rc) in case o_authorization e of
        None \<Rightarrow> Inl (OtherError (js ''TypeError''))
      | Some a \<Rightarrow> bind (author_delegate_grant (ne_records (co_node R)) (a_authorDelegatedGrant a)) (\<lambda>g.
          rga_authorizeQueryOrSubscribe (co_node R) s (OtherMsg e) (qm_filter (rc_message rc)) (author_of_authorization a)
            (getSignerDid (a_signature a)) g))"

definition invokesModuleRole :: "records_collection \<Rightarrow> bool" where
  "invokesModuleRole rc = if_some (\<lambda>p. sp_moduleRole p \<noteq> None) (rc_signaturePayload rc)"

definition invoked_grant :: "records_collection \<Rightarrow> jstr option" where
  "invoked_grant rc = (case rc_signaturePayload rc of None \<Rightarrow> None | Some p \<Rightarrow> sp_permissionGrantId p)"

definition collection_by_rules :: "nat \<Rightarrow> collection_env \<Rightarrow> jstr \<Rightarrow> node \<Rightarrow> records_collection \<Rightarrow> module_role option result option" where
  "collection_by_rules n R tenant s rc =
     (let m = rc_message rc; f = qm_filter m in case (rf_module f, rf_modulePath f) of
        (Some moduleUri, Some modulePath) \<Rightarrow> ma_authorizeQueryOrSubscribe n (co_node R) (co_modules R) s tenant
           (AuthRead (od_method (o_descriptor (qm_envelope m))) (rc_author rc) (rc_signaturePayload rc)) (qm_timestamp m) moduleUri modulePath (rf_contextId f)
      | _ \<Rightarrow> Some (Inl (OtherError (js ''TypeError''))))"

definition collection_by_grant :: "collection_env \<Rightarrow> jstr \<Rightarrow> node \<Rightarrow> records_collection \<Rightarrow> jstr \<Rightarrow> unit result" where
  "collection_by_grant R tenant s rc permissionGrantId =
     bind (fetchGrant (co_node R) s tenant permissionGrantId) (\<lambda>g. case rc_author rc of
       None \<Rightarrow> Inl (OtherError (js ''TypeError''))
     | Some author \<Rightarrow> rga_authorizeQueryOrSubscribe (co_node R) s (OtherMsg (qm_envelope (rc_message rc))) (qm_filter (rc_message rc)) tenant author g)"

definition authorizeRecordsCollection ::
  "nat \<Rightarrow> collection_env \<Rightarrow> jstr \<Rightarrow> node \<Rightarrow> records_collection \<Rightarrow> collection_authorization result option" where
  "authorizeRecordsCollection n R tenant s rc =
     (let m = rc_message rc; e = qm_envelope m; f = qm_filter m in
      if filterIncludesPublishedRecords f \<and> rc_author rc = None
      then Some (Inr \<lparr>cz_permissionGrantId = None, cz_resolvedRole = None, cz_visibility = PublishedOnly\<rparr>)
      else
      fbind (Some (case o_authorization e of
               None \<Rightarrow> Inl (DwnError ''AuthenticateJwsMissing'' [])
             | Some a \<Rightarrow> he_authenticate (co_handlers R) a None)) (\<lambda>_.
      fbind (Some (if isSignedByAuthorDelegate (OtherMsg e) \<and> \<not> filterTargetsOnlyControlRecords f then collection_authorizeDelegate R s rc
             else if filterTargetsOnlyControlRecords f
             then authorizeControlReadRequest (co_node R) s tenant (getRequester (OtherMsg e)) e
             else Inr ())) (\<lambda>_.
      fbind (case invoked_grant rc of
               Some permissionGrantId \<Rightarrow> Some (bind (collection_by_grant R tenant s rc permissionGrantId) (\<lambda>_. Inr None))
             | None \<Rightarrow> if invokesModuleRole rc then collection_by_rules n R tenant s rc else Some (Inr None)) (\<lambda>resolvedRole.
      Some (Inr \<lparr>cz_permissionGrantId = invoked_grant rc, cz_resolvedRole = resolvedRole,
        cz_visibility = (if rc_author rc = Some tenant then Owner else NonOwner)\<rparr>)))))"

section \<open>What the requester may see\<close>

datatype purpose = Snapshot | Event

definition set_filter :: "string \<Rightarrow> scalar option \<Rightarrow> filter_t \<Rightarrow> filter_t" where
  "set_filter k v f = (case v of None \<Rightarrow> f | Some x \<Rightarrow> AList.update k (EqualF x) f)"

definition buildRecordsFilter ::
  "jstr option \<Rightarrow> date_sort option \<Rightarrow> records_filter \<Rightarrow> purpose \<Rightarrow> bool option \<Rightarrow> jstr option \<Rightarrow> filter_t" where
  "buildRecordsFilter author dateSort f purpose published recipient =
     set_filter ''recipient'' (map_option SStr recipient)
       (set_filter ''published'' (map_option SBool published)
         (set_filter ''author'' (map_option SStr author)
           (set_filter ''isLatestBaseState'' (if purpose = Snapshot then Some (SBool True) else None)
             (spread (convertFilter f (if purpose = Snapshot then dateSort else None))
               [(''interface'', EqualF (SStr (js ''Records''))),
                (''method'', if purpose = Snapshot then EqualF (SStr (js ''Write'')) else OneOfF [SStr (js ''Write''), SStr (js ''Delete'')])]))))"

definition names_allow :: "names option \<Rightarrow> jstr \<Rightarrow> bool" where
  "names_allow ns name = (case ns of
     None \<Rightarrow> True | Some (NameMany xs) \<Rightarrow> xs = [] \<or> name \<in> set xs | Some (NameOne x) \<Rightarrow> x = name)"

definition shouldBuildUnpublishedRecipientFilter :: "records_filter \<Rightarrow> jstr \<Rightarrow> bool" where
  "shouldBuildUnpublishedRecipientFilter f recipient = names_allow (rf_recipient f) recipient"

definition shouldBuildUnpublishedAuthorFilter :: "records_filter \<Rightarrow> jstr \<Rightarrow> bool" where
  "shouldBuildUnpublishedAuthorFilter f author = names_allow (rf_author f) author"

definition buildRecordsVisibilityFilters ::
  "date_sort option \<Rightarrow> records_filter \<Rightarrow> purpose \<Rightarrow> records_collection \<Rightarrow> visibility \<Rightarrow> filter_t list" where
  "buildRecordsVisibilityFilters dateSort f purpose rc visibility = (case visibility of
     Owner \<Rightarrow> [buildRecordsFilter None dateSort f purpose None None]
   | PublishedOnly \<Rightarrow> [buildRecordsFilter None dateSort f purpose (Some True) None]
   | NonOwner \<Rightarrow>
       (if filterIncludesPublishedRecords f then [buildRecordsFilter None dateSort f purpose (Some True) None] else []) @
       (if \<not> filterIncludesUnpublishedRecords f then []
        else
          (if isExactAudienceFilter f then [buildRecordsFilter None dateSort f purpose (Some False) None] else []) @
          (if if_some (shouldBuildUnpublishedAuthorFilter f) (rc_author rc)
           then [buildRecordsFilter (rc_author rc) dateSort f purpose (Some False) None] else []) @
          (if invokesModuleRole rc \<or> invoked_grant rc \<noteq> None then [buildRecordsFilter None dateSort f purpose (Some False) None] else []) @
          (if if_some (shouldBuildUnpublishedRecipientFilter f) (rc_author rc)
           then [buildRecordsFilter None dateSort f purpose (Some False) (rc_author rc)] else [])))"

definition buildRecordsSnapshotFilters :: "records_collection \<Rightarrow> visibility \<Rightarrow> filter_t list" where
  "buildRecordsSnapshotFilters rc visibility =
     buildRecordsVisibilityFilters (qm_dateSort (rc_message rc)) (qm_filter (rc_message rc)) Snapshot rc visibility"

definition buildRecordsEventFilters :: "records_collection \<Rightarrow> visibility \<Rightarrow> filter_t list" where
  "buildRecordsEventFilters rc visibility = buildRecordsVisibilityFilters None (qm_filter (rc_message rc)) Event rc visibility"

section \<open>Record limits\<close>

definition resolveRecordLimitOccupancy ::
  "nat \<Rightarrow> node_env \<Rightarrow> module_env \<Rightarrow> node \<Rightarrow> jstr \<Rightarrow> records_filter \<Rightarrow> jstr \<Rightarrow> record_limit option result option" where
  "resolveRecordLimitOccupancy n N M s tenant f timestamp = (case (rf_module f, rf_modulePath f) of
     (Some moduleUri, Some modulePath) \<Rightarrow>
       fbind (getRecordLimit n N M s tenant moduleUri modulePath timestamp) (\<lambda>policy. Some (Inr (case policy of
         None \<Rightarrow> None
       | Some (maximum, physicalDepth) \<Rightarrow>
           (let limit = \<lparr>rl_module = moduleUri, rl_modulePath = modulePath, rl_contextId = None, rl_parentId = None, rl_max = maximum\<rparr> in
            if physicalDepth = 1 then Some limit
            else Some (limit\<lparr>rl_parentId := rf_parentId f,
              rl_contextId := (case rf_contextId f of
                 None \<Rightarrow> None
               | Some contextId \<Rightarrow> if length (split_on slash contextId) = physicalDepth
                   then getParentContextFromOfContextId (Some contextId) else Some contextId)\<rparr>)))))
   | _ \<Rightarrow> Some (Inr None))"

definition queryRecordsWithRecordLimitOccupancy ::
  "nat \<Rightarrow> node_env \<Rightarrow> node \<Rightarrow> jstr \<Rightarrow> filter_t list \<Rightarrow> record_limit option \<Rightarrow> message_sort \<Rightarrow> pagination
    \<Rightarrow> (write_message list \<times> pagination_cursor option) result option" where
  "queryRecordsWithRecordLimitOccupancy n N s tenant filters recordLimit messageSort pagination =
     fbind (case recordLimit of
         None \<Rightarrow> Some (ms_query (ne_store N tenant) (n_messages s tenant) filters messageSort pagination)
       | Some rl \<Rightarrow> ms_query_limited n (ne_store N tenant) (n_messages s tenant) filters messageSort pagination rl)
       (\<lambda>(messages, cursor). Some (Inr (writes_of messages, cursor)))"

definition countRecordsWithRecordLimitOccupancy ::
  "nat \<Rightarrow> node_env \<Rightarrow> node \<Rightarrow> jstr \<Rightarrow> filter_t list \<Rightarrow> record_limit option \<Rightarrow> message_sort \<Rightarrow> nat result option" where
  "countRecordsWithRecordLimitOccupancy n N s tenant filters recordLimit messageSort = (case recordLimit of
     None \<Rightarrow> Some (ms_count (ne_store N tenant) (n_messages s tenant) filters messageSort)
   | Some rl \<Rightarrow> ms_count_limited n (ne_store N tenant) (n_messages s tenant) filters messageSort rl)"

section \<open>Pages\<close>

definition projectCurrentAudienceRecordPage ::
  "node_env \<Rightarrow> node \<Rightarrow> jstr \<Rightarrow> filter_t list \<Rightarrow> audience_cache \<Rightarrow> write_message list \<times> pagination_cursor option
    \<Rightarrow> (write_message list \<times> pagination_cursor option \<times> audience_cache) result" where
  "projectCurrentAudienceRecordPage N s tenant filters cache page =
     bind (projectCurrentAudienceRecords N s tenant filters cache (fst page)) (\<lambda>(messages, cache'). Inr (messages, snd page, cache'))"

definition queryProjectedPage ::
  "nat \<Rightarrow> node_env \<Rightarrow> node \<Rightarrow> jstr \<Rightarrow> filter_t list \<Rightarrow> record_limit option \<Rightarrow> message_sort \<Rightarrow> pagination \<Rightarrow> audience_cache
    \<Rightarrow> (write_message list \<times> pagination_cursor option \<times> audience_cache) result option" where
  "queryProjectedPage n N s tenant filters recordLimit messageSort pagination cache =
     fbind (queryRecordsWithRecordLimitOccupancy n N s tenant filters recordLimit messageSort pagination) (\<lambda>page.
     Some (projectCurrentAudienceRecordPage N s tenant filters cache page))"

text \<open>The loop that fills a page with visible records.\<close>

fun visible_pages ::
  "nat \<Rightarrow> (pagination \<Rightarrow> audience_cache \<Rightarrow> (write_message list \<times> pagination_cursor option \<times> audience_cache) result option)
    \<Rightarrow> (write_message list \<Rightarrow> write_message list result option) \<Rightarrow> nat \<Rightarrow> pagination_cursor option \<Rightarrow> audience_cache \<Rightarrow> write_message list
    \<Rightarrow> (write_message list \<times> pagination_cursor option) result option" where
  "visible_pages 0 query visible limit cursor cache visibleMessages = None"
| "visible_pages (Suc k) query visible limit cursor cache visibleMessages =
     fbind (query \<lparr>pn_limit = Some (limit - length visibleMessages), pn_cursor = cursor\<rparr> cache) (\<lambda>(messages, nextCursor, cache').
     fbind (visible messages) (\<lambda>vs.
     let visibleMessages' = visibleMessages @ vs in
     if length visibleMessages' < limit \<and> nextCursor \<noteq> None
     then visible_pages k query visible limit nextCursor cache' visibleMessages'
     else Some (Inr (visibleMessages', nextCursor))))"

definition query_sort :: "date_sort option \<Rightarrow> message_sort" where
  "query_sort dateSort = (let (p, dir) = convertDateSort (Some (case dateSort of None \<Rightarrow> CreatedAscending | Some ds \<Rightarrow> ds)) in
     \<lparr>ms_dateCreated = (if p = ''dateCreated'' then Some dir else None),
      ms_datePublished = (if p = ''datePublished'' then Some dir else None),
      ms_messageTimestamp = (if p = ''messageTimestamp'' then Some dir else None)\<rparr>)"

definition queryVisibleRecordsPage ::
  "nat \<Rightarrow> collection_env \<Rightarrow> node \<Rightarrow> jstr \<Rightarrow> records_collection \<Rightarrow> visibility \<Rightarrow> (write_message list \<times> pagination_cursor option) result option" where
  "queryVisibleRecordsPage n R s tenant rc visibility =
     (let m = rc_message rc; e = qm_envelope m; N = co_node R; M = co_modules R;
          pagination = (case qm_pagination m of None \<Rightarrow> no_pagination | Some p \<Rightarrow> p);
          filters = buildRecordsSnapshotFilters rc visibility;
          visible = filterVisibleControlRecords n N M s tenant e (qm_filter m) (getRequester (OtherMsg e))
      in fbind (resolveRecordLimitOccupancy n N M s tenant (qm_filter m) (qm_timestamp m)) (\<lambda>recordLimit.
         let query = queryProjectedPage n N s tenant filters recordLimit (query_sort (qm_dateSort m)) in
         if buildControlRecordsFilters filters = []
         then fbind (query pagination []) (\<lambda>(messages, cursor, _). Some (Inr (messages, cursor)))
         else case pn_limit pagination of
           Some (Suc l) \<Rightarrow> visible_pages n query visible (Suc l) (pn_cursor pagination) [] []
         | _ \<Rightarrow> fbind (query pagination []) (\<lambda>(messages, cursor, _).
                fbind (visible messages) (\<lambda>vs. Some (Inr (vs, cursor))))))"

section \<open>Queries\<close>

text \<open>An entry is a write and, for an update, its initial write.\<close>

fun initial_states :: "cids \<Rightarrow> write_message list \<Rightarrow> bool list result" where
  "initial_states C [] = Inr []"
| "initial_states C (w # ws) =
     bind (isInitialWrite C (WriteMsg w)) (\<lambda>initial. bind (initial_states C ws) (\<lambda>rest. Inr (initial # rest)))"

definition attach_entry ::
  "(jstr \<times> write_message) list \<Rightarrow> write_message \<times> bool \<Rightarrow> (write_message \<times> write_message option) option" where
  "attach_entry initials entry = (case entry of (w, initial) \<Rightarrow>
     if initial then Some (w, None)
     else case map_of initials (w_recordId w) of
       None \<Rightarrow> None | Some stored \<Rightarrow> Some (w, Some (detachEncodedData stored)))"

definition attachInitialWrites ::
  "node_env \<Rightarrow> node \<Rightarrow> jstr \<Rightarrow> write_message list \<Rightarrow> (write_message \<times> write_message option) list result" where
  "attachInitialWrites N s tenant recordsWrites =
     bind (initial_states (re_cids (ne_records N)) recordsWrites) (\<lambda>states.
     let updateRecordIds = remdups_first (map (\<lambda>(w, _). w_recordId w) (filter (\<lambda>(_, initial). \<not> initial) (zip recordsWrites states))) in
     if updateRecordIds = [] then Inr (map (\<lambda>w. (w, None)) recordsWrites)
     else bind (ms_query (ne_store N tenant) (n_messages s tenant) [[(''entryId'', OneOfF (map SStr updateRecordIds))]]
                  no_sort no_pagination) (\<lambda>(messages, _).
          Inr (List.map_filter (attach_entry (map (\<lambda>w. (w_recordId w, w)) (rev (writes_of messages)))) (zip recordsWrites states))))"

record query_reply =
  qr_reply :: reply
  qr_entries :: "(write_message \<times> write_message option) list option"
  qr_cursor :: "pagination_cursor option"

definition handle_query :: "nat \<Rightarrow> collection_env \<Rightarrow> jstr \<Rightarrow> node \<Rightarrow> collection_message \<Rightarrow> query_reply result option" where
  "handle_query n R tenant s m =
     (let refuse = \<lambda>e code. Some (Inr \<lparr>qr_reply = messageReplyFromError e code, qr_entries = None, qr_cursor = None\<rparr>) in
      case parse_query R m of
        Inl e \<Rightarrow> refuse e 400
      | Inr rc \<Rightarrow> (case authorizeRecordsCollection n R tenant s rc of
          None \<Rightarrow> None
        | Some (Inl e) \<Rightarrow> refuse e 401
        | Some (Inr z) \<Rightarrow>
            fbind (queryVisibleRecordsPage n R s tenant rc (cz_visibility z)) (\<lambda>(messages, cursor).
            fbind (Some (attachInitialWrites (co_node R) s tenant messages)) (\<lambda>entries.
            Some (Inr \<lparr>qr_reply = status_reply 200 ''OK'', qr_entries = Some entries, qr_cursor = cursor\<rparr>)))))"

section \<open>Counts\<close>

definition countProjectedRecords :: "nat \<Rightarrow> node_env \<Rightarrow> node \<Rightarrow> jstr \<Rightarrow> filter_t list \<Rightarrow> record_limit option \<Rightarrow> int result option" where
  "countProjectedRecords n N s tenant filters recordLimit =
     fbind (countRecordsWithRecordLimitOccupancy n N s tenant filters recordLimit no_sort) (\<lambda>totalCount.
     let audienceFilters = buildAudienceRecordFilters filters; E = ne_store N tenant; S = n_messages s tenant in
     if audienceFilters = [] then Some (Inr (int totalCount))
     else fbind (Some (ms_count E S audienceFilters no_sort)) (\<lambda>storedAudienceCount.
       if storedAudienceCount = 0 then Some (Inr (int totalCount))
       else fbind (Some (ms_query E S audienceFilters no_sort no_pagination)) (\<lambda>(messages, _).
            fbind (Some (projectCurrentAudienceRecords N s tenant audienceFilters [] (writes_of messages))) (\<lambda>(projected, _).
            Some (Inr (int totalCount - int storedAudienceCount + int (length projected)))))))"

definition countProjectedRecordsForRequester ::
  "nat \<Rightarrow> collection_env \<Rightarrow> node \<Rightarrow> jstr \<Rightarrow> records_collection \<Rightarrow> jstr option \<Rightarrow> filter_t list \<Rightarrow> record_limit option \<Rightarrow> int result option" where
  "countProjectedRecordsForRequester n R s tenant rc requester filters recordLimit =
     (let N = co_node R; m = rc_message rc; controlFilters = buildControlRecordsFilters filters in
      if controlFilters = [] then countProjectedRecords n N s tenant filters recordLimit
      else fbind (countProjectedRecords n N s tenant filters recordLimit) (\<lambda>totalCount.
           fbind (countProjectedRecords n N s tenant controlFilters recordLimit) (\<lambda>controlCount.
           if controlCount = 0 then Some (Inr totalCount)
           else fbind (queryRecordsWithRecordLimitOccupancy n N s tenant controlFilters recordLimit no_sort no_pagination) (\<lambda>(messages, _).
                fbind (Some (projectCurrentAudienceRecords N s tenant controlFilters [] messages)) (\<lambda>(projected, _).
                fbind (filterVisibleControlRecords n N (co_modules R) s tenant (qm_envelope m) (qm_filter m) requester projected) (\<lambda>visible.
                Some (Inr (totalCount - controlCount + int (length visible)))))))))"

definition handle_count :: "nat \<Rightarrow> collection_env \<Rightarrow> jstr \<Rightarrow> node \<Rightarrow> collection_message \<Rightarrow> (reply \<times> int option) result option" where
  "handle_count n R tenant s m = (case parse_count R m of
     Inl e \<Rightarrow> Some (Inr (messageReplyFromError e 400, None))
   | Inr rc \<Rightarrow> (case authorizeRecordsCollection n R tenant s rc of
       None \<Rightarrow> None
     | Some (Inl e) \<Rightarrow> Some (Inr (messageReplyFromError e 401, None))
     | Some (Inr z) \<Rightarrow>
         (let requester = getRequester (OtherMsg (qm_envelope m)); filters = buildRecordsSnapshotFilters rc (cz_visibility z) in
          fbind (resolveRecordLimitOccupancy n (co_node R) (co_modules R) s tenant (qm_filter m) (qm_timestamp m)) (\<lambda>recordLimit.
          fbind (if rc_author rc = Some tenant \<and> requester = Some tenant
                 then countProjectedRecords n (co_node R) s tenant filters recordLimit
                 else countProjectedRecordsForRequester n R s tenant rc requester filters recordLimit) (\<lambda>count.
          Some (Inr (status_reply 200 ''OK'', Some count)))))))"

end
