(* ===== verification/Collection_Properties.thy ===== *)
theory Collection_Properties
  imports Records_Collection Control_Properties
begin

text \<open>
  What a query of records returns: stored writes that the filters of the requester select, and of the control records those that
  the requester may read; and what goes wrong when no filter is left.
\<close>

section \<open>Selected records\<close>

text \<open>A stored write that some filter matches, or any when there is none.\<close>

definition selected_write :: "node_env \<Rightarrow> node \<Rightarrow> jstr \<Rightarrow> filter_t list \<Rightarrow> write_message \<Rightarrow> bool" where
  "selected_write N s tenant fs w \<longleftrightarrow> (\<exists>cid r. row_of (n_messages s tenant) cid = Some r \<and> r_message r = WriteMsg w
     \<and> matchAnyFilter (se_tn (ne_store N tenant)) (r_indexes r) fs)"

lemma occupants_subset:
  "filterRecordLimitOccupants tn items cf m limit known occ its = Inr (r, c) \<Longrightarrow> set r \<subseteq> set occ \<union> set its"
proof (induction its arbitrary: known occ)
  case (Cons it its)
  from Cons.prems obtain inside known' where i: "isWithinRecordLimit tn items cf m known it = Inr (inside, known')"
    by (auto simp: bind_eq_Inr)
  let ?occ = "if inside then occ @ [it] else occ"
  from Cons.prems i have "r = ?occ \<or> filterRecordLimitOccupants tn items cf m limit known' ?occ its = Inr (r, c)"
    by (simp add: Let_def split: if_splits)
  then have "set r \<subseteq> set ?occ \<union> set its" using Cons.IH [of known' ?occ] by blast
  then show ?case by (auto split: if_splits)
qed simp

lemma population_sound:
  "population_loop n tn items fs q cf m cur found known = Some (Inr out) \<Longrightarrow> it \<in> set out
    \<Longrightarrow> it \<in> set found \<or> (it \<in> set items \<and> matchAnyFilter tn (snd it) fs)"
proof (induction n arbitrary: cur found known)
  case (Suc n)
  let ?q = "q\<lparr>qo_cursor := cur, qo_limit := Some RECORD_LIMIT_RAW_PAGE_SIZE\<rparr>"
  obtain raw where raw: "queryWithBoundedPaging tn items fs ?q = Inr raw" using Suc.prems(1) by (auto split: sum.splits)
  show ?case
  proof (cases "raw = []")
    case False
    obtain occ known' where occ: "filterRecordLimitOccupants tn items cf m (map_option (\<lambda>l. l - length found) (qo_limit q)) known [] raw = Inr (occ, known')"
      using Suc.prems(1) raw False by (auto split: sum.splits)
    define found' where "found' = found @ (case qo_limit q of None \<Rightarrow> occ | Some l \<Rightarrow> take (l - length found) occ)"
    have sub: "x \<in> set items \<and> matchAnyFilter tn (snd x) fs" if "x \<in> set found'" "x \<notin> set found" for x
    proof -
      have "x \<in> set occ" using that by (auto simp: found'_def split: option.splits dest: in_set_takeD)
      then have "x \<in> set raw" using occupants_subset [OF occ] by auto
      then show ?thesis using raw iterator_paging_sound [of tn items fs ?q] by (auto simp: queryWithBoundedPaging_def bind_eq_Inr)
    qed
    from Suc.prems(1) raw False occ have "out = found' \<or> (\<exists>c. population_loop n tn items fs q cf m (Some c) found' known' = Some (Inr out))"
      by (auto simp: found'_def [symmetric] Let_def split: if_splits sum.splits)
    with Suc.IH Suc.prems(2) sub show ?thesis by blast
  qed (use Suc.prems raw in simp)
qed simp

lemma parent_groups_sound:
  assumes "queryRecordLimitParentGroups tn items cf fs m ps q = Inr results" and "it \<in> set results"
  shows "it \<in> set items \<and> matchAnyFilter tn (snd it) fs"
proof -
  have grp: "set ys \<subseteq> set xs" if "occupants_of_group f tn c xs = Inr ys" for f c xs ys
    using that
  proof (induction xs arbitrary: ys)
    case (Cons x xs)
    then have "\<exists>r. occupants_of_group f tn c xs = Inr r \<and> set ys \<subseteq> insert x (set r)"
      by (cases "matchFilter tn (snd x) f") (auto simp: bind_eq_Inr)
    with Cons.IH show ?case by fastforce
  qed simp
  have all: "iterateRecordLimitParentGroupOccupants tn items cf m qs = Inr ys \<Longrightarrow> set ys \<subseteq> set items" for qs ys
  proof (induction qs arbitrary: ys)
    case (Cons p qs)
    then obtain xs zs where "ys = xs @ zs" "set zs \<subseteq> set items"
      and x: "xs = [] \<or> (\<exists>f c. occupants_of_group f tn c (iterateExactMatches items ''parentId'' (SStr p)) = Inr xs)"
      by (fastforce simp: bind_eq_Inr Let_def split: option.splits)
    moreover have "set xs \<subseteq> set items" using x grp by (fastforce simp: iterateExactMatches_def)
    ultimately show ?case by simp
  qed simp
  from assms obtain occ where "iterateRecordLimitParentGroupOccupants tn items cf m (remdups_first ps) = Inr occ"
    and "it \<in> set occ \<and> matchAnyFilter tn (snd it) fs"
    by (auto simp: queryRecordLimitParentGroups_def bind_eq_Inr Let_def set_sortItems dest!: in_set_takeD split: if_splits option.splits)
  with all show ?thesis by blast
qed

lemma limited_sound:
  assumes "core_ok E s" and "ms_query_limited n E s fs so pg rl = Some (Inr (cs, nextCursor))" and "c \<in> set cs"
  shows "\<exists>cid r. row_of s cid = Some r \<and> r_message r = c \<and> matchAnyFilter (se_tn E) (r_indexes r) fs"
proof -
  let ?q = "buildQueryOptions so pg"
  from assms(2) obtain results where p: "page_of_results s (qo_sortProperty ?q) (pn_limit pg) results = Inr (cs, nextCursor)"
    and r: "iterateRecordLimitPopulation n (se_tn E) (ts_index s) fs ?q rl = Some (Inr results)
      \<or> (\<exists>ps. queryRecordLimitParentGroups (se_tn E) (ts_index s) (buildRecordLimitCandidateFilter rl) fs (rl_max rl) ps ?q = Inr results)"
    by (auto simp: ms_query_limited_def Let_def bind_eq_Inr split: option.splits)
  have "it \<in> set (ts_index s) \<and> matchAnyFilter (se_tn E) (snd it) fs" if "it \<in> set results" for it
    using r
  proof
    assume "iterateRecordLimitPopulation n (se_tn E) (ts_index s) fs ?q rl = Some (Inr results)"
    with that population_sound [of n "se_tn E" "ts_index s" fs ?q "buildRecordLimitCandidateFilter rl" "rl_max rl" "qo_cursor ?q" "[]" "[]" results it]
    show ?thesis by (auto simp: iterateRecordLimitPopulation_def split: if_splits)
  next
    assume "\<exists>ps. queryRecordLimitParentGroups (se_tn E) (ts_index s) (buildRecordLimitCandidateFilter rl) fs (rl_max rl) ps ?q = Inr results"
    with that parent_groups_sound show ?thesis by blast
  qed
  from page_sound [OF assms(1) p assms(3) this] show ?thesis .
qed

lemma writes_of_mem: "w \<in> set (writes_of ms) \<longleftrightarrow> WriteMsg w \<in> set ms"
  by (force simp: writes_of_def List.map_filter_def split: message.splits)

lemma queried_selected:
  assumes "node_ok N s" and "queryRecordsWithRecordLimitOccupancy n N s tenant fs rl so pg = Some (Inr (ws, cur))" and "w \<in> set ws"
  shows "selected_write N s tenant fs w"
proof -
  have ok: "core_ok (ne_store N tenant) (n_messages s tenant)" using node_store_ok [OF assms(1)] by blast
  obtain ms where m: "WriteMsg w \<in> set ms"
    and q: "ms_query (ne_store N tenant) (n_messages s tenant) fs so pg = Inr (ms, cur)
      \<or> (\<exists>l. ms_query_limited n (ne_store N tenant) (n_messages s tenant) fs so pg l = Some (Inr (ms, cur)))"
  proof (cases rl)
    case None
    with assms(2,3) that show ?thesis by (auto simp: queryRecordsWithRecordLimitOccupancy_def fbind_eq_Inr writes_of_mem)
  next
    case (Some l)
    with assms(2) obtain ms where "ms_query_limited n (ne_store N tenant) (n_messages s tenant) fs so pg l = Some (Inr (ms, cur))" "ws = writes_of ms"
      by (auto simp: queryRecordsWithRecordLimitOccupancy_def fbind_eq_Inr)
    with assms(3) that [of ms] show ?thesis by (auto simp: writes_of_mem)
  qed
  with ms_query_any_sound [OF ok _ m] limited_sound [OF ok _ m] show ?thesis unfolding selected_write_def by blast
qed

section \<open>Pages\<close>

lemma projected_subset: "projected_records fs ids ws = Inr vs \<Longrightarrow> set vs \<subseteq> set ws"
  by (induction ws arbitrary: vs) (force simp: bind_eq_Inr split: if_splits)+

lemma projection_subset: "projectCurrentAudienceRecords N s tenant fs cache ws = Inr (vs, c) \<Longrightarrow> set vs \<subseteq> set ws"
  by (auto simp: projectCurrentAudienceRecords_def bind_eq_Inr dest: projected_subset)

lemma page_selected:
  assumes "node_ok N s" and "queryProjectedPage n N s tenant fs rl so pg cache = Some (Inr (ws, cur, c))" and "w \<in> set ws"
  shows "selected_write N s tenant fs w"
proof -
  from assms(2) obtain us where "queryRecordsWithRecordLimitOccupancy n N s tenant fs rl so pg = Some (Inr (us, cur))" "set ws \<subseteq> set us"
    by (auto simp: queryProjectedPage_def projectCurrentAudienceRecordPage_def fbind_eq_Inr bind_eq_Inr dest: projection_subset)
  with queried_selected [OF assms(1)] assms(3) show ?thesis by blast
qed

lemma visible_control:
  "filterVisibleControlRecords n N M s tenant e f requester ws = Some (Inr vs) \<Longrightarrow> v \<in> set vs
    \<Longrightarrow> v \<in> set ws \<and> isVisibleControlRecord n N M s tenant e f requester v = Some (Inr True)"
  by (induction ws arbitrary: vs) (auto simp: fbind_eq_Inr split: if_splits)

lemma visible_pages_all:
  assumes "visible_pages k query visible limit cursor cache acc = Some (Inr (ws, cur))" and "w \<in> set ws"
    and "\<And>pg c us next c' u. query pg c = Some (Inr (us, next, c')) \<Longrightarrow> u \<in> set us \<Longrightarrow> P u"
    and "\<And>us vs v. visible us = Some (Inr vs) \<Longrightarrow> v \<in> set vs \<Longrightarrow> v \<in> set us \<and> Q v"
  shows "w \<in> set acc \<or> (P w \<and> Q w)"
  using assms(1,2)
proof (induction k arbitrary: cursor cache acc)
  case (Suc k)
  then obtain us next' c' vs where q: "query \<lparr>pn_limit = Some (limit - length acc), pn_cursor = cursor\<rparr> cache = Some (Inr (us, next', c'))"
    "visible us = Some (Inr vs)" and r: "(if length (acc @ vs) < limit \<and> next' \<noteq> None then visible_pages k query visible limit next' c' (acc @ vs)
       else Some (Inr (acc @ vs, next'))) = Some (Inr (ws, cur))"
    by (auto simp: fbind_eq_Inr Let_def)
  have "P v \<and> Q v" if "v \<in> set vs" for v using assms(3) [OF q(1)] assms(4) [OF q(2) that] by blast
  moreover have "w \<in> set (acc @ vs) \<or> (P w \<and> Q w)" using r Suc.IH [of next' c' "acc @ vs"] Suc.prems(2) by (auto split: if_splits)
  ultimately show ?case by auto
qed simp

lemma query_page_visible:
  assumes "node_ok (co_node R) s" and "queryVisibleRecordsPage n R s tenant rc vis = Some (Inr (ws, cur))" and "w \<in> set ws"
  shows "selected_write (co_node R) s tenant (buildRecordsSnapshotFilters rc vis) w
     \<and> (buildControlRecordsFilters (buildRecordsSnapshotFilters rc vis) = []
        \<or> isVisibleControlRecord n (co_node R) (co_modules R) s tenant (qm_envelope (rc_message rc)) (qm_filter (rc_message rc))
             (getRequester (OtherMsg (qm_envelope (rc_message rc)))) w = Some (Inr True))"
proof -
  let ?N = "co_node R" and ?fs = "buildRecordsSnapshotFilters rc vis" and ?m = "rc_message rc"
  let ?v = "filterVisibleControlRecords n ?N (co_modules R) s tenant (qm_envelope ?m) (qm_filter ?m) (getRequester (OtherMsg (qm_envelope ?m)))"
  let ?V = "\<lambda>w. isVisibleControlRecord n ?N (co_modules R) s tenant (qm_envelope ?m) (qm_filter ?m) (getRequester (OtherMsg (qm_envelope ?m))) w = Some (Inr True)"
  let ?q = "\<lambda>rl. queryProjectedPage n ?N s tenant ?fs rl (query_sort (qm_dateSort ?m))"
  from assms(2) obtain rl where r: "(let pagination = (case qm_pagination ?m of None \<Rightarrow> no_pagination | Some p \<Rightarrow> p) in
      if buildControlRecordsFilters ?fs = []
      then fbind (?q rl pagination []) (\<lambda>(messages, cursor, _). Some (Inr (messages, cursor)))
      else case pn_limit pagination of
        Some (Suc l) \<Rightarrow> visible_pages n (?q rl) ?v (Suc l) (pn_cursor pagination) [] []
      | _ \<Rightarrow> fbind (?q rl pagination []) (\<lambda>(messages, cursor, _). fbind (?v messages) (\<lambda>vs. Some (Inr (vs, cursor))))) = Some (Inr (ws, cur))"
    unfolding queryVisibleRecordsPage_def Let_def fbind_eq_Inr by blast
  define pg where "pg = (case qm_pagination ?m of None \<Rightarrow> no_pagination | Some p \<Rightarrow> p)"
  consider (plain) c where "buildControlRecordsFilters ?fs = []" "?q rl pg [] = Some (Inr (ws, cur, c))"
    | (all) us c where "?q rl pg [] = Some (Inr (us, cur, c))" "?v us = Some (Inr ws)"
    | (pages) l where "visible_pages n (?q rl) ?v l (pn_cursor pg) [] [] = Some (Inr (ws, cur))"
  proof (cases "buildControlRecordsFilters ?fs = []")
    case True
    with r that(1) show ?thesis unfolding pg_def [symmetric] by (auto simp: fbind_eq_Inr)
  next
    case False
    show ?thesis
    proof (cases "\<exists>l. pn_limit pg = Some (Suc l)")
      case True
      with r False that(3) show ?thesis unfolding pg_def [symmetric] Let_def by auto
    next
      case no: False
      then have "fbind (?q rl pg []) (\<lambda>(messages, cursor, _). fbind (?v messages) (\<lambda>vs. Some (Inr (vs, cursor)))) = Some (Inr (ws, cur))"
        using r False unfolding pg_def [symmetric] Let_def by (auto split: option.splits nat.splits)
      with that(2) show ?thesis by (auto simp: fbind_eq_Inr)
    qed
  qed
  then show ?thesis
  proof cases
    case plain
    with page_selected [OF assms(1) _ assms(3)] show ?thesis by blast
  next
    case all
    from visible_control [OF all(2) assms(3)] page_selected [OF assms(1) all(1)] show ?thesis by blast
  next
    case pages
    have "w \<in> set [] \<or> (selected_write ?N s tenant ?fs w \<and> ?V w)"
      by (rule visible_pages_all [OF pages assms(3)]) (rule page_selected [OF assms(1)], assumption+, rule visible_control, assumption+)
    then show ?thesis by simp
  qed
qed

lemma initial_states_length: "initial_states C ws = Inr bs \<Longrightarrow> length bs = length ws"
  by (induction ws arbitrary: bs) (auto simp: bind_eq_Inr)

lemma attached_entry:
  assumes "attachInitialWrites N s tenant ws = Inr es" and "(w, i) \<in> set es"
  shows "w \<in> set ws \<and> (\<forall>x. i = Some x \<longrightarrow> w_recordId x = w_recordId w)"
proof -
  have "x \<in> set ws" if "(x, b) \<in> set (zip ws bs)" for x b and bs :: "bool list" using that by (rule set_zip_leftD)
  with assms show ?thesis
    by (auto simp: attachInitialWrites_def bind_eq_Inr Let_def List.map_filter_def attach_entry_def detachEncodedData_def
        split: if_splits option.splits prod.splits dest!: map_of_SomeD)
qed

section \<open>Who may see what\<close>

definition has_value :: "key_values \<Rightarrow> string \<Rightarrow> scalar \<Rightarrow> bool" where
  "has_value kvs k v \<longleftrightarrow> map_of kvs k = Some (One v) \<or> (\<exists>vs. map_of kvs k = Some (Many vs) \<and> v \<in> set vs)"

lemma match_equal: "match_property tn kvs k (EqualF v) \<longleftrightarrow> has_value kvs k v"
  by (auto simp: match_property_def has_value_def matchIndexValue_def split: option.splits key_value.splits)

text \<open>A grant for the request: from the grantor to the grantee, for reads of records, in force at the timestamp of the request and not
  revoked by then, with a scope that covers the filter.\<close>

definition grant_for_query :: "node_env \<Rightarrow> node \<Rightarrow> collection_message \<Rightarrow> jstr \<Rightarrow> jstr \<Rightarrow> permission_grant \<Rightarrow> bool" where
  "grant_for_query N s m grantor grantee g \<longleftrightarrow>
     pg_grantor g = grantor \<and> pg_grantee g = grantee \<and> pg_dateGranted g \<le> qm_timestamp m \<and> qm_timestamp m < pg_dateExpires g
   \<and> (\<forall>x \<in> selected N (n_messages s grantor) (grantRevocationFilter (pg_id g)). qm_timestamp m < messageTimestamp x)
   \<and> ps_interface (pg_scope g) = Records \<and> ps_method (pg_scope g) = Read
   \<and> scope_matches (grant_module_scope (pg_scope g))
       \<lparr>mo_module = rf_module (qm_filter m), mo_modulePath = rf_modulePath (qm_filter m), mo_contextId = rf_contextId (qm_filter m)\<rparr>"

definition rules_allow_query :: "nat \<Rightarrow> collection_env \<Rightarrow> jstr \<Rightarrow> node \<Rightarrow> records_collection \<Rightarrow> bool" where
  "rules_allow_query n R tenant s rc \<longleftrightarrow> (\<exists>u p g d rs. rf_module (qm_filter (rc_message rc)) = Some u \<and> rf_modulePath (qm_filter (rc_message rc)) = Some p
   \<and> loadModuleGraph n (co_node R) (co_modules R) s tenant u (Some (qm_timestamp (rc_message rc))) = Some (Inr g)
   \<and> fetchModuleDefinition (co_node R) (co_modules R) s tenant u (Some (qm_timestamp (rc_message rc))) = Inr d
   \<and> all_govern (co_node R) (co_modules R) s tenant (Some (qm_timestamp (rc_message rc))) d (mg_definitionsByUri g)
   \<and> declared_at (mg_definitionsByUri g) (md_module d, p) = Some rs \<and> rs_ref rs = None
   \<and> rule_authorised (mg_definitionsByUri g) (co_node R) s tenant (md_module d) rs
       (AuthRead Query (rc_author rc) (rc_signaturePayload rc)) (rf_contextId (qm_filter (rc_message rc))) [])"

definition may_see :: "nat \<Rightarrow> collection_env \<Rightarrow> jstr \<Rightarrow> node \<Rightarrow> records_collection \<Rightarrow> key_values \<Rightarrow> bool" where
  "may_see n R tenant s rc kvs \<longleftrightarrow>
     rc_author rc = Some tenant \<or> has_value kvs ''published'' (SBool True)
   \<or> (has_value kvs ''published'' (SBool False)
      \<and> (has_value kvs ''modulePath'' (SStr ENCRYPTION_CONTROL_AUDIENCE_PATH)
         \<or> (\<exists>a. rc_author rc = Some a \<and> (has_value kvs ''author'' (SStr a) \<or> has_value kvs ''recipient'' (SStr a)))
         \<or> (\<exists>a i g. rc_author rc = Some a \<and> invoked_grant rc = Some i \<and> fetchGrant (co_node R) s tenant i = Inr g
              \<and> grant_for_query (co_node R) s (rc_message rc) tenant a g)
         \<or> (invokesModuleRole rc \<and> rules_allow_query n R tenant s rc)))"

lemma collection_grant:
  assumes "node_ok (co_node R) s" and "\<forall>u. times_ok (n_messages s u)"
    and "od_interface (o_descriptor (qm_envelope m)) = Records" and "od_method (o_descriptor (qm_envelope m)) = Query"
    and "rga_authorizeQueryOrSubscribe (co_node R) s (OtherMsg (qm_envelope m)) (qm_filter m) grantor grantee g = Inr ()"
  shows "grant_for_query (co_node R) s m grantor grantee g"
proof -
  let ?t = "qm_timestamp m"
  from assms(3-5) have c: "verifyExpectedGrantorAndGrantee grantor grantee g = Inr ()" "verifyGrantActive (co_node R) s grantor ?t g = Inr ()"
    "verifyGrantScopeInterfaceAndMethod Records Query g = Inr ()"
    "scope_matches (grant_module_scope (pg_scope g))
       \<lparr>mo_module = rf_module (qm_filter m), mo_modulePath = rf_modulePath (qm_filter m), mo_contextId = rf_contextId (qm_filter m)\<rparr>"
    by (simp_all add: rga_authorizeQueryOrSubscribe_def performBaseValidation_def bind_eq_Inr guard_def split: if_splits)
  from c(2) assms(1,2) have "pg_dateGranted g \<le> ?t \<and> ?t < pg_dateExpires g
     \<and> (\<forall>x \<in> selected (co_node R) (n_messages s grantor) (grantRevocationFilter (pg_id g)). ?t < messageTimestamp x)"
    by (simp add: verifyGrantActive_iff)
  moreover have "pg_grantor g = grantor \<and> pg_grantee g = grantee"
    using c(1) by (simp add: verifyExpectedGrantorAndGrantee_def split: if_splits)
  moreover have "ps_interface (pg_scope g) = Records \<and> ps_method (pg_scope g) = Read"
    using c(3) by (simp add: verifyGrantScopeInterfaceAndMethod_def Let_def split: if_splits)
  ultimately show ?thesis using c(4) unfolding grant_for_query_def by blast
qed

lemma collection_rules:
  assumes "collection_by_rules n R tenant s rc = Some (Inr role)" and "od_method (o_descriptor (qm_envelope (rc_message rc))) = Query"
  shows "rules_allow_query n R tenant s rc"
proof -
  let ?N = "co_node R" and ?M = "co_modules R" and ?f = "qm_filter (rc_message rc)" and ?t = "qm_timestamp (rc_message rc)"
  from assms obtain u p where up: "rf_module ?f = Some u" "rf_modulePath ?f = Some p"
    and a: "authorize_by_rules n ?N ?M s tenant (AuthRead Query (rc_author rc) (rc_signaturePayload rc)) u p (rf_contextId ?f) ?t False [] = Some (Inr role)"
    by (auto simp: collection_by_rules_def ma_authorizeQueryOrSubscribe_def Let_def split: option.splits)
  from a obtain g node where g: "loadModuleGraph n ?N ?M s tenant u (Some ?t) = Some (Inr g)" and node: "getRecordNode p g False = Inr node"
    by (auto simp: authorize_by_rules_def fbind_eq_Inr bind_eq_Inr)
  obtain d ds where d: "fetchModuleDefinition ?N ?M s tenant u (Some ?t) = Inr d"
    and G: "resolveModuleGraph n (ne_records ?N) (map_of ds) True d = Some (Inr g)"
    and gov: "all_govern ?N ?M s tenant (Some ?t) d (mg_definitionsByUri g)" by (rule loadModuleGraph_resolved [OF g])
  have "map_of (mg_nodesByDeclaredPath g) p = Some node \<and> rs_ref (rn_declaredRuleSet node) = None"
    using node by (simp add: getRecordNode_Inr [OF G])
  moreover from this have rs: "declared_at (mg_definitionsByUri g) (md_module d, p) = Some (rn_declaredRuleSet node)"
    unfolding declared_node(1) [OF G] by blast
  ultimately show ?thesis unfolding rules_allow_query_def
    using up g d gov authorize_by_rules_sound [OF a g d rs] by blast
qed

text \<open>What precedes the search: an anonymous request for published records, or a request whose signature verifies.\<close>

lemma collection_authorised:
  assumes "authorizeRecordsCollection n R tenant s rc = Some (Inr z)"
  obtains (anonymous) "rc_author rc = None" "cz_visibility z = PublishedOnly"
  | (signed) a where "o_authorization (qm_envelope (rc_message rc)) = Some a" "he_authenticate (co_handlers R) a None = Inr ()"
      "isSignedByAuthorDelegate (OtherMsg (qm_envelope (rc_message rc))) \<and> \<not> filterTargetsOnlyControlRecords (qm_filter (rc_message rc))
         \<longrightarrow> collection_authorizeDelegate R s rc = Inr ()"
      "\<forall>i. invoked_grant rc = Some i \<longrightarrow> collection_by_grant R tenant s rc i = Inr ()"
      "invoked_grant rc = None \<and> invokesModuleRole rc \<longrightarrow> (\<exists>role. collection_by_rules n R tenant s rc = Some (Inr role))"
      "cz_visibility z = (if rc_author rc = Some tenant then Owner else NonOwner)"
proof (cases "filterIncludesPublishedRecords (qm_filter (rc_message rc)) \<and> rc_author rc = None")
  case True
  with assms anonymous show ?thesis by (auto simp: authorizeRecordsCollection_def Let_def)
next
  case False
  let ?e = "qm_envelope (rc_message rc)" and ?f = "qm_filter (rc_message rc)"
  from assms False obtain role where x: "(case o_authorization ?e of None \<Rightarrow> Inl (DwnError ''AuthenticateJwsMissing'' [])
        | Some a \<Rightarrow> he_authenticate (co_handlers R) a None) = Inr ()"
    "(if isSignedByAuthorDelegate (OtherMsg ?e) \<and> \<not> filterTargetsOnlyControlRecords ?f then collection_authorizeDelegate R s rc
      else if filterTargetsOnlyControlRecords ?f then authorizeControlReadRequest (co_node R) s tenant (getRequester (OtherMsg ?e)) ?e
      else Inr ()) = Inr ()"
    "(case invoked_grant rc of Some i \<Rightarrow> Some (bind (collection_by_grant R tenant s rc i) (\<lambda>_. Inr None))
      | None \<Rightarrow> if invokesModuleRole rc then collection_by_rules n R tenant s rc else Some (Inr None)) = Some (Inr role)"
    "z = \<lparr>cz_permissionGrantId = invoked_grant rc, cz_resolvedRole = role,
        cz_visibility = (if rc_author rc = Some tenant then Owner else NonOwner)\<rparr>"
    unfolding authorizeRecordsCollection_def Let_def by (auto simp: fbind_eq_Inr)
  from x(1) obtain a where a: "o_authorization ?e = Some a" "he_authenticate (co_handlers R) a None = Inr ()"
    by (auto split: option.splits)
  show ?thesis
  proof (rule signed [OF a])
    show "cz_visibility z = (if rc_author rc = Some tenant then Owner else NonOwner)" by (simp add: x(4))
    show "\<forall>i. invoked_grant rc = Some i \<longrightarrow> collection_by_grant R tenant s rc i = Inr ()" using x(3) by (auto simp: bind_eq_Inr)
    show "invoked_grant rc = None \<and> invokesModuleRole rc \<longrightarrow> (\<exists>role. collection_by_rules n R tenant s rc = Some (Inr role))" using x(3) by auto
  qed (use x(2) in auto)
qed

section \<open>The filters of a requester\<close>

lemma untouched_steps:
  assumes "k \<notin> {''dateCreated'', ''datePublished'', ''published'', ''messageTimestamp'', ''dateUpdated'', ''contextId''}"
  shows "map_of (convert_dateCreated f g) k = map_of g k" "map_of (convert_datePublished f g) k = map_of g k"
    "map_of (convert_published_sort ds g) k = map_of g k" "map_of (convert_dateUpdated f g) k = map_of g k"
    "map_of (convert_contextId f g) k = map_of g k"
  using assms by (simp_all add: convert_step_defs split: option.splits)

lemma remaining_property:
  "map_of (remaining_filter f) ''author'' = map_option names_filter (rf_author f)"
  "map_of (remaining_filter f) ''recipient'' = map_option names_filter (rf_recipient f)"
  "map_of (remaining_filter f) ''modulePath'' = map_option (\<lambda>s. EqualF (SStr s)) (rf_modulePath f)"
  "map_of (remaining_filter f) ''interface'' = None" "map_of (remaining_filter f) ''method'' = None"
  "map_of (remaining_filter f) ''isLatestBaseState'' = None"
  unfolding remaining_filter_def by (simp_all add: opt_prop_lookup del: map_of_append)

lemma converted_property:
  "map_of (convertFilter f ds) ''author'' = (case rf_author f of Some ns \<Rightarrow> if ns = NameMany [] then None else Some (names_filter ns) | None \<Rightarrow> None)"
  "map_of (convertFilter f ds) ''recipient'' = (case rf_recipient f of Some ns \<Rightarrow> if ns = NameMany [] then None else Some (names_filter ns) | None \<Rightarrow> None)"
  "map_of (convertFilter f ds) ''modulePath'' = map_option (\<lambda>s. EqualF (SStr s)) (rf_modulePath f)"
  "map_of (convertFilter f ds) ''interface'' = None" "map_of (convertFilter f ds) ''method'' = None"
  "map_of (convertFilter f ds) ''isLatestBaseState'' = None"
proof -
  have names: "names_filter ns = OneOfF [] \<longleftrightarrow> ns = NameMany []" for ns by (cases ns) simp_all
  have tags: "map_of (spread (remaining_filter f) (case rf_tags f of None \<Rightarrow> [] | Some ts \<Rightarrow> spread [] (convertTagsFilter ts))) k = map_of (remaining_filter f) k"
    if "\<not> prefix ''tag.'' k" for k
  proof (cases "rf_tags f")
    case (Some ts)
    have "map_of (convertTagsFilter ts) k = None" using that by (simp add: tag_objects tag_object_lookup)
    then have "map_of (rev (spread [] (convertTagsFilter ts))) k = None" by (simp add: map_of_eq_None_iff spread_keys)
    then show ?thesis using Some by (simp add: spread_lookup)
  qed (simp add: spread_def)
  show "map_of (convertFilter f ds) ''author'' = (case rf_author f of Some ns \<Rightarrow> if ns = NameMany [] then None else Some (names_filter ns) | None \<Rightarrow> None)"
    "map_of (convertFilter f ds) ''recipient'' = (case rf_recipient f of Some ns \<Rightarrow> if ns = NameMany [] then None else Some (names_filter ns) | None \<Rightarrow> None)"
    by (simp_all add: convertFilter_def drop_empty_lookup untouched_steps tags remaining_property names split: option.splits)
  show "map_of (convertFilter f ds) ''modulePath'' = map_option (\<lambda>s. EqualF (SStr s)) (rf_modulePath f)"
    "map_of (convertFilter f ds) ''interface'' = None" "map_of (convertFilter f ds) ''method'' = None"
    "map_of (convertFilter f ds) ''isLatestBaseState'' = None"
    by (simp_all add: convertFilter_def drop_empty_lookup untouched_steps tags remaining_property)
qed

lemma records_filter_lookup:
  "map_of (buildRecordsFilter a ds f Snapshot p r) k =
     (if k = ''recipient'' \<and> r \<noteq> None then map_option (\<lambda>x. EqualF (SStr x)) r
      else if k = ''published'' \<and> p \<noteq> None then map_option (\<lambda>b. EqualF (SBool b)) p
      else if k = ''author'' \<and> a \<noteq> None then map_option (\<lambda>x. EqualF (SStr x)) a
      else if k = ''isLatestBaseState'' then Some (EqualF (SBool True))
      else if k = ''interface'' then Some (EqualF (SStr (js ''Records'')))
      else if k = ''method'' then Some (EqualF (SStr (js ''Write'')))
      else map_of (convertFilter f ds) k)"
  by (cases a; cases p; cases r) (simp_all add: buildRecordsFilter_def set_filter_def spread_lookup del: js_simps)

lemma matched_property: "matchFilter tn kvs g \<Longrightarrow> map_of g k = Some v \<Longrightarrow> match_property tn kvs k v"
  by (auto simp: matchFilter_iff dest: map_of_SomeD)

lemma allowed_name: "names_allow (Some ns) x \<Longrightarrow> ns \<noteq> NameMany [] \<Longrightarrow> has_value kvs k (SStr x) \<Longrightarrow> match_property tn kvs k (names_filter ns)"
  by (cases ns) (auto simp: names_allow_def match_equal match_property_def has_value_def matchIndexValue_def matchOneOf_iff split: option.splits key_value.splits)

lemma snapshot_match:
  assumes "matchFilter tn kvs (buildRecordsFilter a ds f Snapshot p r)"
    and "\<forall>x. a = Some x \<longrightarrow> names_allow (rf_author f) x" and "\<forall>x. r = Some x \<longrightarrow> names_allow (rf_recipient f) x"
  shows "has_value kvs ''interface'' (SStr (js ''Records''))" "has_value kvs ''method'' (SStr (js ''Write''))" "has_value kvs ''isLatestBaseState'' (SBool True)"
    "\<And>b. p = Some b \<Longrightarrow> has_value kvs ''published'' (SBool b)" "\<And>x. a = Some x \<Longrightarrow> has_value kvs ''author'' (SStr x)"
    "\<And>x. r = Some x \<Longrightarrow> has_value kvs ''recipient'' (SStr x)"
    "\<And>k v. map_of (convertFilter f ds) k = Some v \<Longrightarrow> k \<noteq> ''published'' \<Longrightarrow> match_property tn kvs k v"
proof -
  note m = matched_property [OF assms(1)]
  show "has_value kvs ''interface'' (SStr (js ''Records''))" "has_value kvs ''method'' (SStr (js ''Write''))" "has_value kvs ''isLatestBaseState'' (SBool True)"
    unfolding match_equal [symmetric, of _ _ _ tn] by (rule m, simp add: records_filter_lookup del: js_simps)+
  show pub: "has_value kvs ''published'' (SBool b)" if "p = Some b" for b
    unfolding match_equal [symmetric, of _ _ _ tn] by (rule m) (simp add: records_filter_lookup that)
  show aut: "has_value kvs ''author'' (SStr x)" if "a = Some x" for x
    unfolding match_equal [symmetric, of _ _ _ tn] by (rule m) (simp add: records_filter_lookup that)
  show rec: "has_value kvs ''recipient'' (SStr x)" if "r = Some x" for x
    unfolding match_equal [symmetric, of _ _ _ tn] by (rule m) (simp add: records_filter_lookup that)
  fix k v assume v: "map_of (convertFilter f ds) k = Some v" and k: "k \<noteq> ''published''"
  show "match_property tn kvs k v"
  proof (cases "k = ''author'' \<and> a \<noteq> None \<or> k = ''recipient'' \<and> r \<noteq> None")
    case False
    then have n: "\<not> (k = ''recipient'' \<and> r \<noteq> None)" "\<not> (k = ''author'' \<and> a \<noteq> None)" "\<not> (k = ''published'' \<and> p \<noteq> None)" using k by blast+
    have "k \<noteq> ''isLatestBaseState''" "k \<noteq> ''interface''" "k \<noteq> ''method''" using v converted_property(4-6) [of f ds] by (metis option.distinct(1))+
    then have "map_of (buildRecordsFilter a ds f Snapshot p r) k = Some v" unfolding records_filter_lookup by (simp only: n v if_False)
    then show ?thesis by (rule m)
  next
    case True
    then show ?thesis
    proof
      assume c: "k = ''author'' \<and> a \<noteq> None"
      then obtain x ns where "a = Some x" "rf_author f = Some ns" "ns \<noteq> NameMany []" "v = names_filter ns"
        using v by (auto simp: converted_property split: option.splits if_splits)
      then show ?thesis using c aut assms(2) by (auto intro!: allowed_name)
    next
      assume c: "k = ''recipient'' \<and> r \<noteq> None"
      then obtain x ns where "r = Some x" "rf_recipient f = Some ns" "ns \<noteq> NameMany []" "v = names_filter ns"
        using v by (auto simp: converted_property split: option.splits if_splits)
      then show ?thesis using c rec assms(3) by (auto intro!: allowed_name)
    qed
  qed
qed

text \<open>A requester other than the tenant who asks for unpublished records of other authors to other recipients, and invokes nothing.\<close>

definition shut_out :: "jstr \<Rightarrow> records_collection \<Rightarrow> bool" where
  "shut_out tenant rc \<longleftrightarrow> (let f = qm_filter (rc_message rc) in \<exists>a. rc_author rc = Some a \<and> a \<noteq> tenant
     \<and> rf_published f = Some False \<and> rf_datePublished f = None
     \<and> \<not> names_allow (rf_author f) a \<and> \<not> names_allow (rf_recipient f) a
     \<and> invoked_grant rc = None \<and> \<not> invokesModuleRole rc \<and> \<not> isExactAudienceFilter f)"

lemma snapshot_filter_cases:
  assumes "g \<in> set (buildRecordsSnapshotFilters rc vis)"
  obtains a p r where "g = buildRecordsFilter a (qm_dateSort (rc_message rc)) (qm_filter (rc_message rc)) Snapshot p r"
    "\<forall>x. a = Some x \<longrightarrow> names_allow (rf_author (qm_filter (rc_message rc))) x"
    "\<forall>x. r = Some x \<longrightarrow> names_allow (rf_recipient (qm_filter (rc_message rc))) x"
    "vis = Owner \<or> p = Some True \<or> (vis = NonOwner \<and> p = Some False \<and> (isExactAudienceFilter (qm_filter (rc_message rc))
       \<or> (\<exists>x. rc_author rc = Some x \<and> (a = Some x \<or> r = Some x)) \<or> invokesModuleRole rc \<or> invoked_grant rc \<noteq> None))"
proof -
  let ?f = "qm_filter (rc_message rc)" and ?ds = "qm_dateSort (rc_message rc)"
  have some: "if_some P y \<longleftrightarrow> (\<exists>x. y = Some x \<and> P x)" for P and y :: "jstr option" by (cases y) simp_all
  consider "vis = Owner" "g = buildRecordsFilter None ?ds ?f Snapshot None None"
    | "g = buildRecordsFilter None ?ds ?f Snapshot (Some True) None"
    | "vis = NonOwner" "g = buildRecordsFilter None ?ds ?f Snapshot (Some False) None" "isExactAudienceFilter ?f \<or> invokesModuleRole rc \<or> invoked_grant rc \<noteq> None"
    | x where "vis = NonOwner" "rc_author rc = Some x" "names_allow (rf_author ?f) x" "g = buildRecordsFilter (Some x) ?ds ?f Snapshot (Some False) None"
    | x where "vis = NonOwner" "rc_author rc = Some x" "names_allow (rf_recipient ?f) x" "g = buildRecordsFilter None ?ds ?f Snapshot (Some False) (Some x)"
    using assms by (cases vis) (auto simp: buildRecordsSnapshotFilters_def buildRecordsVisibilityFilters_def some
        shouldBuildUnpublishedAuthorFilter_def shouldBuildUnpublishedRecipientFilter_def split: if_splits)
  then show ?thesis
  proof cases
    case 1
    then show ?thesis by (intro that [of None None None]) simp_all
  next
    case 2
    then show ?thesis by (intro that [of None "Some True" None]) simp_all
  next
    case 3
    then show ?thesis by (intro that [of None "Some False" None]) simp_all
  next
    case (4 x)
    then show ?thesis by (intro that [of "Some x" "Some False" None]) simp_all
  next
    case (5 x)
    then show ?thesis by (intro that [of None "Some False" "Some x"]) simp_all
  qed
qed

lemma no_filters:
  assumes "rc_author rc = Some a"
  shows "buildRecordsSnapshotFilters rc (if Some a = Some tenant then Owner else NonOwner) = [] \<longleftrightarrow> shut_out tenant rc"
proof -
  let ?f = "qm_filter (rc_message rc)"
  have "filterIncludesPublishedRecords ?f \<or> filterIncludesUnpublishedRecords ?f"
    by (auto simp: filterIncludesPublishedRecords_def filterIncludesUnpublishedRecords_def)
  moreover have "\<not> filterIncludesPublishedRecords ?f \<longleftrightarrow> rf_published ?f = Some False \<and> rf_datePublished ?f = None"
    by (auto simp: filterIncludesPublishedRecords_def)
  ultimately show ?thesis using assms
    by (auto simp: buildRecordsSnapshotFilters_def buildRecordsVisibilityFilters_def shut_out_def Let_def
        shouldBuildUnpublishedAuthorFilter_def shouldBuildUnpublishedRecipientFilter_def)
qed

lemma no_control_filters:
  assumes "fs \<noteq> []" and "buildControlRecordsFilters fs = []" and "g \<in> set fs" and "matchFilter tn kvs g"
  shows "\<exists>p. has_value kvs ''modulePath'' (SStr p) \<and> \<not> isEncryptionControlPath (Some p)"
proof -
  have "control_filters g = []" using assms(2,3) by (induction fs) auto
  then obtain p where "map_of g ''modulePath'' = Some (EqualF (SStr p))" "\<not> isEncryptionControlPath (Some p)"
    by (auto simp: control_filters_def ENCRYPTION_CONTROL_PATHS_def split: option.splits filter_value.splits scalar.splits if_splits)
  with matched_property [OF assms(4)] show ?thesis unfolding match_equal [symmetric, of _ _ _ tn] by blast
qed

text \<open>The grant of an author to the delegate who signs for it.\<close>

definition delegate_granted :: "collection_env \<Rightarrow> node \<Rightarrow> collection_message \<Rightarrow> bool" where
  "delegate_granted R s m \<longleftrightarrow> (\<forall>a dg. o_authorization (qm_envelope m) = Some a \<longrightarrow> a_authorDelegatedGrant a = Some dg
     \<longrightarrow> \<not> isEncryptionControlPath (rf_modulePath (qm_filter m))
     \<longrightarrow> (\<exists>g. parse_grant (ne_records (co_node R)) (grant_message dg) = Inr g
           \<and> grant_for_query (co_node R) s m (getSignerDid (dg_signature dg)) (getSignerDid (a_signature a)) g))"

lemma parsed_collection:
  assumes "parse_query R m = Inr rc"
  shows "rc_message rc = m" "rc_author rc = getAuthor (OtherMsg (qm_envelope m))"
  using assms by (auto simp: parse_query_def parse_collection_def Let_def bind_eq_Inr split: if_splits)

lemma delegate_grant:
  assumes "node_ok (co_node R) s" and "\<forall>u. times_ok (n_messages s u)" and "od_interface (o_descriptor (qm_envelope m)) = Records"
    and "od_method (o_descriptor (qm_envelope m)) = Query" and "rc_message rc = m"
    and "isSignedByAuthorDelegate (OtherMsg (qm_envelope m)) \<and> \<not> filterTargetsOnlyControlRecords (qm_filter m)
         \<longrightarrow> collection_authorizeDelegate R s rc = Inr ()"
  shows "delegate_granted R s m"
  unfolding delegate_granted_def
proof (intro allI impI)
  fix a dg
  assume a: "o_authorization (qm_envelope m) = Some a" "a_authorDelegatedGrant a = Some dg" "\<not> isEncryptionControlPath (rf_modulePath (qm_filter m))"
  then have "collection_authorizeDelegate R s rc = Inr ()"
    using assms(6) by (simp add: isSignedByAuthorDelegate_def filterTargetsOnlyControlRecords_def)
  with a(1,2) assms(5) obtain g where "parse_grant (ne_records (co_node R)) (grant_message dg) = Inr g"
    "rga_authorizeQueryOrSubscribe (co_node R) s (OtherMsg (qm_envelope m)) (qm_filter m) (getSignerDid (dg_signature dg)) (getSignerDid (a_signature a)) g = Inr ()"
    by (auto simp: collection_authorizeDelegate_def author_delegate_grant_def author_of_authorization_def Let_def bind_eq_Inr)
  with collection_grant [OF assms(1-4)] show "\<exists>g. parse_grant (ne_records (co_node R)) (grant_message dg) = Inr g
      \<and> grant_for_query (co_node R) s m (getSignerDid (dg_signature dg)) (getSignerDid (a_signature a)) g" by blast
qed

text \<open>What the filters select, the requester may see.\<close>

lemma selected_visible:
  assumes "node_ok (co_node R) s" and "\<forall>u. times_ok (n_messages s u)" and "od_interface (o_descriptor (qm_envelope (rc_message rc))) = Records"
    and "od_method (o_descriptor (qm_envelope (rc_message rc))) = Query" and z: "authorizeRecordsCollection n R tenant s rc = Some (Inr z)"
    and g: "g \<in> set (buildRecordsSnapshotFilters rc (cz_visibility z))" and m: "matchFilter tn kvs g"
  shows "may_see n R tenant s rc kvs" "has_value kvs ''isLatestBaseState'' (SBool True)"
    "\<forall>k v. map_of (convertFilter (qm_filter (rc_message rc)) (qm_dateSort (rc_message rc))) k = Some v \<longrightarrow> k \<noteq> ''published'' \<longrightarrow> match_property tn kvs k v"
proof -
  let ?f = "qm_filter (rc_message rc)"
  from g obtain a p r where b: "g = buildRecordsFilter a (qm_dateSort (rc_message rc)) ?f Snapshot p r"
    "\<forall>x. a = Some x \<longrightarrow> names_allow (rf_author ?f) x" "\<forall>x. r = Some x \<longrightarrow> names_allow (rf_recipient ?f) x"
    and v: "cz_visibility z = Owner \<or> p = Some True \<or> (cz_visibility z = NonOwner \<and> p = Some False \<and> (isExactAudienceFilter ?f
       \<or> (\<exists>x. rc_author rc = Some x \<and> (a = Some x \<or> r = Some x)) \<or> invokesModuleRole rc \<or> invoked_grant rc \<noteq> None))"
    by (rule snapshot_filter_cases)
  note s = snapshot_match [OF m [unfolded b(1)] b(2,3)]
  show "has_value kvs ''isLatestBaseState'' (SBool True)" by (rule s(3))
  show "\<forall>k v. map_of (convertFilter ?f (qm_dateSort (rc_message rc))) k = Some v \<longrightarrow> k \<noteq> ''published'' \<longrightarrow> match_property tn kvs k v"
    using s(7) by blast
  have grant: "\<exists>a g. rc_author rc = Some a \<and> fetchGrant (co_node R) s tenant i = Inr g \<and> grant_for_query (co_node R) s (rc_message rc) tenant a g"
    if "collection_by_grant R tenant s rc i = Inr ()" for i
    using that collection_grant [OF assms(1-4)] by (auto simp: collection_by_grant_def bind_eq_Inr split: option.splits)
  have exact: "has_value kvs ''modulePath'' (SStr ENCRYPTION_CONTROL_AUDIENCE_PATH)" if "isExactAudienceFilter ?f"
  proof -
    have "rf_modulePath ?f = Some ENCRYPTION_CONTROL_AUDIENCE_PATH"
      using that by (auto simp: isExactAudienceFilter_def getExactAudienceFilterTuple_def split: if_splits)
    then show ?thesis using s(7) [of "''modulePath''"] converted_property(3) [of ?f "qm_dateSort (rc_message rc)"]
      by (simp add: match_equal)
  qed
  show "may_see n R tenant s rc kvs"
    using z
  proof (cases rule: collection_authorised)
    case anonymous
    with v s(4) show ?thesis by (auto simp: may_see_def)
  next
    case (signed x)
    consider "rc_author rc = Some tenant" | "p = Some True"
      | "p = Some False" "isExactAudienceFilter ?f \<or> (\<exists>x. rc_author rc = Some x \<and> (a = Some x \<or> r = Some x)) \<or> invokesModuleRole rc \<or> invoked_grant rc \<noteq> None"
      using v signed(6) by (auto split: if_splits)
    then show ?thesis
    proof cases
      case 3
      from 3(2) have "has_value kvs ''modulePath'' (SStr ENCRYPTION_CONTROL_AUDIENCE_PATH)
         \<or> (\<exists>a. rc_author rc = Some a \<and> (has_value kvs ''author'' (SStr a) \<or> has_value kvs ''recipient'' (SStr a)))
         \<or> (\<exists>a i g. rc_author rc = Some a \<and> invoked_grant rc = Some i \<and> fetchGrant (co_node R) s tenant i = Inr g
              \<and> grant_for_query (co_node R) s (rc_message rc) tenant a g)
         \<or> (invokesModuleRole rc \<and> rules_allow_query n R tenant s rc)"
        using exact s(5,6) grant signed(4,5) collection_rules [OF _ assms(4)] by (cases "invoked_grant rc") blast+
      with s(4) [OF 3(1)] show ?thesis unfolding may_see_def by blast
    qed (use s(4) in \<open>simp_all add: may_see_def\<close>)
  qed
qed

section \<open>A request without filters\<close>

lemma project_nothing:
  assumes "\<forall>w \<in> set ws. wd_modulePath (w_descriptor w) \<noteq> ENCRYPTION_CONTROL_AUDIENCE_PATH"
  shows "projectCurrentAudienceRecords N s tenant fs cache ws = Inr (ws, cache)"
proof -
  have should: "shouldProjectAudienceRecord w fs = Inr False" if "wd_modulePath (w_descriptor w) \<noteq> ENCRYPTION_CONTROL_AUDIENCE_PATH" for w
    using that by (simp add: shouldProjectAudienceRecord_def isAudienceControlMessage_def)
  have "projected_tuples fs ws = Inr []" using assms should by (induction ws) simp_all
  moreover have "projected_records fs ids ws = Inr ws" for ids using assms should by (induction ws) simp_all
  ultimately show ?thesis by (simp add: projectCurrentAudienceRecords_def remdups_first_def)
qed

lemma initial_states_total: "\<exists>bs. initial_states C ws = Inr bs \<and> length bs = length ws
    \<and> (\<forall>w \<in> set ws. \<forall>b. isInitialWrite C (WriteMsg w) = Inr b \<longrightarrow> (w, b) \<in> set (zip ws bs))"
proof (induction ws)
  case (Cons w ws)
  obtain b where "isInitialWrite C (WriteMsg w) = Inr b" by (auto simp: isInitialWrite_def getEntryId_def getAuthor_def)
  with Cons show ?case by auto
qed simp

lemma unlimited_query:
  assumes "assertValidSubtreeFilters fs = Inr ()" and "pn_limit pg = None"
  shows "\<exists>ms. ms_query E S fs so pg = Inr (ms, None)"
  using assms by (auto simp: ms_query_def index_query_def page_of_results_def bind_eq_Inr Let_def)

lemma attached_initial:
  assumes "w \<in> set ws" and "isInitialWrite (re_cids (ne_records N)) (WriteMsg w) = Inr True"
  shows "\<exists>es. attachInitialWrites N s tenant ws = Inr es \<and> (w, None) \<in> set es"
proof -
  obtain bs where bs: "initial_states (re_cids (ne_records N)) ws = Inr bs" "(w, True) \<in> set (zip ws bs)"
    using initial_states_total [of "re_cids (ne_records N)" ws] assms by blast
  let ?ids = "remdups_first (map (\<lambda>(w, _). w_recordId w) (filter (\<lambda>(_, initial). \<not> initial) (zip ws bs)))"
  have "assertValidSubtreeFilters [[(''entryId'', OneOfF (map SStr ?ids))]] = Inr ()"
    by (simp add: assertValidSubtreeFilters_def isSubtreeFilter_def)
  from unlimited_query [OF this, of no_pagination "ne_store N tenant" "n_messages s tenant" no_sort] obtain ms where
    "ms_query (ne_store N tenant) (n_messages s tenant) [[(''entryId'', OneOfF (map SStr ?ids))]] no_sort no_pagination = Inr (ms, None)"
    by (auto simp: no_pagination_def)
  moreover have "(w, None) \<in> set (List.map_filter (attach_entry initials) (zip ws bs))" for initials
    using bs(2) by (force simp: List.map_filter_def attach_entry_def)
  ultimately show ?thesis using bs(1) assms(1) by (auto simp: attachInitialWrites_def Let_def)
qed

lemma unfiltered_messages:
  assumes ok: "core_ok E S" and r: "row_of S cid = Some r" and p: "map_of (r_indexes r) (qo_sortProperty (buildQueryOptions so no_pagination)) \<noteq> None"
  shows "\<exists>ms. ms_query E S [] so no_pagination = Inr (ms, None) \<and> r_message r \<in> set ms"
proof -
  let ?q = "buildQueryOptions so no_pagination"
  have q: "qo_cursor ?q = None" "qo_limit ?q = None" by (simp_all add: buildQueryOptions_def no_pagination_def Let_def split: prod.splits)
  have i: "(cid, r_indexes r) \<in> set (ts_index S)" "ms_get S cid = Some (r_message r)" using index_rows [OF ok] r by auto
  have "(cid, r_indexes r) \<in> set (queryWithInMemoryPaging (se_tn E) (ts_index S) [] ?q)"
    using i(1) p q by (auto simp: queryWithInMemoryPaging_def Let_def matchAnyFilter_def set_sortItems)
  with i(2) show ?thesis
    by (force simp: ms_query_def index_query_def shouldQueryWithInMemoryPaging_def assertValidSubtreeFilters_def page_of_results_def
        no_pagination_def Let_def List.map_filter_def)
qed

section \<open>Example\<close>

text \<open>One unpublished record of the tenant, and queries by the tenant and by a stranger.\<close>

definition diary_indexes :: key_values where
  "diary_indexes = stored_indexes (js ''p'') [] (day 1)
     @ [(''dateCreated'', One (SStr (day 1))), (''published'', One (SBool False)), (''author'', One (SStr did))]"

definition diary_node :: node where
  "diary_node = row_node (stored_write (day 1)) diary_indexes"

definition diary_env :: collection_env where
  "diary_env = \<lparr>co_handlers = live_env, co_modules = open_env, co_descriptorCid = (\<lambda>m. qm_timestamp m)\<rparr>"

definition diary_query :: "jstr \<Rightarrow> records_filter \<Rightarrow> collection_message" where
  "diary_query kid f = (let e = rm_envelope (live_read None); a = the (o_authorization e) in
     \<lparr>qm_envelope = e\<lparr>o_authorization := Some (a\<lparr>a_signature := (a_signature a)\<lparr>jws_kid := kid\<rparr>\<rparr>),
        o_descriptor := (o_descriptor e)\<lparr>od_method := Query\<rparr>\<rparr>,
      qm_filter = f, qm_dateSort = None, qm_pagination = None\<rparr>)"

text \<open>Unpublished records of some other author to some other recipient, of which none is stored.\<close>

definition others_filter :: records_filter where
  "others_filter = path_filter\<lparr>rf_module := None, rf_modulePath := None, rf_published := Some False,
     rf_author := Some (NameOne (js ''did:x'')), rf_recipient := Some (NameOne (js ''did:x''))\<rparr>"

lemma diary_node_ok: "node_ok live_node_env diary_node"
  unfolding diary_node_def
  by (rule row_node_ok [of _ _ "day 1" True "live_write (day 1) (day 1) None"])
     (simp_all add: record_values_def diary_indexes_def stored_indexes_def stored_write_def live_write_def example_write_def Let_def)

lemma diary_rows:
  "row_of (n_messages diary_node did) = [getCid live_cids (stored_write (day 1)) \<mapsto> \<lparr>r_position = 1, r_message = stored_write (day 1),
     r_indexes = diary_indexes, r_scopes = computeFingerprintScopes (stored_write (day 1)) diary_indexes\<rparr>]"
  unfolding diary_node_def by (rule row_node_rows) (simp add: diary_indexes_def)

lemma diary_times: "\<forall>u. times_ok (n_messages diary_node u)"
proof
  fix u
  show "times_ok (n_messages diary_node u)"
  proof (cases "u = did")
    case True
    then show ?thesis unfolding True times_ok_def diary_rows
      using day_timestamp [of 1] by (simp add: diary_indexes_def stored_indexes_def)
  next
    case False
    then show ?thesis by (simp add: diary_node_def row_node_def times_ok_def empty_store_def row_of_def)
  qed
qed

lemma owner_queries:
  "(case handle_query 5 diary_env did diary_node (diary_query (js ''did:a#k'') path_filter) of
      Some (Inr q) \<Rightarrow> qr_entries q = Some [(live_write (day 1) (day 1) None, None)] | _ \<Rightarrow> False)"
  by code_simp

lemma stranger_parsed:
  "(case parse_query diary_env (diary_query (js ''did:b#k'') others_filter) of
      Inl _ \<Rightarrow> False | Inr rc \<Rightarrow> rc_author rc = Some (js ''did:b'') \<and> invoked_grant rc = None \<and> \<not> invokesModuleRole rc)"
  by code_simp

lemma owner_parsed:
  "(case parse_query diary_env (diary_query (js ''did:a#k'') path_filter) of Inl _ \<Rightarrow> False | Inr rc \<Rightarrow> rc_author rc = Some did)"
  by code_simp

text \<open>An unpublished note of a guest, who asks for the records of a path in the order of their publication.\<close>

definition note_indexes :: key_values where
  "note_indexes = stored_indexes (js ''p'') [] (day 1) @ [(''published'', One (SBool False)), (''author'', One (SStr (js ''did:b'')))]"

definition note_node :: node where
  "note_node = row_node (stored_write (day 1)) note_indexes"

definition note_query :: collection_message where
  "note_query = (diary_query (js ''did:b#k'') path_filter)\<lparr>qm_dateSort := Some PublishedAscending\<rparr>"

lemma note_parsed:
  "(case parse_query diary_env note_query of
      Inl _ \<Rightarrow> False | Inr rc \<Rightarrow> rc_author rc = Some (js ''did:b'')
        \<and> authorizeRecordsCollection 5 diary_env did note_node rc
            = Some (Inr \<lparr>cz_permissionGrantId = None, cz_resolvedRole = None, cz_visibility = NonOwner\<rparr>)
        \<and> assertValidSubtreeFilters (buildRecordsSnapshotFilters rc NonOwner) = Inr ())"
  by code_simp

lemma note_unlimited:
  "(case resolveRecordLimitOccupancy 5 (co_node diary_env) (co_modules diary_env) note_node did (qm_filter note_query) (qm_timestamp note_query) of
     Some (Inr None) \<Rightarrow> True | _ \<Rightarrow> False)"
  by code_simp

lemma note_item: "ts_index (n_messages note_node did) = [(getCid live_cids (stored_write (day 1)), note_indexes)]"
  by code_simp

section \<open>Properties\<close>

text \<open>C15: A query shows only what the requester may see.  Every entry of the reply, on a consistent node whose rows carry their
  timestamps, shows a write stored as latest state that meets every criterion of the request (the criterion on publication aside),
  and the requester may see it: as the tenant, since it is indexed as published, or, for an unpublished one, as its author or
  recipient, by a grant of the tenant for reads that is in force and covers the filter, by a role for which a rule of the governing definitions lets it
  query, or as an audience record.  The signature verifies unless the request is anonymous, a delegate has a grant of the author
  in force, a control record must be readable by its own rules, and the initial write attached to an update is of the same record.
  The theorem is for requests that do not shut the requester out: another theorem says what happens to those that ask for unpublished records of other
  authors to other recipients with no grant, role or exact audience.\<close>

theorem query_discloses_visible:
  assumes "node_ok (co_node R) s" and "\<forall>u. times_ok (n_messages s u)"
    and "od_interface (o_descriptor (qm_envelope m)) = Records" and "od_method (o_descriptor (qm_envelope m)) = Query"
    and "handle_query n R tenant s m = Some (Inr q)" and "qr_entries q = Some es" and "(w, i) \<in> set es"
    and "parse_query R m = Inr rc" and "\<not> shut_out tenant rc"
  shows "\<exists>cid row. row_of (n_messages s tenant) cid = Some row \<and> r_message row = WriteMsg w
     \<and> has_value (r_indexes row) ''isLatestBaseState'' (SBool True)
     \<and> (\<forall>k v. map_of (convertFilter (qm_filter m) (qm_dateSort m)) k = Some v \<longrightarrow> k \<noteq> ''published''
          \<longrightarrow> match_property (se_tn (ne_store (co_node R) tenant)) (r_indexes row) k v)
     \<and> may_see n R tenant s rc (r_indexes row)
     \<and> (\<forall>a. o_authorization (qm_envelope m) = Some a \<longrightarrow> he_authenticate (co_handlers R) a None = Inr ()) \<and> delegate_granted R s m
     \<and> ((\<exists>p. has_value (r_indexes row) ''modulePath'' (SStr p) \<and> \<not> isEncryptionControlPath (Some p))
        \<or> isVisibleControlRecord n (co_node R) (co_modules R) s tenant (qm_envelope m) (qm_filter m) (getRequester (OtherMsg (qm_envelope m))) w = Some (Inr True))
     \<and> (\<forall>x. i = Some x \<longrightarrow> w_recordId x = w_recordId w)"
proof -
  note pc = parsed_collection [OF assms(8)]
  from assms(5,6,8) obtain z ws cur where z: "authorizeRecordsCollection n R tenant s rc = Some (Inr z)"
    and q: "queryVisibleRecordsPage n R s tenant rc (cz_visibility z) = Some (Inr (ws, cur))"
    and at: "attachInitialWrites (co_node R) s tenant ws = Inr es"
    by (auto simp: handle_query_def Let_def fbind_eq_Inr split: option.splits sum.splits)
  let ?fs = "buildRecordsSnapshotFilters rc (cz_visibility z)" and ?tn = "se_tn (ne_store (co_node R) tenant)"
  note e = attached_entry [OF at assms(7)]
  have fs: "?fs \<noteq> []"
    using z
  proof (cases rule: collection_authorised)
    case anonymous
    then show ?thesis by (simp add: buildRecordsSnapshotFilters_def buildRecordsVisibilityFilters_def)
  next
    case (signed a)
    then have "rc_author rc = Some (author_of_authorization a)" using pc by (simp add: getAuthor_def)
    with no_filters [OF this, of tenant] signed(6) assms(9) show ?thesis by simp
  qed
  from query_page_visible [OF assms(1) q] e obtain cid row where row: "row_of (n_messages s tenant) cid = Some row" "r_message row = WriteMsg w"
    and m: "matchAnyFilter ?tn (r_indexes row) ?fs" and ctl: "buildControlRecordsFilters ?fs = []
        \<or> isVisibleControlRecord n (co_node R) (co_modules R) s tenant (qm_envelope m) (qm_filter m) (getRequester (OtherMsg (qm_envelope m))) w = Some (Inr True)"
    unfolding selected_write_def pc(1) by blast
  from m fs obtain g where g: "g \<in> set ?fs" "matchFilter ?tn (r_indexes row) g" by (auto simp: matchAnyFilter_iff)
  note v = selected_visible [OF assms(1,2) assms(3,4) [folded pc(1)] z g, unfolded pc(1)]
  have auth: "(\<forall>a. o_authorization (qm_envelope m) = Some a \<longrightarrow> he_authenticate (co_handlers R) a None = Inr ()) \<and> delegate_granted R s m"
    using z
  proof (cases rule: collection_authorised)
    case anonymous
    then have "o_authorization (qm_envelope m) = None" using pc(2) by (cases "o_authorization (qm_envelope m)") (simp_all add: getAuthor_def)
    then show ?thesis by (simp add: delegate_granted_def)
  next
    case (signed a)
    with delegate_grant [OF assms(1-4) pc(1) signed(3) [unfolded pc(1)]] show ?thesis by (simp add: pc(1))
  qed
  from ctl no_control_filters [OF fs _ g] row v e auth show ?thesis by blast
qed

theorem query_discloses_visible_witness:
  "\<exists>cid row rc. row_of (n_messages diary_node did) cid = Some row \<and> r_message row = stored_write (day 1)
     \<and> may_see 5 diary_env did diary_node rc (r_indexes row)"
proof -
  let ?m = "diary_query (js ''did:a#k'') path_filter"
  obtain q where q: "handle_query 5 diary_env did diary_node ?m = Some (Inr q)" "qr_entries q = Some [(live_write (day 1) (day 1) None, None)]"
    using owner_queries by (auto simp del: js_simps split: option.splits sum.splits)
  obtain rc where rc: "parse_query diary_env ?m = Inr rc" "rc_author rc = Some did" using owner_parsed by (auto split: sum.splits)
  have d: "od_interface (o_descriptor (qm_envelope ?m)) = Records" "od_method (o_descriptor (qm_envelope ?m)) = Query" "co_node diary_env = live_node_env"
    by (simp_all add: diary_query_def live_read_def diary_env_def live_env_def Let_def)
  have "\<not> shut_out did rc" using rc(2) by (simp add: shut_out_def Let_def)
  from query_discloses_visible [OF diary_node_ok [folded d(3)] diary_times d(1,2) q(1,2) list.set_intros(1) rc(1) this]
  show ?thesis unfolding stored_write_def by blast
qed

text \<open>C16: A requester who excludes itself gets everything.  When a signed request of someone other than the tenant asks for
  unpublished records of other authors to other recipients, with no grant, no role and no module path, no filter is left,
  and a query without filters is one for all messages: the reply of status 200 shows every stored initial write that has the
  date of the order, published or not, whoever wrote it.  For a request without pagination, no delegate, and a tenant with no audience records.\<close>

theorem shut_out_query_unfiltered:
  assumes "node_ok (co_node R) s" and "parse_query R m = Inr rc" and "shut_out tenant rc"
    and "o_authorization (qm_envelope m) = Some a" and "he_authenticate (co_handlers R) a None = Inr ()" and "a_authorDelegatedGrant a = None"
    and "rf_modulePath (qm_filter m) = None" and "qm_pagination m = None"
    and "\<forall>c r v. row_of (n_messages s tenant) c = Some r \<longrightarrow> r_message r = WriteMsg v \<longrightarrow> wd_modulePath (w_descriptor v) \<noteq> ENCRYPTION_CONTROL_AUDIENCE_PATH"
    and "row_of (n_messages s tenant) cid = Some row" and "r_message row = WriteMsg w"
    and "map_of (r_indexes row) (fst (convertDateSort (Some (case qm_dateSort m of None \<Rightarrow> CreatedAscending | Some d \<Rightarrow> d)))) \<noteq> None"
    and "isInitialWrite (re_cids (ne_records (co_node R))) (WriteMsg w) = Inr True"
  shows "\<exists>q es. handle_query n R tenant s m = Some (Inr q) \<and> rp_code (qr_reply q) = 200 \<and> qr_entries q = Some es \<and> (w, None) \<in> set es"
proof -
  note pc = parsed_collection [OF assms(2)]
  let ?N = "co_node R"
  have author: "rc_author rc = Some (author_of_authorization a)" using pc assms(4) by (simp add: getAuthor_def)
  have so: "author_of_authorization a \<noteq> tenant" "invoked_grant rc = None" "\<not> invokesModuleRole rc"
    using assms(3) author by (auto simp: shut_out_def Let_def)
  have z: "authorizeRecordsCollection n R tenant s rc = Some (Inr \<lparr>cz_permissionGrantId = None, cz_resolvedRole = None, cz_visibility = NonOwner\<rparr>)"
    using assms(4-7) so author pc
    by (simp add: authorizeRecordsCollection_def Let_def isSignedByAuthorDelegate_def filterTargetsOnlyControlRecords_def isEncryptionControlPath_def)
  have fs: "buildRecordsSnapshotFilters rc NonOwner = []" using no_filters [OF author, of tenant] assms(3) so(1) by simp
  have rl: "resolveRecordLimitOccupancy n ?N (co_modules R) s tenant (qm_filter m) (qm_timestamp m) = Some (Inr None)"
    using assms(7) by (simp add: resolveRecordLimitOccupancy_def split: option.splits)
  have core: "core_ok (ne_store ?N tenant) (n_messages s tenant)" using node_store_ok [OF assms(1)] by blast
  have p: "map_of (r_indexes row) (qo_sortProperty (buildQueryOptions (query_sort (qm_dateSort m)) no_pagination)) \<noteq> None"
    using assms(12) by (auto simp: query_sort_def convertDateSort_def buildQueryOptions_def no_pagination_def split: option.splits date_sort.splits)
  from unfiltered_messages [OF core assms(10) p] obtain ms where
    ms: "ms_query (ne_store ?N tenant) (n_messages s tenant) [] (query_sort (qm_dateSort m)) no_pagination = Inr (ms, None)" "WriteMsg w \<in> set ms"
    using assms(11) by auto
  have plain: "\<forall>v \<in> set (writes_of ms). wd_modulePath (w_descriptor v) \<noteq> ENCRYPTION_CONTROL_AUDIENCE_PATH"
  proof
    fix v assume "v \<in> set (writes_of ms)"
    then have "WriteMsg v \<in> set ms" by (simp add: writes_of_mem)
    from ms_query_any_sound [OF core ms(1) this] assms(9) show "wd_modulePath (w_descriptor v) \<noteq> ENCRYPTION_CONTROL_AUDIENCE_PATH" by blast
  qed
  then have "queryVisibleRecordsPage n R s tenant rc NonOwner = Some (Inr (writes_of ms, None))"
    using ms(1) rl assms(8) by (simp add: queryVisibleRecordsPage_def fs pc(1) queryProjectedPage_def projectCurrentAudienceRecordPage_def
        queryRecordsWithRecordLimitOccupancy_def project_nothing Let_def)
  moreover obtain es where "attachInitialWrites ?N s tenant (writes_of ms) = Inr es" "(w, None) \<in> set es"
    using attached_initial [of w "writes_of ms" ?N s tenant] ms(2) assms(13) unfolding writes_of_mem by blast
  ultimately show ?thesis using assms(2) z by (simp add: handle_query_def Let_def status_reply_def)
qed

theorem shut_out_query_unfiltered_witness:
  "\<exists>q es w. handle_query 5 diary_env did diary_node (diary_query (js ''did:b#k'') others_filter) = Some (Inr q)
     \<and> rp_code (qr_reply q) = 200 \<and> qr_entries q = Some es \<and> (w, None) \<in> set es \<and> WriteMsg w = stored_write (day 1)"
proof -
  let ?m = "diary_query (js ''did:b#k'') others_filter" and ?w = "live_write (day 1) (day 1) None"
  obtain rc where rc: "parse_query diary_env ?m = Inr rc" "rc_author rc = Some (js ''did:b'')" "invoked_grant rc = None" "\<not> invokesModuleRole rc"
    using stranger_parsed by (auto split: sum.splits)
  have N: "co_node diary_env = live_node_env" by (simp add: diary_env_def live_env_def)
  have so: "shut_out did rc" unfolding shut_out_def Let_def parsed_collection(1) [OF rc(1)] using rc(2-4)
    by (simp add: diary_query_def others_filter_def path_filter_def names_allow_def isExactAudienceFilter_def getExactAudienceFilterTuple_def Let_def)
  obtain a where a: "o_authorization (qm_envelope ?m) = Some a" "a_authorDelegatedGrant a = None"
    by (simp add: diary_query_def live_read_def live_signature_def Let_def)
  have au: "he_authenticate (co_handlers diary_env) a None = Inr ()" by (simp add: diary_env_def live_env_def)
  have f: "rf_modulePath (qm_filter ?m) = None" "qm_pagination ?m = None" "qm_dateSort ?m = None"
    by (simp_all add: diary_query_def others_filter_def Let_def)
  have path: "\<forall>c r v. row_of (n_messages diary_node did) c = Some r \<longrightarrow> r_message r = WriteMsg v \<longrightarrow> wd_modulePath (w_descriptor v) \<noteq> ENCRYPTION_CONTROL_AUDIENCE_PATH"
    unfolding diary_rows by (auto simp: stored_write_def live_write_def example_write_def Let_def ENCRYPTION_CONTROL_AUDIENCE_PATH_def
        ENCRYPTION_CONTROL_ROOT_PATH_def split: if_splits)
  have i: "isInitialWrite (re_cids (ne_records (co_node diary_env))) (WriteMsg ?w) = Inr True" unfolding N by code_simp
  let ?c = "getCid live_cids (stored_write (day 1))"
  obtain row where r: "row_of (n_messages diary_node did) ?c = Some row" "r_message row = WriteMsg ?w" "r_indexes row = diary_indexes"
    unfolding diary_rows by (simp add: stored_write_def)
  have d: "map_of (r_indexes row) (fst (convertDateSort (Some (case qm_dateSort ?m of None \<Rightarrow> CreatedAscending | Some d \<Rightarrow> d)))) \<noteq> None"
    unfolding r(3) f(3) by (simp add: convertDateSort_def diary_indexes_def stored_indexes_def)
  from shut_out_query_unfiltered [OF diary_node_ok [folded N] rc(1) so a(1) au a(2) f(1,2) path r(1,2) d i, of 5]
  show ?thesis unfolding stored_write_def by blast
qed

text \<open>C26: A guest's own drafts hide what is published.  When someone other than the tenant queries a module path in the order of
  publication and one of its own unpublished records matches, the reply is empty, although published
  records match: the filter for the guest's unpublished records is searched in the same order, its match has no date of publication, and
  the search ends without results.  For a path without record limit and outside the control records, and a request without pagination.\<close>

theorem own_drafts_hide_published:
  assumes "parse_query R m = Inr rc" and "authorizeRecordsCollection n R tenant s rc = Some (Inr z)" and "cz_visibility z = NonOwner"
    and "rc_author rc = Some a" and "names_allow (rf_author (qm_filter m)) a" and "rf_published (qm_filter m) = None" and "rf_datePublished (qm_filter m) = None"
    and "qm_dateSort m \<in> {Some PublishedAscending, Some PublishedDescending}" and "qm_pagination m = None"
    and "rf_modulePath (qm_filter m) = Some p" and "\<not> isEncryptionControlPath (Some p)"
    and "resolveRecordLimitOccupancy n (co_node R) (co_modules R) s tenant (qm_filter m) (qm_timestamp m) = Some (Inr None)"
    and "assertValidSubtreeFilters (buildRecordsSnapshotFilters rc NonOwner) = Inr ()"
    and "it \<in> set (ts_index (n_messages s tenant))" and "map_of (snd it) ''datePublished'' = None"
    and "matchFilter (se_tn (ne_store (co_node R) tenant)) (snd it) (buildRecordsFilter (Some a) (qm_dateSort m) (qm_filter m) Snapshot (Some False) None)"
  shows "\<exists>q. handle_query n R tenant s m = Some (Inr q) \<and> qr_entries q = Some [] \<and> qr_cursor q = None"
proof -
  note pc = parsed_collection [OF assms(1)]
  let ?N = "co_node R" and ?g = "buildRecordsFilter (Some a) (qm_dateSort m) (qm_filter m) Snapshot (Some False) None"
  let ?fs = "buildRecordsSnapshotFilters rc NonOwner" and ?q = "buildQueryOptions (query_sort (qm_dateSort m)) no_pagination"
  have g: "?g \<in> set ?fs"
    using assms(4-7) pc(1) by (simp add: buildRecordsSnapshotFilters_def buildRecordsVisibilityFilters_def filterIncludesUnpublishedRecords_def
        shouldBuildUnpublishedAuthorFilter_def)
  have path: "map_of f ''modulePath'' = Some (EqualF (SStr p))" if "f \<in> set ?fs" for f
    using that by (rule snapshot_filter_cases) (simp add: records_filter_lookup converted_property assms(10) pc(1))
  have ctl: "buildControlRecordsFilters ?fs = []"
  proof -
    have "buildControlRecordsFilters fs = []" if "set fs \<subseteq> set ?fs" for fs
      using that path assms(11) by (induction fs) (simp_all add: control_filters_def)
    then show ?thesis by simp
  qed
  have opts: "qo_sortProperty ?q = ''datePublished''" "qo_cursor ?q = None" "qo_limit ?q = None"
    using assms(8) by (auto simp: query_sort_def convertDateSort_def buildQueryOptions_def no_pagination_def)
  have "shouldQueryWithInMemoryPaging ?fs ?q"
    using path opts by (simp add: shouldQueryWithInMemoryPaging_def isFilterConcise_def)
  moreover have "queryWithInMemoryPaging (se_tn (ne_store ?N tenant)) (ts_index (n_messages s tenant)) ?fs ?q = []"
  proof -
    have "?g \<noteq> []" using path [OF g] by auto
    with g assms(14-16) show ?thesis unfolding queryWithInMemoryPaging_def Let_def opts by (auto simp: list_ex_iff)
  qed
  ultimately have "ms_query (ne_store ?N tenant) (n_messages s tenant) ?fs (query_sort (qm_dateSort m)) no_pagination = Inr ([], None)"
    using assms(13) by (simp add: ms_query_def index_query_def page_of_results_def no_pagination_def map_filter_simps)
  then have "queryVisibleRecordsPage n R s tenant rc NonOwner = Some (Inr ([], None))"
    using assms(9,12) ctl by (simp add: queryVisibleRecordsPage_def pc(1) queryProjectedPage_def projectCurrentAudienceRecordPage_def
        queryRecordsWithRecordLimitOccupancy_def project_nothing writes_of_def map_filter_simps Let_def)
  then show ?thesis using assms(1-3)
    by (simp add: handle_query_def attachInitialWrites_def remdups_first_def Let_def)
qed

theorem own_drafts_hide_published_witness:
  "\<exists>q. handle_query 5 diary_env did note_node note_query = Some (Inr q) \<and> qr_entries q = Some [] \<and> qr_cursor q = None"
proof -
  let ?z = "\<lparr>cz_permissionGrantId = None, cz_resolvedRole = None, cz_visibility = NonOwner\<rparr>"
  obtain rc where rc: "parse_query diary_env note_query = Inr rc" "rc_author rc = Some (js ''did:b'')"
    "authorizeRecordsCollection 5 diary_env did note_node rc = Some (Inr ?z)" "assertValidSubtreeFilters (buildRecordsSnapshotFilters rc NonOwner) = Inr ()"
    using note_parsed by (auto split: sum.splits)
  have z: "cz_visibility ?z = NonOwner" by simp
  have u: "resolveRecordLimitOccupancy 5 (co_node diary_env) (co_modules diary_env) note_node did (qm_filter note_query) (qm_timestamp note_query) = Some (Inr None)"
    using note_unlimited by (auto split: option.splits sum.splits)
  have f: "rf_author (qm_filter note_query) = None" "rf_published (qm_filter note_query) = None" "rf_datePublished (qm_filter note_query) = None"
    "qm_dateSort note_query = Some PublishedAscending" "qm_pagination note_query = None" "rf_modulePath (qm_filter note_query) = Some (js ''p'')"
    by (simp_all add: note_query_def diary_query_def path_filter_def Let_def)
  have c: "\<not> isEncryptionControlPath (Some (js ''p''))" by code_simp
  have m: "matchFilter (se_tn (ne_store (co_node diary_env) did)) note_indexes
      (buildRecordsFilter (Some (js ''did:b'')) (qm_dateSort note_query) (qm_filter note_query) Snapshot (Some False) None)"
    by code_simp
  have d: "map_of note_indexes ''datePublished'' = None" by (simp add: note_indexes_def stored_indexes_def)
  from own_drafts_hide_published [OF rc(1,3) z rc(2) _ f(2,3) _ f(5,6) c u rc(4), of "(getCid live_cids (stored_write (day 1)), note_indexes)"] f(1,4) m d note_item
  show ?thesis by (simp add: names_allow_def)
qed

end
